(* ===== verification/Chat_Prelude.thy ===== *)
theory Chat_Prelude
  imports Main "HOL-Library.Sublist"
begin

text \<open>
  Shared vocabulary of the development: the types that stand for Go's machine types, the
  collections of facts the component theories feed to the simplifier, and generic lemmas on
  lists, options and sums.

  \<^item> Go's \<open>uint\<close>, \<open>uint64\<close> and \<open>int64\<close> row ids, sequence numbers and counters are \<open>nat\<close>
    or \<open>int\<close>: every one of them is allocated by counting up from one, so a wrap would take
    more than \<open>2 ^ 63\<close> rows. Where a width is observable (parsing a number from a request)
    it is written out.
  \<^item> An instant (\<open>time.Time\<close>) and a span (\<open>time.Duration\<close>) are \<open>int\<close>, in nanoseconds,
    the instant since the Unix epoch. The zero \<open>time.Time\<close> of Go is January 1 of year 1.
  \<^item> A Go \<open>string\<close> or \<open>[]byte\<close> is a HOL \<open>string\<close>, one \<open>char\<close> per byte.
\<close>

type_synonym time = int
type_synonym duration = int
type_synonym bytes = string

definition zero_time :: time where
  "zero_time = - 62135596800000000000"

abbreviation millisecond :: duration where "millisecond \<equiv> 1000000"
abbreviation second :: duration where "second \<equiv> 1000000000"
abbreviation minute :: duration where "minute \<equiv> 60000000000"
abbreviation hour :: duration where "hour \<equiv> 3600000000000"

text \<open>\<open>t.Unix()\<close>: whole seconds since the epoch, rounded towards minus infinity.\<close>

definition unix :: "time \<Rightarrow> int" where
  "unix t = t div second"

text \<open>\<open>d.Milliseconds()\<close> and \<open>int(d.Seconds())\<close> cut towards zero.\<close>

definition whole :: "duration \<Rightarrow> duration \<Rightarrow> int" where
  "whole unit d = (if d < 0 then - ((- d) div unit) else d div unit)"

lemma unix_mono: "s \<le> t \<Longrightarrow> unix s \<le> unix t"
  by (simp add: unix_def zdiv_mono1)

lemma unix_diff_seconds: "unix (t - k * second) = unix t - k"
proof -
  have "t - k * second = t + (- k) * second" by simp
  moreover have "(t + (- k) * second) div second = - k + t div second"
    by (rule div_mult_self1) simp
  ultimately show ?thesis by (simp add: unix_def)
qed

text \<open>
  How a request to another process can end: it is answered, it is refused before it took effect,
  or it took effect and the answer was lost.
\<close>

datatype fault = Works | Refused | ReplyLost

named_theorems frame "what an operation leaves alone"
named_theorems grows_rules "operations that never move a sequence back"
named_theorems reads_rules "operations that change no row"

section \<open>Lists\<close>

lemma filter_map_idem:
  assumes "\<And>x. x \<in> set xs \<Longrightarrow> P (f x) = P x"
  shows "filter P (map f xs) = map f (filter P xs)"
  using assms by (induction xs) auto

lemma map_id_on: "(\<And>x. x \<in> set xs \<Longrightarrow> f x = x) \<Longrightarrow> map f xs = xs"
  by (simp add: map_idI)

lemma distinct_map_inj: "distinct (map f xs) \<Longrightarrow> x \<in> set xs \<Longrightarrow> y \<in> set xs \<Longrightarrow>
    f x = f y \<Longrightarrow> x = y"
  by (auto simp: distinct_map dest: inj_onD)

lemma distinct_map_filter_one:
  assumes "distinct (map f xs)" and "x \<in> set xs"
  shows "filter (\<lambda>y. f y = f x) xs = [x]"
  using assms
proof (induction xs)
  case (Cons a xs)
  show ?case
  proof (cases "a = x")
    case True
    with Cons.prems(1) have "f x \<notin> f ` set xs" by simp
    then have "filter (\<lambda>y. f y = f x) xs = []"
      by (auto simp: filter_empty_conv image_iff)
    with True show ?thesis by simp
  next
    case False
    with Cons show ?thesis by auto
  qed
qed simp

lemma sorted_wrt_less_distinct: "sorted_wrt (<) (xs :: 'a :: linorder list) \<Longrightarrow> distinct xs"
  by (simp add: strict_sorted_iff)

lemma sorted_key_id: "sorted (map f xs) \<Longrightarrow> sort_key f xs = xs"
  by (simp add: sorted_sort_id sort_key_id_if_sorted)

lemma find_Some_set: "find P xs = Some x \<Longrightarrow> x \<in> set xs \<and> P x"
  by (auto simp: find_Some_iff)

lemma find_None_set: "find P xs = None \<longleftrightarrow> (\<forall>x \<in> set xs. \<not> P x)"
  by (auto simp: find_None_iff)

text \<open>A list of naturals that counts \<open>1, 2, \<dots>, n\<close>.\<close>

lemma upt_snoc: "[1..<Suc n] @ [Suc n] = [1..<Suc (Suc n)]"
  by simp

section \<open>Insertion without repetition\<close>

text \<open>
  Go's \<open>seen\<close>-map idiom: walk a list, keep the first copy of each element.
\<close>

fun keep_first :: "'a list \<Rightarrow> 'a list \<Rightarrow> 'a list" where
  "keep_first acc [] = acc"
| "keep_first acc (x # xs) =
     (if x \<in> set acc then keep_first acc xs else keep_first (acc @ [x]) xs)"

lemma keep_first_set [simp]: "set (keep_first acc xs) = set acc \<union> set xs"
  by (induction acc xs rule: keep_first.induct) auto

lemma keep_first_distinct [simp]: "distinct acc \<Longrightarrow> distinct (keep_first acc xs)"
  by (induction acc xs rule: keep_first.induct) auto

lemma keep_first_prefix: "prefix acc (keep_first acc xs)"
proof (induction acc xs rule: keep_first.induct)
  case (2 acc x xs)
  then show ?case by (auto elim: append_prefixD)
qed simp

lemma keep_first_hd: "acc \<noteq> [] \<Longrightarrow> hd (keep_first acc xs) = hd acc"
  using keep_first_prefix [of acc xs] by (auto simp: prefix_def)

end
