(* ===== verification/Go_Strings.thy ===== *)
theory Go_Strings
  imports Chat_Prelude "HOL-Library.Char_ord"
begin

text \<open>
  The parts of Go's standard library the program calls on strings: \<open>strconv\<close>'s decimal
  numbers, \<open>strings.Fields\<close>, \<open>EqualFold\<close>, \<open>Cut\<close>, \<open>TrimSpace\<close>, \<open>Split\<close>, \<open>ToLower\<close> and
  \<open>Contains\<close>, \<open>utf8.RuneCountInString\<close>, and \<open>encoding/hex\<close>. Letter case and white space
  are ASCII's: none of the strings the program compares this way holds a character
  that Unicode folds onto one of its letters.
\<close>

section \<open>Decimal numbers\<close>

definition digit_char :: "nat \<Rightarrow> char" where
  "digit_char d = char_of (48 + d)"

definition digit_val :: "char \<Rightarrow> nat option" where
  "digit_val c = (let k = of_char c :: nat in
     if 48 \<le> k \<and> k \<le> 57 then Some (k - 48) else None)"

lemma digit_val_char [simp]: "d < 10 \<Longrightarrow> digit_val (digit_char d) = Some d"
  by (simp add: digit_val_def digit_char_def Let_def)

lemma digit_val_less: "digit_val c = Some d \<Longrightarrow> d < 10"
  by (auto simp: digit_val_def Let_def split: if_splits)

lemma digit_char_val: "digit_val c = Some d \<Longrightarrow> digit_char d = c"
  by (auto simp: digit_val_def digit_char_def Let_def split: if_splits)

lemma digit_chars: "digit_char 0 = CHR ''0''" "digit_char 1 = CHR ''1''" "digit_char 2 = CHR ''2''"
  "digit_char 3 = CHR ''3''" "digit_char 4 = CHR ''4''" "digit_char 5 = CHR ''5''"
  "digit_char 6 = CHR ''6''" "digit_char 7 = CHR ''7''" "digit_char 8 = CHR ''8''"
  "digit_char 9 = CHR ''9''" "digit_char (Suc 0) = CHR ''1''"
  by code_simp+

text \<open>\<open>strconv.FormatUint(n, 10)\<close>.\<close>

fun format_uint :: "nat \<Rightarrow> string" where
  "format_uint n =
     (if n < 10 then [digit_char n] else format_uint (n div 10) @ [digit_char (n mod 10)])"

declare format_uint.simps [simp del]

text \<open>\<open>strconv.FormatInt(n, 10)\<close> and \<open>strconv.Itoa\<close>.\<close>

definition format_int :: "int \<Rightarrow> string" where
  "format_int i = (if i < 0 then CHR ''-'' # format_uint (nat (- i)) else format_uint (nat i))"

text \<open>The digits of a number, most significant first; \<open>None\<close> at any other character.\<close>

fun digits_val :: "nat \<Rightarrow> string \<Rightarrow> nat option" where
  "digits_val acc [] = Some acc"
| "digits_val acc (c # cs) =
     (case digit_val c of None \<Rightarrow> None | Some d \<Rightarrow> digits_val (10 * acc + d) cs)"

text \<open>\<open>strconv.ParseUint(s, 10, 64)\<close>: no sign, no blank, at most \<open>2 ^ 64 - 1\<close>.\<close>

definition parse_uint :: "string \<Rightarrow> nat option" where
  "parse_uint s =
     (if s = [] then None
      else case digits_val 0 s of
             None \<Rightarrow> None
           | Some n \<Rightarrow> if n < 2 ^ 64 then Some n else None)"

text \<open>\<open>strconv.Atoi\<close>: an optional sign, then digits, in the range of \<open>int64\<close>.\<close>

definition atoi :: "string \<Rightarrow> int option" where
  "atoi s =
     (let neg = (case s of c # _ \<Rightarrow> c = CHR ''-'' | [] \<Rightarrow> False);
          body = (case s of c # cs \<Rightarrow> if c = CHR ''-'' \<or> c = CHR ''+'' then cs else s | [] \<Rightarrow> [])
      in if body = [] then None
         else case digits_val 0 body of
                None \<Rightarrow> None
              | Some n \<Rightarrow>
                  if neg then (if n \<le> 2 ^ 63 then Some (- int n) else None)
                  else (if n < 2 ^ 63 then Some (int n) else None))"

lemma digits_val_append:
  "digits_val acc (xs @ ys) =
     (case digits_val acc xs of None \<Rightarrow> None | Some n \<Rightarrow> digits_val n ys)"
  by (induction xs arbitrary: acc) (auto split: option.splits)

lemma format_uint_nonempty [simp]: "format_uint n \<noteq> []"
  by (subst format_uint.simps) simp

lemma digits_val_format [simp]: "digits_val 0 (format_uint n) = Some n"
proof (induction n rule: format_uint.induct)
  case (1 n)
  show ?case
  proof (cases "n < 10")
    case True
    then show ?thesis by (subst format_uint.simps) simp
  next
    case False
    with 1 show ?thesis
      by (subst format_uint.simps) (simp add: digits_val_append)
  qed
qed

lemma parse_format_uint: "n < 2 ^ 64 \<Longrightarrow> parse_uint (format_uint n) = Some n"
  by (simp add: parse_uint_def)

lemma format_uint_digits: "c \<in> set (format_uint n) \<Longrightarrow> \<exists>d < 10. c = digit_char d"
proof (induction n rule: format_uint.induct)
  case (1 n)
  show ?case
  proof (cases "n < 10")
    case True
    with 1(2) show ?thesis by (subst (asm) format_uint.simps) auto
  next
    case False
    with 1(2) have "c \<in> set (format_uint (n div 10)) \<or> c = digit_char (n mod 10)"
      by (subst (asm) format_uint.simps) auto
    moreover have "n mod 10 < 10" by simp
    ultimately show ?thesis using 1(1) [OF False] by blast
  qed
qed

lemma digit_char_of: "d < 10 \<Longrightarrow> of_char (digit_char d) = (48 + d :: nat)"
  by (simp add: digit_char_def)

lemma format_uint_no_colon: "CHR '':'' \<notin> set (format_uint n)"
proof
  assume "CHR '':'' \<in> set (format_uint n)"
  then obtain d where d: "d < 10" "CHR '':'' = digit_char d"
    using format_uint_digits by blast
  then have "of_char (CHR '':'') = (48 + d :: nat)" by (simp add: digit_char_of)
  with d(1) show False by simp
qed

lemma parse_uint_bound: "parse_uint s = Some n \<Longrightarrow> n < 2 ^ 64"
  by (auto simp: parse_uint_def split: if_splits option.splits)

lemma format_uint_inj: "format_uint m = format_uint n \<Longrightarrow> m = n"
  using digits_val_format by (metis option.inject)

section \<open>Splitting, trimming, case\<close>

definition is_space :: "char \<Rightarrow> bool" where
  "is_space c \<longleftrightarrow> (let k = of_char c :: nat in k = 32 \<or> (9 \<le> k \<and> k \<le> 13))"

text \<open>\<open>strings.Fields\<close>: the maximal runs of characters that are not white space.\<close>

function fields :: "string \<Rightarrow> string list" where
  "fields s =
     (case dropWhile is_space s of
        [] \<Rightarrow> []
      | c # cs \<Rightarrow> takeWhile (\<lambda>c. \<not> is_space c) (c # cs)
                   # fields (dropWhile (\<lambda>c. \<not> is_space c) (c # cs)))"
  by pat_completeness auto
termination
proof (relation "measure length", simp)
  fix s c cs
  assume d: "dropWhile is_space s = c # cs"
  then have "\<not> is_space c" by (metis hd_dropWhile list.sel(1) list.distinct(1))
  then have "length (dropWhile (\<lambda>c. \<not> is_space c) (c # cs)) < length (c # cs)"
    by (simp add: le_imp_less_Suc length_dropWhile_le)
  moreover have "length (c # cs) \<le> length s"
    using d by (metis length_dropWhile_le)
  ultimately show "(dropWhile (\<lambda>c. \<not> is_space c) (c # cs), s) \<in> measure length"
    by simp
qed

declare fields.simps [simp del]

text \<open>\<open>strings.TrimSpace\<close>.\<close>

definition trim_space :: "string \<Rightarrow> string" where
  "trim_space s = rev (dropWhile is_space (rev (dropWhile is_space s)))"

definition lower_char :: "char \<Rightarrow> char" where
  "lower_char c = (let k = of_char c :: nat in if 65 \<le> k \<and> k \<le> 90 then char_of (k + 32) else c)"

text \<open>\<open>strings.ToLower\<close> and \<open>strings.EqualFold\<close> on ASCII.\<close>

definition to_lower :: "string \<Rightarrow> string" where
  "to_lower s = map lower_char s"

definition equal_fold :: "string \<Rightarrow> string \<Rightarrow> bool" where
  "equal_fold s t \<longleftrightarrow> to_lower s = to_lower t"

text \<open>\<open>strings.Cut(s, sep)\<close> for a one-character separator: before, after, found.\<close>

definition cut :: "char \<Rightarrow> string \<Rightarrow> string \<times> string \<times> bool" where
  "cut c s = (if c \<in> set s
      then (takeWhile (\<lambda>x. x \<noteq> c) s, tl (dropWhile (\<lambda>x. x \<noteq> c) s), True)
      else (s, [], False))"

lemma cut_append: "c \<notin> set xs \<Longrightarrow> cut c (xs @ c # ys) = (xs, ys, True)"
  by (simp add: cut_def takeWhile_append dropWhile_append)

text \<open>\<open>strings.Split(s, sep)\<close> for a one-character separator: never the empty list.\<close>

fun split_on :: "char \<Rightarrow> string \<Rightarrow> string list" where
  "split_on c [] = [[]]"
| "split_on c (x # xs) =
     (if x = c then [] # split_on c xs
      else case split_on c xs of [] \<Rightarrow> [[x]] | y # ys \<Rightarrow> (x # y) # ys)"

text \<open>\<open>strings.Contains\<close>.\<close>

fun contains :: "string \<Rightarrow> string \<Rightarrow> bool" where
  "contains [] pat = (pat = [])"
| "contains (x # xs) pat = (take (length pat) (x # xs) = pat \<or> contains xs pat)"

text \<open>
  \<open>utf8.RuneCountInString\<close> on well-formed UTF-8: the bytes that are not continuation bytes
  (\<open>0x80\<close> to \<open>0xBF\<close>). JSON decoding replaces malformed UTF-8, so request strings are
  well formed.
\<close>

definition rune_count :: "string \<Rightarrow> nat" where
  "rune_count s = length (filter (\<lambda>c. \<not> (128 \<le> (of_char c :: nat) \<and> of_char c < (192 :: nat))) s)"

lemma rune_count_le: "rune_count s \<le> length s"
  by (simp add: rune_count_def)

text \<open>\<open>hex.EncodeToString\<close>.\<close>

definition hex_char :: "nat \<Rightarrow> char" where
  "hex_char d = (if d < 10 then char_of (48 + d) else char_of (87 + d))"

definition hex_encode :: "bytes \<Rightarrow> string" where
  "hex_encode bs = concat (map (\<lambda>b. [hex_char (of_char b div 16), hex_char (of_char b mod 16)]) bs)"

lemma hex_encode_length: "length (hex_encode bs) = 2 * length bs"
  by (induction bs) (auto simp: hex_encode_def)

end
