(* ===== verification/Go_Time.thy ===== *)
theory Go_Time
  imports Go_Strings
begin

text \<open>
  \<open>time.Time\<close> as JSON: the RFC 3339 text \<open>encoding/json\<close> writes and reads for an instant.
  Instants are rendered in UTC, the zone of the containers the program runs in; an offset is
  accepted when reading, as the library does. The calendar is the proleptic Gregorian one,
  years 0 to 9999, the range \<open>Time.MarshalJSON\<close> accepts.
\<close>

section \<open>The calendar\<close>

definition leap :: "nat \<Rightarrow> bool" where
  "leap y \<longleftrightarrow> y mod 4 = 0 \<and> (y mod 100 \<noteq> 0 \<or> y mod 400 = 0)"

definition month_days :: "nat \<Rightarrow> nat \<Rightarrow> nat" where
  "month_days y m =
     (if m = 2 then (if leap y then 29 else 28)
      else if m = 4 \<or> m = 6 \<or> m = 9 \<or> m = 11 then 30 else 31)"

text \<open>Days from the start of year 0 to the start of year \<open>y\<close>.\<close>

definition year_start :: "nat \<Rightarrow> nat" where
  "year_start y = 365 * y + (y + 3) div 4 - (y + 99) div 100 + (y + 399) div 400"

text \<open>How many multiples of \<open>k\<close> there are below \<open>y\<close>, and how the count grows.\<close>

lemma multiples_Suc:
  fixes y k :: nat
  assumes "0 < k"
  shows "(Suc y + (k - 1)) div k = (y + (k - 1)) div k + (if y mod k = 0 then 1 else 0)"
proof -
  have up: "(Suc y + (k - 1)) div k = Suc (y div k)"
  proof -
    have "Suc y + (k - 1) = y + k" using assms by simp
    then show ?thesis using assms by (simp only: div_add_self2)
  qed
  have "(y + (k - 1)) div k = (y mod k + (k - 1) + y div k * k) div k"
    by (metis add.commute add.left_commute mod_div_mult_eq)
  also have "\<dots> = y div k + (y mod k + (k - 1)) div k"
    by (rule div_mult_self1) (use assms in simp)
  also have "(y mod k + (k - 1)) div k = (if y mod k = 0 then 0 else 1)"
  proof (cases "y mod k = 0")
    case True
    with assms show ?thesis by simp
  next
    case False
    then have "y mod k + (k - 1) = (y mod k - 1) + k" using assms by simp
    then have "(y mod k + (k - 1)) div k = (y mod k - 1) div k + 1"
      using assms by (simp only: div_add_self2)
    moreover have "y mod k - 1 < k" using assms by (simp add: less_imp_diff_less)
    ultimately show ?thesis using False by simp
  qed
  finally show ?thesis using up by simp
qed

lemma mult4: "(Suc y + 3) div 4 = (y + 3) div 4 + (if y mod 4 = 0 then 1 else 0)"
  using multiples_Suc [of 4 y] by (simp only: eval_nat_numeral diff_Suc_Suc diff_zero) simp

lemma mult100: "(Suc y + 99) div 100 = (y + 99) div 100 + (if y mod 100 = 0 then 1 else 0)"
  using multiples_Suc [of 100 y] by (simp del: add_Suc)

lemma mult400: "(Suc y + 399) div 400 = (y + 399) div 400 + (if y mod 400 = 0 then 1 else 0)"
  using multiples_Suc [of 400 y] by (simp del: add_Suc)

lemma mod_100_4: "(y :: nat) mod 100 = 0 \<Longrightarrow> y mod 4 = 0"
  using mod_mod_cancel [of 4 100 y] by simp

lemma mod_400_100: "(y :: nat) mod 400 = 0 \<Longrightarrow> y mod 100 = 0"
  using mod_mod_cancel [of 100 400 y] by simp

lemma centuries_le: "((y :: nat) + 99) div 100 \<le> (y + 3) div 4 \<and> (y + 399) div 400 \<le> (y + 99) div 100"
proof (induction y)
  case (Suc y)
  show ?case
    unfolding mult4 mult100 mult400
    using Suc mod_100_4 [of y] mod_400_100 [of y] by (simp split: if_split)
qed simp

lemma leap_step:
  fixes A B C y :: nat
  assumes "B \<le> A"
  shows "365 * Suc y + (A + (if p then 1 else 0)) - (B + (if p \<and> q then 1 else 0))
           + (C + (if p \<and> q \<and> r then 1 else 0))
         = 365 * y + A - B + C + (if p \<and> (\<not> q \<or> r) then 366 else 365)"
  using assms by (cases p; cases q; cases r) simp_all

lemma year_start_Suc: "year_start (Suc y) = year_start y + (if leap y then 366 else 365)"
proof -
  have "(y mod 100 = 0) = (y mod 4 = 0 \<and> y mod 100 = 0)"
    by (auto dest: mod_100_4)
  moreover have "(y mod 400 = 0) = (y mod 4 = 0 \<and> y mod 100 = 0 \<and> y mod 400 = 0)"
    by (auto dest: mod_100_4 mod_400_100)
  ultimately show ?thesis
    unfolding year_start_def leap_def mult4 mult100 mult400
    using leap_step [OF conjunct1 [OF centuries_le [of y]], where p = "y mod 4 = 0"
        and q = "y mod 100 = 0" and r = "y mod 400 = 0" and C = "(y + 399) div 400" and y = y]
    by presburger
qed

lemma year_start_0 [simp]: "year_start 0 = 0"
  by (simp add: year_start_def)

lemma year_start_ge: "y \<le> year_start y"
  by (induction y) (auto simp: year_start_Suc)

lemma year_start_le: "year_start y \<le> 366 * y"
  by (induction y) (auto simp: year_start_Suc)

lemma year_start_step: "year_start y < year_start (Suc y)"
  by (simp add: year_start_Suc)

lemma year_start_mono: "x \<le> y \<Longrightarrow> year_start x \<le> year_start y"
  using year_start_step by (rule lift_Suc_mono_le [OF less_imp_le])

function find_year :: "nat \<Rightarrow> nat \<Rightarrow> nat" where
  "find_year y d = (if d < year_start (Suc y) then y else find_year (Suc y) d)"
  by pat_completeness auto
termination
proof (relation "measure (\<lambda>(y, d). d - y)", simp)
  fix y d :: nat
  assume "\<not> d < year_start (Suc y)"
  with year_start_ge [of "Suc y"] have "Suc y \<le> d" by simp
  then show "((Suc y, d), (y, d)) \<in> measure (\<lambda>(y, d). d - y)" by simp
qed

declare find_year.simps [simp del]

lemma find_year_correct:
  "year_start y \<le> d \<Longrightarrow>
   year_start (find_year y d) \<le> d \<and> d < year_start (Suc (find_year y d))"
proof (induction y d rule: find_year.induct)
  case (1 y d)
  show ?case
  proof (cases "d < year_start (Suc y)")
    case True
    with 1(2) show ?thesis by (simp add: find_year.simps [of y d])
  next
    case False
    with 1(1) show ?thesis by (simp add: find_year.simps [of y d])
  qed
qed

text \<open>The month a day of the year falls in, counting months from the given one.\<close>

fun find_month :: "nat list \<Rightarrow> nat \<Rightarrow> nat \<Rightarrow> nat \<times> nat" where
  "find_month [] m r = (m, r)"
| "find_month (n # ns) m r = (if r < n then (m, r) else find_month ns (Suc m) (r - n))"

definition months :: "nat \<Rightarrow> nat list" where
  "months y = map (month_days y) [1..<12]"

definition civil :: "nat \<Rightarrow> nat \<times> nat \<times> nat" where
  "civil d =
     (let y = find_year (d div 366) d;
          (m, r) = find_month (months y) 1 (d - year_start y)
      in (y, m, r + 1))"

definition days_from_civil :: "nat \<Rightarrow> nat \<Rightarrow> nat \<Rightarrow> nat" where
  "days_from_civil y m dd = year_start y + sum_list (take (m - 1) (months y)) + (dd - 1)"

lemma find_month_sum:
  "find_month ns m r = (m', r') \<Longrightarrow>
   m \<le> m' \<and> m' \<le> m + length ns \<and> r = sum_list (take (m' - m) ns) + r'"
proof (induction ns arbitrary: m r)
  case (Cons n ns)
  show ?case
  proof (cases "r < n")
    case True
    with Cons.prems show ?thesis by simp
  next
    case False
    with Cons.prems have "find_month ns (Suc m) (r - n) = (m', r')" by simp
    then have IH: "Suc m \<le> m'" "m' \<le> Suc m + length ns"
      "r - n = sum_list (take (m' - Suc m) ns) + r'"
      using Cons.IH by blast+
    from IH(1) have "m' - m = Suc (m' - Suc m)" by linarith
    then have "sum_list (take (m' - m) (n # ns)) = n + sum_list (take (m' - Suc m) ns)"
      by (simp only: take_Suc_Cons sum_list.Cons)
    moreover have "length (n # ns) = Suc (length ns)" by simp
    ultimately show ?thesis using IH False by linarith
  qed
qed simp

lemma days_civil: "civil d = (y, m, dd) \<Longrightarrow> days_from_civil y m dd = d"
proof -
  assume c: "civil d = (y, m, dd)"
  let ?y = "find_year (d div 366) d"
  have "year_start (d div 366) \<le> 366 * (d div 366)" by (rule year_start_le)
  also have "\<dots> \<le> d" by simp
  finally have y: "year_start ?y \<le> d" using find_year_correct by blast
  obtain m' r where mr: "find_month (months ?y) 1 (d - year_start ?y) = (m', r)"
    by fastforce
  from find_month_sum [OF this]
  have "d - year_start ?y = sum_list (take (m' - 1) (months ?y)) + r" by simp
  moreover from c mr have "y = ?y" "m = m'" "dd = r + 1"
    by (simp_all add: civil_def Let_def)
  ultimately show ?thesis using y by (simp add: days_from_civil_def)
qed

lemma civil_month: "civil d = (y, m, dd) \<Longrightarrow> 1 \<le> m \<and> m \<le> 12"
proof -
  assume c: "civil d = (y, m, dd)"
  let ?y = "find_year (d div 366) d"
  obtain m' r where mr: "find_month (months ?y) 1 (d - year_start ?y) = (m', r)"
    by fastforce
  have "length (months ?y) = 11" by (simp add: months_def)
  with find_month_sum [OF mr] have "1 \<le> m' \<and> m' \<le> 12" by simp
  moreover from c mr have "m = m'" by (simp add: civil_def Let_def)
  ultimately show ?thesis by simp
qed

lemma find_month_rest:
  "find_month ns m r = (m', r') \<Longrightarrow> r < sum_list ns + l \<Longrightarrow>
   r' < (ns @ [l]) ! (m' - m)"
proof (induction ns arbitrary: m r)
  case (Cons n ns)
  show ?case
  proof (cases "r < n")
    case True
    with Cons.prems show ?thesis by simp
  next
    case False
    with Cons.prems have f: "find_month ns (Suc m) (r - n) = (m', r')" by simp
    moreover from False Cons.prems(2) have "r - n < sum_list ns + l" by simp
    ultimately have "r' < (ns @ [l]) ! (m' - Suc m)" using Cons.IH by blast
    moreover have "m' - m = Suc (m' - Suc m)" using find_month_sum [OF f] by linarith
    ultimately show ?thesis by simp
  qed
qed simp

section \<open>RFC 3339\<close>

definition pad2 :: "nat \<Rightarrow> string" where
  "pad2 n = [digit_char (n div 10), digit_char (n mod 10)]"

definition pad4 :: "nat \<Rightarrow> string" where
  "pad4 n = [digit_char (n div 1000), digit_char (n div 100 mod 10),
             digit_char (n div 10 mod 10), digit_char (n mod 10)]"

text \<open>The fraction of a second: nine digits with the trailing zeros dropped.\<close>

fun frac_digits :: "nat \<Rightarrow> nat \<Rightarrow> string" where
  "frac_digits 0 n = []"
| "frac_digits (Suc k) n =
     (if n = 0 then [] else digit_char (n div 10 ^ k) # frac_digits k (n mod 10 ^ k))"

definition frac_part :: "nat \<Rightarrow> string" where
  "frac_part n = (if n = 0 then [] else CHR ''.'' # frac_digits 9 n)"

definition epoch_days :: nat where
  "epoch_days = 719528"

text \<open>\<open>Time.MarshalJSON\<close>: an error outside the years 0 to 9999.\<close>

definition rfc3339 :: "time \<Rightarrow> string option" where
  "rfc3339 t =
     (let s = t div second; n = nat (t mod second);
          day = s div 86400 + int epoch_days; r = nat (s mod 86400)
      in if day < 0 \<or> day \<ge> int (year_start 10000) then None
         else case civil (nat day) of (y, m, dd) \<Rightarrow>
           Some (pad4 y @ CHR ''-'' # pad2 m @ CHR ''-'' # pad2 dd @ CHR ''T''
                 # pad2 (r div 3600) @ CHR '':'' # pad2 (r div 60 mod 60) @ CHR '':''
                 # pad2 (r mod 60) @ frac_part n @ ''Z''))"

fun parse_frac :: "nat \<Rightarrow> nat \<Rightarrow> string \<Rightarrow> nat \<times> string" where
  "parse_frac 0 acc s = (acc, dropWhile (\<lambda>c. digit_val c \<noteq> None) s)"
| "parse_frac (Suc k) acc [] = (acc * 10 ^ Suc k, [])"
| "parse_frac (Suc k) acc (c # cs) =
     (case digit_val c of
        None \<Rightarrow> (acc * 10 ^ Suc k, c # cs)
      | Some d \<Rightarrow> parse_frac k (10 * acc + d) cs)"

definition parse_fraction :: "string \<Rightarrow> (nat \<times> string) option" where
  "parse_fraction s =
     (case s of
        [] \<Rightarrow> Some (0, [])
      | c # cs \<Rightarrow>
          if c = CHR ''.''
          then (case cs of
                  [] \<Rightarrow> None
                | d # _ \<Rightarrow> if digit_val d = None then None else Some (parse_frac 9 0 cs))
          else Some (0, s))"

text \<open>The zone: \<open>Z\<close> or an offset in hours and minutes, in seconds east of UTC.\<close>

fun parse_zone :: "string \<Rightarrow> int option" where
  "parse_zone [z] = (if z = CHR ''Z'' then Some 0 else None)"
| "parse_zone [sg, a, b, col, c, d] =
     (case digits_val 0 [a, b] of None \<Rightarrow> None | Some h \<Rightarrow>
      case digits_val 0 [c, d] of None \<Rightarrow> None | Some m \<Rightarrow>
        if col = CHR '':'' \<and> h < 24 \<and> m < 60 \<and> (sg = CHR ''+'' \<or> sg = CHR ''-'')
        then Some ((if sg = CHR ''-'' then -1 else 1) * (int h * 3600 + int m * 60))
        else None)"
| "parse_zone _ = None"

definition parse_clock ::
    "nat \<Rightarrow> nat \<Rightarrow> nat \<Rightarrow> nat \<Rightarrow> nat \<Rightarrow> nat \<Rightarrow> string \<Rightarrow> time option" where
  "parse_clock y m dd hh mi ss rest =
     (if 1 \<le> m \<and> m \<le> 12 \<and> 1 \<le> dd \<and> dd \<le> month_days y m \<and> hh < 24 \<and> mi < 60 \<and> ss < 60
      then case parse_fraction rest of None \<Rightarrow> None | Some (n, zone) \<Rightarrow>
           (case parse_zone zone of None \<Rightarrow> None | Some off \<Rightarrow>
             Some ((((int (days_from_civil y m dd) - int epoch_days) * 86400
                     + int (hh * 3600 + mi * 60 + ss) - off) * second) + int n))
      else None)"

text \<open>\<open>Time.UnmarshalJSON\<close> on the text of a JSON string.\<close>

fun parse_rfc3339 :: "string \<Rightarrow> time option" where
  "parse_rfc3339 (y1 # y2 # y3 # y4 # s1 # m1 # m2 # s2 # d1 # d2 # t1 # h1 # h2 # c1 # i1 # i2
                  # c2 # x1 # x2 # rest) =
     (if s1 = CHR ''-'' \<and> s2 = CHR ''-'' \<and> t1 = CHR ''T'' \<and> c1 = CHR '':'' \<and> c2 = CHR '':''
      then case digits_val 0 [y1, y2, y3, y4] of None \<Rightarrow> None | Some y \<Rightarrow>
           case digits_val 0 [m1, m2] of None \<Rightarrow> None | Some m \<Rightarrow>
           case digits_val 0 [d1, d2] of None \<Rightarrow> None | Some dd \<Rightarrow>
           case digits_val 0 [h1, h2] of None \<Rightarrow> None | Some hh \<Rightarrow>
           case digits_val 0 [i1, i2] of None \<Rightarrow> None | Some mi \<Rightarrow>
           case digits_val 0 [x1, x2] of None \<Rightarrow> None | Some ss \<Rightarrow>
             parse_clock y m dd hh mi ss rest
      else None)"
| "parse_rfc3339 _ = None"

section \<open>Reading back what was written\<close>

lemma digit_val_Z: "digit_val (CHR ''Z'') = None"
  by (simp add: digit_val_def)

lemma pad2_val: "n < 100 \<Longrightarrow>
    digits_val 0 [digit_char (n div 10), digit_char (n mod 10)] = Some n"
proof -
  assume "n < 100"
  then have "n div 10 < 10" by simp
  then show ?thesis by simp
qed

lemma pad4_val: "n < 10000 \<Longrightarrow>
    digits_val 0 [digit_char (n div 1000), digit_char (n div 100 mod 10),
                  digit_char (n div 10 mod 10), digit_char (n mod 10)] = Some n"
proof -
  assume n: "n < 10000"
  then have d: "n div 1000 < 10" by simp
  have "n div 100 = n div 10 div 10" "n div 1000 = n div 10 div 10 div 10"
    by (simp_all add: div_mult2_eq [symmetric])
  then have "10 * (10 * (10 * (n div 1000) + n div 100 mod 10) + n div 10 mod 10) + n mod 10 = n"
    by (simp add: mult_div_mod_eq)
  with d show ?thesis by simp
qed

lemma parse_frac_digits:
  "n < 10 ^ k \<Longrightarrow> parse_frac k acc (frac_digits k n @ ''Z'') = (acc * 10 ^ k + n, ''Z'')"
proof (induction k arbitrary: acc n)
  case 0
  then show ?case by (simp add: digit_val_Z)
next
  case (Suc k)
  show ?case
  proof (cases "n = 0")
    case True
    then show ?thesis by (simp add: digit_val_Z)
  next
    case False
    have d: "n div 10 ^ k < 10"
      using Suc.prems by (simp add: less_mult_imp_div_less)
    have "parse_frac k (10 * acc + n div 10 ^ k) (frac_digits k (n mod 10 ^ k) @ ''Z'')
        = ((10 * acc + n div 10 ^ k) * 10 ^ k + n mod 10 ^ k, ''Z'')"
      by (rule Suc.IH) simp
    also have "(10 * acc + n div 10 ^ k) * 10 ^ k + n mod 10 ^ k = acc * 10 ^ Suc k + n"
      using div_mult_mod_eq [of n "10 ^ k"] by (simp add: algebra_simps)
    finally show ?thesis using False d by simp
  qed
qed

lemma parse_fraction_part:
  "n < 10 ^ 9 \<Longrightarrow> parse_fraction (frac_part n @ ''Z'') = Some (n, ''Z'')"
proof (cases "n = 0")
  case True
  then show ?thesis by (simp add: frac_part_def parse_fraction_def)
next
  case False
  assume n: "n < 10 ^ 9"
  let ?k = "8 :: nat"
  have k: "9 = Suc ?k" by simp
  have d: "n div 10 ^ ?k < 10" using n by simp
  have fd: "frac_digits 9 n = digit_char (n div 10 ^ ?k) # frac_digits ?k (n mod 10 ^ ?k)"
    using False unfolding k by (simp only: frac_digits.simps if_False)
  from parse_frac_digits [OF n, of 0] fd False d show ?thesis
    by (simp add: frac_part_def parse_fraction_def)
qed

lemma month_days_months: "1 \<le> m \<Longrightarrow> m \<le> 12 \<Longrightarrow>
    (months y @ [31]) ! (m - 1) = month_days y m"
proof -
  assume m: "1 \<le> m" "m \<le> 12"
  show ?thesis
  proof (cases "m = 12")
    case True
    have "(months y @ [31]) ! 11 = 31"
      by (simp add: months_def nth_append)
    with True show ?thesis by (simp add: month_days_def)
  next
    case False
    with m have "m - 1 < length [1..<12]" by simp
    with m show ?thesis by (simp add: months_def nth_append)
  qed
qed

lemma months_sum: "sum_list (months y) + 31 = year_start (Suc y) - year_start y"
proof -
  have s: "sum_list (months y) = 334 + (if leap y then 1 else 0)"
    by (simp add: months_def month_days_def upt_rec)
  then show ?thesis by (simp add: year_start_Suc)
qed

lemma months_ge: "1 \<le> m \<Longrightarrow> m \<le> 12 \<Longrightarrow> month_days y m \<le> 31"
  by (simp add: month_days_def)

text \<open>The fields of a date are in the ranges the reader checks.\<close>

lemma civil_ranges:
  assumes "civil d = (y, m, dd)"
  shows "1 \<le> m \<and> m \<le> 12 \<and> 1 \<le> dd \<and> dd \<le> month_days y m \<and> year_start y \<le> d"
proof -
  let ?y = "find_year (d div 366) d"
  have "year_start (d div 366) \<le> 366 * (d div 366)" by (rule year_start_le)
  also have "\<dots> \<le> d" by simp
  finally have y: "year_start ?y \<le> d" "d < year_start (Suc ?y)"
    using find_year_correct by blast+
  obtain m' r where mr: "find_month (months ?y) 1 (d - year_start ?y) = (m', r)"
    by fastforce
  from assms mr have eqs: "y = ?y" "m = m'" "dd = r + 1"
    by (simp_all add: civil_def Let_def)
  have "d - year_start ?y < sum_list (months ?y) + 31"
    using y months_sum [of ?y] by linarith
  from find_month_rest [OF mr this] have "r < (months ?y @ [31]) ! (m' - 1)" .
  with civil_month [OF assms] eqs month_days_months have "dd \<le> month_days y m"
    by simp
  with civil_month [OF assms] eqs y(1) show ?thesis by simp
qed

lemma rfc3339_shape:
  assumes "rfc3339 t = Some s"
  obtains y m dd r n where
    "civil (nat (t div second div 86400 + int epoch_days)) = (y, m, dd)"
    "0 \<le> t div second div 86400 + int epoch_days"
    "r = nat (t div second mod 86400)" "n = nat (t mod second)" "y < 10000"
    "s = pad4 y @ CHR ''-'' # pad2 m @ CHR ''-'' # pad2 dd @ CHR ''T''
         # pad2 (r div 3600) @ CHR '':'' # pad2 (r div 60 mod 60) @ CHR '':''
         # pad2 (r mod 60) @ frac_part n @ ''Z''"
proof -
  let ?day = "t div second div 86400 + int epoch_days"
  obtain y m dd where c: "civil (nat ?day) = (y, m, dd)" by (metis prod_cases3)
  from assms have day: "0 \<le> ?day" "?day < int (year_start 10000)"
    by (auto simp: rfc3339_def Let_def split: if_splits)
  have "year_start y < year_start 10000"
    using civil_ranges [OF c] day by linarith
  then have "y < 10000" using year_start_mono [of 10000 y] by linarith
  with c day assms show thesis
    by (intro that [OF c day(1) refl refl]) (auto simp: rfc3339_def Let_def split: if_splits)
qed

lemma parse_clock_civil:
  assumes "civil d = (y, m, dd)" and "r < 86400" and "n < 10 ^ 9"
  shows "parse_clock y m dd (r div 3600) (r div 60 mod 60) (r mod 60) (frac_part n @ ''Z'')
         = Some (((int d - int epoch_days) * 86400 + int r) * second + int n)"
proof -
  have "r div 3600 * 3600 + r div 60 mod 60 * 60 + r mod 60 = r"
  proof -
    have "r div 3600 = r div 60 div 60" by (simp add: div_mult2_eq [symmetric])
    then have "r div 3600 * 60 + r div 60 mod 60 = r div 60" by simp
    then have "(r div 3600 * 60 + r div 60 mod 60) * 60 + r mod 60 = r" by simp
    then show ?thesis by (simp add: algebra_simps)
  qed
  moreover have "r div 3600 < 24" using assms(2) by (simp add: less_mult_imp_div_less)
  moreover have "r div 60 mod 60 < 60" "r mod 60 < 60" by simp_all
  ultimately show ?thesis
    using civil_ranges [OF assms(1)] days_civil [OF assms(1)] parse_fraction_part [OF assms(3)]
    unfolding parse_clock_def by (simp only: if_True simp_thms option.case prod.case parse_zone.simps) simp
qed

theorem parse_rfc3339_round:
  assumes "rfc3339 t = Some s"
  shows "parse_rfc3339 s = Some t"
proof -
  from assms obtain y m dd r n where
    c: "civil (nat (t div second div 86400 + int epoch_days)) = (y, m, dd)"
      "0 \<le> t div second div 86400 + int epoch_days"
    and rn: "r = nat (t div second mod 86400)" "n = nat (t mod second)" and y: "y < 10000"
    and s: "s = pad4 y @ CHR ''-'' # pad2 m @ CHR ''-'' # pad2 dd @ CHR ''T''
         # pad2 (r div 3600) @ CHR '':'' # pad2 (r div 60 mod 60) @ CHR '':''
         # pad2 (r mod 60) @ frac_part n @ ''Z''"
    by (rule rfc3339_shape)
  have r: "r < 86400" and n: "n < 10 ^ 9"
    unfolding rn by (simp_all add: nat_less_iff)
  have small: "m < 100" "dd < 100" "r div 3600 < 100" "r div 60 mod 60 < 100" "r mod 60 < 100"
    using civil_ranges [OF c(1)] months_ge [of m y] r
    by (simp_all add: less_mult_imp_div_less order_less_trans [OF mod_less_divisor])
  have "parse_rfc3339 s
      = parse_clock y m dd (r div 3600) (r div 60 mod 60) (r mod 60) (frac_part n @ ''Z'')"
    unfolding s pad2_def pad4_def
    by (simp only: append.simps parse_rfc3339.simps pad2_val [OF small(1)] pad2_val [OF small(2)]
        pad2_val [OF small(3)] pad2_val [OF small(4)] pad2_val [OF small(5)] pad4_val [OF y]
        simp_thms if_True option.case)
  also have "\<dots> = Some (((t div second div 86400) * 86400 + int r) * second + int n)"
    using parse_clock_civil [OF c(1) r n] c(2) by simp
  also have "((t div second div 86400) * 86400 + int r) * second + int n = t"
    unfolding rn by (simp add: mult_div_mod_eq)
  finally show ?thesis .
qed

text \<open>The epoch, for the examples.\<close>

lemma civil_epoch: "civil 719528 = (1970, 1, 1)"
proof -
  have "find_year 1965 719528 = 1970" by (simp add: find_year.simps year_start_def)
  then show ?thesis
    by (simp add: civil_def year_start_def months_def upt_rec leap_def month_days_def)
qed

lemma rfc3339_epoch: "rfc3339 0 = Some ''1970-01-01T00:00:00Z''"
  by (simp add: rfc3339_def epoch_days_def civil_epoch pad2_def pad4_def frac_part_def digit_chars
      year_start_def)

end
