(* ===== verification/Event_Json.thy ===== *)
theory Event_Json
  imports Go_Time
begin

text \<open>
  \<open>internal/event\<close>: the event that travels through the outbox and the broker, and its JSON.

  A JSON document is its tree, as \<open>encoding/json\<close> sees it after the text is scanned; a number
  keeps its literal, because \<open>encoding/json\<close> reads an integer field by parsing the literal.
  The \<open>outbox.payload\<close> column is \<open>jsonb\<close>, which refuses text that is not JSON, so a stored
  payload is a tree. Strings are well-formed UTF-8, as JSON decoding leaves them.
\<close>

datatype json =
    JNull
  | JBool bool
  | JNum string
  | JStr string
  | JArr "json list"
  | JObj "(string \<times> json) list"

record message_created =
  mc_message_id :: nat
  mc_conversation_id :: nat
  mc_sender_id :: nat
  mc_sender_name :: string
  mc_seq :: nat
  mc_content :: string
  mc_client_msg_id :: "string option"
  mc_created_at :: time

definition topic_message_created :: string where
  "topic_message_created = ''message.created''"

section \<open>Encoding\<close>

definition jnum :: "nat \<Rightarrow> json" where
  "jnum n = JNum (format_uint n)"

text \<open>
  \<open>MessageCreated.Encode\<close>: the fields in the order of the struct, \<open>client_msg_id\<close> left out when
  the pointer is nil. The only failing field is an instant outside the years 0 to 9999.
\<close>

definition encode_event :: "message_created \<Rightarrow> json option" where
  "encode_event m =
     (case rfc3339 (mc_created_at m) of
        None \<Rightarrow> None
      | Some ts \<Rightarrow> Some (JObj
         ([(''message_id'', jnum (mc_message_id m)),
           (''conversation_id'', jnum (mc_conversation_id m)),
           (''sender_id'', jnum (mc_sender_id m)),
           (''sender_name'', JStr (mc_sender_name m)),
           (''seq'', jnum (mc_seq m)),
           (''content'', JStr (mc_content m))]
          @ (case mc_client_msg_id m of None \<Rightarrow> [] | Some c \<Rightarrow> [(''client_msg_id'', JStr c)])
          @ [(''created_at'', JStr ts)])))"

section \<open>Decoding\<close>

text \<open>
  How \<open>encoding/json\<close> stores one value in a field: \<open>null\<close> leaves the field alone (and empties
  a pointer), a value of another kind is an error.
\<close>

fun decode_uint :: "json \<Rightarrow> nat \<Rightarrow> nat option" where
  "decode_uint JNull old = Some old"
| "decode_uint (JNum lit) old = parse_uint lit"
| "decode_uint _ old = None"

fun decode_str :: "json \<Rightarrow> string \<Rightarrow> string option" where
  "decode_str JNull old = Some old"
| "decode_str (JStr s) old = Some s"
| "decode_str _ old = None"

fun decode_str_ptr :: "json \<Rightarrow> string option option" where
  "decode_str_ptr JNull = Some None"
| "decode_str_ptr (JStr s) = Some (Some s)"
| "decode_str_ptr _ = None"

fun decode_time :: "json \<Rightarrow> time \<Rightarrow> time option" where
  "decode_time JNull old = Some old"
| "decode_time (JStr s) old = parse_rfc3339 s"
| "decode_time _ old = None"

text \<open>A key names the field it equals up to letter case; an unknown key is skipped.\<close>

definition set_field :: "message_created \<Rightarrow> string \<times> json \<Rightarrow> message_created option" where
  "set_field m kv = (case kv of (k, v) \<Rightarrow>
     if equal_fold k ''message_id'' then
       map_option (\<lambda>n. m\<lparr>mc_message_id := n\<rparr>) (decode_uint v (mc_message_id m))
     else if equal_fold k ''conversation_id'' then
       map_option (\<lambda>n. m\<lparr>mc_conversation_id := n\<rparr>) (decode_uint v (mc_conversation_id m))
     else if equal_fold k ''sender_id'' then
       map_option (\<lambda>n. m\<lparr>mc_sender_id := n\<rparr>) (decode_uint v (mc_sender_id m))
     else if equal_fold k ''sender_name'' then
       map_option (\<lambda>s. m\<lparr>mc_sender_name := s\<rparr>) (decode_str v (mc_sender_name m))
     else if equal_fold k ''seq'' then
       map_option (\<lambda>n. m\<lparr>mc_seq := n\<rparr>) (decode_uint v (mc_seq m))
     else if equal_fold k ''content'' then
       map_option (\<lambda>s. m\<lparr>mc_content := s\<rparr>) (decode_str v (mc_content m))
     else if equal_fold k ''client_msg_id'' then
       map_option (\<lambda>p. m\<lparr>mc_client_msg_id := p\<rparr>) (decode_str_ptr v)
     else if equal_fold k ''created_at'' then
       map_option (\<lambda>t. m\<lparr>mc_created_at := t\<rparr>) (decode_time v (mc_created_at m))
     else Some m)"

fun set_fields :: "message_created \<Rightarrow> (string \<times> json) list \<Rightarrow> message_created option" where
  "set_fields m [] = Some m"
| "set_fields m (kv # kvs) =
     (case set_field m kv of None \<Rightarrow> None | Some m' \<Rightarrow> set_fields m' kvs)"

definition zero_event :: message_created where
  "zero_event = \<lparr>mc_message_id = 0, mc_conversation_id = 0, mc_sender_id = 0, mc_sender_name = [],
     mc_seq = 0, mc_content = [], mc_client_msg_id = None, mc_created_at = zero_time\<rparr>"

fun unmarshal_event :: "json \<Rightarrow> message_created option" where
  "unmarshal_event (JObj kvs) = set_fields zero_event kvs"
| "unmarshal_event JNull = Some zero_event"
| "unmarshal_event _ = None"

text \<open>
  \<open>DecodeMessageCreated\<close>. The error carries the words the function puts in front of the
  library's own.
\<close>

definition decode_event :: "json \<Rightarrow> string + message_created" where
  "decode_event j =
     (case unmarshal_event j of
        None \<Rightarrow> Inl ''decode message event: ''
      | Some m \<Rightarrow> Inr m)"

section \<open>The round trip\<close>

definition event_in_range :: "message_created \<Rightarrow> bool" where
  "event_in_range m \<longleftrightarrow> mc_message_id m < 2 ^ 64 \<and> mc_conversation_id m < 2 ^ 64
     \<and> mc_sender_id m < 2 ^ 64 \<and> mc_seq m < 2 ^ 64"

lemma decode_jnum [simp]: "n < 2 ^ 64 \<Longrightarrow> decode_uint (jnum n) old = Some n"
  by (simp add: jnum_def parse_format_uint)

lemma set_fields_append:
  "set_fields m (xs @ ys) =
     (case set_fields m xs of None \<Rightarrow> None | Some m' \<Rightarrow> set_fields m' ys)"
  by (induction xs arbitrary: m) (auto split: option.splits)

lemma set_field_names:
  "set_field m (''message_id'', v) = map_option (\<lambda>n. m\<lparr>mc_message_id := n\<rparr>) (decode_uint v (mc_message_id m))"
  "set_field m (''conversation_id'', v) =
     map_option (\<lambda>n. m\<lparr>mc_conversation_id := n\<rparr>) (decode_uint v (mc_conversation_id m))"
  "set_field m (''sender_id'', v) = map_option (\<lambda>n. m\<lparr>mc_sender_id := n\<rparr>) (decode_uint v (mc_sender_id m))"
  "set_field m (''sender_name'', v) = map_option (\<lambda>s. m\<lparr>mc_sender_name := s\<rparr>) (decode_str v (mc_sender_name m))"
  "set_field m (''seq'', v) = map_option (\<lambda>n. m\<lparr>mc_seq := n\<rparr>) (decode_uint v (mc_seq m))"
  "set_field m (''content'', v) = map_option (\<lambda>s. m\<lparr>mc_content := s\<rparr>) (decode_str v (mc_content m))"
  "set_field m (''client_msg_id'', v) = map_option (\<lambda>p. m\<lparr>mc_client_msg_id := p\<rparr>) (decode_str_ptr v)"
  "set_field m (''created_at'', v) = map_option (\<lambda>t. m\<lparr>mc_created_at := t\<rparr>) (decode_time v (mc_created_at m))"
  by (simp_all add: set_field_def equal_fold_def to_lower_def lower_char_def)

lemma decode_encode:
  assumes "event_in_range m" and "encode_event m = Some j"
  shows "decode_event j = Inr m"
proof -
  from assms(2) obtain ts where ts: "rfc3339 (mc_created_at m) = Some ts"
    and j: "j = JObj
         ([(''message_id'', jnum (mc_message_id m)),
           (''conversation_id'', jnum (mc_conversation_id m)),
           (''sender_id'', jnum (mc_sender_id m)),
           (''sender_name'', JStr (mc_sender_name m)),
           (''seq'', jnum (mc_seq m)),
           (''content'', JStr (mc_content m))]
          @ (case mc_client_msg_id m of None \<Rightarrow> [] | Some c \<Rightarrow> [(''client_msg_id'', JStr c)])
          @ [(''created_at'', JStr ts)])"
    by (auto simp: encode_event_def split: option.splits)
  have t: "parse_rfc3339 ts = Some (mc_created_at m)" using ts by (rule parse_rfc3339_round)
  show ?thesis
    using assms(1) t unfolding j decode_event_def
    by (cases "mc_client_msg_id m")
      (simp_all add: set_field_names event_in_range_def zero_event_def)
qed

end
