(* ===== verification/Db_Tables.thy ===== *)
theory Db_Tables
  imports Event_Json
begin

text \<open>
  The rows of \<open>internal/database/models.go\<close>, the tables that hold them, and what a statement
  and a transaction of Postgres do to them.

  \<^item> A table is the list of its rows in insertion order, with the next value of its id
    sequence. A sequence is never rolled back: a failed insert uses a number up.
  \<^item> The constraints are those of \<open>internal/database/migrations\<close>: the unique indexes, the
    foreign keys, the \<open>varchar\<close> lengths.
  \<^item> A statement can be lost. The record carries a script of faults, one entry per statement:
    the statement works, it is refused before it runs (no connection, a deadline), or it runs
    and its reply is lost. An empty script is a database that always works.
  \<^item> A transaction runs its body between \<open>BEGIN\<close> and \<open>COMMIT\<close>; an error rolls the tables back.
    Transactions are serialised: the row lock the program's first statement takes on the room
    makes any two sends in one room run one after the other.
\<close>

section \<open>Rows\<close>

record user =
  u_id :: nat
  u_created_at :: time
  u_updated_at :: time
  u_deleted_at :: "time option"
  u_username :: string
  u_password_hash :: string

record refresh_token =
  rt_id :: nat
  rt_user_id :: nat
  rt_token_hash :: bytes
  rt_expires_at :: time
  rt_created_at :: time
  rt_revoked_at :: "time option"

record conversation =
  c_id :: nat
  c_created_at :: time
  c_updated_at :: time
  c_deleted_at :: "time option"
  c_title :: string
  c_created_by_id :: nat
  c_last_seq :: nat

record conversation_member =
  cm_id :: nat
  cm_conversation_id :: nat
  cm_user_id :: nat
  cm_created_at :: time

record message =
  m_id :: nat
  m_created_at :: time
  m_updated_at :: time
  m_deleted_at :: "time option"
  m_conversation_id :: nat
  m_sender_id :: nat
  m_client_msg_id :: "string option"
  m_seq :: nat
  m_content :: string

record outbox_row =
  o_id :: nat
  o_topic :: string
  o_payload :: json
  o_trace_context :: "string option"
  o_created_at :: time
  o_published_at :: "time option"
  o_attempts :: nat
  o_last_error :: "string option"

record consumed_message =
  k_consumer :: string
  k_message_id :: nat
  k_consumed_at :: time

record unread_counter =
  n_conversation_id :: nat
  n_user_id :: nat
  n_unread_count :: nat
  n_last_seq :: nat
  n_updated_at :: time

section \<open>The database\<close>

record tables =
  users :: "user list"
  conversations :: "conversation list"
  members :: "conversation_member list"
  messages :: "message list"
  outbox :: "outbox_row list"
  consumed :: "consumed_message list"
  unread :: "unread_counter list"
  tokens :: "refresh_token list"

record sequences =
  next_user :: nat
  next_conversation :: nat
  next_member :: nat
  next_message :: nat
  next_outbox :: nat
  next_token :: nat

record db =
  tbl :: tables
  seqs :: sequences
  faults :: "fault list"

definition empty_tables :: tables where
  "empty_tables = \<lparr>users = [], conversations = [], members = [], messages = [], outbox = [],
     consumed = [], unread = [], tokens = []\<rparr>"

definition fresh_db :: db where
  "fresh_db = \<lparr>tbl = empty_tables,
     seqs = \<lparr>next_user = 1, next_conversation = 1, next_member = 1, next_message = 1,
       next_outbox = 1, next_token = 1\<rparr>, faults = []\<rparr>"

text \<open>What a driver reports, after GORM translated the constraint errors.\<close>

datatype pg_error = DuplicatedKey | ForeignKeyViolated | ValueTooLong | RecordNotFound | Unavailable

text \<open>The errors of \<open>internal/database\<close>: its sentinels, and \<open>fmt.Errorf("ctx: %w", err)\<close>.\<close>

datatype db_error =
    ErrUserExists
  | ErrUserNotFound
  | ErrConversationNotFound
  | ErrAlreadyMember
  | ErrRefreshTokenNotFound
  | ErrEncode
  | Raw pg_error
  | Wrap string db_error

text \<open>\<open>errors.Is(err, target)\<close> walks the chain of wrapped errors.\<close>

fun errors_is :: "db_error \<Rightarrow> db_error \<Rightarrow> bool" where
  "errors_is (Wrap s e) t = (Wrap s e = t \<or> errors_is e t)"
| "errors_is e t = (e = t)"

type_synonym 'a stmt = "db \<Rightarrow> (pg_error + 'a) \<times> db"
type_synonym 'a op = "db \<Rightarrow> (db_error + 'a) \<times> db"

definition stmt :: "'a stmt \<Rightarrow> 'a stmt" where
  "stmt f d =
     (case faults d of
        [] \<Rightarrow> f d
      | Works # fs \<Rightarrow> f (d\<lparr>faults := fs\<rparr>)
      | Refused # fs \<Rightarrow> (Inl Unavailable, d\<lparr>faults := fs\<rparr>)
      | ReplyLost # fs \<Rightarrow> (Inl Unavailable, snd (f (d\<lparr>faults := fs\<rparr>))))"

text \<open>A read: it changes nothing but the fault script.\<close>

definition query :: "(tables \<Rightarrow> pg_error + 'a) \<Rightarrow> 'a stmt" where
  "query q = stmt (\<lambda>d. (q (tbl d), d))"

definition select :: "(tables \<Rightarrow> 'a) \<Rightarrow> 'a stmt" where
  "select q = query (\<lambda>t. Inr (q t))"

text \<open>
  \<open>db.Transaction(fn)\<close>. A \<open>COMMIT\<close> whose reply is lost reports an error although the rows are
  there; one that is refused leaves nothing.
\<close>

definition rollback :: "db \<Rightarrow> db \<Rightarrow> db" where
  "rollback before now = now\<lparr>tbl := tbl before\<rparr>"

definition transaction :: "'a op \<Rightarrow> 'a op" where
  "transaction body d =
     (case stmt (\<lambda>d. (Inr (), d)) d of
        (Inl e, d1) \<Rightarrow> (Inl (Raw e), d1)
      | (Inr _, d1) \<Rightarrow>
          (case body d1 of
             (Inl e, d2) \<Rightarrow> (Inl e, rollback d1 d2)
           | (Inr x, d2) \<Rightarrow>
               (case faults d2 of
                  [] \<Rightarrow> (Inr x, d2)
                | Works # fs \<Rightarrow> (Inr x, d2\<lparr>faults := fs\<rparr>)
                | Refused # fs \<Rightarrow> (Inl (Raw Unavailable), rollback d1 (d2\<lparr>faults := fs\<rparr>))
                | ReplyLost # fs \<Rightarrow> (Inl (Raw Unavailable), d2\<lparr>faults := fs\<rparr>))))"

section \<open>Composition\<close>

text \<open>\<open>if err != nil { return ..., wrap(err) }\<close>: the rest runs on success only.\<close>

definition on_ok :: "(pg_error \<Rightarrow> db_error) \<Rightarrow> 'a stmt \<Rightarrow> ('a \<Rightarrow> 'b op) \<Rightarrow> 'b op" where
  "on_ok w f g d =
     (case f d of
        (Inl e, d') \<Rightarrow> (Inl (w e), d')
      | (Inr x, d') \<Rightarrow> g x d')"

definition return :: "'a \<Rightarrow> 'a op" where
  "return x d = (Inr x, d)"

definition fail :: "db_error \<Rightarrow> 'a op" where
  "fail e d = (Inl e, d)"

definition wrapped :: "string \<Rightarrow> pg_error \<Rightarrow> db_error" where
  "wrapped s e = Wrap s (Raw e)"

text \<open>\<open>ORDER BY key LIMIT n\<close>, and GORM's \<open>First\<close>: the least primary key, or not found.\<close>

definition first_by :: "('a \<Rightarrow> nat) \<Rightarrow> ('a \<Rightarrow> bool) \<Rightarrow> 'a list \<Rightarrow> pg_error + 'a" where
  "first_by key P rows =
     (case sort_key key (filter P rows) of [] \<Rightarrow> Inl RecordNotFound | r # _ \<Rightarrow> Inr r)"

section \<open>How statements and transactions behave\<close>

lemma stmt_no_faults [simp]: "faults d = [] \<Longrightarrow> stmt f d = f d"
  by (simp add: stmt_def)

text \<open>The faults still to come are a suffix of those there were.\<close>

lemma query_tbl [frame]: "query q d = (r, d') \<Longrightarrow> tbl d' = tbl d \<and> seqs d' = seqs d"
  by (auto simp: query_def stmt_def split: list.splits fault.splits)

lemma query_Inr: "query q d = (Inr x, d') \<Longrightarrow> q (tbl d) = Inr x"
  by (auto simp: query_def stmt_def split: list.splits fault.splits)

lemma query_Inl: "query q d = (Inl e, d') \<Longrightarrow> e = Unavailable \<or> q (tbl d) = Inl e"
  by (auto simp: query_def stmt_def split: list.splits fault.splits)

lemma select_tbl [frame]: "select q d = (r, d') \<Longrightarrow> tbl d' = tbl d \<and> seqs d' = seqs d"
  unfolding select_def by (rule query_tbl)

lemma select_Inr: "select q d = (Inr x, d') \<Longrightarrow> x = q (tbl d)"
  unfolding select_def by (drule query_Inr) simp

lemma select_ok [simp]: "faults d = [] \<Longrightarrow> select q d = (Inr (q (tbl d)), d)"
  by (simp add: select_def query_def)

lemma query_ok [simp]: "faults d = [] \<Longrightarrow> query q d = (q (tbl d), d)"
  by (simp add: query_def)

text \<open>A transaction either leaves the tables alone or does what its body does.\<close>

lemma transaction_cases:
  assumes "transaction body d = (r, d')"
  obtains (no_begin) e where "r = Inl (Raw e)" "tbl d' = tbl d" "seqs d' = seqs d"
  | (aborted) d1 d2 e where "tbl d1 = tbl d" "seqs d1 = seqs d" "body d1 = (Inl e, d2)"
      "r = Inl e" "tbl d' = tbl d" "seqs d' = seqs d2"
  | (refused) d1 d2 x where "tbl d1 = tbl d" "seqs d1 = seqs d" "body d1 = (Inr x, d2)"
      "r = Inl (Raw Unavailable)" "tbl d' = tbl d" "seqs d' = seqs d2"
  | (committed) d1 d2 x where "tbl d1 = tbl d" "seqs d1 = seqs d" "body d1 = (Inr x, d2)"
      "r = Inr x \<or> r = Inl (Raw Unavailable)" "tbl d' = tbl d2" "seqs d' = seqs d2"
proof -
  let ?open = "stmt (\<lambda>d. (Inr (), d) :: (pg_error + unit) \<times> db) d"
  obtain b d1 where b: "?open = (b, d1)" by fastforce
  then have d1: "tbl d1 = tbl d" "seqs d1 = seqs d"
    by (auto simp: stmt_def split: list.splits fault.splits)
  show thesis
  proof (cases b)
    case (Inl e)
    with assms b d1 show thesis by (intro no_begin) (auto simp: transaction_def)
  next
    case (Inr u)
    obtain s d2 where s: "body d1 = (s, d2)" by fastforce
    show thesis
    proof (cases s)
      case (Inl e)
      with assms b Inr s d1 show thesis
        by (intro aborted [OF d1, of e d2]) (auto simp: transaction_def rollback_def)
    next
      case (Inr x)
      from assms b \<open>b = Inr u\<close> s Inr have t:
        "(case faults d2 of
            [] \<Rightarrow> (Inr x, d2)
          | Works # fs \<Rightarrow> (Inr x, d2\<lparr>faults := fs\<rparr>)
          | Refused # fs \<Rightarrow> (Inl (Raw Unavailable), rollback d1 (d2\<lparr>faults := fs\<rparr>))
          | ReplyLost # fs \<Rightarrow> (Inl (Raw Unavailable), d2\<lparr>faults := fs\<rparr>)) = (r, d')"
        by (simp add: transaction_def)
      show thesis
      proof (cases "\<exists>fs. faults d2 = Refused # fs")
        case True
        with t s Inr d1 show thesis
          by (intro refused [OF d1, of x d2]) (auto simp: rollback_def)
      next
        case False
        with t s Inr show thesis
          by (intro committed [OF d1, of x d2]) (auto split: list.splits fault.splits)
      qed
    qed
  qed
qed

lemma transaction_ok:
  assumes "faults d = []"
  shows "transaction body d =
     (case body d of
        (Inl e, d2) \<Rightarrow> (Inl e, rollback d d2)
      | (Inr x, d2) \<Rightarrow>
          (case faults d2 of
             [] \<Rightarrow> (Inr x, d2)
           | Works # fs \<Rightarrow> (Inr x, d2\<lparr>faults := fs\<rparr>)
           | Refused # fs \<Rightarrow> (Inl (Raw Unavailable), rollback d (d2\<lparr>faults := fs\<rparr>))
           | ReplyLost # fs \<Rightarrow> (Inl (Raw Unavailable), d2\<lparr>faults := fs\<rparr>)))"
  using assms by (simp add: transaction_def)

lemma first_by_Inr: "first_by key P rows = Inr r \<Longrightarrow> r \<in> set rows \<and> P r"
proof -
  assume "first_by key P rows = Inr r"
  then obtain rs where "sort_key key (filter P rows) = r # rs"
    by (auto simp: first_by_def split: list.splits)
  then have "r \<in> set (sort_key key (filter P rows))"
    by (metis list.set_intros(1))
  then show ?thesis by simp
qed

lemma first_by_none: "first_by key P rows = Inl e \<longleftrightarrow> e = RecordNotFound \<and> (\<forall>r \<in> set rows. \<not> P r)"
proof -
  have "sort_key key (filter P rows) = [] \<longleftrightarrow> (\<forall>r \<in> set rows. \<not> P r)"
    by (metis filter_empty_conv set_empty set_sort)
  then show ?thesis
    by (auto simp: first_by_def split: list.splits)
qed

lemma first_by_unique:
  assumes "r \<in> set rows" "P r" "\<And>s. s \<in> set rows \<Longrightarrow> P s \<Longrightarrow> s = r"
  shows "first_by key P rows = Inr r"
proof (cases "first_by key P rows")
  case (Inl e)
  with assms(1,2) show ?thesis by (simp add: first_by_none)
next
  case (Inr s)
  with first_by_Inr [OF Inr] assms(3) show ?thesis by simp
qed

end
