(* ===== verification/Db_Accounts.thy ===== *)
theory Db_Accounts
  imports Db_Tables
begin

text \<open>
  Accounts and login sessions: \<open>CreateUser\<close>, \<open>GetUserByUsername\<close> and \<open>GetUserByID\<close> of
  \<open>internal/database/database.go\<close>, and \<open>internal/database/refresh_tokens.go\<close>. Every operation
  takes the instant its clock shows. Each has a lemma that says what it can do to the tables,
  under any script of faults.
\<close>

section \<open>Statements\<close>

definition username_taken :: "tables \<Rightarrow> string \<Rightarrow> bool" where
  "username_taken t name \<longleftrightarrow> name \<in> u_username ` set (users t)"

definition user_row :: "time \<Rightarrow> nat \<Rightarrow> string \<Rightarrow> string \<Rightarrow> user" where
  "user_row now i name hash = \<lparr>u_id = i, u_created_at = now, u_updated_at = now,
     u_deleted_at = None, u_username = name, u_password_hash = hash\<rparr>"

definition insert_user :: "time \<Rightarrow> string \<Rightarrow> string \<Rightarrow> user stmt" where
  "insert_user now name hash = stmt (\<lambda>d.
     let row = user_row now (next_user (seqs d)) name hash;
         d1 = d\<lparr>seqs := (seqs d)\<lparr>next_user := next_user (seqs d) + 1\<rparr>\<rparr>
     in if 64 < rune_count name then (Inl ValueTooLong, d1)
        else if username_taken (tbl d) name then (Inl DuplicatedKey, d1)
        else (Inr row, d1\<lparr>tbl := (tbl d)\<lparr>users := users (tbl d) @ [row]\<rparr>\<rparr>))"

definition token_row :: "time \<Rightarrow> nat \<Rightarrow> nat \<Rightarrow> bytes \<Rightarrow> time \<Rightarrow> refresh_token" where
  "token_row now i uid hash expires = \<lparr>rt_id = i, rt_user_id = uid, rt_token_hash = hash,
     rt_expires_at = expires, rt_created_at = now, rt_revoked_at = None\<rparr>"

definition insert_token :: "time \<Rightarrow> nat \<Rightarrow> bytes \<Rightarrow> time \<Rightarrow> refresh_token stmt" where
  "insert_token now uid hash expires = stmt (\<lambda>d.
     let row = token_row now (next_token (seqs d)) uid hash expires;
         d1 = d\<lparr>seqs := (seqs d)\<lparr>next_token := next_token (seqs d) + 1\<rparr>\<rparr>
     in if hash \<in> rt_token_hash ` set (tokens (tbl d)) then (Inl DuplicatedKey, d1)
        else if uid \<notin> u_id ` set (users (tbl d)) then (Inl ForeignKeyViolated, d1)
        else (Inr row, d1\<lparr>tbl := (tbl d)\<lparr>tokens := tokens (tbl d) @ [row]\<rparr>\<rparr>))"

text \<open>A statement that rewrites rows and reports nothing the program reads.\<close>

definition exec :: "(tables \<Rightarrow> tables) \<Rightarrow> unit stmt" where
  "exec f = stmt (\<lambda>d. (Inr (), d\<lparr>tbl := f (tbl d)\<rparr>))"

text \<open>GORM's soft delete: every query on users sees only the rows that are not deleted.\<close>

definition live_users :: "tables \<Rightarrow> user list" where
  "live_users t = filter (\<lambda>u. u_deleted_at u = None) (users t)"

text \<open>The zero \<open>User\<close>, which an association keeps when its row is not loaded.\<close>

definition zero_user :: user where
  "zero_user = \<lparr>u_id = 0, u_created_at = zero_time, u_updated_at = zero_time,
     u_deleted_at = None, u_username = [], u_password_hash = []\<rparr>"

definition user_or_zero :: "user list \<Rightarrow> nat \<Rightarrow> user" where
  "user_or_zero us i = (case find (\<lambda>u. u_id u = i) us of None \<Rightarrow> zero_user | Some u \<Rightarrow> u)"

text \<open>\<open>Preload\<close> of a user: \<open>SELECT * FROM users WHERE id IN (...)\<close>, not sent for no ids.\<close>

definition preload_users :: "nat list \<Rightarrow> user list stmt" where
  "preload_users ids =
     (if ids = [] then (\<lambda>d. (Inr [], d))
      else select (\<lambda>t. filter (\<lambda>u. u_id u \<in> set ids) (live_users t)))"

section \<open>Users\<close>

definition create_user :: "time \<Rightarrow> string \<Rightarrow> string \<Rightarrow> user op" where
  "create_user now name hash =
     on_ok (\<lambda>e. if e = DuplicatedKey then ErrUserExists else wrapped ''insert user'' e)
       (insert_user now name hash) return"

definition get_user_by_username :: "string \<Rightarrow> user op" where
  "get_user_by_username name =
     on_ok (\<lambda>e. if e = RecordNotFound then ErrUserNotFound else wrapped ''select user'' e)
       (query (\<lambda>t. first_by u_id (\<lambda>u. u_username u = name) (live_users t))) return"

definition get_user_by_id :: "nat \<Rightarrow> user op" where
  "get_user_by_id i =
     on_ok (\<lambda>e. if e = RecordNotFound then ErrUserNotFound else wrapped ''select user'' e)
       (query (\<lambda>t. first_by u_id (\<lambda>u. u_id u = i) (live_users t))) return"

section \<open>Sessions\<close>

definition create_refresh_token :: "time \<Rightarrow> nat \<Rightarrow> bytes \<Rightarrow> time \<Rightarrow> refresh_token op" where
  "create_refresh_token now uid hash expires =
     on_ok (wrapped ''insert refresh token'') (insert_token now uid hash expires) return"

definition live_token :: "time \<Rightarrow> bytes \<Rightarrow> refresh_token \<Rightarrow> bool" where
  "live_token now hash r \<longleftrightarrow>
     rt_token_hash r = hash \<and> rt_revoked_at r = None \<and> now < rt_expires_at r"

definition get_valid_refresh_token :: "time \<Rightarrow> bytes \<Rightarrow> (refresh_token \<times> user) op" where
  "get_valid_refresh_token now hash =
     on_ok (\<lambda>e. if e = RecordNotFound then ErrRefreshTokenNotFound
                else wrapped ''select refresh token'' e)
       (query (\<lambda>t. first_by rt_id (live_token now hash) (tokens t)))
       (\<lambda>r. on_ok (wrapped ''select refresh token'') (preload_users [rt_user_id r])
         (\<lambda>us. return (r, user_or_zero us (rt_user_id r))))"

definition revoke_row :: "time \<Rightarrow> bytes \<Rightarrow> refresh_token \<Rightarrow> refresh_token" where
  "revoke_row now hash r =
     (if rt_token_hash r = hash \<and> rt_revoked_at r = None then r\<lparr>rt_revoked_at := Some now\<rparr> else r)"

definition revoke_refresh_token :: "time \<Rightarrow> bytes \<Rightarrow> unit op" where
  "revoke_refresh_token now hash =
     on_ok (wrapped ''revoke refresh token'')
       (exec (\<lambda>t. t\<lparr>tokens := map (revoke_row now hash) (tokens t)\<rparr>)) return"

definition dead_token :: "time \<Rightarrow> nat \<Rightarrow> refresh_token \<Rightarrow> bool" where
  "dead_token now uid r \<longleftrightarrow>
     rt_user_id r = uid \<and> (rt_expires_at r \<le> now \<or> rt_revoked_at r \<noteq> None)"

definition purge_expired_refresh_tokens :: "time \<Rightarrow> nat \<Rightarrow> unit op" where
  "purge_expired_refresh_tokens now uid =
     on_ok (wrapped ''purge refresh tokens'')
       (exec (\<lambda>t. t\<lparr>tokens := filter (\<lambda>r. \<not> dead_token now uid r) (tokens t)\<rparr>)) return"

section \<open>What they do\<close>

text \<open>Sequences only grow.\<close>

definition seq_le :: "sequences \<Rightarrow> sequences \<Rightarrow> bool" where
  "seq_le s s' \<longleftrightarrow> next_user s \<le> next_user s' \<and> next_conversation s \<le> next_conversation s'
     \<and> next_member s \<le> next_member s' \<and> next_message s \<le> next_message s'
     \<and> next_outbox s \<le> next_outbox s' \<and> next_token s \<le> next_token s'"

lemma seq_le_refl [simp]: "seq_le s s"
  by (simp add: seq_le_def)

lemma seq_le_trans: "seq_le s s' \<Longrightarrow> seq_le s' s'' \<Longrightarrow> seq_le s s''"
  by (auto simp: seq_le_def)

lemma on_ok_cases:
  assumes "on_ok w f g d = (r, d')"
  obtains (err) e where "f d = (Inl e, d')" "r = Inl (w e)"
  | (ok) x d1 where "f d = (Inr x, d1)" "g x d1 = (r, d')"
  using assms by (cases "f d"; cases "fst (f d)") (auto simp: on_ok_def)

text \<open>A statement that answers ran; one that reports an error either ran or did not.\<close>

lemma stmt_cases:
  assumes "stmt f d = (r, d')"
  obtains (ran) fs r1 where "f (d\<lparr>faults := fs\<rparr>) = (r1, d')" "r = r1 \<or> r = Inl Unavailable"
  | (lost) fs where "d' = d\<lparr>faults := fs\<rparr>" "r = Inl Unavailable"
proof (cases "faults d")
  case Nil
  then have "d\<lparr>faults := []\<rparr> = d" by (cases d) simp
  with Nil assms have "f (d\<lparr>faults := []\<rparr>) = (r, d')" by (simp only: stmt_no_faults)
  then show thesis by (rule ran) simp
next
  case (Cons a fs)
  show thesis
  proof (cases a)
    case Works
    with assms Cons show thesis by (intro ran [of fs r]) (auto simp: stmt_def)
  next
    case Refused
    with assms Cons show thesis by (intro lost [of fs]) (auto simp: stmt_def)
  next
    case ReplyLost
    with assms Cons show thesis
      by (intro ran [of fs "fst (f (d\<lparr>faults := fs\<rparr>))"]) (auto simp: stmt_def)
  qed
qed

lemma exec_cases:
  assumes "exec f d = (r, d')"
  shows "seqs d' = seqs d \<and> (tbl d' = f (tbl d) \<or> tbl d' = tbl d \<and> r = Inl Unavailable)"
  using assms unfolding exec_def by (cases rule: stmt_cases) auto

lemma exec_Inr: "exec f d = (Inr x, d') \<Longrightarrow> tbl d' = f (tbl d)"
  using exec_cases by fastforce

lemma exec_ok [simp]: "faults d = [] \<Longrightarrow> exec f d = (Inr (), d\<lparr>tbl := f (tbl d)\<rparr>)"
  by (simp add: exec_def)

lemma preload_users_frame [frame]:
  "preload_users ids d = (r, d') \<Longrightarrow> tbl d' = tbl d \<and> seqs d' = seqs d"
  by (auto simp: preload_users_def dest: select_tbl split: if_splits)

lemma preload_users_ok [simp]:
  "faults d = [] \<Longrightarrow>
   preload_users ids d = (Inr (filter (\<lambda>u. u_id u \<in> set ids) (live_users (tbl d))), d)"
  by (simp add: preload_users_def)

lemma user_or_zero_found:
  assumes "distinct (map u_id us)" "u \<in> set us"
  shows "user_or_zero us (u_id u) = u"
proof -
  have "find (\<lambda>v. u_id v = u_id u) us = Some u"
    using assms
  proof (induction us)
    case (Cons a us)
    then show ?case by (auto simp: image_iff)
  qed simp
  then show ?thesis by (simp add: user_or_zero_def)
qed

text \<open>
  Two closure properties, one rule per construct: an operation whose parts never move a sequence
  back never does, and an operation made of reads changes no row.
\<close>

definition grows :: "(db \<Rightarrow> 'a \<times> db) \<Rightarrow> bool" where
  "grows f \<longleftrightarrow> (\<forall>d. seq_le (seqs d) (seqs (snd (f d))))"

definition reads :: "(db \<Rightarrow> 'a \<times> db) \<Rightarrow> bool" where
  "reads f \<longleftrightarrow> (\<forall>d. tbl (snd (f d)) = tbl d)"

lemma growsD: "grows f \<Longrightarrow> f d = (r, d') \<Longrightarrow> seq_le (seqs d) (seqs d')"
  unfolding grows_def by (metis snd_conv)

lemma readsD: "reads f \<Longrightarrow> f d = (r, d') \<Longrightarrow> tbl d' = tbl d"
  unfolding reads_def by (metis snd_conv)

lemma growsI: "(\<And>d r d'. f d = (r, d') \<Longrightarrow> seq_le (seqs d) (seqs d')) \<Longrightarrow> grows f"
  unfolding grows_def by (metis prod.collapse)

lemma readsI: "(\<And>d r d'. f d = (r, d') \<Longrightarrow> tbl d' = tbl d) \<Longrightarrow> reads f"
  unfolding reads_def by (metis prod.collapse)

lemma grows_on_ok [grows_rules]: "grows f \<Longrightarrow> (\<And>x. grows (g x)) \<Longrightarrow> grows (on_ok w f g)"
  by (rule growsI) (auto elim!: on_ok_cases dest: growsD intro: seq_le_trans)

lemma reads_on_ok [reads_rules]: "reads f \<Longrightarrow> (\<And>x. reads (g x)) \<Longrightarrow> reads (on_ok w f g)"
  by (rule readsI, erule on_ok_cases) (metis readsD)+

lemma grows_simple [grows_rules]: "grows (fail e)" "grows (return x)"
  by (simp_all add: grows_def fail_def return_def)

lemma reads_simple [reads_rules]: "reads (fail e)" "reads (return x)"
  by (simp_all add: reads_def fail_def return_def)

lemma grows_if [grows_rules]: "grows f \<Longrightarrow> grows g \<Longrightarrow> grows (if b then f else g)"
  by simp

lemma reads_if [reads_rules]: "reads f \<Longrightarrow> reads g \<Longrightarrow> reads (if b then f else g)"
  by simp

lemma grows_option [grows_rules]:
  "grows f \<Longrightarrow> (\<And>x. grows (g x)) \<Longrightarrow> grows (case p of None \<Rightarrow> f | Some x \<Rightarrow> g x)"
  by (cases p) simp_all

lemma grows_stmt: "grows f \<Longrightarrow> grows (stmt f)"
  by (rule growsI, erule stmt_cases) (auto dest: growsD)

lemma grows_query [grows_rules]: "grows (query q)"
  by (rule growsI) (auto dest: query_tbl)

lemma reads_query [reads_rules]: "reads (query q)"
  by (rule readsI) (auto dest: query_tbl)

lemma grows_select [grows_rules]: "grows (select q)"
  unfolding select_def by (rule grows_query)

lemma reads_select [reads_rules]: "reads (select q)"
  unfolding select_def by (rule reads_query)

lemma grows_preload [grows_rules]: "grows (preload_users ids)"
  by (rule growsI) (auto dest: preload_users_frame)

lemma reads_preload [reads_rules]: "reads (preload_users ids)"
  by (rule readsI) (auto dest: preload_users_frame)

lemma grows_exec [grows_rules]: "grows (exec f)"
  by (rule growsI) (auto dest: exec_cases)

lemma grows_transaction [grows_rules]: "grows f \<Longrightarrow> grows (transaction f)"
  by (rule growsI, erule transaction_cases) (auto dest: growsD)

lemma create_user_effect:
  assumes "create_user now name hash d = (r, d')"
  shows "seq_le (seqs d) (seqs d') \<and>
    (tbl d' = tbl d \<and> (\<forall>u. r \<noteq> Inr u)
     \<or> (\<exists>u. (r = Inr u \<or> r = Inl (Wrap ''insert user'' (Raw Unavailable)))
          \<and> u = user_row now (next_user (seqs d)) name hash
          \<and> next_user (seqs d) < next_user (seqs d')
          \<and> rune_count name \<le> 64 \<and> \<not> username_taken (tbl d) name
          \<and> tbl d' = (tbl d)\<lparr>users := users (tbl d) @ [u]\<rparr>))"
proof -
  from assms obtain r0 where s: "insert_user now name hash d = (r0, d')"
    and r: "r = (case r0 of Inl e \<Rightarrow> Inl (if e = DuplicatedKey then ErrUserExists
                   else wrapped ''insert user'' e) | Inr u \<Rightarrow> Inr u)"
    unfolding create_user_def by (auto simp: return_def elim!: on_ok_cases)
  from s show ?thesis unfolding insert_user_def
  proof (cases rule: stmt_cases)
    case (ran fs r1)
    then show ?thesis using r
      by (auto simp: Let_def seq_le_def wrapped_def split: if_splits)
  next
    case (lost fs)
    then show ?thesis using r by auto
  qed
qed

lemma create_token_effect:
  assumes "create_refresh_token now uid hash expires d = (r, d')"
  shows "seq_le (seqs d) (seqs d') \<and>
    (tbl d' = tbl d \<and> (\<forall>k. r \<noteq> Inr k)
     \<or> (\<exists>k. (r = Inr k \<or> r = Inl (Wrap ''insert refresh token'' (Raw Unavailable)))
          \<and> k = token_row now (next_token (seqs d)) uid hash expires
          \<and> next_token (seqs d) < next_token (seqs d')
          \<and> uid \<in> u_id ` set (users (tbl d)) \<and> hash \<notin> rt_token_hash ` set (tokens (tbl d))
          \<and> tbl d' = (tbl d)\<lparr>tokens := tokens (tbl d) @ [k]\<rparr>))"
proof -
  from assms obtain r0 where s: "insert_token now uid hash expires d = (r0, d')"
    and r: "r = (case r0 of Inl e \<Rightarrow> Inl (wrapped ''insert refresh token'' e) | Inr u \<Rightarrow> Inr u)"
    unfolding create_refresh_token_def by (auto simp: return_def elim!: on_ok_cases)
  from s show ?thesis unfolding insert_token_def
  proof (cases rule: stmt_cases)
    case (ran fs r1)
    then show ?thesis using r
      by (auto simp: Let_def seq_le_def wrapped_def split: if_splits)
  next
    case (lost fs)
    then show ?thesis using r by auto
  qed
qed

lemma account_reads [reads_rules]:
  "reads (get_user_by_username name)" "reads (get_user_by_id i)"
  "reads (get_valid_refresh_token now hash)"
  unfolding get_user_by_username_def get_user_by_id_def get_valid_refresh_token_def
  by (auto intro!: reads_rules)

lemma account_grows [grows_rules]:
  "grows (get_user_by_username name)" "grows (get_user_by_id i)"
  "grows (get_valid_refresh_token now hash)"
  "grows (revoke_refresh_token now hash)" "grows (purge_expired_refresh_tokens now uid)"
  unfolding get_user_by_username_def get_user_by_id_def get_valid_refresh_token_def
    revoke_refresh_token_def purge_expired_refresh_tokens_def
  by (auto intro!: grows_rules)

lemma get_valid_refresh_token_found:
  assumes "get_valid_refresh_token now hash d = (Inr (k, u), d')"
  shows "k \<in> set (tokens (tbl d)) \<and> live_token now hash k"
proof -
  from assms obtain d1 where "query (\<lambda>t. first_by rt_id (live_token now hash) (tokens t)) d = (Inr k, d1)"
    unfolding get_valid_refresh_token_def
    by (elim on_ok_cases) (auto simp: return_def)
  from first_by_Inr [OF query_Inr [OF this]] show ?thesis by simp
qed

lemma revoke_effect:
  assumes "revoke_refresh_token now hash d = (r, d')"
  shows "seqs d' = seqs d \<and> (tbl d' = tbl d \<and> r \<noteq> Inr () \<or>
     tbl d' = (tbl d)\<lparr>tokens := map (revoke_row now hash) (tokens (tbl d))\<rparr>)"
  using assms unfolding revoke_refresh_token_def
  by (cases rule: on_ok_cases) (auto simp: return_def dest!: exec_cases)

lemma purge_effect:
  assumes "purge_expired_refresh_tokens now uid d = (r, d')"
  shows "seqs d' = seqs d \<and> (tbl d' = tbl d \<and> r \<noteq> Inr () \<or>
     tbl d' = (tbl d)\<lparr>tokens := filter (\<lambda>k. \<not> dead_token now uid k) (tokens (tbl d))\<rparr>)"
  using assms unfolding purge_expired_refresh_tokens_def
  by (cases rule: on_ok_cases) (auto simp: return_def dest!: exec_cases)

text \<open>A revoked session is never handed out again, whatever the clock shows.\<close>

lemma revoked_not_live:
  assumes "revoke_refresh_token now hash d = (Inr (), d1)" and "tbl d2 = tbl d1"
  shows "get_valid_refresh_token later hash d2 \<noteq> (Inr (k, u), d3)"
proof
  assume "get_valid_refresh_token later hash d2 = (Inr (k, u), d3)"
  from get_valid_refresh_token_found [OF this] assms(2)
  have k: "k \<in> set (tokens (tbl d1))" "rt_token_hash k = hash" "rt_revoked_at k = None"
    by (auto simp: live_token_def)
  from revoke_effect [OF assms(1)]
  have "tokens (tbl d1) = map (revoke_row now hash) (tokens (tbl d))"
    by auto
  with k(1) obtain k0 where "k = revoke_row now hash k0"
    by auto
  with k(2,3) show False
    by (cases "rt_token_hash k0 = hash \<and> rt_revoked_at k0 = None") (auto simp: revoke_row_def)
qed

end
