(* ===== verification/Db_Rooms.thy ===== *)
theory Db_Rooms
  imports Db_Accounts
begin

text \<open>
  Rooms, members and messages: \<open>internal/database/conversations.go\<close>.

  \<open>create_message\<close> is the transaction of the source, statement by statement: the
  \<open>UPDATE ... RETURNING last_seq\<close> that takes the next number of the room, the insert of the
  message, the event and the insert of the outbox row; then the three error branches after it.
\<close>

section \<open>Statements\<close>

definition insert_conversation :: "time \<Rightarrow> string \<Rightarrow> nat \<Rightarrow> conversation stmt" where
  "insert_conversation now title creator = stmt (\<lambda>d.
     let row = \<lparr>c_id = next_conversation (seqs d), c_created_at = now, c_updated_at = now,
           c_deleted_at = None, c_title = title, c_created_by_id = creator, c_last_seq = 0\<rparr>;
         d1 = d\<lparr>seqs := (seqs d)\<lparr>next_conversation := next_conversation (seqs d) + 1\<rparr>\<rparr>
     in if 200 < rune_count title then (Inl ValueTooLong, d1)
        else (Inr row, d1\<lparr>tbl := (tbl d)\<lparr>conversations := conversations (tbl d) @ [row]\<rparr>\<rparr>))"

definition member_row :: "time \<Rightarrow> nat \<Rightarrow> nat \<Rightarrow> nat \<Rightarrow> conversation_member" where
  "member_row now i conv uid =
     \<lparr>cm_id = i, cm_conversation_id = conv, cm_user_id = uid, cm_created_at = now\<rparr>"

definition has_member :: "tables \<Rightarrow> nat \<Rightarrow> nat \<Rightarrow> bool" where
  "has_member t conv uid \<longleftrightarrow>
     list_ex (\<lambda>m. cm_conversation_id m = conv \<and> cm_user_id m = uid) (members t)"

definition put_member :: "time \<Rightarrow> nat \<Rightarrow> nat \<Rightarrow> conversation_member stmt" where
  "put_member now conv uid d =
     (let row = member_row now (next_member (seqs d)) conv uid;
          d1 = d\<lparr>seqs := (seqs d)\<lparr>next_member := next_member (seqs d) + 1\<rparr>\<rparr>
      in if has_member (tbl d) conv uid then (Inl DuplicatedKey, d1)
         else if conv \<notin> c_id ` set (conversations (tbl d)) \<or> uid \<notin> u_id ` set (users (tbl d))
           then (Inl ForeignKeyViolated, d1)
         else (Inr row, d1\<lparr>tbl := (tbl d)\<lparr>members := members (tbl d) @ [row]\<rparr>\<rparr>))"

text \<open>One \<open>INSERT\<close> of several rows: a row that is refused fails the statement.\<close>

fun put_members :: "time \<Rightarrow> nat \<Rightarrow> nat list \<Rightarrow> unit stmt" where
  "put_members now conv [] d = (Inr (), d)"
| "put_members now conv (u # us) d =
     (case put_member now conv u d of
        (Inl e, d1) \<Rightarrow> (Inl e, rollback d d1)
      | (Inr _, d1) \<Rightarrow>
          (case put_members now conv us d1 of
             (Inl e, d2) \<Rightarrow> (Inl e, rollback d d2)
           | (Inr x, d2) \<Rightarrow> (Inr x, d2)))"

definition insert_members :: "time \<Rightarrow> nat \<Rightarrow> nat list \<Rightarrow> unit stmt" where
  "insert_members now conv us = stmt (put_members now conv us)"

definition bump_seq :: "nat \<Rightarrow> conversation \<Rightarrow> conversation" where
  "bump_seq conv c =
     (if c_id c = conv \<and> c_deleted_at c = None then c\<lparr>c_last_seq := c_last_seq c + 1\<rparr> else c)"

text \<open>\<open>Scan(&seq)\<close> leaves the zero value when no row came back.\<close>

definition allocate_seq :: "nat \<Rightarrow> nat stmt" where
  "allocate_seq conv = stmt (\<lambda>d.
     (Inr (case find (\<lambda>c. c_id c = conv \<and> c_deleted_at c = None) (conversations (tbl d)) of
             None \<Rightarrow> 0 | Some c \<Rightarrow> c_last_seq c + 1),
      d\<lparr>tbl := (tbl d)\<lparr>conversations := map (bump_seq conv) (conversations (tbl d))\<rparr>\<rparr>))"

definition message_row ::
  "time \<Rightarrow> nat \<Rightarrow> nat \<Rightarrow> nat \<Rightarrow> string option \<Rightarrow> nat \<Rightarrow> string \<Rightarrow> message" where
  "message_row now i conv sender cid n content =
     \<lparr>m_id = i, m_created_at = now, m_updated_at = now, m_deleted_at = None,
      m_conversation_id = conv, m_sender_id = sender, m_client_msg_id = cid, m_seq = n,
      m_content = content\<rparr>"

text \<open>The unique index on the sender's key: SQL \<open>NULL\<close>s never collide.\<close>

definition key_used :: "tables \<Rightarrow> nat \<Rightarrow> nat \<Rightarrow> string option \<Rightarrow> bool" where
  "key_used t conv sender cid \<longleftrightarrow> cid \<noteq> None \<and>
     list_ex (\<lambda>m. m_conversation_id m = conv \<and> m_sender_id m = sender \<and> m_client_msg_id m = cid)
       (messages t)"

definition seq_used :: "tables \<Rightarrow> nat \<Rightarrow> nat \<Rightarrow> bool" where
  "seq_used t conv n \<longleftrightarrow> list_ex (\<lambda>m. m_conversation_id m = conv \<and> m_seq m = n) (messages t)"

definition insert_message ::
  "time \<Rightarrow> nat \<Rightarrow> nat \<Rightarrow> string option \<Rightarrow> nat \<Rightarrow> string \<Rightarrow> message stmt" where
  "insert_message now conv sender cid n content = stmt (\<lambda>d.
     let row = message_row now (next_message (seqs d)) conv sender cid n content;
         d1 = d\<lparr>seqs := (seqs d)\<lparr>next_message := next_message (seqs d) + 1\<rparr>\<rparr>
     in if (case cid of None \<Rightarrow> False | Some k \<Rightarrow> 64 < rune_count k) then (Inl ValueTooLong, d1)
        else if key_used (tbl d) conv sender cid \<or> seq_used (tbl d) conv n
          then (Inl DuplicatedKey, d1)
        else if conv \<notin> c_id ` set (conversations (tbl d)) \<or> sender \<notin> u_id ` set (users (tbl d))
          then (Inl ForeignKeyViolated, d1)
        else (Inr row, d1\<lparr>tbl := (tbl d)\<lparr>messages := messages (tbl d) @ [row]\<rparr>\<rparr>))"

definition waiting_row :: "time \<Rightarrow> nat \<Rightarrow> string \<Rightarrow> json \<Rightarrow> string option \<Rightarrow> outbox_row" where
  "waiting_row now i topic payload trace =
     \<lparr>o_id = i, o_topic = topic, o_payload = payload, o_trace_context = trace,
      o_created_at = now, o_published_at = None, o_attempts = 0, o_last_error = None\<rparr>"

definition insert_outbox :: "time \<Rightarrow> string \<Rightarrow> json \<Rightarrow> string option \<Rightarrow> outbox_row stmt" where
  "insert_outbox now topic payload trace = stmt (\<lambda>d.
     let row = waiting_row now (next_outbox (seqs d)) topic payload trace
     in (Inr row, d\<lparr>seqs := (seqs d)\<lparr>next_outbox := next_outbox (seqs d) + 1\<rparr>,
                    tbl := (tbl d)\<lparr>outbox := outbox (tbl d) @ [row]\<rparr>\<rparr>))"

section \<open>Rooms\<close>

definition json_or_nil :: "bytes \<Rightarrow> string option" where
  "json_or_nil b = (if b = [] then None else Some b)"

type_synonym room = "conversation \<times> (conversation_member \<times> user) list"

definition live_conversations :: "tables \<Rightarrow> conversation list" where
  "live_conversations t = filter (\<lambda>c. c_deleted_at c = None) (conversations t)"

text \<open>\<open>Preload("Members.User")\<close>: the members of all the rooms, then the users of all of them.\<close>

definition with_members :: "conversation list \<Rightarrow> conversation_member list \<Rightarrow> user list \<Rightarrow> room list" where
  "with_members cs ms us =
     map (\<lambda>c. (c, map (\<lambda>m. (m, user_or_zero us (cm_user_id m)))
                    (filter (\<lambda>m. cm_conversation_id m = c_id c) ms))) cs"

definition preload_members :: "(pg_error \<Rightarrow> db_error) \<Rightarrow> conversation list \<Rightarrow> room list op" where
  "preload_members w cs =
     (if cs = [] then return []
      else on_ok w (select (\<lambda>t. filter (\<lambda>m. cm_conversation_id m \<in> c_id ` set cs) (members t)))
        (\<lambda>ms. on_ok w (preload_users (map cm_user_id ms))
          (\<lambda>us. return (with_members cs ms us))))"

definition count_users :: "nat list \<Rightarrow> nat stmt" where
  "count_users ids = select (\<lambda>t. length (filter (\<lambda>u. u_id u \<in> set ids) (live_users t)))"

definition build_room :: "time \<Rightarrow> string \<Rightarrow> nat \<Rightarrow> nat list \<Rightarrow> conversation op" where
  "build_room now title creator ids =
     on_ok (wrapped ''count members'') (count_users ids)
       (\<lambda>found. if found \<noteq> length ids then fail ErrUserNotFound
         else on_ok (wrapped ''insert conversation'') (insert_conversation now title creator)
           (\<lambda>conv. on_ok (wrapped ''insert members'') (insert_members now (c_id conv) ids)
             (\<lambda>_. return conv)))"

definition reload_room :: "nat \<Rightarrow> room op" where
  "reload_room i =
     on_ok (wrapped ''reload conversation'')
       (query (\<lambda>t. first_by c_id (\<lambda>c. c_id c = i) (live_conversations t)))
       (\<lambda>conv d. case preload_members (wrapped ''reload conversation'') [conv] d of
          (Inl e, d1) \<Rightarrow> (Inl e, d1)
        | (Inr rooms, d1) \<Rightarrow> (Inr (hd rooms), d1))"

definition create_conversation :: "time \<Rightarrow> string \<Rightarrow> nat \<Rightarrow> nat list \<Rightarrow> room op" where
  "create_conversation now title creator member_ids d =
     (let ids = keep_first [creator] member_ids
      in case transaction (build_room now title creator ids) d of
           (Inl e, d1) \<Rightarrow> (Inl e, d1)
         | (Inr conv, d1) \<Rightarrow> reload_room (c_id conv) d1)"

definition list_conversations_for_user :: "nat \<Rightarrow> room list op" where
  "list_conversations_for_user uid =
     on_ok (wrapped ''select conversations'')
       (select (\<lambda>t. rev (sort_key c_id
          (map fst (filter (\<lambda>(c, m). cm_conversation_id m = c_id c \<and> cm_user_id m = uid)
             (List.product (live_conversations t) (members t)))))))
       (preload_members (wrapped ''select conversations''))"

section \<open>Members\<close>

definition count_membership :: "nat \<Rightarrow> nat \<Rightarrow> nat stmt" where
  "count_membership conv uid = select (\<lambda>t. length
     (filter (\<lambda>(m, c). c_id c = cm_conversation_id m \<and> c_deleted_at c = None
         \<and> cm_conversation_id m = conv \<and> cm_user_id m = uid)
       (List.product (members t) (conversations t))))"

definition ensure_member :: "nat \<Rightarrow> nat \<Rightarrow> unit op" where
  "ensure_member conv uid =
     on_ok (wrapped ''count membership'') (count_membership conv uid)
       (\<lambda>count. if count = 0 then fail ErrConversationNotFound else return ())"

definition add_member :: "time \<Rightarrow> nat \<Rightarrow> nat \<Rightarrow> (conversation_member \<times> user) op" where
  "add_member now conv uid =
     on_ok (\<lambda>e. if e = DuplicatedKey then ErrAlreadyMember else wrapped ''insert member'' e)
       (stmt (put_member now conv uid))
       (\<lambda>row. on_ok (wrapped ''reload member'')
          (query (\<lambda>t. first_by cm_id (\<lambda>m. cm_id m = cm_id row) (members t)))
          (\<lambda>m. on_ok (wrapped ''reload member'') (preload_users [cm_user_id m])
            (\<lambda>us. return (m, user_or_zero us (cm_user_id m)))))"

definition list_conversation_member_ids :: "nat \<Rightarrow> nat list op" where
  "list_conversation_member_ids conv =
     on_ok (wrapped ''select member ids'')
       (select (\<lambda>t. map cm_user_id (filter (\<lambda>m. cm_conversation_id m = conv) (members t))))
       return"

section \<open>Messages\<close>

definition event_of :: "message \<Rightarrow> string \<Rightarrow> message_created" where
  "event_of m name =
     \<lparr>mc_message_id = m_id m, mc_conversation_id = m_conversation_id m,
      mc_sender_id = m_sender_id m, mc_sender_name = name, mc_seq = m_seq m,
      mc_content = m_content m, mc_client_msg_id = m_client_msg_id m,
      mc_created_at = m_created_at m\<rparr>"

definition send_tx ::
  "time \<Rightarrow> nat \<Rightarrow> nat \<Rightarrow> string \<Rightarrow> string \<Rightarrow> string option \<Rightarrow> bytes \<Rightarrow> message op" where
  "send_tx now conv sender name content cid carrier =
     on_ok (wrapped ''allocate seq'') (allocate_seq conv)
       (\<lambda>n. if n = 0 then fail ErrConversationNotFound
         else on_ok Raw (insert_message now conv sender cid n content)
           (\<lambda>m. case encode_event (event_of m name) of
              None \<Rightarrow> fail ErrEncode
            | Some payload \<Rightarrow>
                on_ok (wrapped ''insert outbox row'')
                  (insert_outbox now topic_message_created payload (json_or_nil carrier))
                  (\<lambda>_. return m)))"

definition live_messages :: "tables \<Rightarrow> message list" where
  "live_messages t = filter (\<lambda>m. m_deleted_at m = None) (messages t)"

definition load_duplicate :: "nat \<Rightarrow> nat \<Rightarrow> string \<Rightarrow> (message \<times> bool) op" where
  "load_duplicate conv sender k =
     on_ok (wrapped ''load duplicate message'')
       (query (\<lambda>t. first_by m_id (\<lambda>m. m_conversation_id m = conv \<and> m_sender_id m = sender
                                      \<and> m_client_msg_id m = Some k) (live_messages t)))
       (\<lambda>m. return (m, False))"

definition create_message ::
  "time \<Rightarrow> nat \<Rightarrow> nat \<Rightarrow> string \<Rightarrow> string \<Rightarrow> string option \<Rightarrow> bytes \<Rightarrow> (message \<times> bool) op" where
  "create_message now conv sender name content cid carrier d =
     (case transaction (send_tx now conv sender name content cid carrier) d of
        (Inr m, d1) \<Rightarrow> (Inr (m, True), d1)
      | (Inl e, d1) \<Rightarrow>
          (case (errors_is e (Raw DuplicatedKey), cid) of
             (True, Some k) \<Rightarrow> load_duplicate conv sender k d1
           | _ \<Rightarrow> if errors_is e ErrConversationNotFound then (Inl e, d1)
                  else (Inl (Wrap ''insert message'' e), d1)))"

text \<open>\<open>Preload("Sender")\<close>.\<close>

definition preload_sender :: "(pg_error \<Rightarrow> db_error) \<Rightarrow> message list \<Rightarrow> (message \<times> user) list op" where
  "preload_sender w ms =
     on_ok w (preload_users (map m_sender_id ms))
       (\<lambda>us. return (map (\<lambda>m. (m, user_or_zero us (m_sender_id m))) ms))"

definition history_page :: "nat \<Rightarrow> nat \<Rightarrow> nat \<Rightarrow> tables \<Rightarrow> message list" where
  "history_page conv before limit t =
     take limit (rev (sort_key m_id (filter (\<lambda>m. m_conversation_id m = conv
        \<and> (before > 0 \<longrightarrow> m_id m < before)) (live_messages t))))"

definition list_messages :: "nat \<Rightarrow> nat \<Rightarrow> nat \<Rightarrow> (message \<times> user) list op" where
  "list_messages conv before limit =
     on_ok (wrapped ''select messages'') (select (history_page conv before limit))
       (preload_sender (wrapped ''select messages''))"

definition gap_page :: "nat \<Rightarrow> nat \<Rightarrow> nat \<Rightarrow> tables \<Rightarrow> message list" where
  "gap_page conv after limit t =
     take limit (sort_key m_seq (filter (\<lambda>m. m_conversation_id m = conv \<and> after < m_seq m)
        (live_messages t)))"

definition list_messages_after_seq :: "nat \<Rightarrow> nat \<Rightarrow> nat \<Rightarrow> (message \<times> user) list op" where
  "list_messages_after_seq conv after limit =
     on_ok (wrapped ''select messages after seq'') (select (gap_page conv after limit))
       (preload_sender (wrapped ''select messages after seq''))"

section \<open>Sending: everything or nothing\<close>

text \<open>What a committed send leaves in the tables.\<close>

definition sent :: "nat \<Rightarrow> message \<Rightarrow> outbox_row \<Rightarrow> tables \<Rightarrow> tables" where
  "sent conv m out t = t\<lparr>conversations := map (bump_seq conv) (conversations t),
     messages := messages t @ [m], outbox := outbox t @ [out]\<rparr>"

text \<open>The rows a send writes when it commits, given the tables and sequences it starts from.\<close>

definition send_rows :: "time \<Rightarrow> nat \<Rightarrow> nat \<Rightarrow> string \<Rightarrow> string \<Rightarrow> string option \<Rightarrow> bytes \<Rightarrow>
    tables \<Rightarrow> sequences \<Rightarrow> message \<Rightarrow> outbox_row \<Rightarrow> bool" where
  "send_rows now conv sender name content cid carrier t s m out \<longleftrightarrow>
     (\<exists>c payload. find (\<lambda>c. c_id c = conv \<and> c_deleted_at c = None) (conversations t) = Some c
       \<and> m = message_row now (next_message s) conv sender cid (c_last_seq c + 1) content
       \<and> encode_event (event_of m name) = Some payload
       \<and> out = waiting_row now (next_outbox s) topic_message_created payload (json_or_nil carrier)
       \<and> sender \<in> u_id ` set (users t) \<and> \<not> key_used t conv sender cid
       \<and> (\<forall>k. cid = Some k \<longrightarrow> rune_count k \<le> 64))"

lemma allocate_seq_cases:
  assumes "allocate_seq conv d = (r, d')"
  shows "seqs d' = seqs d \<and>
    (r = Inl Unavailable
     \<or> r = Inr (case find (\<lambda>c. c_id c = conv \<and> c_deleted_at c = None) (conversations (tbl d)) of
             None \<Rightarrow> 0 | Some c \<Rightarrow> c_last_seq c + 1)
       \<and> tbl d' = (tbl d)\<lparr>conversations := map (bump_seq conv) (conversations (tbl d))\<rparr>)"
  using assms unfolding allocate_seq_def by (cases rule: stmt_cases) auto

lemma insert_message_Inr:
  assumes "insert_message now conv sender cid n content d = (Inr m, d')"
  shows "m = message_row now (next_message (seqs d)) conv sender cid n content
    \<and> (\<forall>k. cid = Some k \<longrightarrow> rune_count k \<le> 64)
    \<and> \<not> key_used (tbl d) conv sender cid \<and> \<not> seq_used (tbl d) conv n
    \<and> conv \<in> c_id ` set (conversations (tbl d)) \<and> sender \<in> u_id ` set (users (tbl d))
    \<and> tbl d' = (tbl d)\<lparr>messages := messages (tbl d) @ [m]\<rparr>
    \<and> seqs d' = (seqs d)\<lparr>next_message := next_message (seqs d) + 1\<rparr>"
  using assms unfolding insert_message_def
  by (cases rule: stmt_cases)
    (auto simp: Let_def not_less split: if_splits option.splits)

lemma insert_message_seqs:
  "insert_message now conv sender cid n content d = (r, d') \<Longrightarrow> seq_le (seqs d) (seqs d')"
  unfolding insert_message_def
  by (erule stmt_cases) (auto simp: Let_def seq_le_def split: if_splits)

lemma insert_outbox_Inr:
  assumes "insert_outbox now topic payload trace d = (Inr out, d')"
  shows "out = waiting_row now (next_outbox (seqs d)) topic payload trace
    \<and> tbl d' = (tbl d)\<lparr>outbox := outbox (tbl d) @ [out]\<rparr>
    \<and> seqs d' = (seqs d)\<lparr>next_outbox := next_outbox (seqs d) + 1\<rparr>"
  using assms unfolding insert_outbox_def by (cases rule: stmt_cases) (auto simp: Let_def)

lemma insert_outbox_seqs:
  "insert_outbox now topic payload trace d = (r, d') \<Longrightarrow> seq_le (seqs d) (seqs d')"
  unfolding insert_outbox_def by (erule stmt_cases) (auto simp: Let_def seq_le_def)

lemma statement_grows [grows_rules]:
  "grows (allocate_seq conv)" "grows (insert_message now conv sender cid n content)"
  "grows (insert_outbox now topic payload trace)"
  using allocate_seq_cases insert_message_seqs insert_outbox_seqs by (fastforce intro!: growsI)+

lemma send_tx_grows [grows_rules]: "grows (send_tx now conv sender name content cid carrier)"
  unfolding send_tx_def by (intro grows_rules)

lemmas send_tx_seqs = growsD [OF send_tx_grows]

lemma send_tx_Inr:
  assumes "send_tx now conv sender name content cid carrier d = (Inr m, d')"
  obtains out where "send_rows now conv sender name content cid carrier (tbl d) (seqs d) m out"
    "tbl d' = sent conv m out (tbl d)"
    "next_message (seqs d') = next_message (seqs d) + 1"
    "next_outbox (seqs d') = next_outbox (seqs d) + 1"
proof -
  let ?find = "find (\<lambda>c. c_id c = conv \<and> c_deleted_at c = None) (conversations (tbl d))"
  from assms obtain n d1 where a: "allocate_seq conv d = (Inr n, d1)" and n: "n \<noteq> 0"
    and rest: "on_ok Raw (insert_message now conv sender cid n content)
           (\<lambda>m. case encode_event (event_of m name) of
              None \<Rightarrow> fail ErrEncode
            | Some payload \<Rightarrow>
                on_ok (wrapped ''insert outbox row'')
                  (insert_outbox now topic_message_created payload (json_or_nil carrier))
                  (\<lambda>_. return m)) d1 = (Inr m, d')"
    unfolding send_tx_def
    by (elim on_ok_cases) (auto simp: fail_def split: if_splits)
  from allocate_seq_cases [OF a] n obtain c where c: "?find = Some c" "n = c_last_seq c + 1"
    and t1: "tbl d1 = (tbl d)\<lparr>conversations := map (bump_seq conv) (conversations (tbl d))\<rparr>"
    and s1: "seqs d1 = seqs d"
    by (auto split: option.splits)
  from rest obtain d2 payload out where
    i: "insert_message now conv sender cid n content d1 = (Inr m, d2)"
    and e: "encode_event (event_of m name) = Some payload"
    and o: "insert_outbox now topic_message_created payload (json_or_nil carrier) d2 = (Inr out, d')"
    by (elim on_ok_cases)
      (auto simp: fail_def return_def split: option.splits elim!: on_ok_cases)
  from insert_message_Inr [OF i] have
    m: "m = message_row now (next_message (seqs d)) conv sender cid n content"
    and k: "\<forall>k. cid = Some k \<longrightarrow> rune_count k \<le> 64" "\<not> key_used (tbl d) conv sender cid"
      "sender \<in> u_id ` set (users (tbl d))"
    and t2: "tbl d2 = (tbl d1)\<lparr>messages := messages (tbl d1) @ [m]\<rparr>"
    and s2: "seqs d2 = (seqs d)\<lparr>next_message := next_message (seqs d) + 1\<rparr>"
    using t1 s1 by (auto simp: key_used_def)
  from insert_outbox_Inr [OF o] have
    o': "out = waiting_row now (next_outbox (seqs d)) topic_message_created payload (json_or_nil carrier)"
    and t3: "tbl d' = (tbl d2)\<lparr>outbox := outbox (tbl d2) @ [out]\<rparr>"
    and s3: "seqs d' = (seqs d2)\<lparr>next_outbox := next_outbox (seqs d2) + 1\<rparr>"
    using s2 by auto
  show thesis
  proof (rule that [of out])
    show "send_rows now conv sender name content cid carrier (tbl d) (seqs d) m out"
      unfolding send_rows_def using c m e o' k by auto
    show "tbl d' = sent conv m out (tbl d)"
      using t1 t2 t3 by (simp add: sent_def)
  qed (use s2 s3 in auto)
qed

lemma load_duplicate_frame [frame]:
  "load_duplicate conv sender k d = (r, d') \<Longrightarrow> tbl d' = tbl d \<and> seqs d' = seqs d"
  unfolding load_duplicate_def
  by (erule on_ok_cases) (auto simp: return_def dest: query_tbl)

lemma load_duplicate_not_created: "load_duplicate conv sender k d \<noteq> (Inr (m, True), d')"
  unfolding load_duplicate_def by (auto simp: return_def elim!: on_ok_cases)

lemma create_message_cases:
  assumes "create_message now conv sender name content cid carrier d = (r, d')"
  obtains (unchanged) "tbl d' = tbl d" "seq_le (seqs d) (seqs d')" "\<And>m. r \<noteq> Inr (m, True)"
  | (everything) m out where
      "send_rows now conv sender name content cid carrier (tbl d) (seqs d) m out"
      "tbl d' = sent conv m out (tbl d)" "seq_le (seqs d) (seqs d')"
      "next_message (seqs d) < next_message (seqs d')"
      "next_outbox (seqs d) < next_outbox (seqs d')"
      "r = Inr (m, True) \<or> r = Inl (Wrap ''insert message'' (Raw Unavailable))"
proof -
  let ?tx = "transaction (send_tx now conv sender name content cid carrier)"
  obtain s d1 where tx: "?tx d = (s, d1)" by fastforce
  have after: "tbl d' = tbl d1 \<and> seqs d' = seqs d1 \<and> (\<forall>m. r \<noteq> Inr (m, True))"
    if "s = Inl e" for e
    using assms tx that load_duplicate_not_created
    by (auto simp: create_message_def split: if_splits option.splits bool.splits
          dest: load_duplicate_frame)
  from tx show thesis
  proof (cases rule: transaction_cases)
    case (no_begin e)
    have "tbl d' = tbl d" "seq_le (seqs d) (seqs d')" "\<And>m. r \<noteq> Inr (m, True)"
      using no_begin after by auto
    then show thesis by (rule unchanged)
  next
    case (aborted d1' d2 e)
    have "tbl d' = tbl d" "seq_le (seqs d) (seqs d')" "\<And>m. r \<noteq> Inr (m, True)"
      using aborted after send_tx_seqs [OF aborted(3)] by auto
    then show thesis by (rule unchanged)
  next
    case (refused d1' d2 x)
    have "tbl d' = tbl d" "seq_le (seqs d) (seqs d')" "\<And>m. r \<noteq> Inr (m, True)"
      using refused after send_tx_seqs [OF refused(3)] by auto
    then show thesis by (rule unchanged)
  next
    case (committed d1' d2 m)
    from committed(3) obtain out where
      rows: "send_rows now conv sender name content cid carrier (tbl d) (seqs d) m out"
        "tbl d2 = sent conv m out (tbl d)"
        "next_message (seqs d2) = next_message (seqs d) + 1"
        "next_outbox (seqs d2) = next_outbox (seqs d) + 1"
      using committed(1,2) by (elim send_tx_Inr) simp
    have r: "tbl d' = tbl d1" "seqs d' = seqs d1"
      "r = Inr (m, True) \<or> r = Inl (Wrap ''insert message'' (Raw Unavailable))"
      using assms tx committed(4) after
      by (auto simp: create_message_def split: option.splits bool.splits)
    show thesis
      by (rule everything [OF rows(1)])
        (use r rows committed send_tx_seqs [OF committed(3)] in auto)
  qed
qed

section \<open>Rooms and members: what the operations do\<close>

definition is_member :: "tables \<Rightarrow> nat \<Rightarrow> nat \<Rightarrow> bool" where
  "is_member t conv uid \<longleftrightarrow> has_member t conv uid \<and> conv \<in> c_id ` set (live_conversations t)"

lemma membership_count:
  "length (filter (\<lambda>(m, c). c_id c = cm_conversation_id m \<and> c_deleted_at c = None
         \<and> cm_conversation_id m = conv \<and> cm_user_id m = uid)
       (List.product (members t) (conversations t))) = 0 \<longleftrightarrow> \<not> is_member t conv uid"
  unfolding is_member_def has_member_def live_conversations_def list_ex_iff image_iff
    length_0_conv filter_empty_conv
  by fastforce

lemma ensure_member_ok:
  "faults d = [] \<Longrightarrow> ensure_member conv uid d =
     (if is_member (tbl d) conv uid then Inr () else Inl ErrConversationNotFound, d)"
  using membership_count [where t = "tbl d" and conv = conv and uid = uid]
  by (simp add: ensure_member_def count_membership_def on_ok_def fail_def return_def
      del: length_0_conv)

lemma ensure_member_sound:
  assumes "ensure_member conv uid d = (r, d')"
  shows "(r = Inr () \<longrightarrow> is_member (tbl d) conv uid)
    \<and> (r = Inl ErrConversationNotFound \<longrightarrow> \<not> is_member (tbl d) conv uid)"
  using assms unfolding ensure_member_def
proof (cases rule: on_ok_cases)
  case (err e)
  then show ?thesis by (simp add: wrapped_def)
next
  case (ok n d1)
  from ok(1) have "n = 0 \<longleftrightarrow> \<not> is_member (tbl d) conv uid"
    using membership_count [where t = "tbl d" and conv = conv and uid = uid] unfolding count_membership_def
    by (auto dest!: select_Inr)
  with ok(2) show ?thesis by (auto simp: fail_def return_def split: if_splits)
qed

lemma grows_preload_members [grows_rules]: "grows (preload_members w cs)"
  unfolding preload_members_def by (intro grows_rules)

lemma reads_preload_members [reads_rules]: "reads (preload_members w cs)"
  unfolding preload_members_def by (intro reads_rules)

lemma reload_grows [grows_rules]: "grows (reload_room i)"
proof -
  have "grows (\<lambda>d. case preload_members (wrapped ''reload conversation'') [conv] d of
          (Inl e, d1) \<Rightarrow> (Inl e, d1) | (Inr rooms, d1) \<Rightarrow> (Inr (hd rooms), d1))"
    for conv
    by (rule growsI)
      (auto dest!: growsD [OF grows_preload_members] split: prod.splits sum.splits)
  then show ?thesis unfolding reload_room_def by (intro grows_on_ok grows_query)
qed

lemma reload_reads [reads_rules]: "reads (reload_room i)"
proof -
  have "reads (\<lambda>d. case preload_members (wrapped ''reload conversation'') [conv] d of
          (Inl e, d1) \<Rightarrow> (Inl e, d1) | (Inr rooms, d1) \<Rightarrow> (Inr (hd rooms), d1))"
    for conv
    by (rule readsI)
      (auto dest!: readsD [OF reads_preload_members] split: prod.splits sum.splits)
  then show ?thesis unfolding reload_room_def by (intro reads_on_ok reads_query)
qed

lemma preload_sender_reads [reads_rules]: "reads (preload_sender w ms)"
  unfolding preload_sender_def by (intro reads_rules)

lemma room_reads [reads_rules]:
  "reads (ensure_member conv uid)" "reads (list_conversation_member_ids conv)"
  "reads (list_conversations_for_user uid)" "reads (list_messages conv before limit)"
  "reads (list_messages_after_seq conv after limit)"
  unfolding ensure_member_def count_membership_def list_conversation_member_ids_def
    list_conversations_for_user_def list_messages_def list_messages_after_seq_def
  by (intro reads_rules)+

lemma room_grows [grows_rules]:
  "grows (ensure_member conv uid)" "grows (list_conversation_member_ids conv)"
  "grows (list_conversations_for_user uid)" "grows (list_messages conv before limit)"
  "grows (list_messages_after_seq conv after limit)"
  unfolding ensure_member_def count_membership_def list_conversation_member_ids_def
    list_conversations_for_user_def list_messages_def list_messages_after_seq_def
    preload_sender_def
  by (intro grows_rules)+

subsection \<open>The members of a new room\<close>

primrec member_rows :: "time \<Rightarrow> nat \<Rightarrow> nat \<Rightarrow> nat list \<Rightarrow> conversation_member list" where
  "member_rows now n conv [] = []"
| "member_rows now n conv (u # us) = member_row now n conv u # member_rows now (n + 1) conv us"

lemma member_rows_users [simp]: "map cm_user_id (member_rows now n conv us) = us"
  by (induction us arbitrary: n) (auto simp: member_row_def)

lemma member_rows_conv: "m \<in> set (member_rows now n conv us) \<Longrightarrow> cm_conversation_id m = conv"
  by (induction us arbitrary: n) (auto simp: member_row_def)

lemma member_rows_ids [simp]: "map cm_id (member_rows now n conv us) = [n..<n + length us]"
proof (induction us arbitrary: n)
  case (Cons u us)
  have "[n..<n + length (u # us)] = n # [Suc n..<Suc n + length us]"
    by (simp add: upt_conv_Cons del: upt_Suc)
  with Cons show ?case by (simp add: member_row_def)
qed simp

lemma has_member_append:
  "has_member (t\<lparr>members := members t @ [member_row now i conv u]\<rparr>) c v
     \<longleftrightarrow> has_member t c v \<or> (c = conv \<and> v = u)"
  by (auto simp: has_member_def member_row_def)

definition members_fit :: "tables \<Rightarrow> nat \<Rightarrow> nat list \<Rightarrow> bool" where
  "members_fit t conv us \<longleftrightarrow> distinct us \<and> (\<forall>u \<in> set us. \<not> has_member t conv u)
     \<and> (us \<noteq> [] \<longrightarrow> conv \<in> c_id ` set (conversations t)) \<and> set us \<subseteq> u_id ` set (users t)"

lemma members_fit_Cons:
  "members_fit t conv (u # us) \<longleftrightarrow>
     \<not> has_member t conv u \<and> conv \<in> c_id ` set (conversations t) \<and> u \<in> u_id ` set (users t)
     \<and> members_fit (t\<lparr>members := members t @ [member_row now i conv u]\<rparr>) conv us"
  by (auto simp: members_fit_def has_member_append)

lemma put_member_result:
  "put_member now conv u d =
     (let d1 = d\<lparr>seqs := (seqs d)\<lparr>next_member := next_member (seqs d) + 1\<rparr>\<rparr>;
          row = member_row now (next_member (seqs d)) conv u
      in if has_member (tbl d) conv u then (Inl DuplicatedKey, d1)
         else if conv \<notin> c_id ` set (conversations (tbl d)) \<or> u \<notin> u_id ` set (users (tbl d))
           then (Inl ForeignKeyViolated, d1)
         else (Inr row, d1\<lparr>tbl := (tbl d)\<lparr>members := members (tbl d) @ [row]\<rparr>\<rparr>))"
  by (simp add: put_member_def Let_def)

lemma put_members_Inr:
  "put_members now conv us d = (Inr x, d') \<longleftrightarrow>
     members_fit (tbl d) conv us
     \<and> d' = d\<lparr>tbl := (tbl d)\<lparr>members := members (tbl d)
               @ member_rows now (next_member (seqs d)) conv us\<rparr>,
             seqs := (seqs d)\<lparr>next_member := next_member (seqs d) + length us\<rparr>\<rparr>"
proof (induction us arbitrary: d d' x)
  case Nil
  then show ?case by (auto simp: members_fit_def)
next
  case (Cons u us)
  let ?row = "member_row now (next_member (seqs d)) conv u"
  let ?d1 = "d\<lparr>seqs := (seqs d)\<lparr>next_member := next_member (seqs d) + 1\<rparr>,
                tbl := (tbl d)\<lparr>members := members (tbl d) @ [?row]\<rparr>\<rparr>"
  note fit = members_fit_Cons [of "tbl d" conv u us now "next_member (seqs d)"]
  show ?case
  proof (cases "has_member (tbl d) conv u \<or> conv \<notin> c_id ` set (conversations (tbl d))
      \<or> u \<notin> u_id ` set (users (tbl d))")
    case True
    with fit show ?thesis by (auto simp: put_member_result Let_def)
  next
    case False
    then have p: "put_member now conv u d = (Inr ?row, ?d1)"
      by (auto simp: put_member_result Let_def)
    obtain r2 d2 where r2: "put_members now conv us ?d1 = (r2, d2)" by fastforce
    note ih = Cons.IH [of ?d1]
    show ?thesis
    proof (cases r2)
      case (Inl e)
      with r2 ih have "\<not> members_fit (tbl ?d1) conv us" by auto
      with fit p r2 Inl show ?thesis by simp
    next
      case (Inr y)
      with r2 have eq: "put_members now conv us ?d1 = (Inr y, d2)" by simp
      with ih [of y d2] False fit p show ?thesis by auto
    qed
  qed
qed

subsection \<open>Making a room and adding to it\<close>

text \<open>What a committed \<open>CreateConversation\<close> leaves in the tables.\<close>

definition room_row :: "time \<Rightarrow> nat \<Rightarrow> string \<Rightarrow> nat \<Rightarrow> conversation" where
  "room_row now i title creator =
     \<lparr>c_id = i, c_created_at = now, c_updated_at = now, c_deleted_at = None, c_title = title,
      c_created_by_id = creator, c_last_seq = 0\<rparr>"

definition built :: "time \<Rightarrow> conversation \<Rightarrow> nat \<Rightarrow> nat list \<Rightarrow> tables \<Rightarrow> tables" where
  "built now c n ids t = t\<lparr>conversations := conversations t @ [c],
     members := members t @ member_rows now n (c_id c) ids\<rparr>"

definition all_live :: "tables \<Rightarrow> nat list \<Rightarrow> bool" where
  "all_live t ids \<longleftrightarrow> length (filter (\<lambda>u. u_id u \<in> set ids) (live_users t)) = length ids"

lemma insert_conversation_Inr:
  assumes "insert_conversation now title creator d = (Inr c, d')"
  shows "c = room_row now (next_conversation (seqs d)) title creator \<and> rune_count title \<le> 200
    \<and> tbl d' = (tbl d)\<lparr>conversations := conversations (tbl d) @ [c]\<rparr>
    \<and> seqs d' = (seqs d)\<lparr>next_conversation := next_conversation (seqs d) + 1\<rparr>"
  using assms unfolding insert_conversation_def
  by (cases rule: stmt_cases) (auto simp: Let_def room_row_def split: if_splits)

lemma insert_conversation_grows [grows_rules]: "grows (insert_conversation now title creator)"
  unfolding insert_conversation_def
  by (intro grows_stmt) (auto simp: grows_def Let_def seq_le_def)

lemma put_member_grows: "grows (put_member now conv u)"
  by (auto simp: grows_def put_member_result Let_def seq_le_def)

lemma put_members_grows: "grows (put_members now conv us)"
proof (induction us)
  case Nil
  show ?case by (simp add: grows_def)
next
  case (Cons u us)
  show ?case
  proof (rule growsI)
    fix d r d'
    assume run: "put_members now conv (u # us) d = (r, d')"
    obtain r1 d1 where p: "put_member now conv u d = (r1, d1)" by fastforce
    obtain r2 d2 where q: "put_members now conv us d1 = (r2, d2)" by fastforce
    from growsD [OF put_member_grows p] growsD [OF Cons q]
    have "seq_le (seqs d) (seqs d1)" "seq_le (seqs d) (seqs d2)" by (auto intro: seq_le_trans)
    with run p q show "seq_le (seqs d) (seqs d')"
      by (auto simp: rollback_def split: sum.splits)
  qed
qed

lemma insert_members_grows [grows_rules]: "grows (insert_members now conv us)"
  unfolding insert_members_def by (intro grows_stmt put_members_grows)

lemma build_room_grows [grows_rules]: "grows (build_room now title creator ids)"
  unfolding build_room_def count_users_def by (intro grows_rules)

lemma insert_members_Inr:
  assumes "insert_members now conv us d = (Inr x, d')"
  shows "members_fit (tbl d) conv us
    \<and> tbl d' = (tbl d)\<lparr>members := members (tbl d) @ member_rows now (next_member (seqs d)) conv us\<rparr>
    \<and> seqs d' = (seqs d)\<lparr>next_member := next_member (seqs d) + length us\<rparr>"
  using assms unfolding insert_members_def
  by (cases rule: stmt_cases) (auto simp: put_members_Inr)

lemma build_room_Inr:
  assumes "build_room now title creator ids d = (Inr c, d')"
  shows "c = room_row now (next_conversation (seqs d)) title creator \<and> rune_count title \<le> 200
    \<and> all_live (tbl d) ids \<and> members_fit ((tbl d)\<lparr>conversations := conversations (tbl d) @ [c]\<rparr>) (c_id c) ids
    \<and> tbl d' = built now c (next_member (seqs d)) ids (tbl d)
    \<and> next_conversation (seqs d) < next_conversation (seqs d')
    \<and> next_member (seqs d') = next_member (seqs d) + length ids"
proof -
  from assms obtain found d1 d2 where
    q: "count_users ids d = (Inr found, d1)" "found = length ids"
    and c: "insert_conversation now title creator d1 = (Inr c, d2)"
    and m: "insert_members now (c_id c) ids d2 = (Inr (), d')"
    unfolding build_room_def
    by (auto simp: fail_def return_def elim!: on_ok_cases split: if_splits)
  from q have "all_live (tbl d) ids" "tbl d1 = tbl d" "seqs d1 = seqs d"
    unfolding count_users_def by (auto simp: all_live_def dest: select_Inr select_tbl)
  with insert_conversation_Inr [OF c] insert_members_Inr [OF m] show ?thesis
    by (auto simp: built_def)
qed

lemma create_conversation_cases:
  assumes "create_conversation now title creator member_ids d = (r, d')"
  obtains (unchanged) "tbl d' = tbl d" "seq_le (seqs d) (seqs d')" "\<And>room. r \<noteq> Inr room"
  | (everything) ids c where "ids = keep_first [creator] member_ids"
      "c = room_row now (next_conversation (seqs d)) title creator" "rune_count title \<le> 200"
      "all_live (tbl d) ids" "ids \<noteq> []"
      "members_fit ((tbl d)\<lparr>conversations := conversations (tbl d) @ [c]\<rparr>) (c_id c) ids"
      "tbl d' = built now c (next_member (seqs d)) ids (tbl d)" "seq_le (seqs d) (seqs d')"
      "next_conversation (seqs d) < next_conversation (seqs d')"
      "next_member (seqs d) + length ids \<le> next_member (seqs d')"
proof -
  let ?ids = "keep_first [creator] member_ids"
  obtain s d1 where tx: "transaction (build_room now title creator ?ids) d = (s, d1)"
    by fastforce
  have failed: "r = Inl e \<and> d' = d1" if "s = Inl e" for e
    using assms tx that by (simp add: create_conversation_def)
  have grown: "seq_le (seqs d) (seqs d1)"
    by (rule growsD [where f = "transaction (build_room now title creator ?ids)"])
      (intro grows_rules, rule tx)
  have after: "tbl d' = tbl d1 \<and> seq_le (seqs d1) (seqs d')"
  proof (cases s)
    case (Inl e)
    with failed show ?thesis by simp
  next
    case (Inr c)
    with assms tx have "reload_room (c_id c) d1 = (r, d')" by (simp add: create_conversation_def)
    with readsD [OF reload_reads] growsD [OF reload_grows] show ?thesis by blast
  qed
  then have grows': "seq_le (seqs d) (seqs d')" using grown seq_le_trans by blast
  from tx show thesis
  proof (cases rule: transaction_cases)
    case (no_begin e)
    with after grows' failed show thesis using unchanged by auto
  next
    case (aborted d1' d2 e)
    with after grows' failed show thesis using unchanged by auto
  next
    case (refused d1' d2 x)
    with after grows' failed show thesis using unchanged by auto
  next
    case (committed d1' d2 c)
    have ids: "?ids \<noteq> []" using keep_first_set [of "[creator]" member_ids] by fastforce
    from build_room_Inr [OF committed(3)] committed(1,2,5,6) after ids show thesis
      by (intro everything [of ?ids c]) (auto simp: seq_le_def grows' [unfolded seq_le_def])
  qed
qed

text \<open>\<open>AddMember\<close> writes one row or none.\<close>

lemma insert_member_effect:
  assumes "stmt (put_member now conv uid) d = (r, d')"
  shows "seq_le (seqs d) (seqs d') \<and> (tbl d' = tbl d \<and> (\<forall>x. r \<noteq> Inr x)
    \<or> members_fit (tbl d) conv [uid] \<and> next_member (seqs d) < next_member (seqs d')
      \<and> tbl d' = (tbl d)\<lparr>members := members (tbl d) @ [member_row now (next_member (seqs d)) conv uid]\<rparr>)"
  using assms
proof (cases rule: stmt_cases)
  case (ran fs r1)
  then show ?thesis
    by (auto simp: put_member_result Let_def members_fit_def seq_le_def split: if_splits)
next
  case (lost fs)
  then show ?thesis by auto
qed

lemma add_member_cases:
  assumes "add_member now conv uid d = (r, d')"
  obtains (unchanged) "tbl d' = tbl d" "seq_le (seqs d) (seqs d')" "\<And>x. r \<noteq> Inr x"
  | (added) "members_fit (tbl d) conv [uid]"
      "tbl d' = (tbl d)\<lparr>members := members (tbl d) @ [member_row now (next_member (seqs d)) conv uid]\<rparr>"
      "seq_le (seqs d) (seqs d')" "next_member (seqs d) < next_member (seqs d')"
  using assms unfolding add_member_def
proof (cases rule: on_ok_cases)
  case (err e)
  from insert_member_effect [OF err(1)] err(2) show thesis using unchanged added by blast
next
  case (ok row d1)
  let ?rest = "on_ok (wrapped ''reload member'')
          (query (\<lambda>t. first_by cm_id (\<lambda>m. cm_id m = cm_id row) (members t)))
          (\<lambda>m. on_ok (wrapped ''reload member'') (preload_users [cm_user_id m])
            (\<lambda>us. return (m, user_or_zero us (cm_user_id m))))"
  have "grows ?rest" "reads ?rest" by (intro grows_rules reads_rules)+
  from growsD [OF this(1) ok(2)] readsD [OF this(2) ok(2)]
  have rest: "tbl d' = tbl d1" "seq_le (seqs d1) (seqs d')" by auto
  from insert_member_effect [OF ok(1)] have
    "members_fit (tbl d) conv [uid]" "next_member (seqs d) < next_member (seqs d1)"
    "seq_le (seqs d) (seqs d1)"
    "tbl d1 = (tbl d)\<lparr>members := members (tbl d) @ [member_row now (next_member (seqs d)) conv uid]\<rparr>"
    by auto
  with rest show thesis by (intro added) (auto simp: seq_le_def)
qed

text \<open>The two transactions once more, as one statement each.\<close>

lemma create_message_effect:
  assumes "create_message now conv sender name content cid carrier d = (r, d')"
  shows "(tbl d' = tbl d \<and> (\<forall>m. r \<noteq> Inr (m, True)))
     \<or> (\<exists>m out. send_rows now conv sender name content cid carrier (tbl d) (seqs d) m out
          \<and> tbl d' = sent conv m out (tbl d)
          \<and> (r = Inr (m, True) \<or> r = Inl (Wrap ''insert message'' (Raw Unavailable))))"
  using assms by (cases rule: create_message_cases) auto

lemma create_conversation_effect:
  assumes "create_conversation now title creator member_ids d = (r, d')"
  shows "(tbl d' = tbl d \<and> (\<forall>room. r \<noteq> Inr room))
     \<or> (\<exists>ids. set ids = insert creator (set member_ids) \<and> distinct ids \<and> hd ids = creator
          \<and> all_live (tbl d) ids \<and> rune_count title \<le> 200
          \<and> tbl d' = built now (room_row now (next_conversation (seqs d)) title creator)
                       (next_member (seqs d)) ids (tbl d))"
  using assms
proof (cases rule: create_conversation_cases)
  case (everything ids c)
  then have "set ids = insert creator (set member_ids)" "distinct ids" "hd ids = creator"
    by (simp_all add: keep_first_hd)
  with everything show ?thesis by blast
qed simp

end
