(* ===== verification/Db_Outbox.thy ===== *)
theory Db_Outbox
  imports Db_Rooms
begin

text \<open>
  The outbox as the relay uses it, \<open>internal/database/outbox.go\<close>: the advisory lock that makes
  one node the relay, the read of the waiting rows in id order, the two marks, the janitor's
  delete and the numbers for the graph.
\<close>

section \<open>The advisory lock\<close>

text \<open>
  The server keeps which connection holds the lock. A connection that breaks, or that is closed
  after the unlock, no longer holds it; \<open>sql.Conn.Close\<close> after a failed query drops the
  connection, because the driver closes a connection whose query was cut off.
\<close>

datatype lock_fault = NoFault | NoPool | NoConn | NoAnswer

definition outbox_lock_key :: int where
  "outbox_lock_key = 52026"

definition try_outbox_lock ::
  "lock_fault \<Rightarrow> nat \<Rightarrow> nat option \<Rightarrow> (db_error + nat option) \<times> nat option" where
  "try_outbox_lock f conn holder =
     (case f of
        NoPool \<Rightarrow> (Inl (wrapped ''outbox lock: get pool'' Unavailable), holder)
      | NoConn \<Rightarrow> (Inl (wrapped ''outbox lock: open connection'' Unavailable), holder)
      | NoAnswer \<Rightarrow> (Inl (wrapped ''outbox lock'' Unavailable), holder)
      | NoFault \<Rightarrow>
          (if holder = None \<or> holder = Some conn then (Inr (Some conn), Some conn)
           else (Inr None, holder)))"

text \<open>\<open>Release\<close>: the handle forgets its connection whether or not the unlock was answered.\<close>

definition release_outbox_lock ::
  "bool \<Rightarrow> bool \<Rightarrow> nat option \<Rightarrow> nat option \<Rightarrow> (db_error + unit) \<times> nat option \<times> nat option" where
  "release_outbox_lock unlock_ok close_ok handle holder =
     (case handle of
        None \<Rightarrow> (Inr (), None, holder)
      | Some conn \<Rightarrow>
          (if \<not> unlock_ok then Inl (wrapped ''release outbox lock'' Unavailable)
           else if \<not> close_ok then Inl (wrapped ''close outbox lock connection'' Unavailable)
           else Inr (),
           None, if holder = Some conn then None else holder))"

section \<open>Rows\<close>

definition waiting :: "outbox_row \<Rightarrow> bool" where
  "waiting w \<longleftrightarrow> o_published_at w = None"

definition fetch_outbox :: "nat \<Rightarrow> outbox_row list op" where
  "fetch_outbox limit =
     on_ok (wrapped ''select outbox'')
       (select (\<lambda>t. take limit (sort_key o_id (filter waiting (outbox t))))) return"

definition stamp :: "time \<Rightarrow> nat list \<Rightarrow> outbox_row \<Rightarrow> outbox_row" where
  "stamp now ids w = (if o_id w \<in> set ids then w\<lparr>o_published_at := Some now\<rparr> else w)"

definition mark_outbox_published :: "time \<Rightarrow> nat list \<Rightarrow> unit op" where
  "mark_outbox_published now ids =
     (if ids = [] then return ()
      else on_ok (wrapped ''mark outbox published'')
        (exec (\<lambda>t. t\<lparr>outbox := map (stamp now ids) (outbox t)\<rparr>)) return)"

definition note_failure :: "nat \<Rightarrow> string \<Rightarrow> outbox_row \<Rightarrow> outbox_row" where
  "note_failure i reason w =
     (if o_id w = i then w\<lparr>o_attempts := o_attempts w + 1, o_last_error := Some reason\<rparr> else w)"

text \<open>\<open>reason[:500]\<close> cuts bytes.\<close>

definition mark_outbox_failed :: "nat \<Rightarrow> string \<Rightarrow> unit op" where
  "mark_outbox_failed i reason =
     (let note = (if 500 < length reason then take 500 reason else reason)
      in on_ok (wrapped ''mark outbox failed'')
        (exec (\<lambda>t. t\<lparr>outbox := map (note_failure i note) (outbox t)\<rparr>)) return)"

text \<open>A statement whose \<open>RowsAffected\<close> the program reads.\<close>

definition exec_count :: "(tables \<Rightarrow> nat) \<Rightarrow> (tables \<Rightarrow> tables) \<Rightarrow> nat stmt" where
  "exec_count n f = stmt (\<lambda>d. (Inr (n (tbl d)), d\<lparr>tbl := f (tbl d)\<rparr>))"

definition published_before :: "time \<Rightarrow> outbox_row \<Rightarrow> bool" where
  "published_before t w = (case o_published_at w of None \<Rightarrow> False | Some p \<Rightarrow> p < t)"

definition delete_outbox_published_before :: "time \<Rightarrow> nat op" where
  "delete_outbox_published_before t =
     on_ok (wrapped ''delete published outbox rows'')
       (exec_count (\<lambda>db. length (filter (published_before t) (outbox db)))
          (\<lambda>db. db\<lparr>outbox := filter (\<lambda>w. \<not> published_before t w) (outbox db)\<rparr>)) return"

text \<open>\<open>count(*)\<close> and \<open>min(created_at)\<close>; the zero time when nothing waits.\<close>

definition outbox_stats :: "(nat \<times> time) op" where
  "outbox_stats =
     on_ok (wrapped ''outbox stats'')
       (select (\<lambda>t. let ts = map o_created_at (filter waiting (outbox t))
                    in (length ts, if ts = [] then zero_time else Min (set ts)))) return"

section \<open>What they do\<close>

lemma exec_count_cases:
  assumes "exec_count n f d = (r, d')"
  shows "seqs d' = seqs d \<and> (tbl d' = tbl d \<and> r = Inl Unavailable
    \<or> tbl d' = f (tbl d) \<and> (r = Inr (n (tbl d)) \<or> r = Inl Unavailable))"
  using assms unfolding exec_count_def by (cases rule: stmt_cases) auto

lemma grows_exec_count [grows_rules]: "grows (exec_count n f)"
  by (rule growsI) (auto dest: exec_count_cases)

lemma outbox_grows [grows_rules]:
  "grows (fetch_outbox limit)" "grows (mark_outbox_published now ids)"
  "grows (mark_outbox_failed i reason)" "grows (delete_outbox_published_before t)"
  "grows outbox_stats"
  unfolding fetch_outbox_def mark_outbox_published_def mark_outbox_failed_def
    delete_outbox_published_before_def outbox_stats_def Let_def
  by (intro grows_rules)+

lemma outbox_reads [reads_rules]: "reads (fetch_outbox limit)" "reads outbox_stats"
  unfolding fetch_outbox_def outbox_stats_def by (intro reads_rules)+

lemma fetch_outbox_Inr:
  assumes "fetch_outbox limit d = (Inr rows, d')"
  shows "rows = take limit (sort_key o_id (filter waiting (outbox (tbl d))))"
  using assms unfolding fetch_outbox_def
  by (auto simp: return_def dest: select_Inr elim!: on_ok_cases)

lemma mark_published_effect:
  assumes "mark_outbox_published now ids d = (r, d')"
  shows "seqs d' = seqs d \<and> (tbl d' = tbl d \<and> (r \<noteq> Inr () \<or> ids = [])
    \<or> tbl d' = (tbl d)\<lparr>outbox := map (stamp now ids) (outbox (tbl d))\<rparr>)"
  using assms unfolding mark_outbox_published_def
  by (auto simp: return_def split: if_splits dest!: exec_cases elim!: on_ok_cases)

lemma mark_failed_effect:
  assumes "mark_outbox_failed i reason d = (r, d')"
  shows "seqs d' = seqs d \<and> (tbl d' = tbl d
    \<or> (\<exists>note. length note \<le> 500 \<and> tbl d' = (tbl d)\<lparr>outbox := map (note_failure i note) (outbox (tbl d))\<rparr>))"
proof -
  let ?note = "if 500 < length reason then take 500 reason else reason"
  from assms have "seqs d' = seqs d \<and> (tbl d' = tbl d
      \<or> tbl d' = (tbl d)\<lparr>outbox := map (note_failure i ?note) (outbox (tbl d))\<rparr>)"
    unfolding mark_outbox_failed_def Let_def
    by (auto simp: return_def dest!: exec_cases elim!: on_ok_cases)
  moreover have "length ?note \<le> 500" by simp
  ultimately show ?thesis by blast
qed

lemma delete_published_effect:
  assumes "delete_outbox_published_before t d = (r, d')"
  shows "seqs d' = seqs d \<and> (tbl d' = tbl d
    \<or> tbl d' = (tbl d)\<lparr>outbox := filter (\<lambda>w. \<not> published_before t w) (outbox (tbl d))\<rparr>)"
  using assms unfolding delete_outbox_published_before_def
  by (auto simp: return_def dest!: exec_count_cases elim!: on_ok_cases)

text \<open>None of them takes a waiting row away; only the mark ends the wait.\<close>

lemma delete_keeps_waiting:
  "filter waiting (filter (\<lambda>w. \<not> published_before t w) os) = filter waiting os"
  by (induction os) (auto simp: waiting_def published_before_def)

lemma note_failure_waiting [simp]: "waiting (note_failure i n w) = waiting w"
  "o_id (note_failure i n w) = o_id w" "o_payload (note_failure i n w) = o_payload w"
  by (simp_all add: note_failure_def waiting_def)

lemma stamp_simps [simp]: "o_id (stamp now ids w) = o_id w"
  "o_payload (stamp now ids w) = o_payload w"
  "waiting (stamp now ids w) \<longleftrightarrow> waiting w \<and> o_id w \<notin> set ids"
  by (auto simp: stamp_def waiting_def)

lemma stamp_waiting:
  "filter waiting (map (stamp now ids) os) = filter (\<lambda>w. o_id w \<notin> set ids) (filter waiting os)"
  by (induction os) (auto simp: stamp_def waiting_def)

text \<open>Only one connection can be told that it is the relay.\<close>

lemma lock_exclusive:
  assumes "try_outbox_lock f conn holder = (Inr (Some c), h)"
  shows "c = conn \<and> h = Some conn \<and> (holder = None \<or> holder = Some conn)"
  using assms by (auto simp: try_outbox_lock_def split: lock_fault.splits if_splits)

end
