(* ===== verification/Db_Unread.thy ===== *)
theory Db_Unread
  imports Db_Outbox
begin

text \<open>
  Unread counters, \<open>internal/database/unread.go\<close>. The broker's consumer calls
  \<open>apply_unread\<close> once per delivery, and deliveries repeat and overtake each other. The guard
  is a row per message; the last section says what it buys.
\<close>

definition unread_consumer :: string where
  "unread_consumer = ''unread''"

section \<open>Operations\<close>

text \<open>\<open>INSERT ... ON CONFLICT DO NOTHING\<close>, with the number of rows it wrote.\<close>

definition is_consumed :: "tables \<Rightarrow> nat \<Rightarrow> bool" where
  "is_consumed t i \<longleftrightarrow>
     list_ex (\<lambda>k. k_consumer k = unread_consumer \<and> k_message_id k = i) (consumed t)"

definition claim_message :: "time \<Rightarrow> nat \<Rightarrow> nat stmt" where
  "claim_message now i =
     exec_count (\<lambda>t. if is_consumed t i then 0 else 1)
       (\<lambda>t. if is_consumed t i then t
            else t\<lparr>consumed := consumed t @
              [\<lparr>k_consumer = unread_consumer, k_message_id = i, k_consumed_at = now\<rparr>]\<rparr>)"

text \<open>One row of the upsert: insert with one, or add one and keep the greater \<open>last_seq\<close>.\<close>

definition bump_counter :: "time \<Rightarrow> nat \<Rightarrow> nat \<Rightarrow> nat \<Rightarrow> unread_counter list \<Rightarrow> unread_counter list" where
  "bump_counter now conv n uid rows =
     (if list_ex (\<lambda>r. n_conversation_id r = conv \<and> n_user_id r = uid) rows
      then map (\<lambda>r. if n_conversation_id r = conv \<and> n_user_id r = uid
             then r\<lparr>n_unread_count := n_unread_count r + 1,
                    n_last_seq := max (n_last_seq r) n, n_updated_at := now\<rparr> else r) rows
      else rows @ [\<lparr>n_conversation_id = conv, n_user_id = uid, n_unread_count = 1,
                    n_last_seq = n, n_updated_at = now\<rparr>])"

definition recipients :: "tables \<Rightarrow> nat \<Rightarrow> nat \<Rightarrow> nat list" where
  "recipients t conv sender =
     map cm_user_id (filter (\<lambda>m. cm_conversation_id m = conv \<and> cm_user_id m \<noteq> sender) (members t))"

definition bump_counters :: "time \<Rightarrow> nat \<Rightarrow> nat \<Rightarrow> nat \<Rightarrow> nat stmt" where
  "bump_counters now conv sender n =
     exec_count (\<lambda>t. length (recipients t conv sender))
       (\<lambda>t. t\<lparr>unread := fold (bump_counter now conv n) (recipients t conv sender) (unread t)\<rparr>)"

definition unread_tx :: "time \<Rightarrow> nat \<Rightarrow> nat \<Rightarrow> nat \<Rightarrow> nat \<Rightarrow> nat op" where
  "unread_tx now i conv sender n =
     on_ok (wrapped ''claim message'') (claim_message now i)
       (\<lambda>affected. if affected = 0 then return 0
         else on_ok (wrapped ''bump unread counters'') (bump_counters now conv sender n) return)"

definition apply_unread :: "time \<Rightarrow> nat \<Rightarrow> nat \<Rightarrow> nat \<Rightarrow> nat \<Rightarrow> nat op" where
  "apply_unread now i conv sender n d =
     (case transaction (unread_tx now i conv sender n) d of
        (Inl e, d') \<Rightarrow> (Inl (Wrap ''apply unread'' e), d')
      | (Inr changed, d') \<Rightarrow> (Inr changed, d'))"

definition delete_consumed_before :: "time \<Rightarrow> nat op" where
  "delete_consumed_before t =
     on_ok (wrapped ''delete consumed messages'')
       (exec_count (\<lambda>db. length (filter (\<lambda>k. k_consumed_at k < t) (consumed db)))
          (\<lambda>db. db\<lparr>consumed := filter (\<lambda>k. \<not> k_consumed_at k < t) (consumed db)\<rparr>)) return"

text \<open>The map is built row by row, so a later row of the same room would win.\<close>

definition unread_map :: "nat \<Rightarrow> tables \<Rightarrow> (nat \<rightharpoonup> nat)" where
  "unread_map uid t = fold (\<lambda>r m. m(n_conversation_id r \<mapsto> n_unread_count r))
     (filter (\<lambda>r. n_user_id r = uid \<and> 0 < n_unread_count r) (unread t)) Map.empty"

definition unread_for_user :: "nat \<Rightarrow> (nat \<rightharpoonup> nat) op" where
  "unread_for_user uid =
     on_ok (wrapped ''select unread counters'') (select (unread_map uid)) return"

definition zero_counter :: "time \<Rightarrow> nat \<Rightarrow> nat \<Rightarrow> unread_counter list \<Rightarrow> unread_counter list" where
  "zero_counter now conv uid rows =
     (if list_ex (\<lambda>r. n_conversation_id r = conv \<and> n_user_id r = uid) rows
      then map (\<lambda>r. if n_conversation_id r = conv \<and> n_user_id r = uid
             then r\<lparr>n_unread_count := 0, n_updated_at := now\<rparr> else r) rows
      else rows @ [\<lparr>n_conversation_id = conv, n_user_id = uid, n_unread_count = 0,
                    n_last_seq = 0, n_updated_at = now\<rparr>])"

definition mark_read_stmt :: "time \<Rightarrow> nat \<Rightarrow> nat \<Rightarrow> unit stmt" where
  "mark_read_stmt now conv uid = stmt (\<lambda>d.
     if conv \<notin> c_id ` set (conversations (tbl d)) \<or> uid \<notin> u_id ` set (users (tbl d))
     then (Inl ForeignKeyViolated, d)
     else (Inr (), d\<lparr>tbl := (tbl d)\<lparr>unread := zero_counter now conv uid (unread (tbl d))\<rparr>\<rparr>))"

definition mark_conversation_read :: "time \<Rightarrow> nat \<Rightarrow> nat \<Rightarrow> unit op" where
  "mark_conversation_read now conv uid =
     on_ok (wrapped ''mark conversation read'') (mark_read_stmt now conv uid) return"

section \<open>The count of one member\<close>

text \<open>The number a member's badge shows for a room: the row's, or zero when there is none.\<close>

definition count_in :: "unread_counter list \<Rightarrow> nat \<Rightarrow> nat \<Rightarrow> nat" where
  "count_in rows conv uid =
     (case find (\<lambda>r. n_conversation_id r = conv \<and> n_user_id r = uid) rows of
        None \<Rightarrow> 0 | Some r \<Rightarrow> n_unread_count r)"

lemma find_map_key:
  assumes "\<And>r. P (f r) = P r"
  shows "find P (map f rows) = map_option f (find P rows)"
  using assms by (induction rows) auto

lemma find_append: "find P (xs @ ys) = (case find P xs of None \<Rightarrow> find P ys | Some x \<Rightarrow> Some x)"
  by (induction xs) auto

lemma count_bump:
  "count_in (bump_counter now conv n uid rows) c u =
     (if c = conv \<and> u = uid then count_in rows c u + 1 else count_in rows c u)"
proof (cases "list_ex (\<lambda>r. n_conversation_id r = conv \<and> n_user_id r = uid) rows")
  case True
  then have "find (\<lambda>r. n_conversation_id r = conv \<and> n_user_id r = uid) rows \<noteq> None"
    by (auto simp: find_None_iff list_ex_iff)
  then show ?thesis using True
    by (auto simp: bump_counter_def count_in_def find_map_key split: option.splits
        dest: find_Some_set)
next
  case False
  then have "find (\<lambda>r. n_conversation_id r = conv \<and> n_user_id r = uid) rows = None"
    by (auto simp: find_None_iff list_ex_iff)
  with False show ?thesis
    by (auto simp: bump_counter_def count_in_def find_append split: option.splits)
qed

lemma count_bumps:
  "distinct us \<Longrightarrow> count_in (fold (bump_counter now conv n) us rows) c u =
     (if c = conv \<and> u \<in> set us then count_in rows c u + 1 else count_in rows c u)"
  by (induction us arbitrary: rows) (auto simp: count_bump)

lemma count_zero:
  "count_in (zero_counter now conv uid rows) c u =
     (if c = conv \<and> u = uid then 0 else count_in rows c u)"
proof (cases "list_ex (\<lambda>r. n_conversation_id r = conv \<and> n_user_id r = uid) rows")
  case True
  then have "find (\<lambda>r. n_conversation_id r = conv \<and> n_user_id r = uid) rows \<noteq> None"
    by (auto simp: find_None_iff list_ex_iff)
  then show ?thesis using True
    by (auto simp: zero_counter_def count_in_def find_map_key split: option.splits
        dest: find_Some_set)
next
  case False
  then have "find (\<lambda>r. n_conversation_id r = conv \<and> n_user_id r = uid) rows = None"
    by (auto simp: find_None_iff list_ex_iff)
  with False show ?thesis
    by (auto simp: zero_counter_def count_in_def find_append split: option.splits)
qed

section \<open>What the operations do\<close>

definition unread_of :: "tables \<Rightarrow> nat \<Rightarrow> nat \<Rightarrow> nat" where
  "unread_of t = count_in (unread t)"

text \<open>The tables after a delivery was applied.\<close>

definition applied :: "time \<Rightarrow> nat \<Rightarrow> nat \<Rightarrow> nat \<Rightarrow> nat \<Rightarrow> tables \<Rightarrow> tables" where
  "applied now i conv sender n t =
     (if is_consumed t i then t
      else t\<lparr>consumed := consumed t @
              [\<lparr>k_consumer = unread_consumer, k_message_id = i, k_consumed_at = now\<rparr>],
             unread := fold (bump_counter now conv n) (recipients t conv sender) (unread t)\<rparr>)"

lemma unread_tx_Inr:
  assumes "unread_tx now i conv sender n d = (Inr x, d')"
  shows "tbl d' = applied now i conv sender n (tbl d) \<and> seqs d' = seqs d
    \<and> x = (if is_consumed (tbl d) i then 0 else length (recipients (tbl d) conv sender))"
  using assms unfolding unread_tx_def claim_message_def bump_counters_def
  by (auto simp: return_def applied_def recipients_def dest!: exec_count_cases
      elim!: on_ok_cases split: if_splits)

lemma unread_tx_seqs: "unread_tx now i conv sender n d = (r, d') \<Longrightarrow> seqs d' = seqs d"
  unfolding unread_tx_def claim_message_def bump_counters_def
  by (auto simp: return_def dest!: exec_count_cases elim!: on_ok_cases split: if_splits)

lemma apply_unread_cases:
  assumes "apply_unread now i conv sender n d = (r, d')"
  shows "seqs d' = seqs d \<and> (tbl d' = tbl d \<and> (\<exists>e. r = Inl e)
    \<or> tbl d' = applied now i conv sender n (tbl d)
      \<and> (\<forall>x. r = Inr x \<longrightarrow> x = (if is_consumed (tbl d) i then 0
                                   else length (recipients (tbl d) conv sender))))"
proof -
  obtain s d1 where tx: "transaction (unread_tx now i conv sender n) d = (s, d1)" by fastforce
  have r: "d' = d1" "r = (case s of Inl e \<Rightarrow> Inl (Wrap ''apply unread'' e) | Inr x \<Rightarrow> Inr x)"
    using assms tx by (auto simp: apply_unread_def split: sum.splits)
  from tx show ?thesis
  proof (cases rule: transaction_cases)
    case (no_begin e)
    with r show ?thesis by simp
  next
    case (aborted d1' d2 e)
    with r unread_tx_seqs [OF aborted(3)] show ?thesis by simp
  next
    case (refused d1' d2 x)
    with r unread_tx_seqs [OF refused(3)] show ?thesis by simp
  next
    case (committed d1' d2 x)
    with r unread_tx_Inr [OF committed(3)] show ?thesis by auto
  qed
qed

lemma applied_consumed: "is_consumed (applied now i conv sender n t) j \<longleftrightarrow> is_consumed t j \<or> j = i"
  by (auto simp: applied_def is_consumed_def)

lemma applied_members [simp]: "members (applied now i conv sender n t) = members t"
  "users (applied now i conv sender n t) = users t"
  "conversations (applied now i conv sender n t) = conversations t"
  "messages (applied now i conv sender n t) = messages t"
  "outbox (applied now i conv sender n t) = outbox t"
  "tokens (applied now i conv sender n t) = tokens t"
  by (simp_all add: applied_def)

lemma recipients_distinct:
  assumes "distinct (map (\<lambda>m. (cm_conversation_id m, cm_user_id m)) (members t))"
  shows "distinct (recipients t conv sender)"
proof -
  have "inj_on cm_user_id (set (filter (\<lambda>m. cm_conversation_id m = conv \<and> cm_user_id m \<noteq> sender)
          (members t)))"
    using assms by (auto simp: distinct_map inj_on_def)
  then show ?thesis
    using assms by (auto simp: recipients_def distinct_map)
qed

lemma recipients_iff: "u \<in> set (recipients t conv sender) \<longleftrightarrow> has_member t conv u \<and> u \<noteq> sender"
  by (auto simp: recipients_def has_member_def list_ex_iff image_iff)

lemma unread_applied:
  assumes "distinct (map (\<lambda>m. (cm_conversation_id m, cm_user_id m)) (members t))"
  shows "unread_of (applied now i conv sender n t) c u = unread_of t c u +
    (if \<not> is_consumed t i \<and> c = conv \<and> has_member t conv u \<and> u \<noteq> sender then 1 else 0)"
  using count_bumps [OF recipients_distinct [OF assms, of conv sender]]
  by (auto simp: applied_def unread_of_def recipients_iff)

lemma mark_read_effect:
  assumes "mark_conversation_read now conv uid d = (r, d')"
  shows "seqs d' = seqs d \<and> (tbl d' = tbl d \<and> r \<noteq> Inr ()
    \<or> conv \<in> c_id ` set (conversations (tbl d)) \<and> uid \<in> u_id ` set (users (tbl d))
      \<and> tbl d' = (tbl d)\<lparr>unread := zero_counter now conv uid (unread (tbl d))\<rparr>)"
proof -
  from assms obtain r0 where "mark_read_stmt now conv uid d = (r0, d')"
    "r = Inr () \<longleftrightarrow> r0 = Inr ()"
    unfolding mark_conversation_read_def by (auto simp: return_def elim!: on_ok_cases)
  then show ?thesis unfolding mark_read_stmt_def
    by (auto elim!: stmt_cases split: if_splits)
qed

lemma delete_consumed_effect:
  assumes "delete_consumed_before t d = (r, d')"
  shows "seqs d' = seqs d \<and> (tbl d' = tbl d
    \<or> tbl d' = (tbl d)\<lparr>consumed := filter (\<lambda>k. \<not> k_consumed_at k < t) (consumed (tbl d))\<rparr>)"
  using assms unfolding delete_consumed_before_def
  by (auto simp: return_def dest!: exec_count_cases elim!: on_ok_cases)

lemma unread_for_user_reads [reads_rules]: "reads (unread_for_user uid)"
  unfolding unread_for_user_def by (intro reads_rules)

lemma unread_grows [grows_rules]: "grows (unread_for_user uid)"
  "grows (apply_unread now i conv sender n)" "grows (mark_conversation_read now conv uid)"
  "grows (delete_consumed_before t)"
proof -
  show "grows (unread_for_user uid)"
    unfolding unread_for_user_def by (intro grows_rules)
  show "grows (apply_unread now i conv sender n)"
    by (rule growsI) (auto dest: apply_unread_cases)
  show "grows (mark_conversation_read now conv uid)"
    by (rule growsI) (auto dest: mark_read_effect)
  show "grows (delete_consumed_before t)"
    by (rule growsI) (auto dest: delete_consumed_effect)
qed

end
