(* ===== verification/Db_Invariant.thy ===== *)
theory Db_Invariant
  imports Db_Unread
begin

text \<open>
  \<open>db_ok\<close>, the invariant of the database: unique keys, foreign keys, ids below their sequence, the
  numbers of every room counting 1, 2, 3 with no hole, and the outbox telling of messages in the
  order they were written.
\<close>

definition accounts_ok :: "tables \<Rightarrow> sequences \<Rightarrow> bool" where
  "accounts_ok t s \<longleftrightarrow> distinct (map u_id (users t)) \<and> distinct (map u_username (users t))
     \<and> (\<forall>u \<in> set (users t). u_id u < next_user s \<and> u_deleted_at u = None)"

definition tokens_ok :: "tables \<Rightarrow> sequences \<Rightarrow> bool" where
  "tokens_ok t s \<longleftrightarrow> distinct (map rt_token_hash (tokens t))
     \<and> (\<forall>k \<in> set (tokens t). rt_user_id k \<in> u_id ` set (users t))"

definition rooms_ok :: "tables \<Rightarrow> sequences \<Rightarrow> bool" where
  "rooms_ok t s \<longleftrightarrow> distinct (map c_id (conversations t))
     \<and> (\<forall>c \<in> set (conversations t). 0 < c_id c \<and> c_id c < next_conversation s \<and> c_deleted_at c = None)
     \<and> 0 < next_conversation s"

definition members_ok :: "tables \<Rightarrow> sequences \<Rightarrow> bool" where
  "members_ok t s \<longleftrightarrow> distinct (map (\<lambda>m. (cm_conversation_id m, cm_user_id m)) (members t))
     \<and> distinct (map cm_id (members t))
     \<and> (\<forall>m \<in> set (members t). cm_id m < next_member s
          \<and> cm_conversation_id m \<in> c_id ` set (conversations t)
          \<and> cm_user_id m \<in> u_id ` set (users t))"

definition in_room :: "nat \<Rightarrow> tables \<Rightarrow> message list" where
  "in_room conv t = filter (\<lambda>m. m_conversation_id m = conv) (messages t)"

definition messages_ok :: "tables \<Rightarrow> sequences \<Rightarrow> bool" where
  "messages_ok t s \<longleftrightarrow> sorted_wrt (<) (map m_id (messages t))
     \<and> (\<forall>m \<in> set (messages t). m_id m < next_message s \<and> m_deleted_at m = None
          \<and> (\<forall>k. m_client_msg_id m = Some k \<longrightarrow> rune_count k \<le> 64)
          \<and> m_conversation_id m \<in> c_id ` set (conversations t)
          \<and> m_sender_id m \<in> u_id ` set (users t))
     \<and> (\<forall>m \<in> set (messages t). \<forall>m' \<in> set (messages t).
          m_conversation_id m = m_conversation_id m' \<and> m_sender_id m = m_sender_id m'
          \<and> m_client_msg_id m = m_client_msg_id m' \<and> m_client_msg_id m \<noteq> None \<longrightarrow> m = m')"

text \<open>The numbers of a room, in the order its messages were written.\<close>

definition numbers_ok :: "tables \<Rightarrow> bool" where
  "numbers_ok t \<longleftrightarrow> (\<forall>c \<in> set (conversations t).
     map m_seq (in_room (c_id c) t) = [1..<Suc (c_last_seq c)])"

definition tells :: "outbox_row \<Rightarrow> message \<Rightarrow> bool" where
  "tells w m \<longleftrightarrow> o_topic w = topic_message_created
     \<and> (\<exists>name. encode_event (event_of m name) = Some (o_payload w))"

definition outbox_ok :: "tables \<Rightarrow> sequences \<Rightarrow> bool" where
  "outbox_ok t s \<longleftrightarrow> sorted_wrt (<) (map o_id (outbox t))
     \<and> (\<forall>w \<in> set (outbox t). o_id w < next_outbox s)
     \<and> (\<exists>ms. subseq ms (messages t) \<and> list_all2 tells (outbox t) ms)"

definition unread_ok :: "tables \<Rightarrow> bool" where
  "unread_ok t \<longleftrightarrow> distinct (map (\<lambda>r. (n_conversation_id r, n_user_id r)) (unread t))
     \<and> distinct (map (\<lambda>k. (k_consumer k, k_message_id k)) (consumed t))"

definition db_ok :: "db \<Rightarrow> bool" where
  "db_ok d \<longleftrightarrow> accounts_ok (tbl d) (seqs d) \<and> tokens_ok (tbl d) (seqs d)
     \<and> rooms_ok (tbl d) (seqs d) \<and> members_ok (tbl d) (seqs d) \<and> messages_ok (tbl d) (seqs d)
     \<and> numbers_ok (tbl d) \<and> outbox_ok (tbl d) (seqs d) \<and> unread_ok (tbl d)"

lemmas ok_defs = accounts_ok_def tokens_ok_def rooms_ok_def members_ok_def messages_ok_def
  numbers_ok_def outbox_ok_def unread_ok_def in_room_def

lemma db_ok_fresh: "db_ok fresh_db"
  by (simp add: db_ok_def ok_defs fresh_db_def empty_tables_def)

end
