(* ===== verification/Db_Migrations.thy ===== *)
theory Db_Migrations
  imports Db_Tables
begin

text \<open>
  The migrations of \<open>internal/database/migrations\<close>, one function up and one down for each file, on the
  tables as they are at each version. Every migration runs in a transaction of its own, so one that is
  refused leaves the version before it. A table that is dropped takes its id sequence with it.
\<close>

section \<open>The tables at each version\<close>

text \<open>Version 1: a room has one owner and maybe no title, a message a role and no sender.\<close>

record old_room =
  or_id :: nat
  or_created_at :: time
  or_updated_at :: time
  or_deleted_at :: "time option"
  or_user_id :: nat
  or_title :: "string option"

record old_message =
  om_id :: nat
  om_created_at :: time
  om_updated_at :: time
  om_deleted_at :: "time option"
  om_conversation_id :: nat
  om_role :: string
  om_content :: string

record schema1 =
  s1_users :: "user list"
  s1_rooms :: "old_room list"
  s1_messages :: "old_message list"
  s1_next_user :: nat
  s1_next_room :: nat
  s1_next_message :: nat

text \<open>Version 2: members and senders. Version 3: sessions. Neither numbers the messages.\<close>

record plain_room =
  pr_id :: nat
  pr_created_at :: time
  pr_updated_at :: time
  pr_deleted_at :: "time option"
  pr_title :: string
  pr_created_by_id :: nat

record plain_message =
  pm_id :: nat
  pm_created_at :: time
  pm_updated_at :: time
  pm_deleted_at :: "time option"
  pm_conversation_id :: nat
  pm_sender_id :: nat
  pm_client_msg_id :: "string option"
  pm_content :: string

record schema2 =
  s2_users :: "user list"
  s2_rooms :: "plain_room list"
  s2_members :: "conversation_member list"
  s2_messages :: "plain_message list"
  s2_next_user :: nat
  s2_next_room :: nat
  s2_next_member :: nat
  s2_next_message :: nat

record schema3 = schema2 +
  s3_tokens :: "refresh_token list"
  s3_next_token :: nat

text \<open>Version 4: numbers. Version 5: the outbox, without its trace, and the counters.\<close>

record schema4 =
  s4_users :: "user list"
  s4_rooms :: "conversation list"
  s4_members :: "conversation_member list"
  s4_messages :: "message list"
  s4_tokens :: "refresh_token list"
  s4_next_user :: nat
  s4_next_room :: nat
  s4_next_member :: nat
  s4_next_message :: nat
  s4_next_token :: nat

record untraced_row =
  ut_id :: nat
  ut_topic :: string
  ut_payload :: json
  ut_created_at :: time
  ut_published_at :: "time option"
  ut_attempts :: nat
  ut_last_error :: "string option"

record schema5 = schema4 +
  s5_outbox :: "untraced_row list"
  s5_consumed :: "consumed_message list"
  s5_unread :: "unread_counter list"
  s5_next_outbox :: nat

text \<open>Version 0 is a database goose has not seen: an empty one, or one that AutoMigrate built.\<close>

datatype schema =
    V0 "schema1 option"
  | V1 schema1
  | V2 schema2
  | V3 schema3
  | V4 schema4
  | V5 schema5
  | V6 tables sequences

fun schema_version :: "schema \<Rightarrow> nat" where
  "schema_version (V0 _) = 0"
| "schema_version (V1 _) = 1"
| "schema_version (V2 _) = 2"
| "schema_version (V3 _) = 3"
| "schema_version (V4 _) = 4"
| "schema_version (V5 _) = 5"
| "schema_version (V6 _ _) = 6"

text \<open>Why Postgres refuses a migration.\<close>

datatype refusal = Null_Value | Not_Unique

section \<open>00001: the baseline\<close>

definition up1 :: "schema1 option \<Rightarrow> schema1" where
  "up1 found = (case found of
     None \<Rightarrow> \<lparr>s1_users = [], s1_rooms = [], s1_messages = [], s1_next_user = 1, s1_next_room = 1,
       s1_next_message = 1\<rparr>
   | Some s \<Rightarrow> s)"

definition down1 :: "schema1 \<Rightarrow> schema1 option" where
  "down1 s = None"

section \<open>00002: rooms and members\<close>

definition room_of_old :: "old_room \<Rightarrow> plain_room" where
  "room_of_old r = \<lparr>pr_id = or_id r, pr_created_at = or_created_at r, pr_updated_at = or_updated_at r,
     pr_deleted_at = or_deleted_at r,
     pr_title = (case or_title r of None \<Rightarrow> [] | Some s \<Rightarrow> s), pr_created_by_id = or_user_id r\<rparr>"

text \<open>\<open>INSERT INTO conversation_members ... SELECT id, user_id, now() FROM conversations\<close>.\<close>

definition owner_members :: "time \<Rightarrow> old_room list \<Rightarrow> conversation_member list" where
  "owner_members now rooms = map (\<lambda>(i, r). \<lparr>cm_id = i, cm_conversation_id = or_id r,
     cm_user_id = or_user_id r, cm_created_at = now\<rparr>) (enumerate 1 rooms)"

definition up2 :: "time \<Rightarrow> schema1 \<Rightarrow> refusal + schema2" where
  "up2 now s =
     (let ms = owner_members now (s1_rooms s) in
      if \<not> distinct (map (\<lambda>m. (cm_conversation_id m, cm_user_id m)) ms) then Inl Not_Unique
      else if s1_messages s \<noteq> [] then Inl Null_Value
      else Inr \<lparr>s2_users = s1_users s, s2_rooms = map room_of_old (s1_rooms s), s2_members = ms,
        s2_messages = [], s2_next_user = s1_next_user s, s2_next_room = s1_next_room s,
        s2_next_member = length ms + 1, s2_next_message = s1_next_message s\<rparr>)"

definition old_of_room :: "plain_room \<Rightarrow> old_room" where
  "old_of_room r = \<lparr>or_id = pr_id r, or_created_at = pr_created_at r, or_updated_at = pr_updated_at r,
     or_deleted_at = pr_deleted_at r, or_user_id = pr_created_by_id r, or_title = Some (pr_title r)\<rparr>"

definition old_of_message :: "plain_message \<Rightarrow> old_message" where
  "old_of_message m = \<lparr>om_id = pm_id m, om_created_at = pm_created_at m, om_updated_at = pm_updated_at m,
     om_deleted_at = pm_deleted_at m, om_conversation_id = pm_conversation_id m, om_role = ''user'',
     om_content = pm_content m\<rparr>"

definition down2 :: "schema2 \<Rightarrow> schema1" where
  "down2 s = \<lparr>s1_users = s2_users s, s1_rooms = map old_of_room (s2_rooms s),
     s1_messages = map old_of_message (s2_messages s), s1_next_user = s2_next_user s,
     s1_next_room = s2_next_room s, s1_next_message = s2_next_message s\<rparr>"

section \<open>00003: sessions\<close>

definition up3 :: "schema2 \<Rightarrow> schema3" where
  "up3 s = schema2.extend s \<lparr>s3_tokens = [], s3_next_token = 1\<rparr>"

definition down3 :: "schema3 \<Rightarrow> schema2" where
  "down3 s = schema2.truncate s"

section \<open>00004: numbers\<close>

text \<open>\<open>row_number() OVER (PARTITION BY conversation_id ORDER BY id)\<close>.\<close>

definition row_number :: "plain_message list \<Rightarrow> plain_message \<Rightarrow> nat" where
  "row_number ms m =
     length (filter (\<lambda>x. pm_conversation_id x = pm_conversation_id m \<and> pm_id x \<le> pm_id m) ms)"

definition numbered :: "plain_message list \<Rightarrow> plain_message \<Rightarrow> message" where
  "numbered ms m = \<lparr>m_id = pm_id m, m_created_at = pm_created_at m, m_updated_at = pm_updated_at m,
     m_deleted_at = pm_deleted_at m, m_conversation_id = pm_conversation_id m,
     m_sender_id = pm_sender_id m, m_client_msg_id = pm_client_msg_id m, m_seq = row_number ms m,
     m_content = pm_content m\<rparr>"

text \<open>\<open>COALESCE((SELECT max(m.seq) FROM messages m WHERE m.conversation_id = c.id), 0)\<close>.\<close>

definition highest_seq :: "message list \<Rightarrow> nat \<Rightarrow> nat" where
  "highest_seq ms conv = fold max (map m_seq (filter (\<lambda>m. m_conversation_id m = conv) ms)) 0"

definition counted_room :: "message list \<Rightarrow> plain_room \<Rightarrow> conversation" where
  "counted_room ms r = \<lparr>c_id = pr_id r, c_created_at = pr_created_at r, c_updated_at = pr_updated_at r,
     c_deleted_at = pr_deleted_at r, c_title = pr_title r, c_created_by_id = pr_created_by_id r,
     c_last_seq = highest_seq ms (pr_id r)\<rparr>"

definition up4 :: "schema3 \<Rightarrow> refusal + schema4" where
  "up4 s =
     (let ms = map (numbered (s2_messages s)) (s2_messages s) in
      if \<not> distinct (map (\<lambda>m. (m_conversation_id m, m_seq m)) ms) then Inl Not_Unique
      else Inr \<lparr>s4_users = s2_users s, s4_rooms = map (counted_room ms) (s2_rooms s),
        s4_members = s2_members s, s4_messages = ms, s4_tokens = s3_tokens s,
        s4_next_user = s2_next_user s, s4_next_room = s2_next_room s,
        s4_next_member = s2_next_member s, s4_next_message = s2_next_message s,
        s4_next_token = s3_next_token s\<rparr>)"

definition uncounted_room :: "conversation \<Rightarrow> plain_room" where
  "uncounted_room c = \<lparr>pr_id = c_id c, pr_created_at = c_created_at c, pr_updated_at = c_updated_at c,
     pr_deleted_at = c_deleted_at c, pr_title = c_title c, pr_created_by_id = c_created_by_id c\<rparr>"

definition unnumbered :: "message \<Rightarrow> plain_message" where
  "unnumbered m = \<lparr>pm_id = m_id m, pm_created_at = m_created_at m, pm_updated_at = m_updated_at m,
     pm_deleted_at = m_deleted_at m, pm_conversation_id = m_conversation_id m,
     pm_sender_id = m_sender_id m, pm_client_msg_id = m_client_msg_id m, pm_content = m_content m\<rparr>"

definition down4 :: "schema4 \<Rightarrow> schema3" where
  "down4 s = \<lparr>s2_users = s4_users s, s2_rooms = map uncounted_room (s4_rooms s),
     s2_members = s4_members s, s2_messages = map unnumbered (s4_messages s),
     s2_next_user = s4_next_user s, s2_next_room = s4_next_room s,
     s2_next_member = s4_next_member s, s2_next_message = s4_next_message s,
     s3_tokens = s4_tokens s, s3_next_token = s4_next_token s\<rparr>"

section \<open>00005 and 00006: the outbox, the counters, the trace\<close>

definition up5 :: "schema4 \<Rightarrow> schema5" where
  "up5 s = schema4.extend s \<lparr>s5_outbox = [], s5_consumed = [], s5_unread = [], s5_next_outbox = 1\<rparr>"

definition down5 :: "schema5 \<Rightarrow> schema4" where
  "down5 s = schema4.truncate s"

definition with_trace :: "untraced_row \<Rightarrow> outbox_row" where
  "with_trace w = \<lparr>o_id = ut_id w, o_topic = ut_topic w, o_payload = ut_payload w, o_trace_context = None,
     o_created_at = ut_created_at w, o_published_at = ut_published_at w, o_attempts = ut_attempts w,
     o_last_error = ut_last_error w\<rparr>"

definition without_trace :: "outbox_row \<Rightarrow> untraced_row" where
  "without_trace w = \<lparr>ut_id = o_id w, ut_topic = o_topic w, ut_payload = o_payload w,
     ut_created_at = o_created_at w, ut_published_at = o_published_at w, ut_attempts = o_attempts w,
     ut_last_error = o_last_error w\<rparr>"

definition up6 :: "schema5 \<Rightarrow> tables \<times> sequences" where
  "up6 s =
     (\<lparr>users = s4_users s, conversations = s4_rooms s, members = s4_members s, messages = s4_messages s,
       outbox = map with_trace (s5_outbox s), consumed = s5_consumed s, unread = s5_unread s,
       tokens = s4_tokens s\<rparr>,
      \<lparr>next_user = s4_next_user s, next_conversation = s4_next_room s, next_member = s4_next_member s,
       next_message = s4_next_message s, next_outbox = s5_next_outbox s, next_token = s4_next_token s\<rparr>)"

definition down6 :: "tables \<Rightarrow> sequences \<Rightarrow> schema5" where
  "down6 t q = \<lparr>s4_users = users t, s4_rooms = conversations t, s4_members = members t,
     s4_messages = messages t, s4_tokens = tokens t, s4_next_user = next_user q,
     s4_next_room = next_conversation q, s4_next_member = next_member q, s4_next_message = next_message q,
     s4_next_token = next_token q, s5_outbox = map without_trace (outbox t), s5_consumed = consumed t,
     s5_unread = unread t, s5_next_outbox = next_outbox q\<rparr>"

section \<open>One step, and all that are pending\<close>

fun step_up :: "time \<Rightarrow> schema \<Rightarrow> refusal + schema" where
  "step_up now (V0 found) = Inr (V1 (up1 found))"
| "step_up now (V1 s) = map_sum id V2 (up2 now s)"
| "step_up now (V2 s) = Inr (V3 (up3 s))"
| "step_up now (V3 s) = map_sum id V4 (up4 s)"
| "step_up now (V4 s) = Inr (V5 (up5 s))"
| "step_up now (V5 s) = Inr (case up6 s of (t, q) \<Rightarrow> V6 t q)"
| "step_up now (V6 t q) = Inr (V6 t q)"

fun step_down :: "schema \<Rightarrow> schema" where
  "step_down (V0 found) = V0 found"
| "step_down (V1 s) = V0 (down1 s)"
| "step_down (V2 s) = V1 (down2 s)"
| "step_down (V3 s) = V2 (down3 s)"
| "step_down (V4 s) = V3 (down4 s)"
| "step_down (V5 s) = V4 (down5 s)"
| "step_down (V6 t q) = V5 (down6 t q)"

definition latest :: nat where "latest = 6"

text \<open>The next \<open>n\<close> migrations up, stopping at one that is refused, and where that leaves the database.\<close>

fun steps_up :: "time \<Rightarrow> nat \<Rightarrow> schema \<Rightarrow> refusal option \<times> schema" where
  "steps_up now 0 s = (None, s)"
| "steps_up now (Suc n) s =
     (case step_up now s of Inl e \<Rightarrow> (Some e, s) | Inr s' \<Rightarrow> steps_up now n s')"

definition all_up :: "time \<Rightarrow> schema \<Rightarrow> refusal option \<times> schema" where
  "all_up now s = steps_up now (latest - schema_version s) s"

lemma step_up_version: "step_up now s = Inr s' \<Longrightarrow> schema_version s < latest \<Longrightarrow> schema_version s' = Suc (schema_version s)"
  by (cases "(now, s)" rule: step_up.cases) (auto simp: latest_def map_sum_def split: prod.splits sum.splits)

lemma all_up_latest [simp]: "all_up now (V6 t q) = (None, V6 t q)"
  by (simp add: all_up_def latest_def)

lemma all_up_step:
  "schema_version s < latest \<Longrightarrow>
     all_up now s = (case step_up now s of Inl e \<Rightarrow> (Some e, s) | Inr s' \<Rightarrow> all_up now s')"
proof -
  assume less: "schema_version s < latest"
  then obtain n where n: "latest - schema_version s = Suc n" using zero_less_diff by (metis gr0_implies_Suc)
  show ?thesis
  proof (cases "step_up now s")
    case (Inr s')
    with step_up_version [OF Inr less] n have "latest - schema_version s' = n" by simp
    with Inr n show ?thesis by (simp add: all_up_def)
  qed (simp add: all_up_def n)
qed

lemma fresh_from_nothing: "all_up now (V0 None) = (None, V6 (tbl fresh_db) (seqs fresh_db))"
  by (simp add: all_up_def latest_def numeral_eq_Suc up1_def up2_def up3_def up4_def up5_def up6_def
      owner_members_def fresh_db_def empty_tables_def schema2.defs schema4.defs)

end
