(* ===== verification/Db_Migrated.thy ===== *)
theory Db_Migrated
  imports Db_Invariant Db_Migrations
begin

text \<open>
  What the migrations do to a database that has been used. A legacy database is one of versions 0 to
  3, from before messages had numbers, that keeps what its own constraints say and in which nothing
  was deleted softly. The backfill numbers its rooms as if the program had written them, so what comes
  out satisfies the invariant; rolling back and coming up again keeps what the older tables hold.
\<close>

section \<open>Legacy databases\<close>

definition people_ok :: "user list \<Rightarrow> nat \<Rightarrow> bool" where
  "people_ok us n \<longleftrightarrow> distinct (map u_id us) \<and> distinct (map u_username us)
     \<and> (\<forall>u \<in> set us. u_id u < n \<and> u_deleted_at u = None)"

definition legacy1 :: "schema1 \<Rightarrow> bool" where
  "legacy1 s \<longleftrightarrow> people_ok (s1_users s) (s1_next_user s) \<and> distinct (map or_id (s1_rooms s)) \<and> 0 < s1_next_room s
     \<and> (\<forall>r \<in> set (s1_rooms s). 0 < or_id r \<and> or_id r < s1_next_room s \<and> or_deleted_at r = None
          \<and> or_user_id r \<in> u_id ` set (s1_users s))"

definition legacy2 :: "'z schema2_scheme \<Rightarrow> bool" where
  "legacy2 s \<longleftrightarrow> people_ok (s2_users s) (s2_next_user s) \<and> distinct (map pr_id (s2_rooms s)) \<and> 0 < s2_next_room s
     \<and> (\<forall>r \<in> set (s2_rooms s). 0 < pr_id r \<and> pr_id r < s2_next_room s \<and> pr_deleted_at r = None)
     \<and> distinct (map (\<lambda>m. (cm_conversation_id m, cm_user_id m)) (s2_members s)) \<and> distinct (map cm_id (s2_members s))
     \<and> (\<forall>m \<in> set (s2_members s). cm_id m < s2_next_member s \<and> cm_conversation_id m \<in> pr_id ` set (s2_rooms s)
          \<and> cm_user_id m \<in> u_id ` set (s2_users s))
     \<and> sorted_wrt (<) (map pm_id (s2_messages s))
     \<and> (\<forall>m \<in> set (s2_messages s). pm_id m < s2_next_message s \<and> pm_deleted_at m = None
          \<and> (\<forall>k. pm_client_msg_id m = Some k \<longrightarrow> rune_count k \<le> 64)
          \<and> pm_conversation_id m \<in> pr_id ` set (s2_rooms s) \<and> pm_sender_id m \<in> u_id ` set (s2_users s))
     \<and> (\<forall>m \<in> set (s2_messages s). \<forall>m' \<in> set (s2_messages s).
          pm_conversation_id m = pm_conversation_id m' \<and> pm_sender_id m = pm_sender_id m'
          \<and> pm_client_msg_id m = pm_client_msg_id m' \<and> pm_client_msg_id m \<noteq> None \<longrightarrow> m = m')"

definition legacy3 :: "schema3 \<Rightarrow> bool" where
  "legacy3 s \<longleftrightarrow> legacy2 s \<and> distinct (map rt_token_hash (s3_tokens s))
     \<and> (\<forall>k \<in> set (s3_tokens s). rt_user_id k \<in> u_id ` set (s2_users s))"

definition legacy :: "schema \<Rightarrow> bool" where
  "legacy s = (case s of
     V0 None \<Rightarrow> True | V0 (Some s) \<Rightarrow> legacy1 s | V1 s \<Rightarrow> legacy1 s | V2 s \<Rightarrow> legacy2 s | V3 s \<Rightarrow> legacy3 s | _ \<Rightarrow> False)"

section \<open>Rows in the order of their ids are numbered by their place\<close>

lemma filter_up_to:
  assumes "sorted_wrt (<) (map f xs)" "i < length xs"
  shows "filter (\<lambda>x. f x \<le> (f (xs ! i) :: nat)) xs = take (Suc i) xs"
proof -
  have s: "f (xs ! j) < f (xs ! k)" if "j < k" "k < length xs" for j k
    using assms(1) that by (simp add: sorted_wrt_iff_nth_less)
  then have le: "f (xs ! j) \<le> f (xs ! k)" if "j \<le> k" "k < length xs" for j k
    using that by (cases "j = k") (auto intro: less_imp_le)
  have "filter (\<lambda>x. f x \<le> f (xs ! i)) (take (Suc i) xs) = take (Suc i) xs"
    using le assms(2) by (auto simp: filter_id_conv in_set_conv_nth)
  moreover have "filter (\<lambda>x. f x \<le> f (xs ! i)) (drop (Suc i) xs) = []"
    using s assms(2) by (auto simp: filter_empty_conv in_set_conv_nth not_le)
  ultimately show ?thesis
    by (metis append_Nil2 append_take_drop_id filter_append)
qed

lemma places: "sorted_wrt (<) (map f xs) \<Longrightarrow>
    map (\<lambda>x. length (filter (\<lambda>y. f y \<le> (f x :: nat)) xs)) xs = [1..<Suc (length xs)]"
  by (rule nth_equalityI) (simp_all add: filter_up_to del: upt_Suc)

lemma row_numbers:
  assumes "sorted_wrt (<) (map pm_id ms)"
  shows "map (row_number ms) (filter (\<lambda>m. pm_conversation_id m = c) ms)
    = [1..<Suc (length (filter (\<lambda>m. pm_conversation_id m = c) ms))]"
proof -
  let ?room = "filter (\<lambda>m. pm_conversation_id m = c) ms"
  have "map (row_number ms) ?room = map (\<lambda>x. length (filter (\<lambda>y. pm_id y \<le> pm_id x) ?room)) ?room"
    by (simp add: row_number_def conj_commute)
  also have "\<dots> = [1..<Suc (length ?room)]"
    using assms by (intro places) (simp add: sorted_wrt_map sorted_wrt_filter)
  finally show ?thesis .
qed

lemma fold_max_upt: "fold max [1..<Suc n] 0 = (n :: nat)"
  by (induction n) simp_all

lemma highest_of_numbers: "map m_seq (filter (\<lambda>m. m_conversation_id m = c) ms) = [1..<Suc n] \<Longrightarrow> highest_seq ms c = n"
  unfolding highest_seq_def by (simp only: fold_max_upt)

section \<open>Up\<close>

lemma legacy_up1: "legacy (V0 found) \<Longrightarrow> legacy1 (up1 found)"
  by (cases found) (simp_all add: legacy_def up1_def legacy1_def people_ok_def)

lemma owner_members_rooms: "map cm_conversation_id (owner_members now rooms) = map or_id rooms"
  "map cm_user_id (owner_members now rooms) = map or_user_id rooms"
  "map cm_id (owner_members now rooms) = [1..<Suc (length rooms)]"
proof -
  have *: "map (\<lambda>(i, r). g r) (enumerate n rooms) = map g rooms" for g :: "old_room \<Rightarrow> nat" and n
    by (metis (no_types, lifting) case_prod_beta' map_map map_snd_enumerate o_def map_eq_conv)
  show "map cm_conversation_id (owner_members now rooms) = map or_id rooms"
    "map cm_user_id (owner_members now rooms) = map or_user_id rooms"
    by (simp_all add: owner_members_def o_def case_prod_beta' flip: * [of _ 1])
  show "map cm_id (owner_members now rooms) = [1..<Suc (length rooms)]"
    by (simp add: owner_members_def o_def case_prod_beta' map_fst_enumerate [unfolded fst_def] del: upt_Suc)
qed

lemma owners_distinct:
  "distinct (map or_id rooms) \<Longrightarrow> distinct (map (\<lambda>m. (cm_conversation_id m, cm_user_id m)) (owner_members now rooms))"
  unfolding owner_members_rooms(1) [of now, symmetric] by (auto simp: distinct_map inj_on_def)

lemma legacy_up2:
  assumes "legacy1 s"
  shows "case up2 now s of
      Inl e \<Rightarrow> e = Null_Value \<and> s1_messages s \<noteq> []
    | Inr s' \<Rightarrow> legacy2 s' \<and> s1_messages s = [] \<and> s2_users s' = s1_users s \<and> s2_rooms s' = map room_of_old (s1_rooms s)
        \<and> s2_members s' = owner_members now (s1_rooms s)"
proof -
  let ?ms = "owner_members now (s1_rooms s)"
  have "distinct (map (\<lambda>m. (cm_conversation_id m, cm_user_id m)) ?ms)"
    using assms by (simp add: owners_distinct legacy1_def)
  moreover have "cm_id m < Suc (length (s1_rooms s)) \<and> cm_conversation_id m \<in> or_id ` set (s1_rooms s)
      \<and> cm_user_id m \<in> u_id ` set (s1_users s)" if "m \<in> set ?ms" for m
  proof -
    from that have "cm_id m \<in> set (map cm_id ?ms)" "cm_conversation_id m \<in> set (map cm_conversation_id ?ms)"
      "cm_user_id m \<in> set (map cm_user_id ?ms)" by simp_all
    then have "cm_id m \<in> set [1..<Suc (length (s1_rooms s))]" "cm_conversation_id m \<in> or_id ` set (s1_rooms s)"
      "cm_user_id m \<in> or_user_id ` set (s1_rooms s)"
      unfolding owner_members_rooms set_map .
    then show ?thesis using assms by (auto simp: legacy1_def)
  qed
  moreover have "distinct (map cm_id ?ms)" unfolding owner_members_rooms by (rule distinct_upt)
  moreover have "length ?ms = length (s1_rooms s)" by (simp add: owner_members_def)
  ultimately show ?thesis using assms
    by (auto simp: up2_def Let_def legacy1_def legacy2_def room_of_old_def o_def image_image)
qed

text \<open>The numbers a room has after the backfill, and where its counter starts.\<close>

lemma backfilled:
  assumes "sorted_wrt (<) (map pm_id ms)"
  shows "map m_seq (filter (\<lambda>m. m_conversation_id m = c) (map (numbered ms) ms))
      = [1..<Suc (highest_seq (map (numbered ms) ms) c)]"
    and "highest_seq (map (numbered ms) ms) c = length (filter (\<lambda>m. pm_conversation_id m = c) ms)"
proof -
  have "map m_seq (filter (\<lambda>m. m_conversation_id m = c) (map (numbered ms) ms))
      = map (row_number ms) (filter (\<lambda>m. pm_conversation_id m = c) ms)"
    by (simp add: filter_map o_def numbered_def)
  also have "\<dots> = [1..<Suc (length (filter (\<lambda>m. pm_conversation_id m = c) ms))]"
    using assms by (rule row_numbers)
  finally have *: "map m_seq (filter (\<lambda>m. m_conversation_id m = c) (map (numbered ms) ms))
      = [1..<Suc (length (filter (\<lambda>m. pm_conversation_id m = c) ms))]" .
  from highest_of_numbers [OF this] show n: "highest_seq (map (numbered ms) ms) c = length (filter (\<lambda>m. pm_conversation_id m = c) ms)" .
  from * show "map m_seq (filter (\<lambda>m. m_conversation_id m = c) (map (numbered ms) ms))
      = [1..<Suc (highest_seq (map (numbered ms) ms) c)]" unfolding n .
qed

text \<open>No two messages of a room get one number, so the unique index can be made.\<close>

lemma numbers_distinct:
  assumes "sorted_wrt (<) (map pm_id ms)"
  shows "distinct (map (\<lambda>m. (m_conversation_id m, m_seq m)) (map (numbered ms) ms))"
proof -
  have "x = y" if xy: "x \<in> set ms" "y \<in> set ms" "pm_conversation_id x = pm_conversation_id y" "row_number ms x = row_number ms y" for x y
  proof -
    let ?room = "filter (\<lambda>m. pm_conversation_id m = pm_conversation_id y) ms"
    have "distinct (map (row_number ms) ?room)" unfolding row_numbers [OF assms] by (rule distinct_upt)
    then have "inj_on (row_number ms) (set ?room)" by (simp add: distinct_map)
    then show ?thesis using xy by (auto dest: inj_onD)
  qed
  moreover have "distinct ms"
    using assms by (metis distinct_map strict_sorted_imp_sorted strict_sorted_iff)
  ultimately show ?thesis by (auto simp: distinct_map inj_on_def numbered_def)
qed

lemma numbered_simps [simp]: "unnumbered (numbered ms m) = m" "m_id (numbered ms m) = pm_id m"
  "m_conversation_id (numbered ms m) = pm_conversation_id m" "m_sender_id (numbered ms m) = pm_sender_id m"
  "m_deleted_at (numbered ms m) = pm_deleted_at m" "m_client_msg_id (numbered ms m) = pm_client_msg_id m"
  by (simp_all add: numbered_def unnumbered_def)

lemma counted_simps [simp]: "uncounted_room (counted_room ms r) = r" "c_id (counted_room ms r) = pr_id r"
  "c_deleted_at (counted_room ms r) = pr_deleted_at r" "c_last_seq (counted_room ms r) = highest_seq ms (pr_id r)"
  by (simp_all add: counted_room_def uncounted_room_def)

lemma legacy_up4:
  assumes "legacy3 s"
  shows "all_up now (V3 s) = (None, case up6 (up5 \<lparr>
        s4_users = s2_users s, s4_rooms = map (counted_room (map (numbered (s2_messages s)) (s2_messages s))) (s2_rooms s),
        s4_members = s2_members s, s4_messages = map (numbered (s2_messages s)) (s2_messages s), s4_tokens = s3_tokens s,
        s4_next_user = s2_next_user s, s4_next_room = s2_next_room s,
        s4_next_member = s2_next_member s, s4_next_message = s2_next_message s,
        s4_next_token = s3_next_token s\<rparr>) of (t, q) \<Rightarrow> V6 t q)"
proof -
  have "sorted_wrt (<) (map pm_id (s2_messages s))" using assms by (simp add: legacy3_def legacy2_def)
  from numbers_distinct [OF this] show ?thesis
    by (simp add: all_up_step latest_def up4_def Let_def del: map_map split: prod.split)
qed

lemma legacy3_ok:
  assumes "legacy3 s" "all_up now (V3 s) = (None, V6 t q)"
  shows "db_ok \<lparr>tbl = t, seqs = q, faults = fs\<rparr>"
proof -
  let ?ms = "map (numbered (s2_messages s)) (s2_messages s)"
  have sorted: "sorted_wrt (<) (map pm_id (s2_messages s))" using assms by (simp add: legacy3_def legacy2_def)
  from assms(2) [unfolded legacy_up4 [OF assms(1)]] have t:
    "users t = s2_users s" "conversations t = map (counted_room ?ms) (s2_rooms s)" "members t = s2_members s"
    "messages t = ?ms" "outbox t = []" "consumed t = []" "unread t = []" "tokens t = s3_tokens s"
    "next_user q = s2_next_user s" "next_conversation q = s2_next_room s" "next_member q = s2_next_member s"
    "next_message q = s2_next_message s" "next_outbox q = 1"
    by (auto simp: up6_def up5_def schema4.defs)
  note old = assms(1) [unfolded legacy3_def legacy2_def people_ok_def]
  have c: "c_id ` set (conversations t) = pr_id ` set (s2_rooms s)" by (simp add: t image_image)
  have "numbers_ok t" using backfilled(1) [OF sorted] by (simp add: numbers_ok_def in_room_def t del: map_map upt_Suc)
  moreover have "accounts_ok t q" using old by (simp add: accounts_ok_def t)
  moreover have "tokens_ok t q" using old by (simp add: tokens_ok_def t)
  moreover have "rooms_ok t q" using old by (simp add: rooms_ok_def t o_def)
  moreover have "members_ok t q" using old unfolding members_ok_def c by (simp add: t)
  moreover have "messages_ok t q" unfolding messages_ok_def c using old by (simp add: t o_def) (metis option.distinct(1))
  moreover have "outbox_ok t q" "unread_ok t" by (simp_all add: outbox_ok_def unread_ok_def t)
  ultimately show ?thesis by (simp add: db_ok_def)
qed

lemma legacy_up3: "legacy2 s \<Longrightarrow> legacy3 (up3 s)"
  by (simp add: legacy3_def legacy2_def up3_def schema2.defs) blast

lemma migrated_ok: "legacy s \<Longrightarrow> all_up now s = (None, V6 t q) \<Longrightarrow> db_ok \<lparr>tbl = t, seqs = q, faults = fs\<rparr>"
proof -
  have v2: "db_ok \<lparr>tbl = t, seqs = q, faults = fs\<rparr>" if "legacy2 s" "all_up now (V2 s) = (None, V6 t q)" for s
    using that legacy3_ok [OF legacy_up3] by (simp add: all_up_step [of "V2 s"] latest_def)
  have v1: "db_ok \<lparr>tbl = t, seqs = q, faults = fs\<rparr>" if "legacy1 s" "all_up now (V1 s) = (None, V6 t q)" for s
    using that(2) v2 legacy_up2 [OF that(1), of now] by (auto simp: all_up_step [of "V1 s"] latest_def split: sum.splits)
  have v0: "db_ok \<lparr>tbl = t, seqs = q, faults = fs\<rparr>" if "legacy (V0 s)" "all_up now (V0 s) = (None, V6 t q)" for s
    using that(2) v1 [OF legacy_up1 [OF that(1)]] by (simp add: all_up_step [of "V0 s"] latest_def)
  assume "legacy s" "all_up now s = (None, V6 t q)"
  then show ?thesis using v0 v1 v2 legacy3_ok by (cases s) (auto simp: legacy_def [of "V1 _"] legacy_def [of "V2 _"]
        legacy_def [of "V3 _"] legacy_def [of "V4 _"] legacy_def [of "V5 _"] legacy_def [of "V6 _ _"])
qed

end
