(* ===== verification/Db_System.thy ===== *)
theory Db_System
  imports Db_Migrated
begin

text \<open>
  The database as a state machine. \<open>db_step\<close> has one rule per writing operation of
  \<open>internal/database\<close>, each under any script of faults, and one for everything that only reads.
  It starts where the migrations leave a legacy database, which may be an empty one. Every step
  keeps the invariant \<open>db_ok\<close> of the theory \<open>Db_Invariant\<close>.
\<close>

section \<open>Steps\<close>

text \<open>
  Everything but the relay's mark: what requests, consumers, the janitor and the relay's notes do.
\<close>

inductive service_step :: "db \<Rightarrow> db \<Rightarrow> bool" where
  script: "service_step d (d\<lparr>faults := fs\<rparr>)"
| read: "reads f \<Longrightarrow> grows f \<Longrightarrow> f d = ((), d') \<Longrightarrow> service_step d d'"
| create_user: "create_user now name hash d = (r1, d') \<Longrightarrow> service_step d d'"
| create_token: "create_refresh_token now uid key expires d = (r2, d') \<Longrightarrow> service_step d d'"
| revoke: "revoke_refresh_token now key d = (r3, d') \<Longrightarrow> service_step d d'"
| purge: "purge_expired_refresh_tokens now uid d = (r3, d') \<Longrightarrow> service_step d d'"
| create_conversation: "create_conversation now title creator ids d = (r4, d') \<Longrightarrow> service_step d d'"
| add_member: "add_member now conv uid d = (r5, d') \<Longrightarrow> service_step d d'"
| create_message:
    "create_message now conv sender name content cid carrier d = (r6, d') \<Longrightarrow> service_step d d'"
| mark_failed: "mark_outbox_failed i reason d = (r3, d') \<Longrightarrow> service_step d d'"
| delete_published: "delete_outbox_published_before before d = (r7, d') \<Longrightarrow> service_step d d'"
| apply_unread: "apply_unread now i conv sender n d = (r7, d') \<Longrightarrow> service_step d d'"
| mark_read: "mark_conversation_read now conv uid d = (r3, d') \<Longrightarrow> service_step d d'"
| delete_consumed: "delete_consumed_before before d = (r7, d') \<Longrightarrow> service_step d d'"

inductive db_step :: "db \<Rightarrow> db \<Rightarrow> bool" where
  service: "service_step d d' \<Longrightarrow> db_step d d'"
| mark_published: "mark_outbox_published now rows d = (r3, d') \<Longrightarrow> db_step d d'"

inductive db_reachable :: "db \<Rightarrow> bool" where
  start: "legacy s \<Longrightarrow> all_up now s = (None, V6 t q) \<Longrightarrow> db_reachable \<lparr>tbl = t, seqs = q, faults = []\<rparr>"
| step: "db_reachable d \<Longrightarrow> db_step d d' \<Longrightarrow> db_reachable d'"

lemma fresh_reachable: "db_reachable fresh_db"
  using db_reachable.start [OF _ fresh_from_nothing] by (simp add: legacy_def fresh_db_def)

text \<open>Any reading operation is a step, whatever it answers.\<close>

lemma read_step:
  assumes "reads f" "grows f" "f d = (r, d')"
  shows "service_step d d'"
proof (rule service_step.read [where f = "\<lambda>d. ((), snd (f d))"])
  show "reads (\<lambda>d. ((), snd (f d)))" using assms(1) by (simp add: reads_def)
  show "grows (\<lambda>d. ((), snd (f d)))" using assms(2) by (simp add: grows_def)
  show "((), snd (f d)) = ((), d')" using assms(3) by simp
qed

section \<open>Every step keeps the invariant\<close>

lemma db_ok_same: "db_ok d \<Longrightarrow> tbl d' = tbl d \<Longrightarrow> seq_le (seqs d) (seqs d') \<Longrightarrow> db_ok d'"
  by (fastforce simp: db_ok_def ok_defs seq_le_def)

lemma create_user_keeps:
  assumes "db_ok d" "create_user now name hash d = (r, d')"
  shows "db_ok d'"
proof (cases "tbl d' = tbl d")
  case True
  with create_user_effect [OF assms(2)] db_ok_same assms(1) show ?thesis by blast
next
  case False
  with create_user_effect [OF assms(2)] obtain u where
    "u = user_row now (next_user (seqs d)) name hash"
    and t: "tbl d' = (tbl d)\<lparr>users := users (tbl d) @ [u]\<rparr>"
    and s: "seq_le (seqs d) (seqs d')" "next_user (seqs d) < next_user (seqs d')"
    and free: "name \<notin> u_username ` set (users (tbl d))"
    by (auto simp: username_taken_def)
  then have u: "u_id u = next_user (seqs d)" "u_username u = name" "u_deleted_at u = None"
    by (simp_all add: user_row_def)
  show ?thesis
    unfolding db_ok_def
  proof (intro conjI)
    show "accounts_ok (tbl d') (seqs d')"
      using assms(1) u s free by (fastforce simp: t db_ok_def accounts_ok_def seq_le_def)
    show "tokens_ok (tbl d') (seqs d')"
      using assms(1) by (fastforce simp: t db_ok_def tokens_ok_def)
    show "rooms_ok (tbl d') (seqs d')"
      using assms(1) s by (fastforce simp: t db_ok_def rooms_ok_def seq_le_def)
    show "members_ok (tbl d') (seqs d')"
      using assms(1) s by (fastforce simp: t db_ok_def members_ok_def seq_le_def)
    show "messages_ok (tbl d') (seqs d')"
      using assms(1) s by (fastforce simp: t db_ok_def messages_ok_def seq_le_def)
    show "outbox_ok (tbl d') (seqs d')"
      using assms(1) s by (fastforce simp: t db_ok_def outbox_ok_def seq_le_def)
  qed (use assms(1) in \<open>simp_all add: t db_ok_def numbers_ok_def unread_ok_def in_room_def\<close>)
qed

lemma tokens_only_keeps:
  assumes "db_ok d" "tbl d' = (tbl d)\<lparr>tokens := ks\<rparr>" "seq_le (seqs d) (seqs d')"
    and "tokens_ok (tbl d') (seqs d')"
  shows "db_ok d'"
  using assms by (fastforce simp: db_ok_def ok_defs seq_le_def)

lemma create_token_keeps:
  assumes "db_ok d" "create_refresh_token now uid key expires d = (r, d')"
  shows "db_ok d'"
proof (cases "tbl d' = tbl d")
  case True
  with create_token_effect [OF assms(2)] db_ok_same assms(1) show ?thesis by blast
next
  case False
  with create_token_effect [OF assms(2)] obtain k where
    "k = token_row now (next_token (seqs d)) uid key expires" and s: "seq_le (seqs d) (seqs d')"
    and free: "uid \<in> u_id ` set (users (tbl d))" "key \<notin> rt_token_hash ` set (tokens (tbl d))"
    and t: "tbl d' = (tbl d)\<lparr>tokens := tokens (tbl d) @ [k]\<rparr>"
    by auto
  then have "tokens_ok (tbl d') (seqs d')"
    using assms(1) by (auto simp: db_ok_def tokens_ok_def token_row_def)
  with tokens_only_keeps [OF assms(1) t s] show ?thesis .
qed

lemma revoke_row_simps [simp]: "rt_token_hash (revoke_row now key k) = rt_token_hash k"
  "rt_user_id (revoke_row now key k) = rt_user_id k"
  by (simp_all add: revoke_row_def)

lemma revoke_keeps:
  assumes "db_ok d" "revoke_refresh_token now key d = (r, d')"
  shows "db_ok d'"
proof -
  from revoke_effect [OF assms(2)] show ?thesis
  proof (elim conjE disjE)
    assume "tbl d' = (tbl d)\<lparr>tokens := map (revoke_row now key) (tokens (tbl d))\<rparr>" "seqs d' = seqs d"
    moreover from this have "tokens_ok (tbl d') (seqs d')"
      using assms(1) by (auto simp: db_ok_def tokens_ok_def comp_def)
    ultimately show ?thesis using tokens_only_keeps [OF assms(1)] by simp
  qed (use db_ok_same [OF assms(1)] in simp)
qed

lemma purge_keeps:
  assumes "db_ok d" "purge_expired_refresh_tokens now uid d = (r, d')"
  shows "db_ok d'"
proof -
  from purge_effect [OF assms(2)] show ?thesis
  proof (elim conjE disjE)
    assume "tbl d' = (tbl d)\<lparr>tokens := filter (\<lambda>k. \<not> dead_token now uid k) (tokens (tbl d))\<rparr>"
      "seqs d' = seqs d"
    moreover from this have "tokens_ok (tbl d') (seqs d')"
      using assms(1) by (auto simp: db_ok_def tokens_ok_def distinct_map_filter)
    ultimately show ?thesis using tokens_only_keeps [OF assms(1)] by simp
  qed (use db_ok_same [OF assms(1)] in simp)
qed

subsection \<open>Rooms and members\<close>

lemma create_conversation_keeps:
  assumes ok: "db_ok d" and run: "create_conversation now title creator member_ids d = (r, d')"
  shows "db_ok d'"
  using run
proof (cases rule: create_conversation_cases)
  case unchanged
  then show ?thesis using db_ok_same [OF ok] by simp
next
  case (everything ids c)
  let ?t = "tbl d" and ?s = "seqs d"
  have c: "c_id c = next_conversation ?s" "c_last_seq c = 0" "c_deleted_at c = None"
    using everything(2) by (simp_all add: room_row_def)
  have t: "users (tbl d') = users ?t" "tokens (tbl d') = tokens ?t" "messages (tbl d') = messages ?t"
    "outbox (tbl d') = outbox ?t" "unread (tbl d') = unread ?t" "consumed (tbl d') = consumed ?t"
    "conversations (tbl d') = conversations ?t @ [c]"
    "members (tbl d') = members ?t @ member_rows now (next_member ?s) (c_id c) ids"
    using everything(7) by (simp_all add: built_def)
  have fresh: "c_id c \<notin> c_id ` set (conversations ?t)"
    using ok c by (auto simp: db_ok_def rooms_ok_def)
  have fit: "distinct ids" "set ids \<subseteq> u_id ` set (users ?t)"
    using everything(6) by (auto simp: members_fit_def)
  have rows: "m \<in> set (member_rows now (next_member ?s) (c_id c) ids) \<Longrightarrow>
      cm_conversation_id m = c_id c \<and> cm_user_id m \<in> set ids
      \<and> next_member ?s \<le> cm_id m \<and> cm_id m < next_member ?s + length ids" for m
  proof -
    assume m: "m \<in> set (member_rows now (next_member ?s) (c_id c) ids)"
    then have "cm_user_id m \<in> set (map cm_user_id (member_rows now (next_member ?s) (c_id c) ids))"
      "cm_id m \<in> set (map cm_id (member_rows now (next_member ?s) (c_id c) ids))"
      by (simp_all only: set_map imageI)
    then show ?thesis using member_rows_conv [OF m]
      unfolding member_rows_users member_rows_ids by simp
  qed
  have old: "m \<in> set (members ?t) \<Longrightarrow> cm_conversation_id m \<noteq> c_id c \<and> cm_id m < next_member ?s" for m
  proof -
    assume "m \<in> set (members ?t)"
    with ok have "cm_conversation_id m \<in> c_id ` set (conversations ?t)" "cm_id m < next_member ?s"
      by (auto simp: db_ok_def members_ok_def)
    with fresh show ?thesis by metis
  qed
  have pairs: "map (\<lambda>m. (cm_conversation_id m, cm_user_id m))
      (member_rows now (next_member ?s) (c_id c) ids) = map (Pair (c_id c)) ids"
  proof -
    have "map (\<lambda>m. (cm_conversation_id m, cm_user_id m)) (member_rows now (next_member ?s) (c_id c) ids)
      = map (Pair (c_id c)) (map cm_user_id (member_rows now (next_member ?s) (c_id c) ids))"
      using member_rows_conv by (auto simp del: member_rows_users)
    then show ?thesis by simp
  qed
  have s: "seq_le ?s (seqs d')" "next_conversation ?s < next_conversation (seqs d')"
    "next_member ?s + length ids \<le> next_member (seqs d')"
    using everything(8-10) by auto
  show ?thesis
    unfolding db_ok_def
  proof (intro conjI)
    show "rooms_ok (tbl d') (seqs d')"
      using ok c s fresh by (fastforce simp: t db_ok_def rooms_ok_def seq_le_def)
    have "distinct (map (\<lambda>m. (cm_conversation_id m, cm_user_id m)) (members (tbl d')))"
      using ok fit(1) old unfolding t map_append pairs
      by (auto simp: db_ok_def members_ok_def distinct_map inj_on_def)
    moreover have "distinct (map cm_id (members (tbl d')))"
      using ok old unfolding t map_append member_rows_ids
      by (fastforce simp: db_ok_def members_ok_def)
    moreover have "\<forall>m \<in> set (members (tbl d')). cm_id m < next_member (seqs d')
          \<and> cm_conversation_id m \<in> c_id ` set (conversations (tbl d'))
          \<and> cm_user_id m \<in> u_id ` set (users (tbl d'))"
      using ok s fit(2) unfolding t
      by (fastforce simp: db_ok_def members_ok_def dest!: rows)
    ultimately show "members_ok (tbl d') (seqs d')" by (simp add: members_ok_def)
    have "in_room (c_id c) (tbl d') = []"
    proof -
      have "m_conversation_id m \<in> c_id ` set (conversations ?t)" if "m \<in> set (messages ?t)" for m
        using ok that by (simp add: db_ok_def messages_ok_def)
      with fresh show ?thesis unfolding in_room_def t filter_empty_conv by metis
    qed
    then show "numbers_ok (tbl d')"
      using ok c by (auto simp: t db_ok_def numbers_ok_def in_room_def)
    show "messages_ok (tbl d') (seqs d')"
      using ok s by (fastforce simp: t db_ok_def messages_ok_def seq_le_def)
  qed (use ok s in \<open>fastforce simp: t db_ok_def ok_defs seq_le_def\<close>)+
qed

lemma add_member_keeps:
  assumes ok: "db_ok d" and run: "add_member now conv uid d = (r, d')"
  shows "db_ok d'"
  using run
proof (cases rule: add_member_cases)
  case unchanged
  then show ?thesis using db_ok_same [OF ok] by simp
next
  case added
  let ?row = "member_row now (next_member (seqs d)) conv uid"
  have t: "tbl d' = (tbl d)\<lparr>members := members (tbl d) @ [?row]\<rparr>" using added(2) .
  have fit: "\<not> has_member (tbl d) conv uid" "conv \<in> c_id ` set (conversations (tbl d))"
    "uid \<in> u_id ` set (users (tbl d))"
    using added(1) by (auto simp: members_fit_def)
  have d: "distinct (map (\<lambda>m. (cm_conversation_id m, cm_user_id m)) (members (tbl d')))"
    using ok fit(1)
    by (auto simp: t db_ok_def members_ok_def member_row_def has_member_def list_ex_iff)
  have i: "distinct (map cm_id (members (tbl d')))"
    using ok by (fastforce simp: t db_ok_def members_ok_def member_row_def)
  have b: "\<forall>m \<in> set (members (tbl d')). cm_id m < next_member (seqs d')
          \<and> cm_conversation_id m \<in> c_id ` set (conversations (tbl d'))
          \<and> cm_user_id m \<in> u_id ` set (users (tbl d'))"
    using ok fit(2,3) added(4) by (fastforce simp: t db_ok_def members_ok_def member_row_def)
  show ?thesis
    unfolding db_ok_def
  proof (intro conjI)
    show "members_ok (tbl d') (seqs d')" using d i b by (simp add: members_ok_def)
  qed (use ok added(3) in \<open>fastforce simp: t db_ok_def accounts_ok_def tokens_ok_def rooms_ok_def
        messages_ok_def numbers_ok_def outbox_ok_def unread_ok_def in_room_def seq_le_def\<close>)+
qed

subsection \<open>Messages\<close>

lemma bump_seq_simps [simp]: "c_id (bump_seq conv c) = c_id c"
  "c_deleted_at (bump_seq conv c) = c_deleted_at c"
  by (simp_all add: bump_seq_def)

lemma bump_seq_ids [simp]: "c_id \<circ> bump_seq conv = c_id"
  by auto

lemma list_all2_subseq:
  assumes "list_all2 P ws ms" "subseq ws' ws"
  shows "\<exists>ms'. subseq ms' ms \<and> list_all2 P ws' ms'"
  using assms
proof (induction ws ms arbitrary: ws' rule: list_all2_induct)
  case Nil
  then have "ws' = []" by (cases ws') auto
  then show ?case by simp
next
  case (Cons w ws m ms)
  show ?case
  proof (cases "\<exists>vs. ws' = w # vs")
    case True
    then obtain vs where vs: "ws' = w # vs" "subseq vs ws" using Cons.prems by auto
    with Cons.IH obtain ms' where "subseq ms' ms" "list_all2 P vs ms'" by blast
    with vs Cons.hyps have "subseq (m # ms') (m # ms)" "list_all2 P ws' (m # ms')" by auto
    then show ?thesis by blast
  next
    case False
    with Cons.prems have "subseq ws' ws" by (cases ws') auto
    with Cons.IH obtain ms' where "subseq ms' ms" "list_all2 P ws' ms'" by blast
    then have "subseq ms' (m # ms)" by blast
    with \<open>list_all2 P ws' ms'\<close> show ?thesis by blast
  qed
qed

lemma create_message_keeps:
  assumes ok: "db_ok d"
    and run: "create_message now conv sender name content cid carrier d = (r, d')"
  shows "db_ok d'"
  using run
proof (cases rule: create_message_cases)
  case unchanged
  then show ?thesis using db_ok_same [OF ok] by simp
next
  case (everything m out)
  let ?t = "tbl d" and ?s = "seqs d"
  from everything(1) obtain c payload where
    c: "c \<in> set (conversations ?t)" "c_id c = conv" "c_deleted_at c = None"
    and m: "m = message_row now (next_message ?s) conv sender cid (c_last_seq c + 1) content"
    and e: "encode_event (event_of m name) = Some payload"
    and out: "out = waiting_row now (next_outbox ?s) topic_message_created payload (json_or_nil carrier)"
    and sender: "sender \<in> u_id ` set (users ?t)" and key: "\<not> key_used ?t conv sender cid"
    and short: "\<forall>k. cid = Some k \<longrightarrow> rune_count k \<le> 64"
    by (auto simp: send_rows_def dest: find_Some_set)
  have mf: "m_id m = next_message ?s" "m_conversation_id m = conv" "m_sender_id m = sender"
    "m_client_msg_id m = cid" "m_seq m = c_last_seq c + 1" "m_deleted_at m = None"
    using m by (simp_all add: message_row_def)
  have t: "users (tbl d') = users ?t" "tokens (tbl d') = tokens ?t" "members (tbl d') = members ?t"
    "unread (tbl d') = unread ?t" "consumed (tbl d') = consumed ?t"
    "conversations (tbl d') = map (bump_seq conv) (conversations ?t)"
    "messages (tbl d') = messages ?t @ [m]" "outbox (tbl d') = outbox ?t @ [out]"
    using everything(2) by (simp_all add: sent_def)
  have ids: "c_id ` set (conversations (tbl d')) = c_id ` set (conversations ?t)"
    unfolding t by (simp add: image_comp)
  note s = everything(3-5)
  have conv: "conv \<in> c_id ` set (conversations ?t)" using c by auto
  have old_rows: "\<forall>m \<in> set (messages ?t). m_id m < next_message (seqs d') \<and> m_deleted_at m = None
          \<and> (\<forall>k. m_client_msg_id m = Some k \<longrightarrow> rune_count k \<le> 64)
          \<and> m_conversation_id m \<in> c_id ` set (conversations ?t)
          \<and> m_sender_id m \<in> u_id ` set (users ?t)"
    using ok s(2) by (auto simp: db_ok_def messages_ok_def intro: less_trans)
  have old_keys: "\<forall>m1 \<in> set (messages ?t). \<forall>m' \<in> set (messages ?t).
          m_conversation_id m1 = m_conversation_id m' \<and> m_sender_id m1 = m_sender_id m'
          \<and> m_client_msg_id m1 = m_client_msg_id m' \<and> m_client_msg_id m1 \<noteq> None \<longrightarrow> m1 = m'"
    using ok unfolding db_ok_def messages_ok_def by (elim conjE)
  have no_key: "\<not> (m_conversation_id m' = conv \<and> m_sender_id m' = sender \<and> m_client_msg_id m' = cid)"
    if "m' \<in> set (messages ?t)" "cid \<noteq> None" for m'
    using key that by (auto simp: key_used_def list_ex_iff)
  show ?thesis
    unfolding db_ok_def
  proof (intro conjI)
    show "rooms_ok (tbl d') (seqs d')"
      using ok s by (fastforce simp: t db_ok_def rooms_ok_def seq_le_def)
    show "members_ok (tbl d') (seqs d')"
      using ok s unfolding members_ok_def ids by (fastforce simp: t db_ok_def members_ok_def seq_le_def)
    have "sorted_wrt (<) (map m_id (messages (tbl d')))"
      using ok mf by (auto simp: t sorted_wrt_append db_ok_def messages_ok_def)
    moreover have "\<forall>m \<in> set (messages (tbl d')). m_id m < next_message (seqs d') \<and> m_deleted_at m = None
          \<and> (\<forall>k. m_client_msg_id m = Some k \<longrightarrow> rune_count k \<le> 64)
          \<and> m_conversation_id m \<in> c_id ` set (conversations ?t)
          \<and> m_sender_id m \<in> u_id ` set (users ?t)"
      using old_rows mf conv sender short s(2) by (auto simp: t)
    moreover have "\<forall>m1 \<in> set (messages (tbl d')). \<forall>m' \<in> set (messages (tbl d')).
          m_conversation_id m1 = m_conversation_id m' \<and> m_sender_id m1 = m_sender_id m'
          \<and> m_client_msg_id m1 = m_client_msg_id m' \<and> m_client_msg_id m1 \<noteq> None \<longrightarrow> m1 = m'"
    proof (intro ballI impI)
      fix m1 m2
      assume in1: "m1 \<in> set (messages (tbl d'))" and in2: "m2 \<in> set (messages (tbl d'))"
        and same: "m_conversation_id m1 = m_conversation_id m2 \<and> m_sender_id m1 = m_sender_id m2
          \<and> m_client_msg_id m1 = m_client_msg_id m2 \<and> m_client_msg_id m1 \<noteq> None"
      consider "m1 = m" "m2 = m" | "m1 = m" "m2 \<in> set (messages ?t)"
        | "m1 \<in> set (messages ?t)" "m2 = m" | "m1 \<in> set (messages ?t)" "m2 \<in> set (messages ?t)"
        using in1 in2 by (auto simp: t)
      then show "m1 = m2"
      proof cases
        case 2
        then show ?thesis using no_key [of m2] same mf by metis
      next
        case 3
        then show ?thesis using no_key [of m1] same mf by metis
      next
        case 4
        then show ?thesis using old_keys same by blast
      qed simp
    qed
    ultimately show "messages_ok (tbl d') (seqs d')"
      unfolding messages_ok_def ids t(1) by blast
    show "numbers_ok (tbl d')"
      unfolding numbers_ok_def
    proof
      fix b assume "b \<in> set (conversations (tbl d'))"
      then obtain a where a: "a \<in> set (conversations ?t)" "b = bump_seq conv a" by (auto simp: t)
      then have old: "map m_seq (in_room (c_id a) ?t) = [1..<Suc (c_last_seq a)]"
        using ok by (simp add: db_ok_def numbers_ok_def)
      show "map m_seq (in_room (c_id b) (tbl d')) = [1..<Suc (c_last_seq b)]"
      proof (cases "c_id a = conv")
        case True
        then have "a = c" using ok a(1) c by (auto simp: db_ok_def rooms_ok_def dest: distinct_map_inj)
        with old a(2) c mf show ?thesis by (simp add: in_room_def t bump_seq_def)
      next
        case False
        with old a(2) mf show ?thesis by (simp add: in_room_def t bump_seq_def)
      qed
    qed
    have "sorted_wrt (<) (map o_id (outbox (tbl d')))"
      using ok out by (auto simp: t sorted_wrt_append db_ok_def outbox_ok_def waiting_row_def)
    moreover have "\<forall>w \<in> set (outbox (tbl d')). o_id w < next_outbox (seqs d')"
      using ok out s by (fastforce simp: t db_ok_def outbox_ok_def waiting_row_def)
    moreover have "\<exists>ms. subseq ms (messages (tbl d')) \<and> list_all2 tells (outbox (tbl d')) ms"
    proof -
      from ok obtain ms where ms: "subseq ms (messages ?t)" "list_all2 tells (outbox ?t) ms"
        by (auto simp: db_ok_def outbox_ok_def)
      have "tells out m" using e out by (auto simp: tells_def waiting_row_def)
      with ms have "list_all2 tells (outbox (tbl d')) (ms @ [m])"
        by (simp add: t list_all2_appendI)
      moreover have "subseq (ms @ [m]) (messages (tbl d'))"
        using ms(1) by (simp add: t)
      ultimately show ?thesis by blast
    qed
    ultimately show "outbox_ok (tbl d') (seqs d')" by (simp add: outbox_ok_def)
  qed (use ok s in \<open>fastforce simp: t db_ok_def accounts_ok_def tokens_ok_def unread_ok_def seq_le_def\<close>)+
qed

subsection \<open>The outbox and the counters\<close>

lemma ok_outbox [simp]:
  "accounts_ok (t\<lparr>outbox := ws\<rparr>) s = accounts_ok t s" "tokens_ok (t\<lparr>outbox := ws\<rparr>) s = tokens_ok t s"
  "rooms_ok (t\<lparr>outbox := ws\<rparr>) s = rooms_ok t s" "members_ok (t\<lparr>outbox := ws\<rparr>) s = members_ok t s"
  "messages_ok (t\<lparr>outbox := ws\<rparr>) s = messages_ok t s" "numbers_ok (t\<lparr>outbox := ws\<rparr>) = numbers_ok t"
  "unread_ok (t\<lparr>outbox := ws\<rparr>) = unread_ok t"
  by (simp_all add: ok_defs)

lemma ok_counters [simp]:
  "accounts_ok (t\<lparr>consumed := ks, unread := rs\<rparr>) s = accounts_ok t s"
  "tokens_ok (t\<lparr>consumed := ks, unread := rs\<rparr>) s = tokens_ok t s"
  "rooms_ok (t\<lparr>consumed := ks, unread := rs\<rparr>) s = rooms_ok t s"
  "members_ok (t\<lparr>consumed := ks, unread := rs\<rparr>) s = members_ok t s"
  "messages_ok (t\<lparr>consumed := ks, unread := rs\<rparr>) s = messages_ok t s"
  "numbers_ok (t\<lparr>consumed := ks, unread := rs\<rparr>) = numbers_ok t"
  "outbox_ok (t\<lparr>consumed := ks, unread := rs\<rparr>) s = outbox_ok t s"
  by (simp_all add: ok_defs)

lemma outbox_only_keeps:
  assumes "db_ok d" "tbl d' = (tbl d)\<lparr>outbox := ws\<rparr>" "seqs d' = seqs d"
    and "sorted_wrt (<) (map o_id ws)" "o_id ` set ws \<subseteq> o_id ` set (outbox (tbl d))"
    and "\<exists>ms. subseq ms (messages (tbl d)) \<and> list_all2 tells ws ms"
  shows "db_ok d'"
proof -
  have "\<forall>w \<in> set ws. o_id w < next_outbox (seqs d)"
    using assms(1,5) by (fastforce simp: db_ok_def outbox_ok_def)
  with assms show ?thesis by (simp add: db_ok_def outbox_ok_def)
qed

lemma tells_stamp [simp]: "tells (stamp now ids w) m = tells w m"
  "tells (note_failure i n w) m = tells w m"
  by (simp_all add: tells_def stamp_def note_failure_def)

lemma outbox_map_keeps:
  assumes "db_ok d" "tbl d' = (tbl d)\<lparr>outbox := map f (outbox (tbl d))\<rparr>" "seqs d' = seqs d"
    and "\<And>w. o_id (f w) = o_id w" "\<And>w m. tells (f w) m = tells w m"
  shows "db_ok d'"
proof (rule outbox_only_keeps [OF assms(1-3)])
  have "o_id \<circ> f = o_id" using assms(4) by auto
  then show "sorted_wrt (<) (map o_id (map f (outbox (tbl d))))"
    using assms(1) by (simp add: db_ok_def outbox_ok_def)
  show "o_id ` set (map f (outbox (tbl d))) \<subseteq> o_id ` set (outbox (tbl d))"
    using assms(4) by auto
  show "\<exists>ms. subseq ms (messages (tbl d)) \<and> list_all2 tells (map f (outbox (tbl d))) ms"
    using assms(1,5) by (simp add: db_ok_def outbox_ok_def list_all2_map1)
qed

lemma outbox_filter_keeps:
  assumes "db_ok d" "tbl d' = (tbl d)\<lparr>outbox := filter P (outbox (tbl d))\<rparr>" "seqs d' = seqs d"
  shows "db_ok d'"
proof (rule outbox_only_keeps [OF assms])
  show "sorted_wrt (<) (map o_id (filter P (outbox (tbl d))))"
    using assms(1) by (simp add: db_ok_def outbox_ok_def sorted_wrt_map sorted_wrt_filter)
  from assms(1) obtain ms where "subseq ms (messages (tbl d))" "list_all2 tells (outbox (tbl d)) ms"
    by (auto simp: db_ok_def outbox_ok_def)
  with list_all2_subseq [OF this(2) subseq_filter_left [of P]]
  show "\<exists>ms. subseq ms (messages (tbl d)) \<and> list_all2 tells (filter P (outbox (tbl d))) ms"
    using subseq_order.order_trans by blast
qed auto

lemma mark_published_keeps:
  "db_ok d \<Longrightarrow> mark_outbox_published now ids d = (r, d') \<Longrightarrow> db_ok d'"
  using mark_published_effect outbox_map_keeps [where f = "stamp now ids"] db_ok_same
  by (metis stamp_simps(1) tells_stamp(1) seq_le_refl)

lemma mark_failed_keeps:
  assumes "db_ok d" "mark_outbox_failed i reason d = (r, d')"
  shows "db_ok d'"
  using mark_failed_effect [OF assms(2)]
proof (elim conjE disjE exE)
  fix why assume "tbl d' = (tbl d)\<lparr>outbox := map (note_failure i why) (outbox (tbl d))\<rparr>"
    "seqs d' = seqs d"
  then show ?thesis using outbox_map_keeps [OF assms(1)] by simp
qed (use db_ok_same [OF assms(1)] in simp)

lemma delete_published_keeps:
  "db_ok d \<Longrightarrow> delete_outbox_published_before before d = (r, d') \<Longrightarrow> db_ok d'"
  using delete_published_effect outbox_filter_keeps db_ok_same by (metis seq_le_refl)

lemma unread_only_keeps:
  assumes "db_ok d" "tbl d' = (tbl d)\<lparr>consumed := ks, unread := rs\<rparr>" "seqs d' = seqs d"
    and "distinct (map (\<lambda>r. (n_conversation_id r, n_user_id r)) rs)"
    and "distinct (map (\<lambda>k. (k_consumer k, k_message_id k)) ks)"
  shows "db_ok d'"
  using assms by (simp add: db_ok_def unread_ok_def)

lemma bump_counter_distinct:
  "distinct (map (\<lambda>r. (n_conversation_id r, n_user_id r)) rows) \<Longrightarrow>
   distinct (map (\<lambda>r. (n_conversation_id r, n_user_id r)) (bump_counter now conv n uid rows))"
proof (cases "list_ex (\<lambda>r. n_conversation_id r = conv \<and> n_user_id r = uid) rows")
  case True
  assume "distinct (map (\<lambda>r. (n_conversation_id r, n_user_id r)) rows)"
  moreover have "map (\<lambda>r. (n_conversation_id r, n_user_id r)) (bump_counter now conv n uid rows)
    = map (\<lambda>r. (n_conversation_id r, n_user_id r)) rows"
    using True by (simp add: bump_counter_def)
  ultimately show ?thesis by simp
next
  case False
  assume "distinct (map (\<lambda>r. (n_conversation_id r, n_user_id r)) rows)"
  with False show ?thesis by (auto simp: bump_counter_def list_ex_iff)
qed

lemma bump_counters_distinct:
  "distinct (map (\<lambda>r. (n_conversation_id r, n_user_id r)) rows) \<Longrightarrow>
   distinct (map (\<lambda>r. (n_conversation_id r, n_user_id r)) (fold (bump_counter now conv n) us rows))"
  by (induction us arbitrary: rows) (auto simp: bump_counter_distinct)

lemma zero_counter_distinct:
  "distinct (map (\<lambda>r. (n_conversation_id r, n_user_id r)) rows) \<Longrightarrow>
   distinct (map (\<lambda>r. (n_conversation_id r, n_user_id r)) (zero_counter now conv uid rows))"
proof (cases "list_ex (\<lambda>r. n_conversation_id r = conv \<and> n_user_id r = uid) rows")
  case True
  assume "distinct (map (\<lambda>r. (n_conversation_id r, n_user_id r)) rows)"
  moreover have "map (\<lambda>r. (n_conversation_id r, n_user_id r)) (zero_counter now conv uid rows)
    = map (\<lambda>r. (n_conversation_id r, n_user_id r)) rows"
    using True by (simp add: zero_counter_def)
  ultimately show ?thesis by simp
next
  case False
  assume "distinct (map (\<lambda>r. (n_conversation_id r, n_user_id r)) rows)"
  with False show ?thesis by (auto simp: zero_counter_def list_ex_iff)
qed

lemma apply_unread_keeps:
  assumes ok: "db_ok d" and run: "apply_unread now i conv sender n d = (r, d')"
  shows "db_ok d'"
proof (cases "tbl d' = tbl d")
  case True
  with apply_unread_cases [OF run] db_ok_same [OF ok] show ?thesis by simp
next
  case False
  with apply_unread_cases [OF run] have fresh: "\<not> is_consumed (tbl d) i" and s: "seqs d' = seqs d"
    and t: "tbl d' = (tbl d)\<lparr>consumed := consumed (tbl d) @
              [\<lparr>k_consumer = unread_consumer, k_message_id = i, k_consumed_at = now\<rparr>],
             unread := fold (bump_counter now conv n) (recipients (tbl d) conv sender) (unread (tbl d))\<rparr>"
    by (auto simp: applied_def split: if_splits)
  show ?thesis
    by (rule unread_only_keeps [OF ok t s])
      (use ok fresh in \<open>auto simp: db_ok_def unread_ok_def is_consumed_def list_ex_iff
         intro!: bump_counters_distinct\<close>)
qed

lemma mark_read_keeps:
  assumes ok: "db_ok d" and run: "mark_conversation_read now conv uid d = (r, d')"
  shows "db_ok d'"
  using mark_read_effect [OF run]
proof (elim conjE disjE)
  assume "tbl d' = (tbl d)\<lparr>unread := zero_counter now conv uid (unread (tbl d))\<rparr>"
    and s: "seqs d' = seqs d"
  then have t: "tbl d' = (tbl d)\<lparr>consumed := consumed (tbl d),
      unread := zero_counter now conv uid (unread (tbl d))\<rparr>" by simp
  show ?thesis
    by (rule unread_only_keeps [OF ok t s])
      (use ok in \<open>auto simp: db_ok_def unread_ok_def intro!: zero_counter_distinct\<close>)
qed (use db_ok_same [OF ok] in simp)

lemma delete_consumed_keeps:
  assumes ok: "db_ok d" and run: "delete_consumed_before before d = (r, d')"
  shows "db_ok d'"
  using delete_consumed_effect [OF run]
proof (elim conjE disjE)
  assume "tbl d' = (tbl d)\<lparr>consumed := filter (\<lambda>k. \<not> k_consumed_at k < before) (consumed (tbl d))\<rparr>"
    and s: "seqs d' = seqs d"
  then have t: "tbl d' = (tbl d)\<lparr>consumed := filter (\<lambda>k. \<not> k_consumed_at k < before) (consumed (tbl d)),
      unread := unread (tbl d)\<rparr>" by simp
  show ?thesis
    by (rule unread_only_keeps [OF ok t s])
      (use ok in \<open>auto simp: db_ok_def unread_ok_def distinct_map_filter\<close>)
qed (use db_ok_same [OF ok] in simp)

text \<open>A service step leaves every waiting row where it is and can only add rows behind them.\<close>

definition row_key :: "outbox_row \<Rightarrow> nat \<times> json" where
  "row_key row = (o_id row, o_payload row)"

definition waiting_rows :: "tables \<Rightarrow> (nat \<times> json) list" where
  "waiting_rows t = map row_key (filter waiting (outbox t))"

lemma waiting_rows_same: "outbox t' = outbox t \<Longrightarrow> waiting_rows t' = waiting_rows t"
  by (simp add: waiting_rows_def)

lemma waiting_rows_noted: "waiting_rows (t\<lparr>outbox := map (note_failure i m) (outbox t)\<rparr>) = waiting_rows t"
proof -
  have "map row_key (filter waiting (map (note_failure i m) ws)) = map row_key (filter waiting ws)" for ws
    by (induction ws) (auto simp: row_key_def)
  then show ?thesis by (simp add: waiting_rows_def)
qed

lemma service_step_waiting:
  assumes "service_step d d'"
  shows "\<exists>ps. waiting_rows (tbl d') = waiting_rows (tbl d) @ ps"
  using assms
proof (cases rule: service_step.cases)
  case (read f)
  from readsD [OF read(1,3)] show ?thesis by (simp add: waiting_rows_def)
next
  case (create_user now name hash r)
  with create_user_effect [OF create_user] show ?thesis by (auto simp: waiting_rows_def)
next
  case (create_token now uid key expires r)
  with create_token_effect [OF create_token] show ?thesis by (auto simp: waiting_rows_def)
next
  case (revoke now key r)
  with revoke_effect [OF revoke] show ?thesis by (auto simp: waiting_rows_def)
next
  case (purge now uid r)
  with purge_effect [OF purge] show ?thesis by (auto simp: waiting_rows_def)
next
  case (create_conversation now title creator ids r)
  then show ?thesis by (cases rule: create_conversation_cases) (auto simp: built_def waiting_rows_def)
next
  case (add_member now conv uid r)
  then show ?thesis by (cases rule: add_member_cases) (auto simp: waiting_rows_def)
next
  case (create_message now conv sender name content cid carrier r)
  then show ?thesis by (cases rule: create_message_cases) (auto simp: sent_def waiting_rows_def)
next
  case (mark_failed i reason r)
  with mark_failed_effect [OF mark_failed] show ?thesis by (metis append_Nil2 waiting_rows_noted)
next
  case (delete_published before r)
  with delete_published_effect [OF delete_published] show ?thesis
    by (auto simp: waiting_rows_def delete_keeps_waiting simp del: filter_filter)
next
  case (apply_unread now i conv sender n r)
  with apply_unread_cases [OF apply_unread] show ?thesis by (auto simp: waiting_rows_def)
next
  case (mark_read now conv uid r)
  with mark_read_effect [OF mark_read] show ?thesis by (auto simp: waiting_rows_def)
next
  case (delete_consumed before r)
  with delete_consumed_effect [OF delete_consumed] show ?thesis by (auto simp: waiting_rows_def)
qed (simp add: waiting_rows_def)

section \<open>The reachable states\<close>

lemma service_step_keeps:
  assumes "service_step d d'" and ok: "db_ok d"
  shows "db_ok d'"
  using assms(1)
proof (cases rule: service_step.cases)
  case (script fs)
  with ok show ?thesis using db_ok_same [OF ok] by simp
next
  case (read f)
  from db_ok_same [OF ok readsD [OF read(1,3)] growsD [OF read(2,3)]] show ?thesis .
next
  case create_user
  then show ?thesis by (rule create_user_keeps [OF ok])
next
  case create_token
  then show ?thesis by (rule create_token_keeps [OF ok])
next
  case revoke
  then show ?thesis by (rule revoke_keeps [OF ok])
next
  case purge
  then show ?thesis by (rule purge_keeps [OF ok])
next
  case create_conversation
  then show ?thesis by (rule create_conversation_keeps [OF ok])
next
  case add_member
  then show ?thesis by (rule add_member_keeps [OF ok])
next
  case create_message
  then show ?thesis by (rule create_message_keeps [OF ok])
next
  case mark_failed
  then show ?thesis by (rule mark_failed_keeps [OF ok])
next
  case delete_published
  then show ?thesis by (rule delete_published_keeps [OF ok])
next
  case apply_unread
  then show ?thesis by (rule apply_unread_keeps [OF ok])
next
  case mark_read
  then show ?thesis by (rule mark_read_keeps [OF ok])
next
  case delete_consumed
  then show ?thesis by (rule delete_consumed_keeps [OF ok])
qed

lemma db_step_keeps: "db_step d d' \<Longrightarrow> db_ok d \<Longrightarrow> db_ok d'"
  by (erule db_step.cases) (blast intro: service_step_keeps mark_published_keeps)+

lemma db_reachable_ok: "db_reachable d \<Longrightarrow> db_ok d"
  by (induction rule: db_reachable.induct) (auto simp: migrated_ok db_step_keeps)

section \<open>What the invariant gives the readers\<close>

lemma in_room_numbers:
  assumes "db_ok d" "c \<in> set (conversations (tbl d))"
  shows "map m_seq (in_room (c_id c) (tbl d)) = [1..<Suc (c_last_seq c)]"
  using assms by (simp add: db_ok_def numbers_ok_def)

lemma live_is_all: "db_ok d \<Longrightarrow> live_messages (tbl d) = messages (tbl d)"
  by (simp add: live_messages_def db_ok_def messages_ok_def)

lemma live_rooms_all: "db_ok d \<Longrightarrow> live_conversations (tbl d) = conversations (tbl d)"
  by (simp add: live_conversations_def db_ok_def rooms_ok_def)

lemma live_users_all: "db_ok d \<Longrightarrow> live_users (tbl d) = users (tbl d)"
  by (simp add: live_users_def db_ok_def accounts_ok_def)

lemma filter_gt_upto:
  "map f xs = [Suc k..<Suc n] \<Longrightarrow> map f (filter (\<lambda>x. a < f x) xs) = [Suc (max a k)..<Suc n]"
proof (induction xs arbitrary: k)
  case Nil
  then have "[Suc k..<Suc n] = []" by (simp only: list.map)
  then have "n \<le> k" by (simp only: upt_eq_Nil_conv) auto
  then show ?case by simp
next
  case (Cons x xs)
  then have eq: "f x # map f xs = [Suc k..<Suc n]" by (simp only: list.map)
  have lt: "k < n"
  proof (rule ccontr)
    assume "\<not> k < n"
    then have "[Suc k..<Suc n] = []" by simp
    with eq show False by simp
  qed
  then have "[Suc k..<Suc n] = Suc k # [Suc (Suc k)..<Suc n]" by (intro upt_conv_Cons) simp
  with eq have x: "f x = Suc k" and xs: "map f xs = [Suc (Suc k)..<Suc n]"
    by (simp_all only: list.inject)
  from Cons.IH [OF xs] x lt show ?case
    by (cases "a < Suc k") (auto simp: max_def upt_conv_Cons simp del: upt_Suc)
qed

text \<open>The gap read: exactly the numbers after the one the client has, as many as fit.\<close>

lemma gap_page_exact:
  assumes ok: "db_ok d" and c: "c \<in> set (conversations (tbl d))"
  shows "map m_seq (gap_page (c_id c) after limit (tbl d)) =
    [Suc after..<Suc (min (c_last_seq c) (after + limit))]"
proof -
  let ?room = "in_room (c_id c) (tbl d)"
  let ?new = "filter (\<lambda>m. after < m_seq m) ?room"
  have "map m_seq ?room = [Suc 0..<Suc (c_last_seq c)]"
    using in_room_numbers [OF ok c] by simp
  from filter_gt_upto [OF this, of "after"]
  have seqs: "map m_seq ?new = [Suc after..<Suc (c_last_seq c)]" by simp
  then have "sorted (map m_seq ?new)" by (simp del: upt_Suc)
  then have "gap_page (c_id c) after limit (tbl d) = take limit ?new"
    by (simp add: gap_page_def live_is_all [OF ok] in_room_def conj_commute sorted_key_id)
  then have "map m_seq (gap_page (c_id c) after limit (tbl d))
      = take limit [Suc after..<Suc (c_last_seq c)]"
    using seqs by (metis take_map)
  also have "\<dots> = [Suc after..<Suc (min (c_last_seq c) (after + limit))]"
    by (cases "after + limit \<le> c_last_seq c")
      (simp_all add: take_upt min_def del: upt_Suc)
  finally show ?thesis .
qed

lemma history_page_exact:
  assumes ok: "db_ok d"
  shows "history_page conv before limit (tbl d) =
    take limit (rev (filter (\<lambda>m. before > 0 \<longrightarrow> m_id m < before) (in_room conv (tbl d))))"
proof -
  let ?rows = "filter (\<lambda>m. m_conversation_id m = conv \<and> (before > 0 \<longrightarrow> m_id m < before)) (messages (tbl d))"
  have "sorted_wrt (<) (map m_id ?rows)"
    using ok by (simp add: db_ok_def messages_ok_def sorted_wrt_map sorted_wrt_filter)
  then have "sorted (map m_id ?rows)" using strict_sorted_imp_sorted by blast
  then show ?thesis
    by (simp add: history_page_def live_is_all [OF ok] in_room_def sorted_key_id conj_commute)
qed

text \<open>A retried send finds the message its first attempt wrote, and writes nothing.\<close>

lemma find_room:
  assumes ok: "db_ok d" and "conv \<in> c_id ` set (conversations (tbl d))"
  shows "\<exists>c. find (\<lambda>c. c_id c = conv \<and> c_deleted_at c = None) (conversations (tbl d)) = Some c"
proof -
  from assms have "\<exists>c \<in> set (conversations (tbl d)). c_id c = conv \<and> c_deleted_at c = None"
    by (auto simp: db_ok_def rooms_ok_def)
  then show ?thesis by (metis (mono_tags, lifting) find_None_iff not_Some_eq)
qed

lemma retry_finds_first:
  assumes ok: "db_ok d" and works: "faults d = []" and m: "m \<in> set (messages (tbl d))"
    and key: "m_conversation_id m = conv" "m_sender_id m = sender" "m_client_msg_id m = Some k"
  shows "\<exists>d'. create_message now conv sender name content (Some k) carrier d = (Inr (m, False), d')
    \<and> tbl d' = tbl d \<and> faults d' = []"
proof -
  from ok m key have conv: "conv \<in> c_id ` set (conversations (tbl d))"
    and short: "rune_count k \<le> 64"
    by (auto simp: db_ok_def messages_ok_def)
  from find_room [OF ok conv] obtain c where
    c: "find (\<lambda>c. c_id c = conv \<and> c_deleted_at c = None) (conversations (tbl d)) = Some c" by blast
  have used: "key_used (tbl d) conv sender (Some k)"
    using m key by (auto simp: key_used_def list_ex_iff)
  let ?d1 = "d\<lparr>tbl := (tbl d)\<lparr>conversations := map (bump_seq conv) (conversations (tbl d))\<rparr>\<rparr>"
  let ?d2 = "?d1\<lparr>seqs := (seqs d)\<lparr>next_message := next_message (seqs d) + 1\<rparr>\<rparr>"
  have alloc: "allocate_seq conv d = (Inr (c_last_seq c + 1), ?d1)"
    using works c by (simp add: allocate_seq_def)
  have ins: "insert_message now conv sender (Some k) (c_last_seq c + 1) content ?d1
      = (Inl DuplicatedKey, ?d2)"
    using works short used by (simp add: insert_message_def key_used_def)
  have body: "send_tx now conv sender name content (Some k) carrier d = (Inl (Raw DuplicatedKey), ?d2)"
    using alloc ins by (simp add: send_tx_def on_ok_def)
  let ?d3 = "rollback d ?d2"
  have tx: "transaction (send_tx now conv sender name content (Some k) carrier) d
      = (Inl (Raw DuplicatedKey), ?d3)"
    by (simp add: transaction_ok [OF works] body)
  have d3: "tbl ?d3 = tbl d" "faults ?d3 = []" using works by (simp_all add: rollback_def)
  have "first_by m_id (\<lambda>m. m_conversation_id m = conv \<and> m_sender_id m = sender
      \<and> m_client_msg_id m = Some k) (live_messages (tbl d)) = Inr m"
  proof (rule first_by_unique)
    show "m \<in> set (live_messages (tbl d))" using m by (simp add: live_is_all [OF ok])
    show "m_conversation_id m = conv \<and> m_sender_id m = sender \<and> m_client_msg_id m = Some k"
      using key by simp
  next
    fix m2
    assume "m2 \<in> set (live_messages (tbl d))"
      "m_conversation_id m2 = conv \<and> m_sender_id m2 = sender \<and> m_client_msg_id m2 = Some k"
    with ok m key show "m2 = m"
      unfolding db_ok_def messages_ok_def live_is_all [OF ok] by (metis option.distinct(1))
  qed
  then have "load_duplicate conv sender k ?d3 = (Inr (m, False), ?d3)"
    using d3 by (simp add: load_duplicate_def on_ok_def return_def)
  with tx d3 show ?thesis by (simp add: create_message_def)
qed

text \<open>The two reads as the handlers see them, on a database that answers.\<close>

lemma preload_sender_ok:
  "faults d = [] \<Longrightarrow> preload_sender w ms d =
     (Inr (map (\<lambda>m. (m, user_or_zero (filter (\<lambda>u. u_id u \<in> m_sender_id ` set ms) (live_users (tbl d)))
        (m_sender_id m))) ms), d)"
  by (simp add: preload_sender_def on_ok_def return_def)

lemma list_after_ok:
  assumes "faults d = []"
  shows "\<exists>rows. list_messages_after_seq conv after limit d = (Inr rows, d)
    \<and> map fst rows = gap_page conv after limit (tbl d)"
  using assms by (simp add: list_messages_after_seq_def on_ok_def preload_sender_ok comp_def)

lemma list_messages_ok:
  assumes "faults d = []"
  shows "\<exists>rows. list_messages conv before limit d = (Inr rows, d)
    \<and> map fst rows = history_page conv before limit (tbl d)"
  using assms by (simp add: list_messages_def on_ok_def preload_sender_ok comp_def)

text \<open>The relay's read: the rows that wait, oldest first.\<close>

lemma fetch_exact:
  assumes "db_ok d" "fetch_outbox limit d = (Inr rows, d')"
  shows "rows = take limit (filter waiting (outbox (tbl d)))"
proof -
  have "sorted_wrt (<) (map o_id (filter waiting (outbox (tbl d))))"
    using assms(1) by (simp add: db_ok_def outbox_ok_def sorted_wrt_map sorted_wrt_filter)
  then have "sorted (map o_id (filter waiting (outbox (tbl d))))"
    using strict_sorted_imp_sorted by blast
  with fetch_outbox_Inr [OF assms(2)] show ?thesis by (simp add: sorted_key_id)
qed

end
