(* ===== verification/Unread_Delivery.thy ===== *)
theory Unread_Delivery
  imports Db_System
begin

text \<open>
  Counting under at-least-once delivery. The broker hands every message to \<open>apply_unread\<close> one
  or more times, in any order, and any attempt can be cut off by a database fault before or after
  its commit. \<open>deliver_all\<close> is such a history; it collects the messages whose delivery was
  answered, the ones the consumer acknowledges.
\<close>

type_synonym delivery = "nat \<times> nat \<times> nat \<times> nat"

fun deliver_all :: "time \<Rightarrow> (delivery \<times> fault list) list \<Rightarrow> db \<Rightarrow> nat list \<times> db" where
  "deliver_all now [] d = ([], d)"
| "deliver_all now (((i, conv, sender, n), fs) # rest) d =
     (case apply_unread now i conv sender n (d\<lparr>faults := fs\<rparr>) of
        (r, d1) \<Rightarrow>
          (case deliver_all now rest d1 of
             (acked, d2) \<Rightarrow> (case r of Inl _ \<Rightarrow> acked | Inr _ \<Rightarrow> i # acked, d2)))"

text \<open>The messages of a room, not from this member, that a history counted.\<close>

definition newly_counted :: "delivery set \<Rightarrow> nat \<Rightarrow> nat \<Rightarrow> tables \<Rightarrow> tables \<Rightarrow> nat set" where
  "newly_counted D conv u before after =
     {i. is_consumed after i \<and> \<not> is_consumed before i \<and> (\<exists>s n. (i, conv, s, n) \<in> D \<and> s \<noteq> u)}"

lemma consumed_finite: "finite {i. is_consumed t i}"
proof (rule finite_subset)
  show "{i. is_consumed t i} \<subseteq> k_message_id ` set (consumed t)"
    by (auto simp: is_consumed_def list_ex_iff)
qed simp

lemma newly_counted_finite [simp]: "finite (newly_counted D conv u before after)"
  by (rule finite_subset [OF _ consumed_finite [of "after"]]) (auto simp: newly_counted_def)

lemma newly_counted_same [simp]: "newly_counted D conv u t t = {}"
  by (auto simp: newly_counted_def)

text \<open>One attempt: the tables stay, or the delivery is applied.\<close>

lemma round_cases:
  assumes "apply_unread now i conv sender n (d\<lparr>faults := fs\<rparr>) = (r, d1)"
  shows "tbl d1 = tbl d \<and> (\<exists>e. r = Inl e) \<or> tbl d1 = applied now i conv sender n (tbl d)"
  using apply_unread_cases [OF assms] by auto

lemma attempt_members:
  "apply_unread now i conv sender n (d\<lparr>faults := fs\<rparr>) = (r, d1) \<Longrightarrow> members (tbl d1) = members (tbl d)"
  by (drule round_cases) auto

lemma attempt_mono:
  "apply_unread now i conv sender n (d\<lparr>faults := fs\<rparr>) = (r, d1) \<Longrightarrow> is_consumed (tbl d) j \<Longrightarrow>
   is_consumed (tbl d1) j"
  by (drule round_cases) (auto simp: applied_consumed)

lemma history_mono:
  "deliver_all now xs d = (acked, d') \<Longrightarrow> is_consumed (tbl d) j \<Longrightarrow> is_consumed (tbl d') j"
proof (induction now xs d arbitrary: acked d' rule: deliver_all.induct)
  case (2 now i conv sender n fs rest d)
  then show ?case by (auto split: prod.splits dest: attempt_mono)
qed simp

lemma history_acked:
  "deliver_all now xs d = (acked, d') \<Longrightarrow> i \<in> set acked \<Longrightarrow> is_consumed (tbl d') i"
proof (induction now xs d arbitrary: acked d' rule: deliver_all.induct)
  case (2 now i' conv sender n fs rest d)
  obtain r d1 where a: "apply_unread now i' conv sender n (d\<lparr>faults := fs\<rparr>) = (r, d1)" by fastforce
  obtain acked' d2 where h: "deliver_all now rest d1 = (acked', d2)" by fastforce
  from 2(2) a h have e: "d' = d2" "acked = (case r of Inl _ \<Rightarrow> acked' | Inr _ \<Rightarrow> i' # acked')" by auto
  show ?case
  proof (cases "i \<in> set acked'")
    case True
    with 2(1) [OF a [symmetric] h] e show ?thesis by simp
  next
    case False
    with 2(3) e obtain x where "r = Inr x" "i = i'" by (auto split: sum.splits)
    with round_cases [OF a] have "is_consumed (tbl d1) i" by (auto simp: applied_consumed)
    with history_mono [OF h] e show ?thesis by simp
  qed
qed simp

lemma history_counts:
  assumes "deliver_all now xs d = (acked, d')" "fst ` set xs \<subseteq> D"
    and "\<And>i c s n c' s' n'. (i, c, s, n) \<in> D \<Longrightarrow> (i, c', s', n') \<in> D \<Longrightarrow> c = c' \<and> s = s'"
    and "distinct (map (\<lambda>m. (cm_conversation_id m, cm_user_id m)) (members (tbl d)))"
    and "has_member (tbl d) conv u"
  shows "unread_of (tbl d') conv u =
    unread_of (tbl d) conv u + card (newly_counted D conv u (tbl d) (tbl d'))"
  using assms(1,2,4,5)
proof (induction now xs d arbitrary: acked d' rule: deliver_all.induct)
  case (1 now d)
  then show ?case by simp
next
  case (2 now i c s n fs rest d)
  obtain r d1 where a: "apply_unread now i c s n (d\<lparr>faults := fs\<rparr>) = (r, d1)" by fastforce
  obtain acked' d2 where h: "deliver_all now rest d1 = (acked', d2)" by fastforce
  from 2(2) a h have d2: "d' = d2" by auto
  have D: "(i, c, s, n) \<in> D" "fst ` set rest \<subseteq> D" using 2(3) by auto
  have m: "members (tbl d1) = members (tbl d)" using attempt_members [OF a] .
  have "has_member (tbl d1) conv u" using 2(5) m by (simp add: has_member_def)
  with 2(1) [OF a [symmetric] h D(2)] 2(4) m have rest:
    "unread_of (tbl d') conv u = unread_of (tbl d1) conv u + card (newly_counted D conv u (tbl d1) (tbl d'))"
    by (simp add: d2)
  have first: "unread_of (tbl d1) conv u =
      unread_of (tbl d) conv u + card (newly_counted D conv u (tbl d) (tbl d1))"
  proof (cases "tbl d1 = tbl d")
    case True
    then show ?thesis by simp
  next
    case False
    with round_cases [OF a] have t: "tbl d1 = applied now i c s n (tbl d)" by auto
    have "(\<exists>s' n'. (i, conv, s', n') \<in> D \<and> s' \<noteq> u) \<longleftrightarrow> conv = c \<and> u \<noteq> s"
      using assms(3) [OF D(1)] D(1) by blast
    moreover have "newly_counted D conv u (tbl d) (tbl d1) =
        {j. j = i \<and> \<not> is_consumed (tbl d) j \<and> (\<exists>s' n'. (j, conv, s', n') \<in> D \<and> s' \<noteq> u)}"
      unfolding newly_counted_def t applied_consumed by blast
    ultimately have "newly_counted D conv u (tbl d) (tbl d1) =
        (if \<not> is_consumed (tbl d) i \<and> conv = c \<and> u \<noteq> s then {i} else {})"
      by auto
    then show ?thesis using unread_applied [OF 2(4)] 2(5) t by auto
  qed
  have "newly_counted D conv u (tbl d) (tbl d') =
      newly_counted D conv u (tbl d) (tbl d1) \<union> newly_counted D conv u (tbl d1) (tbl d')"
    using attempt_mono [OF a] history_mono [OF h] by (auto simp: newly_counted_def d2)
  moreover have "newly_counted D conv u (tbl d) (tbl d1) \<inter> newly_counted D conv u (tbl d1) (tbl d') = {}"
    by (auto simp: newly_counted_def)
  ultimately have "card (newly_counted D conv u (tbl d) (tbl d')) =
      card (newly_counted D conv u (tbl d) (tbl d1)) + card (newly_counted D conv u (tbl d1) (tbl d'))"
    by (simp add: card_Un_disjoint)
  with first rest show ?case by simp
qed

text \<open>
  When every message was answered at least once, the count grows by the number of distinct
  messages: order, repetition and faults leave no trace.
\<close>

lemma history_exact:
  assumes run: "deliver_all now xs d = (acked, d')"
    and same: "\<And>i c s n c' s' n'. (i, c, s, n) \<in> fst ` set xs \<Longrightarrow> (i, c', s', n') \<in> fst ` set xs \<Longrightarrow>
      c = c' \<and> s = s'"
    and ok: "db_ok d" and m: "has_member (tbl d) conv u"
    and fresh: "\<And>i. i \<in> fst ` fst ` set xs \<Longrightarrow> \<not> is_consumed (tbl d) i"
    and all: "fst ` fst ` set xs \<subseteq> set acked"
  shows "unread_of (tbl d') conv u = unread_of (tbl d) conv u +
    card {i. \<exists>s n. (i, conv, s, n) \<in> fst ` set xs \<and> s \<noteq> u}"
proof -
  have "newly_counted (fst ` set xs) conv u (tbl d) (tbl d') =
      {i. \<exists>s n. (i, conv, s, n) \<in> fst ` set xs \<and> s \<noteq> u}"
    using fresh all history_acked [OF run] by (force simp: newly_counted_def)
  moreover have "distinct (map (\<lambda>m. (cm_conversation_id m, cm_user_id m)) (members (tbl d)))"
    using ok by (simp add: db_ok_def members_ok_def)
  ultimately show ?thesis using history_counts [OF run subset_refl same _ m] by simp
qed

end
