(* ===== verification/Scenario.thy ===== *)
theory Scenario
  imports Db_System
begin

text \<open>
  A short concrete run of the database, which the examples of the other theories start from:
  Ann, Bob and Eve register, Ann opens a room with Bob, Ann sends two messages and Bob one.
\<close>

definition ann_bob_eve :: db where
  "ann_bob_eve =
     snd (create_user 0 ''eve'' ''h3'' (snd (create_user 0 ''bob'' ''h2''
       (snd (create_user 0 ''ann'' ''h1'' fresh_db)))))"

definition room_open :: db where
  "room_open = snd (create_conversation 0 ''tea'' 1 [2, 1, 2] ann_bob_eve)"

definition one_sent :: db where
  "one_sent = snd (create_message 0 1 1 ''ann'' ''hi'' (Some ''k1'') [] room_open)"

definition two_sent :: db where
  "two_sent = snd (create_message 0 1 2 ''bob'' ''yo'' None [] one_sent)"

lemma op_step: "db_reachable d \<Longrightarrow> (\<And>r d'. f d = (r, d') \<Longrightarrow> db_step d d') \<Longrightarrow> db_reachable (snd (f d))"
  by (metis db_reachable.step prod.collapse)

lemma users_reachable: "db_reachable ann_bob_eve"
  unfolding ann_bob_eve_def
  by (intro op_step [where f = "create_user now name h" for now name h] fresh_reachable)
    (rule db_step.service, erule service_step.create_user)+

lemma room_reachable: "db_reachable room_open"
  unfolding room_open_def
  by (intro op_step [where f = "create_conversation now title u ids" for now title u ids] users_reachable)
    (rule db_step.service, erule service_step.create_conversation)

lemma one_reachable: "db_reachable one_sent"
  unfolding one_sent_def
  by (intro op_step [where f = "create_message now c u name s k t" for now c u name s k t] room_reachable)
    (rule db_step.service, erule service_step.create_message)

lemma two_reachable: "db_reachable two_sent"
  unfolding two_sent_def
  by (intro op_step [where f = "create_message now c u name s k t" for now c u name s k t] one_reachable)
    (rule db_step.service, erule service_step.create_message)

section \<open>The states, written out\<close>

definition tea :: "nat \<Rightarrow> conversation" where
  "tea n = (room_row 0 1 ''tea'' 1)\<lparr>c_last_seq := n\<rparr>"

definition tea_users :: "user list" where
  "tea_users = [user_row 0 1 ''ann'' ''h1'', user_row 0 2 ''bob'' ''h2'', user_row 0 3 ''eve'' ''h3'']"

definition hi_message :: message where
  "hi_message = message_row 0 1 1 1 (Some ''k1'') 1 ''hi''"

definition yo_message :: message where
  "yo_message = message_row 0 2 1 2 None 2 ''yo''"

definition hi_payload :: json where
  "hi_payload = JObj [(''message_id'', JNum ''1''), (''conversation_id'', JNum ''1''),
     (''sender_id'', JNum ''1''), (''sender_name'', JStr ''ann''), (''seq'', JNum ''1''),
     (''content'', JStr ''hi''), (''client_msg_id'', JStr ''k1''),
     (''created_at'', JStr ''1970-01-01T00:00:00Z'')]"

definition yo_payload :: json where
  "yo_payload = JObj [(''message_id'', JNum ''2''), (''conversation_id'', JNum ''1''),
     (''sender_id'', JNum ''2''), (''sender_name'', JStr ''bob''), (''seq'', JNum ''2''),
     (''content'', JStr ''yo''), (''created_at'', JStr ''1970-01-01T00:00:00Z'')]"

definition hi_row :: outbox_row where
  "hi_row = waiting_row 0 1 topic_message_created hi_payload None"

definition yo_row :: outbox_row where
  "yo_row = waiting_row 0 2 topic_message_created yo_payload None"

definition tea_db :: "nat \<Rightarrow> message list \<Rightarrow> outbox_row list \<Rightarrow> db" where
  "tea_db n ms ws = \<lparr>tbl = \<lparr>users = tea_users, conversations = [tea n],
       members = [member_row 0 1 1 1, member_row 0 2 1 2], messages = ms, outbox = ws,
       consumed = [], unread = [], tokens = []\<rparr>,
     seqs = \<lparr>next_user = 4, next_conversation = 2, next_member = 3, next_message = n + 1,
       next_outbox = n + 1, next_token = 1\<rparr>, faults = []\<rparr>"

lemma room_open_eq: "room_open = tea_db 0 [] []"
  by code_simp

lemma small_numbers: "format_uint 0 = ''0''" "format_uint (Suc 0) = ''1''" "format_uint 2 = ''2''"
  by (simp_all add: format_uint.simps digit_chars)

lemma hi_encoded: "encode_event (event_of hi_message ''ann'') = Some hi_payload"
  by (simp add: encode_event_def event_of_def hi_message_def message_row_def rfc3339_epoch jnum_def
      small_numbers hi_payload_def)

lemma yo_encoded: "encode_event (event_of yo_message ''bob'') = Some yo_payload"
  by (simp add: encode_event_def event_of_def yo_message_def message_row_def rfc3339_epoch jnum_def
      small_numbers yo_payload_def)

lemmas send_eval = create_message_def transaction_ok send_tx_def on_ok_def allocate_seq_def
  insert_message_def insert_outbox_def return_def Let_def key_used_def seq_used_def bump_seq_def
  json_or_nil_def

lemma short_key: "rune_count ''k1'' = 2"
  by code_simp

lemma one_sent_eq: "one_sent = tea_db 1 [hi_message] [hi_row]"
proof -
  have "message_row 0 1 1 1 (Some ''k1'') 1 ''hi'' = hi_message" by (simp add: hi_message_def)
  then show ?thesis
    by (simp add: one_sent_def room_open_eq tea_db_def tea_def room_row_def send_eval short_key
        tea_users_def user_row_def hi_encoded hi_row_def)
qed

lemma two_sent_eq: "two_sent = tea_db 2 [hi_message, yo_message] [hi_row, yo_row]"
proof -
  have "message_row 0 2 1 2 None 2 ''yo'' = yo_message" "m_seq hi_message = 1"
    by (simp_all add: yo_message_def hi_message_def message_row_def)
  then show ?thesis
    by (simp add: two_sent_def one_sent_eq tea_db_def tea_def room_row_def send_eval
        tea_users_def user_row_def yo_encoded yo_row_def numeral_2_eq_2)
qed

end
