(* ===== verification/Presence_Store.thy ===== *)
theory Presence_Store
  imports Go_Strings
begin

text \<open>
  The presence data of \<open>internal/presence/store.go\<close>: one sorted set, whose members are
  \<open>userID:nodeID\<close> scored by the second they were last seen, and the two operations on it. The set
  is the list of its entries. The last section relates it to what presence means: a user is online
  when some node's beat named them inside the window.
\<close>

record presence_store =
  zset :: "(string \<times> int) list"
  store_failures :: nat

definition ttl :: duration where
  "ttl = 30 * second"

definition heartbeat_every :: duration where
  "heartbeat_every = 10 * second"

definition open_store :: "string \<Rightarrow> presence_store option" where
  "open_store addr = (if addr = [] then None else Some \<lparr>zset = [], store_failures = 0\<rparr>)"

definition member_name :: "nat \<Rightarrow> string \<Rightarrow> string" where
  "member_name uid node = format_uint uid @ '':'' @ node"

definition parse_member :: "string \<Rightarrow> nat option" where
  "parse_member m =
     (case cut CHR '':'' m of
        (raw, _, found) \<Rightarrow> if \<not> found then None else parse_uint raw)"

definition format_score :: "time \<Rightarrow> string" where
  "format_score t = format_int (unix t)"

text \<open>\<open>ZADD\<close>, \<open>ZREMRANGEBYSCORE -inf (x\<close> and \<open>ZRANGEBYSCORE (x +inf\<close>.\<close>

definition zadd :: "string \<times> int \<Rightarrow> (string \<times> int) list \<Rightarrow> (string \<times> int) list" where
  "zadd e z = filter (\<lambda>e'. fst e' \<noteq> fst e) z @ [e]"

definition ztrim :: "int \<Rightarrow> (string \<times> int) list \<Rightarrow> (string \<times> int) list" where
  "ztrim cutoff z = filter (\<lambda>e. \<not> snd e < cutoff) z"

definition zabove :: "int \<Rightarrow> (string \<times> int) list \<Rightarrow> string list" where
  "zabove cutoff z = map fst (filter (\<lambda>e. cutoff < snd e) z)"

text \<open>
  The pipeline is one request. A lost answer reports an error although the commands ran.
\<close>

definition beat_zset :: "time \<Rightarrow> string \<Rightarrow> nat list \<Rightarrow> (string \<times> int) list \<Rightarrow> (string \<times> int) list" where
  "beat_zset now node ids z =
     ztrim (unix (now - ttl)) (fold (\<lambda>i. zadd (member_name i node, unix now)) ids z)"

definition store_heartbeat ::
  "fault \<Rightarrow> time \<Rightarrow> string \<Rightarrow> nat list \<Rightarrow> presence_store \<Rightarrow> bool \<times> presence_store" where
  "store_heartbeat f now node ids s =
     (case f of
        Works \<Rightarrow> (True, s\<lparr>zset := beat_zset now node ids (zset s)\<rparr>)
      | Refused \<Rightarrow> (False, s\<lparr>store_failures := store_failures s + 1\<rparr>)
      | ReplyLost \<Rightarrow> (False, s\<lparr>zset := beat_zset now node ids (zset s),
                              store_failures := store_failures s + 1\<rparr>))"

definition store_online ::
  "fault \<Rightarrow> time \<Rightarrow> nat list \<Rightarrow> presence_store \<Rightarrow> nat list option \<times> presence_store" where
  "store_online f now ids s =
     (if ids = [] then (Some [], s)
      else if f \<noteq> Works then (None, s\<lparr>store_failures := store_failures s + 1\<rparr>)
      else let online = List.map_filter parse_member (zabove (unix (now - ttl)) (zset s))
           in (Some (filter (\<lambda>i. i \<in> set online) ids), s))"

section \<open>Names\<close>

lemma parse_member_name:
  assumes "uid < 2 ^ 64"
  shows "parse_member (member_name uid node) = Some uid"
proof -
  have "cut CHR '':'' (format_uint uid @ '':'' @ node) = (format_uint uid, node, True)"
    using cut_append [of "CHR '':''" "format_uint uid" node] format_uint_no_colon [of uid] by simp
  with assms show ?thesis by (simp add: parse_member_def member_name_def parse_format_uint)
qed

lemma zadd_iff: "e' \<in> set (zadd e z) \<longleftrightarrow> e' = e \<or> e' \<in> set z \<and> fst e' \<noteq> fst e"
  by (auto simp: zadd_def)

lemma ztrim_iff: "e \<in> set (ztrim cutoff z) \<longleftrightarrow> e \<in> set z \<and> cutoff \<le> snd e"
  by (auto simp: ztrim_def)

lemma zabove_iff: "m \<in> set (zabove cutoff z) \<longleftrightarrow> (\<exists>s. (m, s) \<in> set z \<and> cutoff < s)"
  by (force simp: zabove_def)

lemma fold_zadd_sound:
  "(m, s) \<in> set (fold (\<lambda>i. zadd (member_name i node, v)) ids z) \<Longrightarrow>
   (m, s) \<in> set z \<or> s = v \<and> (\<exists>i \<in> set ids. m = member_name i node)"
proof (induction ids arbitrary: z)
  case (Cons i ids)
  then have "(m, s) \<in> set (zadd (member_name i node, v) z)
      \<or> s = v \<and> (\<exists>i \<in> set ids. m = member_name i node)" by simp
  then show ?case by (auto simp: zadd_iff)
qed simp

lemma fold_zadd_new:
  "i \<in> set ids \<Longrightarrow> (member_name i node, v) \<in> set (fold (\<lambda>i. zadd (member_name i node, v)) ids z)"
proof (induction ids arbitrary: z)
  case (Cons j ids)
  have keep: "(m, v) \<in> set z' \<Longrightarrow> (m, v) \<in> set (fold (\<lambda>i. zadd (member_name i node, v)) ids z')" for m z'
    by (induction ids arbitrary: z') (auto simp: zadd_iff)
  show ?case
  proof (cases "i \<in> set ids")
    case True
    with Cons.IH show ?thesis by simp
  next
    case False
    with Cons.prems have "i = j" by simp
    then show ?thesis by (auto intro: keep simp: zadd_iff)
  qed
qed simp

lemma fold_zadd_old:
  "(m, s) \<in> set z \<Longrightarrow> s \<le> v \<Longrightarrow> \<exists>s' \<ge> s. (m, s') \<in> set (fold (\<lambda>i. zadd (member_name i node, v)) ids z)"
proof (induction ids arbitrary: z s)
  case (Cons j ids)
  then obtain s1 where s1: "s \<le> s1" "s1 \<le> v" "(m, s1) \<in> set (zadd (member_name j node, v) z)"
    by (cases "m = member_name j node") (auto simp: zadd_iff)
  from Cons.IH [OF s1(3,2)] obtain s' where "s1 \<le> s'"
    "(m, s') \<in> set (fold (\<lambda>i. zadd (member_name i node, v)) ids (zadd (member_name j node, v) z))"
    by blast
  with s1(1) show ?case by (intro exI [of _ s']) simp
qed auto

section \<open>What the set remembers\<close>

text \<open>A history of beats, oldest first: when, from which node, for whom, and how the request ended.\<close>

type_synonym beat = "time \<times> string \<times> nat list \<times> fault"

definition run_beats :: "beat list \<Rightarrow> presence_store \<Rightarrow> presence_store" where
  "run_beats bs s = fold (\<lambda>(now, node, ids, f) s. snd (store_heartbeat f now node ids s)) bs s"

definition took_effect :: "beat \<Rightarrow> bool" where
  "took_effect b = (case b of (now, node, ids, f) \<Rightarrow> f \<noteq> Refused)"

text \<open>Presence itself: somebody's beat named the user within the last thirty seconds.\<close>

definition seen :: "beat list \<Rightarrow> time \<Rightarrow> nat \<Rightarrow> bool" where
  "seen bs now uid \<longleftrightarrow>
     list_ex (\<lambda>b. case b of (at, node, ids, f) \<Rightarrow> f \<noteq> Refused \<and> uid \<in> set ids
        \<and> unix now < unix at + 30) bs"

definition beats_in_range :: "beat list \<Rightarrow> bool" where
  "beats_in_range bs \<longleftrightarrow> list_all (\<lambda>(at, node, ids, f). list_all (\<lambda>i. i < 2 ^ 64) ids) bs"

definition remembers :: "beat list \<Rightarrow> (string \<times> int) list \<Rightarrow> time \<Rightarrow> bool" where
  "remembers bs z now \<longleftrightarrow>
     (\<forall>(m, s) \<in> set z. \<exists>(at, node, ids, f) \<in> set bs. f \<noteq> Refused \<and> s = unix at
        \<and> (\<exists>i \<in> set ids. m = member_name i node))
     \<and> (\<forall>(at, node, ids, f) \<in> set bs. f \<noteq> Refused \<longrightarrow> unix (now - ttl) \<le> unix at \<longrightarrow>
          (\<forall>i \<in> set ids. \<exists>s \<ge> unix at. (member_name i node, s) \<in> set z))"

lemma unix_ttl: "unix (t - ttl) = unix t - 30"
  unfolding ttl_def by (rule unix_diff_seconds)

lemma remembers_beat:
  assumes mem: "remembers bs z t" and "t \<le> now"
    and past: "\<And>b. b \<in> set bs \<Longrightarrow> fst b \<le> now" and f: "f \<noteq> Refused"
  shows "remembers (bs @ [(now, node, ids, f)]) (beat_zset now node ids z) now"
  unfolding remembers_def
proof (intro conjI ballI)
  fix e assume in_set: "e \<in> set (beat_zset now node ids z)"
  obtain m s where ms: "e = (m, s)" by (rule prod.exhaust)
  with in_set have e: "e = (m, s)"
    "(m, s) \<in> set (fold (\<lambda>i. zadd (member_name i node, unix now)) ids z)"
    by (auto simp: beat_zset_def ztrim_iff)
  from fold_zadd_sound [OF e(2)] mem f
  have "\<exists>(at, node', ids', f') \<in> set (bs @ [(now, node, ids, f)]). f' \<noteq> Refused \<and> s = unix at
      \<and> (\<exists>i \<in> set ids'. m = member_name i node')"
    by (fastforce simp: remembers_def)
  with e show "case e of (m, s) \<Rightarrow> \<exists>(at, node', ids', f') \<in> set (bs @ [(now, node, ids, f)]).
      f' \<noteq> Refused \<and> s = unix at \<and> (\<exists>i \<in> set ids'. m = member_name i node')" by simp
next
  fix b assume b: "b \<in> set (bs @ [(now, node, ids, f)])"
  obtain at node' ids' f' where bq: "b = (at, node', ids', f')" by (cases b)
  have "\<exists>s \<ge> unix at. (member_name i node', s) \<in> set (beat_zset now node ids z)"
    if "f' \<noteq> Refused" "unix (now - ttl) \<le> unix at" "i \<in> set ids'" for i
  proof (cases "b = (now, node, ids, f)")
    case True
    with bq that have "(member_name i node', unix at) \<in> set (fold (\<lambda>i. zadd (member_name i node, unix now)) ids z)"
      using fold_zadd_new by simp
    with that(2) show ?thesis by (auto simp: beat_zset_def ztrim_iff)
  next
    case False
    with b bq have in_bs: "(at, node', ids', f') \<in> set bs" by auto
    have "unix (t - ttl) \<le> unix (now - ttl)" using assms(2) by (intro unix_mono) simp
    with that(2) have "unix (t - ttl) \<le> unix at" by simp
    with mem in_bs that obtain s where s: "s \<ge> unix at" "(member_name i node', s) \<in> set z"
      by (fastforce simp: remembers_def)
    with mem obtain b2 where "b2 \<in> set bs" "s = unix (fst b2)"
      by (fastforce simp: remembers_def)
    with past have "s \<le> unix now" by (simp add: unix_mono)
    from fold_zadd_old [OF s(2) this, of node ids] obtain s' where
      "s' \<ge> s" "(member_name i node', s') \<in> set (fold (\<lambda>i. zadd (member_name i node, unix now)) ids z)" by blast
    with s(1) that(2) show ?thesis by (auto simp: beat_zset_def ztrim_iff intro!: exI [of _ s'])
  qed
  with bq show "case b of (at, node', ids', f') \<Rightarrow> f' \<noteq> Refused \<longrightarrow> unix (now - ttl) \<le> unix at \<longrightarrow>
          (\<forall>i \<in> set ids'. \<exists>s \<ge> unix at. (member_name i node', s) \<in> set (beat_zset now node ids z))"
    by simp
qed

lemma remembers_refused:
  "remembers bs z t \<Longrightarrow> t \<le> now \<Longrightarrow> remembers (bs @ [(now, node, ids, Refused)]) z now"
proof -
  assume mem: "remembers bs z t" and le: "t \<le> now"
  have "unix (t - ttl) \<le> unix (now - ttl)" using le by (intro unix_mono) simp
  with mem show ?thesis by (fastforce simp: remembers_def)
qed

lemma run_beats_remembers:
  assumes "sorted (map fst bs)" "\<And>b. b \<in> set bs \<Longrightarrow> fst b \<le> now"
  shows "remembers bs (zset (run_beats bs \<lparr>zset = [], store_failures = k\<rparr>)) now"
  using assms
proof (induction bs arbitrary: now rule: rev_induct)
  case Nil
  then show ?case by (simp add: remembers_def run_beats_def)
next
  case (snoc b bs)
  obtain at node ids f where b: "b = (at, node, ids, f)" by (cases b)
  let ?s = "run_beats bs \<lparr>zset = [], store_failures = k\<rparr>"
  from snoc.prems have past: "\<And>x. x \<in> set bs \<Longrightarrow> fst x \<le> at" "sorted (map fst bs)"
    by (auto simp: sorted_append b)
  have now: "at \<le> now" using snoc.prems(2) [of b] by (simp add: b)
  from snoc.IH [OF past(2,1)] have mem: "remembers bs (zset ?s) at" .
  have "remembers (bs @ [b]) (zset (run_beats (bs @ [b]) \<lparr>zset = [], store_failures = k\<rparr>)) at"
  proof (cases "f = Refused")
    case True
    with remembers_refused [OF mem order_refl] b show ?thesis
      by (simp add: run_beats_def store_heartbeat_def)
  next
    case False
    with remembers_beat [OF mem order_refl past(1) False, of node ids] b show ?thesis
      by (cases f) (simp_all add: run_beats_def store_heartbeat_def)
  qed
  moreover have "unix (at - ttl) \<le> unix (now - ttl)" using now by (intro unix_mono) simp
  ultimately show ?case by (fastforce simp: remembers_def)
qed

text \<open>The answer is presence: a refinement of the history by the sorted set.\<close>

lemma online_is_seen:
  assumes sorted: "sorted (map fst bs)" "\<And>b. b \<in> set bs \<Longrightarrow> fst b \<le> now"
    and range: "beats_in_range bs"
  shows "fst (store_online Works now ids (run_beats bs \<lparr>zset = [], store_failures = k\<rparr>)) =
    Some (filter (seen bs now) ids)"
proof -
  let ?z = "zset (run_beats bs \<lparr>zset = [], store_failures = k\<rparr>)"
  have mem: "remembers bs ?z now" using sorted by (rule run_beats_remembers)
  have "i \<in> set (List.map_filter parse_member (zabove (unix (now - ttl)) ?z)) \<longleftrightarrow> seen bs now i" for i
  proof
    assume "i \<in> set (List.map_filter parse_member (zabove (unix (now - ttl)) ?z))"
    then obtain m s where m: "(m, s) \<in> set ?z" "unix now - 30 < s" "parse_member m = Some i"
      by (auto simp: map_filter_def zabove_iff unix_ttl)
    with mem obtain at node us f j where
      b: "(at, node, us, f) \<in> set bs" "f \<noteq> Refused" "s = unix at" "j \<in> set us" "m = member_name j node"
      by (fastforce simp: remembers_def)
    with range have "j < 2 ^ 64" by (fastforce simp: beats_in_range_def list_all_iff)
    with m(3) b(5) parse_member_name have "i = j" by simp
    with b m(2) have "f \<noteq> Refused \<and> i \<in> set us \<and> unix now < unix at + 30" by simp
    with b(1) show "seen bs now i"
      unfolding seen_def list_ex_iff by (intro bexI [of _ "(at, node, us, f)"]) simp_all
  next
    assume "seen bs now i"
    then obtain at node us f where
      b: "(at, node, us, f) \<in> set bs" "f \<noteq> Refused" "i \<in> set us" "unix now < unix at + 30"
      by (auto simp: seen_def list_ex_iff)
    then have "unix (now - ttl) \<le> unix at" by (simp add: unix_ttl)
    with mem b obtain s where s: "s \<ge> unix at" "(member_name i node, s) \<in> set ?z"
      by (fastforce simp: remembers_def)
    with b(4) have "member_name i node \<in> set (zabove (unix (now - ttl)) ?z)"
      by (auto simp: zabove_iff unix_ttl)
    moreover have "parse_member (member_name i node) = Some i"
      using range b(1,3) by (intro parse_member_name) (fastforce simp: beats_in_range_def list_all_iff)
    ultimately show "i \<in> set (List.map_filter parse_member (zabove (unix (now - ttl)) ?z))"
      by (force simp: map_filter_def)
  qed
  then show ?thesis by (simp add: store_online_def Let_def)
qed

end
