(* ===== verification/Presence_Service.thy ===== *)
theory Presence_Service
  imports Presence_Store
begin

text \<open>
  The server side of the presence RPC, \<open>internal/presence/service.go\<close>: it validates, calls the
  store and turns an error into a status code. The code is the contract with the client.
\<close>

datatype grpc_code =
    Canceled | Unknown | InvalidArgument | DeadlineExceeded | NotFound | AlreadyExists
  | PermissionDenied | ResourceExhausted | FailedPrecondition | Aborted | OutOfRange
  | Unimplemented | Internal | GrpcUnavailable | DataLoss | Unauthenticated

type_synonym status = "grpc_code \<times> string"

definition max_users_per_call :: nat where
  "max_users_per_call = 10000"

definition too_many :: "nat \<Rightarrow> status" where
  "too_many n = (InvalidArgument, ''too many user_ids: '' @ format_uint n @ '', the limit is ''
     @ format_uint max_users_per_call)"

text \<open>The words after the colon are the store's own.\<close>

definition store_down :: status where
  "store_down = (GrpcUnavailable, ''presence store: '')"

definition service_heartbeat ::
  "fault \<Rightarrow> time \<Rightarrow> string \<Rightarrow> nat list \<Rightarrow> presence_store \<Rightarrow> (status + unit) \<times> presence_store" where
  "service_heartbeat f now node ids s =
     (if node = [] then (Inl (InvalidArgument, ''node_id is required''), s)
      else if length ids > max_users_per_call then (Inl (too_many (length ids)), s)
      else case store_heartbeat f now node ids s of
             (False, s') \<Rightarrow> (Inl store_down, s')
           | (True, s') \<Rightarrow> (Inr (), s'))"

definition service_online ::
  "fault \<Rightarrow> time \<Rightarrow> nat list \<Rightarrow> presence_store \<Rightarrow> (status + nat list) \<times> presence_store" where
  "service_online f now ids s =
     (if length ids > max_users_per_call then (Inl (too_many (length ids)), s)
      else case store_online f now ids s of
             (None, s') \<Rightarrow> (Inl store_down, s')
           | (Some online, s') \<Rightarrow> (Inr online, s'))"

text \<open>A request the service refuses touches nothing; a failing store is never an answer.\<close>

lemma heartbeat_codes:
  assumes "service_heartbeat f now node ids s = (r, s')"
  shows "(r = Inr () \<longrightarrow> f = Works \<and> node \<noteq> [] \<and> length ids \<le> max_users_per_call)
    \<and> (\<forall>c m. r = Inl (c, m) \<longrightarrow> c = InvalidArgument \<and> s' = s \<or> c = GrpcUnavailable \<and> f \<noteq> Works)"
  using assms
  by (auto simp: service_heartbeat_def too_many_def store_down_def store_heartbeat_def
      split: if_splits fault.splits)

lemma online_codes:
  assumes "service_online f now ids s = (r, s')"
  shows "zset s' = zset s
    \<and> (\<forall>us. r = Inr us \<longrightarrow> set us \<subseteq> set ids)
    \<and> (\<forall>c m. r = Inl (c, m) \<longrightarrow> c = InvalidArgument \<and> s' = s \<or> c = GrpcUnavailable \<and> f \<noteq> Works)"
  using assms
  by (auto simp: service_online_def too_many_def store_down_def store_online_def Let_def
      split: if_splits)

end
