(* ===== verification/Breaker.thy ===== *)
theory Breaker
  imports Chat_Prelude
begin

text \<open>
  The circuit breaker of \<open>internal/presence/breaker.go\<close>: its three states, the operations under
  its mutex as functions that take what the clock shows, and runs of them in any order, which is
  what concurrent callers produce.
\<close>

datatype breaker_state = Closed | Open | HalfOpen

record breaker =
  b_threshold :: int
  b_open_for :: duration
  b_state :: breaker_state
  b_failures :: int
  b_opened_at :: time
  b_probing :: bool

definition breaker_state_string :: "breaker_state \<Rightarrow> string" where
  "breaker_state_string s =
     (case s of Open \<Rightarrow> ''open'' | HalfOpen \<Rightarrow> ''half-open'' | Closed \<Rightarrow> ''closed'')"

definition new_breaker :: "int \<Rightarrow> duration \<Rightarrow> breaker" where
  "new_breaker threshold open_for =
     \<lparr>b_threshold = threshold, b_open_for = open_for, b_state = Closed, b_failures = 0,
      b_opened_at = zero_time, b_probing = False\<rparr>"

definition allow :: "time \<Rightarrow> breaker \<Rightarrow> bool \<times> breaker" where
  "allow now b =
     (case b_state b of
        Closed \<Rightarrow> (True, b)
      | Open \<Rightarrow>
          if now - b_opened_at b < b_open_for b then (False, b)
          else (True, b\<lparr>b_state := HalfOpen, b_probing := True\<rparr>)
      | HalfOpen \<Rightarrow>
          if b_probing b then (False, b)
          else (True, b\<lparr>b_probing := True\<rparr>))"

definition success :: "breaker \<Rightarrow> breaker" where
  "success b = b\<lparr>b_failures := 0, b_probing := False, b_state := Closed\<rparr>"

definition failure :: "time \<Rightarrow> breaker \<Rightarrow> breaker" where
  "failure now b =
     (let b1 = b\<lparr>b_probing := False\<rparr>
      in if b_state b1 = HalfOpen then b1\<lparr>b_state := Open, b_opened_at := now\<rparr>
         else let b2 = b1\<lparr>b_failures := b_failures b1 + 1\<rparr>
              in if b_failures b2 \<ge> b_threshold b2 then b2\<lparr>b_state := Open, b_opened_at := now\<rparr>
                 else b2)"

definition state_string :: "time \<Rightarrow> breaker \<Rightarrow> string" where
  "state_string now b =
     (if b_state b = Open \<and> now - b_opened_at b \<ge> b_open_for b then breaker_state_string HalfOpen
      else breaker_state_string (b_state b))"

section \<open>Runs\<close>

text \<open>What callers do to one breaker, in the order the mutex serialises it.\<close>

datatype breaker_event = Ask time | Answered | Unanswered time

fun breaker_run :: "breaker_event list \<Rightarrow> breaker \<Rightarrow> bool list \<times> breaker" where
  "breaker_run [] b = ([], b)"
| "breaker_run (Ask t # es) b =
     (case allow t b of (ok, b1) \<Rightarrow>
        (case breaker_run es b1 of (oks, b2) \<Rightarrow> (ok # oks, b2)))"
| "breaker_run (Answered # es) b = breaker_run es (success b)"
| "breaker_run (Unanswered t # es) b = breaker_run es (failure t b)"

definition breaker_ok :: "breaker \<Rightarrow> bool" where
  "breaker_ok b \<longleftrightarrow> 0 \<le> b_failures b
     \<and> (b_state b = Closed \<longrightarrow> b_failures b < b_threshold b \<and> \<not> b_probing b)
     \<and> (b_state b = Open \<longrightarrow> b_threshold b \<le> b_failures b \<and> \<not> b_probing b)
     \<and> (b_state b = HalfOpen \<longrightarrow> b_threshold b \<le> b_failures b)"

lemma new_breaker_ok: "0 < threshold \<Longrightarrow> breaker_ok (new_breaker threshold open_for)"
  by (simp add: breaker_ok_def new_breaker_def)

lemma breaker_consts [simp]:
  "b_threshold (snd (allow t b)) = b_threshold b" "b_open_for (snd (allow t b)) = b_open_for b"
  "b_threshold (success b) = b_threshold b" "b_open_for (success b) = b_open_for b"
  "b_threshold (failure t b) = b_threshold b" "b_open_for (failure t b) = b_open_for b"
  by (simp_all add: allow_def success_def failure_def Let_def split: breaker_state.split)

lemma allow_ok: "breaker_ok b \<Longrightarrow> breaker_ok (snd (allow t b))"
  by (auto simp: breaker_ok_def allow_def split: breaker_state.splits)

lemma success_ok: "breaker_ok b \<Longrightarrow> 0 < b_threshold b \<Longrightarrow> breaker_ok (success b)"
  by (auto simp: breaker_ok_def success_def)

lemma failure_ok: "breaker_ok b \<Longrightarrow> breaker_ok (failure t b)"
  by (auto simp: breaker_ok_def failure_def Let_def split: if_splits breaker_state.splits)

lemma breaker_run_ok:
  "breaker_ok b \<Longrightarrow> 0 < b_threshold b \<Longrightarrow>
   breaker_ok (snd (breaker_run es b)) \<and> b_threshold (snd (breaker_run es b)) = b_threshold b"
proof (induction es b rule: breaker_run.induct)
  case (2 t es b)
  obtain ok b1 where a: "allow t b = (ok, b1)" by fastforce
  with 2(2,3) allow_ok [of b t] breaker_consts(1) [of t b] have "breaker_ok b1" "b_threshold b1 = b_threshold b"
    by auto
  with 2(1) [of ok b1] 2(3) a show ?case by (auto split: prod.splits)
qed (auto simp: success_ok failure_ok)

section \<open>Opening\<close>

text \<open>Failures in a row, with no answer in between.\<close>

lemma failures_in_a_row:
  assumes "b_state b = Closed" "b_failures b + int (length ts) < b_threshold b"
  shows "b_state (fold failure ts b) = Closed
    \<and> b_failures (fold failure ts b) = b_failures b + int (length ts)"
  using assms
proof (induction ts arbitrary: b)
  case (Cons t ts)
  then have "b_state (failure t b) = Closed" "b_failures (failure t b) = b_failures b + 1"
    by (auto simp: failure_def Let_def)
  with Cons show ?case by (auto simp: add.assoc)
qed simp

lemma last_failure_opens:
  assumes "b_state b = Closed" "b_failures b + 1 = b_threshold b"
  shows "b_state (failure t b) = Open \<and> b_opened_at (failure t b) = t"
  using assms by (auto simp: failure_def Let_def)

lemma opens_at_threshold:
  assumes closed: "b_state b = Closed" "b_failures b = 0"
    and n: "int (length ts) + 1 = b_threshold b"
  shows "b_state (fold failure ts b) = Closed"
    and "b_state (failure t (fold failure ts b)) = Open"
    and "b_opened_at (failure t (fold failure ts b)) = t"
proof -
  have thr: "b_threshold (fold failure ts b) = b_threshold b" by (induction ts arbitrary: b) auto
  from failures_in_a_row [OF closed(1)] closed(2) n
  have f: "b_state (fold failure ts b) = Closed" "b_failures (fold failure ts b) = int (length ts)" by auto
  then show "b_state (fold failure ts b) = Closed" by simp
  from last_failure_opens [OF f(1)] f(2) thr n
  show "b_state (failure t (fold failure ts b)) = Open"
    "b_opened_at (failure t (fold failure ts b)) = t" by auto
qed

text \<open>While it is open, every caller is refused and nothing moves.\<close>

lemma open_refuses:
  assumes "b_state b = Open" "\<And>t. t \<in> set ts \<Longrightarrow> t < b_opened_at b + b_open_for b"
  shows "breaker_run (map Ask ts) b = (replicate (length ts) False, b)"
  using assms
proof (induction ts)
  case (Cons t ts)
  have "t < b_opened_at b + b_open_for b" using Cons.prems(2) by simp
  then have "allow t b = (False, b)" using Cons.prems(1) by (simp add: allow_def)
  with Cons show ?case by simp
qed simp

section \<open>The probe\<close>

lemma probing_refuses:
  assumes "b_state b = HalfOpen" "b_probing b"
  shows "breaker_run (map Ask ts) b = (replicate (length ts) False, b)"
  using assms by (induction ts) (auto simp: allow_def)

text \<open>Once the time is up the next caller is let through, and only that one.\<close>

lemma one_probe:
  assumes "b_state b = Open" "b_opened_at b + b_open_for b \<le> t"
  shows "breaker_run (map Ask (t # ts)) b =
    (True # replicate (length ts) False, b\<lparr>b_state := HalfOpen, b_probing := True\<rparr>)"
proof -
  have "allow t b = (True, b\<lparr>b_state := HalfOpen, b_probing := True\<rparr>)"
    using assms by (simp add: allow_def)
  then show ?thesis by (simp add: probing_refuses)
qed

lemma probe_outcome:
  assumes "b_state b = HalfOpen"
  shows "b_state (success b) = Closed \<and> b_failures (success b) = 0
    \<and> b_state (failure t b) = Open \<and> b_opened_at (failure t b) = t"
  using assms by (simp add: success_def failure_def Let_def)

end
