(* ===== verification/Presence_Client.thy ===== *)
theory Presence_Client
  imports Presence_Service Breaker
begin

text \<open>
  The client half of presence, \<open>internal/presence/client.go\<close>. One logical call goes through the
  breaker, runs up to three attempts inside one deadline with jittered backoff, and books what
  it learned. What the network does is a parameter: for each attempt, the answer or the status,
  the instant it came back, the random wait, and whether the context ended during the wait.

  \<open>parent_done\<close> is \<open>parent.Err() != nil\<close> at the moment the call is booked: the caller gave up.
\<close>

definition online_timeout :: duration where "online_timeout = second"
definition heartbeat_timeout :: duration where "heartbeat_timeout = heartbeat_every div 2"
definition max_attempts :: nat where "max_attempts = 3"
definition initial_backoff :: duration where "initial_backoff = 50 * millisecond"
definition breaker_threshold :: int where "breaker_threshold = 5"
definition breaker_open_for :: duration where "breaker_open_for = 5 * second"

datatype presence_error = CircuitOpen | Status grpc_code

record presence_client =
  p_node_id :: string
  p_breaker :: breaker
  p_calls :: nat
  p_failures :: nat
  p_retries :: nat
  p_short_circuited :: nat

text \<open>
  \<open>FromEnv\<close>: no address is single-node mode, and so is an address gRPC cannot use
  (\<open>target_ok\<close> is \<open>grpc.NewClient\<close>'s verdict on it).
\<close>

definition client_from_env :: "(string \<Rightarrow> bool) \<Rightarrow> string \<Rightarrow> string \<Rightarrow> presence_client option" where
  "client_from_env target_ok node addr =
     (if addr = [] then None
      else if \<not> target_ok addr then None
      else Some \<lparr>p_node_id = node, p_breaker = new_breaker breaker_threshold breaker_open_for,
             p_calls = 0, p_failures = 0, p_retries = 0, p_short_circuited = 0\<rparr>)"

definition answered :: "grpc_code \<Rightarrow> bool" where
  "answered c = (case c of GrpcUnavailable \<Rightarrow> False | DeadlineExceeded \<Rightarrow> False | Canceled \<Rightarrow> False
                 | _ \<Rightarrow> True)"

definition retryable :: "grpc_code \<Rightarrow> bool" where
  "retryable c \<longleftrightarrow> c = GrpcUnavailable"

section \<open>One call\<close>

record 'r rpc_attempt =
  a_result :: "grpc_code + 'r"
  a_at :: time
  a_jitter :: int
  a_interrupted :: bool
  a_woken :: time

definition record_failure :: "bool \<Rightarrow> time \<Rightarrow> presence_client \<Rightarrow> presence_client" where
  "record_failure parent_done now c =
     (if parent_done then c
      else c\<lparr>p_breaker := failure now (p_breaker c), p_failures := p_failures c + 1\<rparr>)"

definition record_success :: "presence_client \<Rightarrow> presence_client" where
  "record_success c = c\<lparr>p_breaker := success (p_breaker c)\<rparr>"

text \<open>\<open>rand.Int64N(backoff)\<close> is a number below the backoff.\<close>

function attempt_loop ::
  "(nat \<Rightarrow> 'r rpc_attempt) \<Rightarrow> time \<Rightarrow> bool \<Rightarrow> nat \<Rightarrow> duration \<Rightarrow> presence_client
     \<Rightarrow> (presence_error + 'r) \<times> presence_client" where
  "attempt_loop env deadline parent_done k backoff c =
     (let a = env k in
      case a_result a of
        Inr x \<Rightarrow> (Inr x, record_success c)
      | Inl code \<Rightarrow>
          if answered code then (Inl (Status code), record_success c)
          else if \<not> retryable code \<or> k \<ge> max_attempts
            then (Inl (Status code), record_failure parent_done (a_at a) c)
          else
            let wait = a_jitter a mod backoff in
            if deadline - a_at a \<le> wait
              then (Inl (Status code), record_failure parent_done (a_at a) c)
            else if a_interrupted a
              then (Inl (Status code), record_failure parent_done (a_woken a) c)
            else attempt_loop env deadline parent_done (k + 1) (backoff * 2)
                   (c\<lparr>p_retries := p_retries c + 1\<rparr>))"
  by pat_completeness auto
termination
  by (relation "measure (\<lambda>(env, deadline, pd, k, backoff, c). max_attempts - k)") auto

declare attempt_loop.simps [simp del]

definition presence_call ::
  "time \<Rightarrow> time option \<Rightarrow> duration \<Rightarrow> (nat \<Rightarrow> 'r rpc_attempt) \<Rightarrow> bool \<Rightarrow> presence_client
     \<Rightarrow> (presence_error + 'r) \<times> presence_client" where
  "presence_call now parent_deadline timeout env parent_done c =
     (case allow now (p_breaker c) of
        (False, b) \<Rightarrow> (Inl CircuitOpen,
            c\<lparr>p_breaker := b, p_short_circuited := p_short_circuited c + 1\<rparr>)
      | (True, b) \<Rightarrow>
          let deadline = (case parent_deadline of None \<Rightarrow> now + timeout
                          | Some d \<Rightarrow> min d (now + timeout))
          in attempt_loop env deadline parent_done 1 initial_backoff
               (c\<lparr>p_breaker := b, p_calls := p_calls c + 1\<rparr>))"

section \<open>The operations\<close>

definition online_map :: "nat list \<Rightarrow> nat list \<Rightarrow> (nat \<rightharpoonup> bool)" where
  "online_map ids got =
     fold (\<lambda>i m. m(i \<mapsto> True)) got (fold (\<lambda>i m. m(i \<mapsto> False)) ids Map.empty)"

definition client_online ::
  "time \<Rightarrow> time option \<Rightarrow> (nat \<Rightarrow> nat list rpc_attempt) \<Rightarrow> bool \<Rightarrow> nat list \<Rightarrow> presence_client option
     \<Rightarrow> (presence_error + (nat \<rightharpoonup> bool)) \<times> presence_client option" where
  "client_online now pd env gone ids c =
     (case c of
        None \<Rightarrow> (Inr Map.empty, None)
      | Some c \<Rightarrow>
          if ids = [] then (Inr Map.empty, Some c)
          else case presence_call now pd online_timeout env gone c of
                 (Inl e, c') \<Rightarrow> (Inl e, Some c')
               | (Inr got, c') \<Rightarrow> (Inr (online_map ids got), Some c'))"

definition client_heartbeat ::
  "time \<Rightarrow> time option \<Rightarrow> (nat \<Rightarrow> unit rpc_attempt) \<Rightarrow> bool \<Rightarrow> presence_client option
     \<Rightarrow> (presence_error + unit) \<times> presence_client option" where
  "client_heartbeat now pd env gone c =
     (case c of
        None \<Rightarrow> (Inr (), None)
      | Some c \<Rightarrow>
          (case presence_call now pd heartbeat_timeout env gone c of
             (Inl e, c') \<Rightarrow> (Inl e, Some c')
           | (Inr _, c') \<Rightarrow> (Inr (), Some c')))"

text \<open>\<open>Ping\<close> skips the breaker: the health service's status, or the error of the call.\<close>

definition client_ping :: "(grpc_code + string) \<Rightarrow> presence_client option \<Rightarrow> string + unit" where
  "client_ping check c =
     (case c of
        None \<Rightarrow> Inr ()
      | Some _ \<Rightarrow>
          (case check of
             Inl code \<Rightarrow> Inl ''rpc error''
           | Inr st \<Rightarrow> if st = ''SERVING'' then Inr ()
                      else Inl (''presence service is not serving: '' @ st)))"

definition client_breaker_state :: "time \<Rightarrow> presence_client option \<Rightarrow> string" where
  "client_breaker_state now c =
     (case c of None \<Rightarrow> ''closed'' | Some c \<Rightarrow> state_string now (p_breaker c))"

section \<open>What a call can do\<close>

text \<open>
  Unrolled: a call ends after at most three attempts, with one of three effects on the breaker.
\<close>

lemma attempt_loop_cases:
  assumes "attempt_loop env deadline parent_done k backoff c = (r, c')"
  shows "p_calls c' = p_calls c \<and> p_short_circuited c' = p_short_circuited c
    \<and> p_retries c \<le> p_retries c' \<and> p_retries c' \<le> p_retries c + (max_attempts - k)
    \<and> (p_breaker c' = success (p_breaker c) \<and> p_failures c' = p_failures c
         \<and> (\<forall>e. r = Inl e \<longrightarrow> (\<exists>code. e = Status code \<and> answered code))
       \<or> (\<exists>code. r = Inl (Status code) \<and> \<not> answered code
           \<and> (if parent_done then p_breaker c' = p_breaker c \<and> p_failures c' = p_failures c
              else (\<exists>t. p_breaker c' = failure t (p_breaker c)) \<and> p_failures c' = p_failures c + 1)))"
  using assms
proof (induction env deadline parent_done k backoff c rule: attempt_loop.induct)
  case (1 env deadline parent_done k backoff c)
  show ?case
  proof (cases "a_result (env k)")
    case (Inr x)
    with 1(2) show ?thesis
      by (auto simp: attempt_loop.simps [of env deadline parent_done k backoff c] record_success_def)
  next
    case (Inl code)
    note run = 1(2) [unfolded attempt_loop.simps [of env deadline parent_done k backoff c], simplified Let_def Inl sum.case]
    show ?thesis
    proof (cases "\<not> answered code \<and> retryable code \<and> k < max_attempts
        \<and> \<not> deadline - a_at (env k) \<le> a_jitter (env k) mod backoff \<and> \<not> a_interrupted (env k)")
      case True
      with run have next_run: "attempt_loop env deadline parent_done (k + 1) (backoff * 2)
          (c\<lparr>p_retries := p_retries c + 1\<rparr>) = (r, c')" by auto
      from 1(1) [OF refl Inl _ _ refl _ _ next_run] True show ?thesis by auto
    next
      case False
      with run show ?thesis
        by (auto simp: record_success_def record_failure_def split: if_splits)
    qed
  qed
qed

text \<open>Calls one after another: when, the caller's own deadline, the timeout, the network, cancelled?\<close>

type_synonym 'r request = "time \<times> time option \<times> duration \<times> (nat \<Rightarrow> 'r rpc_attempt) \<times> bool"

fun run_calls :: "'r request list \<Rightarrow> presence_client \<Rightarrow> (presence_error + 'r) list \<times> presence_client" where
  "run_calls [] c = ([], c)"
| "run_calls ((now, pd, timeout, env, gone) # reqs) c =
     (case presence_call now pd timeout env gone c of (r, c1) \<Rightarrow>
        (case run_calls reqs c1 of (rs, c2) \<Rightarrow> (r # rs, c2)))"

text \<open>A network on which nobody answers.\<close>

definition dead :: "(nat \<Rightarrow> 'r rpc_attempt) \<Rightarrow> bool" where
  "dead env \<longleftrightarrow> (\<forall>k. \<exists>code. a_result (env k) = Inl code \<and> \<not> answered code)"

lemma attempt_loop_dead:
  assumes "attempt_loop env deadline parent_done k backoff c = (r, c')" "dead env"
  shows "\<exists>code. r = Inl (Status code) \<and> \<not> answered code
    \<and> (if parent_done then p_breaker c' = p_breaker c
       else (\<exists>t. p_breaker c' = failure t (p_breaker c)))"
  using assms
proof (induction env deadline parent_done k backoff c rule: attempt_loop.induct)
  case (1 env deadline parent_done k backoff c)
  from 1(3) obtain code where code: "a_result (env k) = Inl code" "\<not> answered code"
    by (auto simp: dead_def)
  note run = 1(2) [unfolded attempt_loop.simps [of env deadline parent_done k backoff c],
      simplified Let_def code sum.case if_False]
  show ?case
  proof (cases "retryable code \<and> k < max_attempts
      \<and> \<not> deadline - a_at (env k) \<le> a_jitter (env k) mod backoff \<and> \<not> a_interrupted (env k)")
    case True
    with run have next_run: "attempt_loop env deadline parent_done (k + 1) (backoff * 2)
        (c\<lparr>p_retries := p_retries c + 1\<rparr>) = (r, c')" by auto
    from 1(1) [OF refl code(1) code(2) _ refl _ _ next_run 1(3)] True show ?thesis by auto
  next
    case False
    with run code(2) show ?thesis by (auto simp: record_failure_def split: if_splits)
  qed
qed

lemma presence_call_refused:
  assumes "allow now (p_breaker c) = (False, b)"
  shows "presence_call now pd timeout env parent_done c =
    (Inl CircuitOpen, c\<lparr>p_breaker := b, p_short_circuited := p_short_circuited c + 1\<rparr>)"
  using assms by (simp add: presence_call_def)

lemma presence_call_dead:
  assumes "presence_call now pd timeout env False c = (r, c')" "dead env"
    and "b_state (p_breaker c) = Closed"
  shows "(\<exists>code. r = Inl (Status code)) \<and> (\<exists>t. p_breaker c' = failure t (p_breaker c))"
proof -
  have "allow now (p_breaker c) = (True, p_breaker c)" using assms(3) by (simp add: allow_def)
  with assms(1,2) show ?thesis
    by (auto simp: presence_call_def Let_def dest!: attempt_loop_dead)
qed

text \<open>Five calls nobody answers open the circuit, and the next ones cost nothing.\<close>

lemma dead_calls_count:
  assumes "\<And>q. q \<in> set reqs \<Longrightarrow> (case q of (now, pd, timeout, env, gone) \<Rightarrow> dead env \<and> \<not> gone)"
    and "b_state (p_breaker c) = Closed" "b_failures (p_breaker c) + int (length reqs) < b_threshold (p_breaker c)"
  shows "b_state (p_breaker (snd (run_calls reqs c))) = Closed
    \<and> b_failures (p_breaker (snd (run_calls reqs c))) = b_failures (p_breaker c) + int (length reqs)
    \<and> b_threshold (p_breaker (snd (run_calls reqs c))) = b_threshold (p_breaker c)
    \<and> b_open_for (p_breaker (snd (run_calls reqs c))) = b_open_for (p_breaker c)"
  using assms
proof (induction reqs arbitrary: c)
  case (Cons q reqs)
  obtain now pd timeout env gone where q: "q = (now, pd, timeout, env, gone)" by (cases q)
  obtain r c1 where call: "presence_call now pd timeout env gone c = (r, c1)" by fastforce
  from Cons.prems(1) [of q] q have d: "dead env" "\<not> gone" by auto
  from presence_call_dead [of now pd timeout env c r c1] call d Cons.prems(2)
  obtain t where t: "p_breaker c1 = failure t (p_breaker c)" by auto
  with Cons.prems(2,3) have c1: "b_state (p_breaker c1) = Closed"
    "b_failures (p_breaker c1) = b_failures (p_breaker c) + 1"
    "b_threshold (p_breaker c1) = b_threshold (p_breaker c)"
    "b_open_for (p_breaker c1) = b_open_for (p_breaker c)"
    by (auto simp: failure_def Let_def)
  have "b_failures (p_breaker c1) + int (length reqs) < b_threshold (p_breaker c1)"
    using c1 Cons.prems(3) by simp
  from Cons.IH [OF _ c1(1) this] Cons.prems(1) c1 call q show ?case
    by (auto split: prod.splits)
qed simp

lemma run_calls_append:
  "run_calls (xs @ ys) c =
     (case run_calls xs c of (rs, c1) \<Rightarrow> (case run_calls ys c1 of (ss, c2) \<Rightarrow> (rs @ ss, c2)))"
  by (induction xs arbitrary: c) (auto split: prod.splits)

lemma dead_service_cut_off:
  assumes dead: "\<And>q. q \<in> set (reqs @ [last_req]) \<Longrightarrow>
      (case q of (now, pd, timeout, env, gone) \<Rightarrow> dead env \<and> \<not> gone)"
    and start: "b_state (p_breaker c) = Closed" "b_failures (p_breaker c) = 0"
    and n: "int (length reqs) + 1 = b_threshold (p_breaker c)"
    and run: "run_calls (reqs @ [last_req]) c = (rs, c')"
  shows "b_state (p_breaker c') = Open
    \<and> (\<forall>now pd timeout env' gone. now < b_opened_at (p_breaker c') + b_open_for (p_breaker c') \<longrightarrow>
        presence_call now pd timeout env' gone c' =
          (Inl CircuitOpen, c'\<lparr>p_short_circuited := p_short_circuited c' + 1\<rparr>))"
proof -
  obtain rs1 c1 where r1: "run_calls reqs c = (rs1, c1)" by fastforce
  obtain now pd timeout env gone where q: "last_req = (now, pd, timeout, env, gone)" by (cases last_req)
  obtain r c2 where call: "presence_call now pd timeout env gone c1 = (r, c2)" by fastforce
  from run r1 call q have c': "c' = c2" by (simp add: run_calls_append)
  from dead_calls_count [of reqs c] dead start n r1
  have c1: "b_state (p_breaker c1) = Closed" "b_failures (p_breaker c1) + 1 = b_threshold (p_breaker c1)"
    by auto
  from dead [of last_req] q have d: "dead env" "\<not> gone" by auto
  from presence_call_dead [of now pd timeout env c1 r c2] call d c1(1)
  obtain t where t: "p_breaker c2 = failure t (p_breaker c1)" by auto
  with last_failure_opens [OF c1] c' have isopen: "b_state (p_breaker c') = Open" by simp
  then have refuse: "allow now' (p_breaker c') = (False, p_breaker c')"
    if "now' < b_opened_at (p_breaker c') + b_open_for (p_breaker c')" for now'
    using that by (simp add: allow_def)
  show ?thesis
  proof (intro conjI allI impI)
    show "b_state (p_breaker c') = Open" by (rule isopen)
  next
    fix now2 pd2 timeout2 env2 gone2
    assume "now2 < b_opened_at (p_breaker c') + b_open_for (p_breaker c')"
    from presence_call_refused [OF refuse [OF this]]
    show "presence_call now2 pd2 timeout2 env2 gone2 c' =
        (Inl CircuitOpen, c'\<lparr>p_short_circuited := p_short_circuited c' + 1\<rparr>)" by simp
  qed
qed

text \<open>
  A probe whose caller goes away is booked nowhere, so the breaker keeps waiting for it.
\<close>

lemma stuck_refuses:
  assumes "b_state (p_breaker c) = HalfOpen" "b_probing (p_breaker c)"
  shows "set (fst (run_calls reqs c)) \<subseteq> {Inl CircuitOpen}"
  using assms
proof (induction reqs arbitrary: c)
  case (Cons q reqs)
  obtain now pd timeout env gone where q: "q = (now, pd, timeout, env, gone)" by (cases q)
  have "allow now (p_breaker c) = (False, p_breaker c)" using Cons.prems by (simp add: allow_def)
  from presence_call_refused [OF this] have call: "presence_call now pd timeout env gone c =
      (Inl CircuitOpen, c\<lparr>p_short_circuited := p_short_circuited c + 1\<rparr>)" by simp
  from Cons.IH [of "c\<lparr>p_short_circuited := p_short_circuited c + 1\<rparr>"] Cons.prems call q
  show ?case by (auto split: prod.splits)
qed simp

lemma cancelled_probe_sticks:
  assumes "b_state (p_breaker c) = Open"
    and "b_opened_at (p_breaker c) + b_open_for (p_breaker c) \<le> now"
    and "dead env" and "presence_call now pd timeout env True c = (r, c')"
  shows "set (fst (run_calls reqs c')) \<subseteq> {Inl CircuitOpen}"
proof -
  have "allow now (p_breaker c) = (True, (p_breaker c)\<lparr>b_state := HalfOpen, b_probing := True\<rparr>)"
    using assms(1,2) by (simp add: allow_def)
  with assms(3,4) have "p_breaker c' = (p_breaker c)\<lparr>b_state := HalfOpen, b_probing := True\<rparr>"
    by (auto simp: presence_call_def Let_def dest!: attempt_loop_dead)
  then show ?thesis by (intro stuck_refuses) simp_all
qed

text \<open>The answer for every id that was asked about, and for nobody else.\<close>

lemma fold_upd: "fold (\<lambda>i m. m(i \<mapsto> v)) ids m x = (if x \<in> set ids then Some v else m x)"
  by (induction ids arbitrary: m) auto

lemma online_map_at: "online_map ids got x =
    (if x \<in> set got then Some True else if x \<in> set ids then Some False else None)"
  by (simp add: online_map_def fold_upd)

text \<open>One call makes at most three attempts, counts itself once and books at most one failure.\<close>

lemma call_bounded:
  assumes "allow now (p_breaker c) = (True, b)"
    and "presence_call now pd timeout env gone c = (r, c')"
  shows "p_calls c' = p_calls c + 1
    \<and> p_retries c' \<le> p_retries c + 2
    \<and> (\<forall>x. r = Inr x \<longrightarrow> p_breaker c' = success b)
    \<and> p_failures c \<le> p_failures c' \<and> p_failures c' \<le> p_failures c + 1
    \<and> r \<noteq> Inl CircuitOpen"
proof -
  from assms obtain deadline where
    "attempt_loop env deadline gone 1 initial_backoff (c\<lparr>p_breaker := b, p_calls := p_calls c + 1\<rparr>) = (r, c')"
    by (auto simp: presence_call_def Let_def)
  from attempt_loop_cases [OF this] show ?thesis
    by (auto simp: max_attempts_def split: if_splits)
qed

end
