(* ===== verification/Relay.thy ===== *)
theory Relay
  imports Db_System
begin

text \<open>
  The outbox relay, \<open>internal/outbox/relay.go\<close> and \<open>stats.go\<close>. The two Go interfaces it talks to
  are records of functions over a world \<open>'w\<close>: \<open>store\<close> is the slice of the database it needs,
  \<open>publisher\<close> is where a row goes. The locale \<open>relay_world\<close> says what both promise; the lemmas
  about one drain, about order, about loss and about progress are proved there once, and the
  theories of the two publishers interpret it.
\<close>

section \<open>The interfaces\<close>

record 'w store =
  s_try_lock :: "'w \<Rightarrow> (db_error + nat option) \<times> 'w"
  s_fetch :: "nat \<Rightarrow> 'w \<Rightarrow> (db_error + outbox_row list) \<times> 'w"
  s_mark_published :: "time \<Rightarrow> nat list \<Rightarrow> 'w \<Rightarrow> (db_error + unit) \<times> 'w"
  s_mark_failed :: "nat \<Rightarrow> string \<Rightarrow> 'w \<Rightarrow> (db_error + unit) \<times> 'w"
  s_delete_published :: "time \<Rightarrow> 'w \<Rightarrow> (db_error + nat) \<times> 'w"
  s_delete_consumed :: "time \<Rightarrow> 'w \<Rightarrow> (db_error + nat) \<times> 'w"
  s_stats :: "'w \<Rightarrow> (db_error + nat \<times> time) \<times> 'w"
  s_member_ids :: "nat \<Rightarrow> 'w \<Rightarrow> (db_error + nat list) \<times> 'w"

type_synonym 'w publisher =
  "time \<Rightarrow> nat \<Rightarrow> message_created \<Rightarrow> nat list \<Rightarrow> 'w \<Rightarrow> (string + unit) \<times> 'w"

text \<open>\<open>err.Error()\<close>, as far as this program chooses the words.\<close>

fun error_text :: "db_error \<Rightarrow> string" where
  "error_text ErrUserExists = ''user already exists''"
| "error_text ErrUserNotFound = ''user not found''"
| "error_text ErrConversationNotFound = ''conversation not found''"
| "error_text ErrAlreadyMember = ''user is already a member''"
| "error_text ErrRefreshTokenNotFound = ''refresh token not found''"
| "error_text ErrEncode = ''encode message event: ''"
| "error_text (Raw e) = ''''"
| "error_text (Wrap s e) = s @ '': '' @ error_text e"

section \<open>The relay\<close>

definition leader_retry :: duration where "leader_retry = 5 * second"
definition janitor_every :: duration where "janitor_every = minute"
definition stats_every :: duration where "stats_every = 5 * second"

record relay =
  r_poll_interval :: duration
  r_retention :: duration
  r_inbox_retention :: duration
  r_batch_size :: nat
  r_leader :: bool
  r_published :: nat
  r_failed :: nat
  r_pending :: nat
  r_lag_millis :: int

text \<open>
  \<open>envDuration\<close>: \<open>parsed\<close> is what \<open>time.ParseDuration\<close> makes of the variable's text.
\<close>

definition env_duration :: "string \<Rightarrow> duration option \<Rightarrow> duration \<Rightarrow> duration" where
  "env_duration raw parsed fallback =
     (if raw = [] then fallback
      else case parsed of None \<Rightarrow> fallback | Some d \<Rightarrow> if d \<le> 0 then fallback else d)"

definition new_relay :: "(string \<Rightarrow> string) \<Rightarrow> (string \<Rightarrow> duration option) \<Rightarrow> relay" where
  "new_relay getenv parse =
     (let env = (\<lambda>key fallback. env_duration (getenv key) (parse (getenv key)) fallback)
      in \<lparr>r_poll_interval = env ''OUTBOX_POLL_INTERVAL'' (100 * millisecond),
          r_retention = env ''OUTBOX_RETENTION'' hour,
          r_inbox_retention = env ''INBOX_RETENTION'' (48 * hour),
          r_batch_size = 100, r_leader = False, r_published = 0, r_failed = 0, r_pending = 0,
          r_lag_millis = 0\<rparr>)"

record batch =
  fetched :: nat
  published :: nat

text \<open>\<open>note\<close> never fails its caller.\<close>

definition relay_note :: "'w store \<Rightarrow> nat \<Rightarrow> string \<Rightarrow> 'w \<Rightarrow> 'w" where
  "relay_note st i reason w = snd (s_mark_failed st i reason w)"

fun drain_rows ::
  "time \<Rightarrow> 'w store \<Rightarrow> 'w publisher \<Rightarrow> outbox_row list \<Rightarrow> nat list \<Rightarrow> relay \<times> 'w \<Rightarrow> nat list \<times> relay \<times> 'w" where
  "drain_rows now st pub [] acc (r, w) = (acc, r, w)"
| "drain_rows now st pub (row # rows) acc (r, w) =
     (case decode_event (o_payload row) of
        Inl err \<Rightarrow>
          drain_rows now st pub rows (acc @ [o_id row])
            (r, relay_note st (o_id row) (''undecodable payload: '' @ err) w)
      | Inr ev \<Rightarrow>
          (case s_member_ids st (mc_conversation_id ev) w of
             (Inl e, w1) \<Rightarrow>
               (acc, r, relay_note st (o_id row) (''list members: '' @ error_text e) w1)
           | (Inr ids, w1) \<Rightarrow>
               (case pub now (o_id row) ev ids w1 of
                  (Inl err, w2) \<Rightarrow>
                    (acc, r\<lparr>r_failed := r_failed r + 1\<rparr>, relay_note st (o_id row) err w2)
                | (Inr _, w2) \<Rightarrow> drain_rows now st pub rows (acc @ [o_id row]) (r, w2))))"

definition drain ::
  "time \<Rightarrow> 'w store \<Rightarrow> 'w publisher \<Rightarrow> relay \<times> 'w \<Rightarrow> (batch \<times> db_error option) \<times> relay \<times> 'w" where
  "drain now st pub rw =
     (case rw of (r, w) \<Rightarrow>
       (case s_fetch st (r_batch_size r) w of
          (Inl e, w1) \<Rightarrow> ((\<lparr>fetched = 0, published = 0\<rparr>, Some e), r, w1)
        | (Inr rows, w1) \<Rightarrow>
            if rows = [] then ((\<lparr>fetched = 0, published = 0\<rparr>, None), r, w1)
            else
              (case drain_rows now st pub rows [] (r, w1) of (done_ids, r1, w2) \<Rightarrow>
                let batch = \<lparr>fetched = length rows, published = length done_ids\<rparr> in
                (case s_mark_published st now done_ids w2 of
                   (Inl e, w3) \<Rightarrow> ((batch, Some e), r1, w3)
                 | (Inr _, w3) \<Rightarrow>
                     ((batch, None), r1\<lparr>r_published := r_published r1 + length done_ids\<rparr>, w3)))))"

text \<open>
  What the leader's loop does after a drain: wait how long, or go straight round again.
\<close>

definition after_drain :: "relay \<Rightarrow> batch \<times> db_error option \<Rightarrow> duration option" where
  "after_drain r result =
     (case result of
        (b, Some e) \<Rightarrow> Some leader_retry
      | (b, None) \<Rightarrow>
          if fetched b > 0 \<and> published b = 0 then Some leader_retry
          else if published b = r_batch_size r then None
          else Some (r_poll_interval r))"

definition clean :: "time \<Rightarrow> 'w store \<Rightarrow> relay \<Rightarrow> 'w \<Rightarrow> 'w" where
  "clean now st r w =
     (let w1 = snd (s_delete_published st (now - r_retention r) w)
      in snd (s_delete_consumed st (now - r_inbox_retention r) w1))"

text \<open>One round of \<open>runLeader\<close>: the janitor when its ticker fired, then a drain.\<close>

definition leader_round ::
  "time \<Rightarrow> bool \<Rightarrow> 'w store \<Rightarrow> 'w publisher \<Rightarrow> relay \<times> 'w \<Rightarrow> duration option \<times> relay \<times> 'w" where
  "leader_round now tick st pub rw =
     (case rw of (r, w) \<Rightarrow>
        let w1 = (if tick then clean now st r w else w)
        in case drain now st pub (r, w1) of (result, r', w') \<Rightarrow> (after_drain r result, r', w'))"

text \<open>One tick of \<open>runStats\<close>; \<open>oldest.IsZero()\<close> is no lag.\<close>

definition read_stats :: "time \<Rightarrow> 'w store \<Rightarrow> relay \<times> 'w \<Rightarrow> relay \<times> 'w" where
  "read_stats now st rw =
     (case rw of (r, w) \<Rightarrow>
       (case s_stats st w of
          (Inl e, w1) \<Rightarrow> (r, w1)
        | (Inr (pending, oldest), w1) \<Rightarrow>
            (r\<lparr>r_pending := pending,
               r_lag_millis := (if oldest = zero_time then 0 else whole millisecond (now - oldest))\<rparr>, w1)))"

definition is_leader :: "relay option \<Rightarrow> nat" where
  "is_leader r = (case r of None \<Rightarrow> 0 | Some r \<Rightarrow> if r_leader r then 1 else 0)"

section \<open>What the two interfaces promise, and what a drain does with it\<close>

text \<open>
  \<open>pending\<close> is the queue of waiting rows, \<open>log\<close> what the publisher handed on, and \<open>key\<close> how one
  publish is recognised there.
\<close>

text \<open>One entry of the log is a publish of this row, for the members read at that moment.\<close>

definition published_as :: "(nat \<Rightarrow> message_created \<Rightarrow> nat list \<Rightarrow> 'k) \<Rightarrow> nat \<times> json \<Rightarrow> 'k \<Rightarrow> bool" where
  "published_as key p k \<longleftrightarrow> (\<exists>ev us. decode_event (snd p) = Inr ev \<and> k = key (fst p) ev us)"

text \<open>The row, if it can be read at all, is in the log.\<close>

definition delivered :: "(nat \<Rightarrow> message_created \<Rightarrow> nat list \<Rightarrow> 'k) \<Rightarrow> 'k list \<Rightarrow> nat \<times> json \<Rightarrow> bool" where
  "delivered key ks p \<longleftrightarrow>
     (\<forall>ev. decode_event (snd p) = Inr ev \<longrightarrow> (\<exists>us. key (fst p) ev us \<in> set ks))"

text \<open>
  The log respects the order of the rows \<open>A\<close>: each entry is a publish of some row, and when it
  was made every earlier row had been delivered. Repeats are allowed.
\<close>

inductive ordered_log ::
  "(nat \<Rightarrow> message_created \<Rightarrow> nat list \<Rightarrow> 'k) \<Rightarrow> (nat \<times> json) list \<Rightarrow> 'k list \<Rightarrow> bool" for key A where
  empty: "ordered_log key A []"
| publish: "ordered_log key A ks \<Longrightarrow> i < length A \<Longrightarrow> published_as key (A ! i) k \<Longrightarrow>
    (\<And>j. j < i \<Longrightarrow> delivered key ks (A ! j)) \<Longrightarrow> ordered_log key A (ks @ [k])"

lemma delivered_append: "delivered key ks p \<Longrightarrow> delivered key (ks @ ks') p"
  by (fastforce simp: delivered_def)

lemma ordered_log_more: "ordered_log key A ks \<Longrightarrow> ordered_log key (A @ B) ks"
proof (induction rule: ordered_log.induct)
  case (publish ks i k)
  then show ?case by (intro ordered_log.publish [of key "A @ B" ks i]) (auto simp: nth_append)
qed (rule ordered_log.empty)

lemma filter_taken:
  "distinct (map f xs) \<Longrightarrow> filter (\<lambda>x. f x \<notin> f ` set (take k xs)) xs = drop k xs"
proof (induction xs arbitrary: k)
  case (Cons x xs)
  show ?case
  proof (cases k)
    case 0
    then show ?thesis by simp
  next
    case (Suc n)
    have "filter (\<lambda>y. f y \<noteq> f x \<and> f y \<notin> f ` set (take n xs)) xs
        = filter (\<lambda>y. f y \<notin> f ` set (take n xs)) xs"
      using Cons.prems by (intro filter_cong) (auto simp: image_iff)
    with Cons Suc show ?thesis by simp
  qed
qed simp

locale relay_world =
  fixes st :: "'w store" and pub :: "'w publisher"
    and good :: "'w \<Rightarrow> bool"
    and pending :: "'w \<Rightarrow> (nat \<times> json) list"
    and log :: "'w \<Rightarrow> 'k list"
    and key :: "nat \<Rightarrow> message_created \<Rightarrow> nat list \<Rightarrow> 'k"
  assumes good_ids: "good w \<Longrightarrow> distinct (map fst (pending w))"
    and fetch: "good w \<Longrightarrow> s_fetch st n w = (res, w') \<Longrightarrow> good w' \<and> pending w' = pending w \<and> log w' = log w
        \<and> (\<forall>rows. res = Inr rows \<longrightarrow> map row_key rows = take n (pending w))"
    and member_ids: "good w \<Longrightarrow> s_member_ids st c w = (res2, w') \<Longrightarrow>
        good w' \<and> pending w' = pending w \<and> log w' = log w"
    and mark_failed: "good w \<Longrightarrow> s_mark_failed st i reason w = (res3, w') \<Longrightarrow>
        good w' \<and> pending w' = pending w \<and> log w' = log w"
    and mark_published: "good w \<Longrightarrow> s_mark_published st now is w = (res3, w') \<Longrightarrow> good w' \<and> log w' = log w
        \<and> (res3 = Inr () \<longrightarrow> pending w' = filter (\<lambda>p. fst p \<notin> set is) (pending w))
        \<and> (pending w' = pending w \<or> pending w' = filter (\<lambda>p. fst p \<notin> set is) (pending w))"
    and publish: "good w \<Longrightarrow> pub now i ev us w = (res4, w') \<Longrightarrow> good w' \<and> pending w' = pending w
        \<and> (log w' = log w \<or> log w' = log w @ [key i ev us])
        \<and> (res4 = Inr () \<longrightarrow> key i ev us \<in> set (log w'))"
begin

lemma note_frame: "good w \<Longrightarrow> good (relay_note st i reason w)
    \<and> pending (relay_note st i reason w) = pending w \<and> log (relay_note st i reason w) = log w"
  unfolding relay_note_def by (metis mark_failed prod.collapse)

text \<open>
  The rows handled are a prefix of the batch, and each of them is in the log. With the rows that
  came before the batch delivered, the log stays in order.
\<close>

lemma drain_rows_prefix:
  assumes "drain_rows now st pub rows acc (r, w) = (acc', r', w')" "good w"
    and "ordered_log key A (log w)" "A = pre @ map row_key rows @ post"
    and "\<And>p. p \<in> set pre \<Longrightarrow> delivered key (log w) p"
  shows "\<exists>k added. acc' = acc @ map o_id (take k rows) \<and> k \<le> length rows
    \<and> good w' \<and> pending w' = pending w \<and> log w' = log w @ added \<and> ordered_log key A (log w')
    \<and> (\<forall>p \<in> set (map row_key (take k rows)). delivered key (log w') p)"
  using assms
proof (induction rows arbitrary: acc r w pre)
  case Nil
  then show ?case by (intro exI [of _ 0] exI [of _ "[]"]) auto
next
  case (Cons row rows)
  let ?p = "row_key row" and ?pre = "pre @ [row_key row]"
  have A: "A = ?pre @ map row_key rows @ post" "A ! length pre = ?p" "length pre < length A"
    using Cons.prems(4) by (simp_all add: nth_append)
  have before: "delivered key (log w) (A ! j)" if "j < length pre" for j
    using that Cons.prems(4,5) by (simp add: nth_append)
  show ?case
  proof (cases "decode_event (o_payload row)")
    case (Inl err)
    let ?w1 = "relay_note st (o_id row) (''undecodable payload: '' @ err) w"
    from note_frame [OF Cons.prems(2)] have w1: "good ?w1" "pending ?w1 = pending w" "log ?w1 = log w"
      by auto
    have d: "delivered key ks ?p" for ks using Inl by (simp add: delivered_def row_key_def)
    from Cons.prems(1) Inl have run: "drain_rows now st pub rows (acc @ [o_id row]) (r, ?w1) = (acc', r', w')"
      by simp
    have "\<And>p. p \<in> set ?pre \<Longrightarrow> delivered key (log ?w1) p" using Cons.prems(5) d w1 by auto
    from Cons.IH [OF run w1(1) _ A(1) this] Cons.prems(3) w1 obtain k added where
      "acc' = (acc @ [o_id row]) @ map o_id (take k rows)" "k \<le> length rows" "good w'"
      "pending w' = pending w" "log w' = log w @ added" "ordered_log key A (log w')"
      "\<forall>p \<in> set (map row_key (take k rows)). delivered key (log w') p" by auto
    with d show ?thesis by (intro exI [of _ "Suc k"] exI [of _ added]) auto
  next
    case (Inr ev)
    obtain res w1 where m: "s_member_ids st (mc_conversation_id ev) w = (res, w1)" by fastforce
    from member_ids [OF Cons.prems(2) m] have w1: "good w1" "pending w1 = pending w" "log w1 = log w"
      by auto
    show ?thesis
    proof (cases res)
      case (Inl e)
      let ?w2 = "relay_note st (o_id row) (''list members: '' @ error_text e) w1"
      from Cons.prems(1) Inr m Inl have "acc' = acc" "w' = ?w2" by auto
      with note_frame [OF w1(1)] w1 Cons.prems(3) show ?thesis
        by (intro exI [of _ 0] exI [of _ "[]"]) auto
    next
      case (Inr us)
      note ev = \<open>decode_event (o_payload row) = Inr ev\<close>
      obtain res2 w2 where p: "pub now (o_id row) ev us w1 = (res2, w2)" by fastforce
      from publish [OF w1(1) p] w1 obtain first where w2: "good w2" "pending w2 = pending w"
        and first: "log w2 = log w @ first" "first = [] \<or> first = [key (o_id row) ev us]"
        and got: "res2 = Inr () \<longrightarrow> key (o_id row) ev us \<in> set (log w2)" by auto
      have as: "published_as key (A ! length pre) (key (o_id row) ev us)"
        using ev by (auto simp: published_as_def A(2) row_key_def)
      have ord: "ordered_log key A (log w2)"
        using first Cons.prems(3) ordered_log.publish [OF Cons.prems(3) A(3) as before] by auto
      show ?thesis
      proof (cases res2)
        case (Inl err)
        let ?w3 = "relay_note st (o_id row) err w2"
        from Cons.prems(1) ev m Inr p Inl have "acc' = acc" "w' = ?w3" by auto
        with note_frame [OF w2(1)] w2 first ord show ?thesis
          by (intro exI [of _ 0] exI [of _ first]) auto
      next
        case (Inr u)
        from Cons.prems(1) ev m \<open>res = Inr us\<close> p Inr
        have run: "drain_rows now st pub rows (acc @ [o_id row]) (r, w2) = (acc', r', w')" by auto
        have d: "delivered key (log w2) ?p"
          using got Inr ev by (auto simp: delivered_def row_key_def)
        have "\<And>p. p \<in> set ?pre \<Longrightarrow> delivered key (log w2) p"
          using Cons.prems(5) d by (auto simp: first(1) intro: delivered_append)
        from Cons.IH [OF run w2(1) ord A(1) this] obtain k added where
          k: "acc' = (acc @ [o_id row]) @ map o_id (take k rows)" "k \<le> length rows" "good w'"
          "pending w' = pending w2" "log w' = log w2 @ added" "ordered_log key A (log w')"
          "\<forall>p \<in> set (map row_key (take k rows)). delivered key (log w') p" by auto
        then have "delivered key (log w') ?p" using d by (auto intro: delivered_append)
        with k w2 first show ?thesis
          by (intro exI [of _ "Suc k"] exI [of _ "first @ added"]) auto
      qed
    qed
  qed
qed

text \<open>One drain. \<open>A\<close> is every row there has been, \<open>n\<close> how many of them are through.\<close>

lemma drain_step:
  assumes run: "drain now st pub (r, w) = ((b, err), r', w')" and good: "good w"
    and ord: "ordered_log key A (log w)" and q: "pending w = drop n A" "n \<le> length A"
    and before: "\<And>p. p \<in> set (take n A) \<Longrightarrow> delivered key (log w) p"
  shows "good w' \<and> ordered_log key A (log w') \<and> (\<exists>added. log w' = log w @ added)
    \<and> n + published b \<le> length A
    \<and> (\<forall>p \<in> set (take (n + published b) A). delivered key (log w') p)
    \<and> (pending w' = drop n A \<or> pending w' = drop (n + published b) A)
    \<and> (err = None \<longrightarrow> pending w' = drop (n + published b) A)"
proof -
  obtain res w1 where f: "s_fetch st (r_batch_size r) w = (res, w1)" by fastforce
  from fetch [OF good f] have w1: "good w1" "pending w1 = pending w" "log w1 = log w"
    "\<forall>rows. res = Inr rows \<longrightarrow> map row_key rows = take (r_batch_size r) (pending w)" by auto
  show ?thesis
  proof (cases "\<exists>rows. res = Inr rows \<and> rows \<noteq> []")
    case False
    then have "published b = 0" "w' = w1"
      using run f by (auto simp: drain_def split: sum.splits if_splits)
    with w1 q before ord show ?thesis by auto
  next
    case True
    then obtain rows where rows: "res = Inr rows" "rows \<noteq> []" by blast
    obtain ids r1 w2 where dr: "drain_rows now st pub rows [] (r, w1) = (ids, r1, w2)"
      by (cases "drain_rows now st pub rows [] (r, w1)") auto
    have slice: "map row_key rows = take (r_batch_size r) (drop n A)" using w1(4) rows q by simp
    then have A: "A = take n A @ map row_key rows @ drop (r_batch_size r) (drop n A)"
      by (simp only: append_take_drop_id)
    from drain_rows_prefix [OF dr w1(1) _ A] ord before w1(3) obtain k added where
      k: "ids = map o_id (take k rows)" "k \<le> length rows" "good w2" "pending w2 = pending w1"
      "log w2 = log w @ added" "ordered_log key A (log w2)"
      "\<forall>p \<in> set (map row_key (take k rows)). delivered key (log w2) p" by auto
    obtain res3 w3 where mk: "s_mark_published st now ids w2 = (res3, w3)" by fastforce
    from run f rows dr mk have b: "w' = w3" "published b = length ids" "err = None \<longleftrightarrow> res3 = Inr ()"
      by (auto simp: drain_def Let_def split: sum.splits)
    from mark_published [OF k(3) mk] have w3: "good w3" "log w3 = log w2"
      "res3 = Inr () \<longrightarrow> pending w3 = filter (\<lambda>p. fst p \<notin> set ids) (pending w2)"
      "pending w3 = pending w2 \<or> pending w3 = filter (\<lambda>p. fst p \<notin> set ids) (pending w2)" by auto
    have pub: "published b = k" using b(2) k(1,2) by simp
    have len: "length rows = min (r_batch_size r) (length A - n)"
      using arg_cong [OF slice, of length] by (simp add: min.commute)
    have "k \<le> r_batch_size r" using k(2) len by simp
    moreover have "map row_key (take k rows) = take k (map row_key rows)" by (simp only: take_map)
    ultimately have first_k: "map row_key (take k rows) = take k (drop n A)"
      by (simp add: slice min_absorb1)
    have "set ids = fst ` set (take k (pending w2))"
      using first_k k(1,4) w1(2) q(1) unfolding k(1)
      by (metis (no_types, lifting) comp_apply fst_conv list.map_comp list.set_map map_eq_conv row_key_def)
    then have drop: "filter (\<lambda>p. fst p \<notin> set ids) (pending w2) = drop k (drop n A)"
      using filter_taken [of fst "pending w2" k] good_ids [OF k(3)] k(4) w1(2) q(1) by simp
    have taken: "take (n + k) A = take n A @ take k (drop n A)" by (simp add: take_add)
    have "delivered key (log w3) p" if "p \<in> set (take (n + k) A)" for p
    proof (cases "p \<in> set (take n A)")
      case True
      from delivered_append [OF before [OF True]] show ?thesis by (simp only: w3(2) k(5))
    next
      case False
      with that k(7) show ?thesis unfolding taken first_k w3(2) by simp
    qed
    moreover have "n + k \<le> length A"
    proof -
      have "k \<le> length A - n" using k(2) len by simp
      with q(2) show ?thesis by linarith
    qed
    ultimately show ?thesis
      using b w3 k pub drop q(1) w1(2) by (auto simp: add.commute)
  qed
qed

end

section \<open>A history of drains\<close>

text \<open>
  Rows arrive at the end of the queue, and whichever node is the relay drains: with its own
  counters, at its own time. \<open>A\<close> collects every row there has ever been.
\<close>

inductive relay_history ::
  "'w store \<Rightarrow> 'w publisher \<Rightarrow> ('w \<Rightarrow> bool) \<Rightarrow> ('w \<Rightarrow> (nat \<times> json) list) \<Rightarrow> ('w \<Rightarrow> 'k list)
     \<Rightarrow> (nat \<times> json) list \<Rightarrow> 'w \<Rightarrow> bool" for st pub good pending log where
  start: "good w \<Longrightarrow> log w = [] \<Longrightarrow> relay_history st pub good pending log (pending w) w"
| arrive: "relay_history st pub good pending log A w \<Longrightarrow> good w' \<Longrightarrow> log w' = log w \<Longrightarrow>
    pending w' = pending w @ ps \<Longrightarrow> relay_history st pub good pending log (A @ ps) w'"
| drained: "relay_history st pub good pending log A w \<Longrightarrow>
    drain now st pub (r, w) = (res, r', w') \<Longrightarrow> relay_history st pub good pending log A w'"

context relay_world
begin

text \<open>
  Nothing is lost and nothing overtakes: the rows no longer waiting are a prefix of all rows, every
  one of them is in the log, and the log is in order.
\<close>

lemma history_safe:
  assumes "relay_history st pub good pending log A w"
  shows "good w \<and> ordered_log key A (log w) \<and> (\<exists>n \<le> length A. pending w = drop n A
    \<and> (\<forall>p \<in> set (take n A). delivered key (log w) p))"
  using assms
proof (induction rule: relay_history.induct)
  case (start w)
  then show ?case by (auto intro: ordered_log.empty intro!: exI [of _ 0])
next
  case (arrive A w w' ps)
  then obtain n where n: "n \<le> length A" "pending w = drop n A"
    "\<forall>p \<in> set (take n A). delivered key (log w) p" by blast
  have "n \<le> length (A @ ps) \<and> pending w' = drop n (A @ ps)
      \<and> (\<forall>p \<in> set (take n (A @ ps)). delivered key (log w') p)"
    using n arrive.hyps by simp
  moreover have "ordered_log key (A @ ps) (log w')"
    using ordered_log_more arrive by metis
  ultimately show ?case using arrive.hyps(2) by blast
next
  case (drained A w now r res r' w')
  then obtain n where n: "n \<le> length A" "pending w = drop n A"
    "\<And>p. p \<in> set (take n A) \<Longrightarrow> delivered key (log w) p" by blast
  obtain b err where res: "res = (b, err)" by (rule prod.exhaust)
  from drain_step [OF drained.hyps(2) [unfolded res] _ _ n(2,1,3)] drained.IH
  have d: "good w'" "ordered_log key A (log w')" "n + published b \<le> length A"
    "\<exists>added. log w' = log w @ added"
    "\<forall>p \<in> set (take (n + published b) A). delivered key (log w') p"
    "pending w' = drop n A \<or> pending w' = drop (n + published b) A" by auto
  have old: "\<forall>p \<in> set (take n A). delivered key (log w') p"
    using n(3) d(4) delivered_append by metis
  from d(6) show ?case
  proof
    assume "pending w' = drop n A"
    with n(1) old d(1,2) show ?thesis by blast
  next
    assume "pending w' = drop (n + published b) A"
    with d show ?thesis by blast
  qed
qed

end

section \<open>Progress\<close>

text \<open>A number of drains one after another.\<close>

fun drain_times :: "'w store \<Rightarrow> 'w publisher \<Rightarrow> nat \<Rightarrow> time \<Rightarrow> relay \<times> 'w \<Rightarrow> relay \<times> 'w" where
  "drain_times st pub 0 now rw = rw"
| "drain_times st pub (Suc k) now rw = drain_times st pub k now (snd (drain now st pub rw))"

text \<open>When the database and the publisher answer, a drain empties a batch.\<close>

locale answering_world = relay_world +
  assumes fetch_answers: "good w \<Longrightarrow> \<exists>rows w'. s_fetch st n w = (Inr rows, w')"
    and members_answer: "good w \<Longrightarrow> \<exists>us w'. s_member_ids st c w = (Inr us, w')"
    and mark_answers: "good w \<Longrightarrow> \<exists>w'. s_mark_published st now is w = (Inr (), w')"
    and publish_answers: "good w \<Longrightarrow> \<exists>w'. pub now i ev us w = (Inr (), w')"
begin

lemma drain_rows_all:
  assumes "good w"
  shows "\<exists>r' w'. drain_rows now st pub rows acc (r, w) = (acc @ map o_id rows, r', w') \<and> r' = r
    \<and> good w' \<and> pending w' = pending w"
  using assms
proof (induction rows arbitrary: acc w)
  case (Cons row rows)
  show ?case
  proof (cases "decode_event (o_payload row)")
    case (Inl err)
    let ?w1 = "relay_note st (o_id row) (''undecodable payload: '' @ err) w"
    from Cons.IH [of ?w1 "acc @ [o_id row]"] note_frame [OF Cons.prems] Inl show ?thesis by simp
  next
    case (Inr ev)
    from members_answer [OF Cons.prems] obtain us w1 where
      m: "s_member_ids st (mc_conversation_id ev) w = (Inr us, w1)" by blast
    with member_ids [OF Cons.prems] have w1: "good w1" "pending w1 = pending w" by blast+
    from publish_answers [OF w1(1)] obtain w2 where p: "pub now (o_id row) ev us w1 = (Inr (), w2)"
      by blast
    with publish [OF w1(1)] w1 have "good w2" "pending w2 = pending w" by metis+
    with Cons.IH [of w2 "acc @ [o_id row]"] Inr m p show ?thesis by simp
  qed
qed simp

lemma drain_progress:
  assumes "good w"
  shows "\<exists>b r' w'. drain now st pub (r, w) = ((b, None), r', w') \<and> good w'
    \<and> published b = min (r_batch_size r) (length (pending w))
    \<and> fetched b = published b \<and> r_batch_size r' = r_batch_size r
    \<and> pending w' = drop (r_batch_size r) (pending w)"
proof -
  from fetch_answers [OF assms] obtain rows w1 where
    f: "s_fetch st (r_batch_size r) w = (Inr rows, w1)" by blast
  from fetch [OF assms f] have w1: "good w1" "pending w1 = pending w"
    "map row_key rows = take (r_batch_size r) (pending w)" by auto
  have len: "length rows = min (r_batch_size r) (length (pending w))"
    using arg_cong [OF w1(3), of length] by (simp add: min.commute)
  show ?thesis
  proof (cases "rows = []")
    case True
    with f len w1 show ?thesis
      by (auto simp: drain_def min_def split: if_splits)
  next
    case False
    from drain_rows_all [OF w1(1), of now rows "[]" r] obtain w2 where
      d: "drain_rows now st pub rows [] (r, w1) = (map o_id rows, r, w2)" "good w2"
        "pending w2 = pending w" using w1(2) by auto
    from mark_answers [OF d(2)] obtain w3 where
      m: "s_mark_published st now (map o_id rows) w2 = (Inr (), w3)" by blast
    from mark_published [OF d(2) m] have w3: "good w3"
      "pending w3 = filter (\<lambda>p. fst p \<notin> set (map o_id rows)) (pending w2)" by auto
    have "set (map o_id rows) = fst ` set (map row_key rows)"
      by (force simp: row_key_def)
    then have "pending w3 = drop (r_batch_size r) (pending w)"
      using w3(2) d(3) filter_taken [of fst "pending w" "r_batch_size r"] good_ids [OF assms]
      by (simp only: w1(3))
    with f False d m w3(1) len show ?thesis by (simp add: drain_def Let_def)
  qed
qed

lemma drains_empty_queue:
  assumes "good w" "length (pending w) \<le> k * r_batch_size r"
  shows "pending (snd (drain_times st pub k now (r, w))) = []"
  using assms
proof (induction k arbitrary: r w)
  case (Suc k)
  from drain_progress [OF Suc.prems(1), of now r] obtain b r' w' where
    d: "drain now st pub (r, w) = ((b, None), r', w')" "good w'"
      "r_batch_size r' = r_batch_size r" "pending w' = drop (r_batch_size r) (pending w)" by blast
  have "length (pending w') \<le> k * r_batch_size r'" using d(3,4) Suc.prems(2) by simp
  from Suc.IH [OF d(2) this] d(1) show ?case by simp
qed simp

end

end
