(* ===== verification/Relay_Db.thy ===== *)
theory Relay_Db
  imports Relay
begin

text \<open>
  The relay on this program's own database. A \<open>world\<close> is the database and who holds the relay
  lock; the record is extended by whatever a publisher needs. \<open>db_store\<close> is
  \<open>database.Service\<close> seen through the relay's \<open>Store\<close> interface. The locale \<open>db_publisher\<close> is the
  part of the relay's contract that is left for a publisher, and gives the whole of it.
  The second half is the publisher of a single node, \<open>internal/outbox/local.go\<close>, with the work it
  does: \<open>applyUnread\<close> of \<open>internal/server/ws.go\<close>.
\<close>

section \<open>The database as the relay's store\<close>

record world =
  w_db :: db
  w_lock :: "nat option"

definition on_db :: "(db \<Rightarrow> 'a \<times> db) \<Rightarrow> 'x world_scheme \<Rightarrow> 'a \<times> 'x world_scheme" where
  "on_db f w = (case f (w_db w) of (r, d) \<Rightarrow> (r, w\<lparr>w_db := d\<rparr>))"

definition on_lock :: "(nat option \<Rightarrow> 'a \<times> nat option) \<Rightarrow> 'x world_scheme \<Rightarrow> 'a \<times> 'x world_scheme" where
  "on_lock f w = (case f (w_lock w) of (r, h) \<Rightarrow> (r, w\<lparr>w_lock := h\<rparr>))"

definition db_store :: "lock_fault \<Rightarrow> nat \<Rightarrow> 'x world_scheme store" where
  "db_store fault conn =
     \<lparr>s_try_lock = on_lock (try_outbox_lock fault conn),
      s_fetch = (\<lambda>n. on_db (fetch_outbox n)),
      s_mark_published = (\<lambda>now ids. on_db (mark_outbox_published now ids)),
      s_mark_failed = (\<lambda>i reason. on_db (mark_outbox_failed i reason)),
      s_delete_published = (\<lambda>t. on_db (delete_outbox_published_before t)),
      s_delete_consumed = (\<lambda>t. on_db (delete_consumed_before t)),
      s_stats = on_db outbox_stats,
      s_member_ids = (\<lambda>c. on_db (list_conversation_member_ids c))\<rparr>"

definition db_good :: "'x world_scheme \<Rightarrow> bool" where
  "db_good w \<longleftrightarrow> db_ok (w_db w)"

definition db_pending :: "'x world_scheme \<Rightarrow> (nat \<times> json) list" where
  "db_pending w = waiting_rows (tbl (w_db w))"

lemma on_db_eq: "on_db f w = (r, w') \<longleftrightarrow> (\<exists>d. f (w_db w) = (r, d) \<and> w' = w\<lparr>w_db := d\<rparr>)"
  by (auto simp: on_db_def split: prod.splits)

lemma waiting_stamped:
  "map row_key (filter waiting (map (stamp now ids) ws))
     = filter (\<lambda>p. fst p \<notin> set ids) (map row_key (filter waiting ws))"
  by (induction ws) (auto simp: row_key_def)

lemma waiting_rows_distinct: "db_ok d \<Longrightarrow> distinct (map fst (waiting_rows (tbl d)))"
proof -
  assume "db_ok d"
  then have "sorted_wrt (<) (map o_id (filter waiting (outbox (tbl d))))"
    by (simp add: db_ok_def outbox_ok_def sorted_wrt_map sorted_wrt_filter)
  then have "distinct (map o_id (filter waiting (outbox (tbl d))))"
    by (rule sorted_wrt_less_distinct)
  then show ?thesis by (simp add: waiting_rows_def comp_def row_key_def)
qed

lemma member_ids_reads [reads_rules]: "reads (list_conversation_member_ids c)"
  unfolding list_conversation_member_ids_def by (intro reads_rules)

lemma member_ids_grows [grows_rules]: "grows (list_conversation_member_ids c)"
  unfolding list_conversation_member_ids_def by (intro grows_rules)

lemma read_ok:
  assumes "db_ok d" "reads f" "grows f" "f d = (r, d')"
  shows "db_ok d' \<and> tbl d' = tbl d"
  using db_ok_same [OF assms(1)] readsD [OF assms(2,4)] growsD [OF assms(3,4)] by blast

locale db_publisher =
  fixes fault :: lock_fault and conn :: nat
    and pub :: "'x world_scheme publisher"
    and log :: "'x world_scheme \<Rightarrow> 'k list"
    and key :: "nat \<Rightarrow> message_created \<Rightarrow> nat list \<Rightarrow> 'k"
  assumes log_db: "log (w\<lparr>w_db := d\<rparr>) = log w" and log_lock: "log (w\<lparr>w_lock := h\<rparr>) = log w"
    and pub_ok: "db_good w \<Longrightarrow> pub now i ev us w = (res, w') \<Longrightarrow> db_good w'
        \<and> db_pending w' = db_pending w
        \<and> (log w' = log w \<or> log w' = log w @ [key i ev us])
        \<and> (res = Inr () \<longrightarrow> key i ev us \<in> set (log w'))"

lemma db_fetch_law:
  assumes "db_good w" "s_fetch (db_store f c) n w = (r, w')"
  shows "\<exists>d. w' = w\<lparr>w_db := d\<rparr> \<and> db_good w' \<and> db_pending w' = db_pending w
    \<and> (\<forall>rows. r = Inr rows \<longrightarrow> map row_key rows = take n (db_pending w))"
proof -
  from assms obtain d where d: "fetch_outbox n (w_db w) = (r, d)" "w' = w\<lparr>w_db := d\<rparr>"
    by (auto simp: db_store_def on_db_eq)
  from assms(1) have ok: "db_ok (w_db w)" by (simp add: db_good_def)
  have "rows = take n (filter waiting (outbox (tbl (w_db w))))" if "r = Inr rows" for rows
    using fetch_exact [OF ok] d(1) that by simp
  moreover from read_ok [OF ok outbox_reads(1) outbox_grows(1) d(1)]
  have "db_ok d" "tbl d = tbl (w_db w)" by auto
  ultimately show ?thesis using d(2)
    by (intro exI [of _ d]) (auto simp: db_good_def db_pending_def waiting_rows_def take_map)
qed

lemma db_members_law:
  assumes "db_good w" "s_member_ids (db_store f c) i w = (r, w')"
  shows "\<exists>d. w' = w\<lparr>w_db := d\<rparr> \<and> db_good w' \<and> db_pending w' = db_pending w"
proof -
  from assms obtain d where d: "list_conversation_member_ids i (w_db w) = (r, d)" "w' = w\<lparr>w_db := d\<rparr>"
    by (auto simp: db_store_def on_db_eq)
  with read_ok [OF _ member_ids_reads member_ids_grows d(1)] assms(1) show ?thesis
    by (intro exI [of _ d]) (simp add: db_good_def db_pending_def)
qed

lemma db_mark_failed_law:
  assumes "db_good w" "s_mark_failed (db_store f c) i reason w = (r, w')"
  shows "\<exists>d. w' = w\<lparr>w_db := d\<rparr> \<and> db_good w' \<and> db_pending w' = db_pending w"
proof -
  from assms obtain d where d: "mark_outbox_failed i reason (w_db w) = (r, d)" "w' = w\<lparr>w_db := d\<rparr>"
    by (auto simp: db_store_def on_db_eq)
  from assms(1) mark_failed_keeps [OF _ d(1)] have ok: "db_ok d" by (simp add: db_good_def)
  with mark_failed_effect [OF d(1)] have "waiting_rows (tbl d) = waiting_rows (tbl (w_db w))"
    by (metis waiting_rows_noted)
  with ok d(2) show ?thesis by (intro exI [of _ d]) (simp add: db_good_def db_pending_def)
qed

lemma db_mark_published_law:
  assumes "db_good w" "s_mark_published (db_store f c) now ids w = (r, w')"
  shows "\<exists>d. w' = w\<lparr>w_db := d\<rparr> \<and> db_good w'
    \<and> (r = Inr () \<longrightarrow> db_pending w' = filter (\<lambda>p. fst p \<notin> set ids) (db_pending w))
    \<and> (db_pending w' = db_pending w \<or> db_pending w' = filter (\<lambda>p. fst p \<notin> set ids) (db_pending w))"
proof -
  from assms obtain d where d: "mark_outbox_published now ids (w_db w) = (r, d)" "w' = w\<lparr>w_db := d\<rparr>"
    by (auto simp: db_store_def on_db_eq)
  from assms(1) mark_published_keeps [OF _ d(1)] have ok: "db_ok d" by (simp add: db_good_def)
  from mark_published_effect [OF d(1)] show ?thesis
  proof (elim conjE disjE)
    assume t: "tbl d = tbl (w_db w)" and r: "r \<noteq> Inr ()"
    with ok d(2) show ?thesis by (intro exI [of _ d]) (auto simp: db_good_def db_pending_def)
  next
    assume t: "tbl d = tbl (w_db w)" and "ids = []"
    with ok d(2) show ?thesis by (intro exI [of _ d]) (auto simp: db_good_def db_pending_def)
  next
    assume "tbl d = (tbl (w_db w))\<lparr>outbox := map (stamp now ids) (outbox (tbl (w_db w)))\<rparr>"
    then have "waiting_rows (tbl d) = filter (\<lambda>p. fst p \<notin> set ids) (waiting_rows (tbl (w_db w)))"
      by (simp add: waiting_rows_def waiting_stamped)
    with ok d(2) show ?thesis by (intro exI [of _ d]) (auto simp: db_good_def db_pending_def)
  qed
qed

sublocale db_publisher \<subseteq> relay_world "db_store fault conn" pub db_good db_pending log key
proof
  fix w :: "'x world_scheme" and w' res n
  assume good: "db_good w"
  from good waiting_rows_distinct show "distinct (map fst (db_pending w))"
    by (auto simp: db_good_def db_pending_def)
  assume "s_fetch (db_store fault conn) n w = (res, w')"
  from db_fetch_law [OF good this] log_db
  show "db_good w' \<and> db_pending w' = db_pending w \<and> log w' = log w
      \<and> (\<forall>rows. res = Inr rows \<longrightarrow> map row_key rows = take n (db_pending w))" by auto
next
  fix w :: "'x world_scheme" and w' res c
  assume "db_good w" "s_member_ids (db_store fault conn) c w = (res, w')"
  from db_members_law [OF this] log_db
  show "db_good w' \<and> db_pending w' = db_pending w \<and> log w' = log w" by auto
next
  fix w :: "'x world_scheme" and w' res i reason
  assume "db_good w" "s_mark_failed (db_store fault conn) i reason w = (res, w')"
  from db_mark_failed_law [OF this] log_db
  show "db_good w' \<and> db_pending w' = db_pending w \<and> log w' = log w" by auto
next
  fix w :: "'x world_scheme" and w' res now ids
  assume "db_good w" "s_mark_published (db_store fault conn) now ids w = (res, w')"
  from db_mark_published_law [OF this] log_db
  show "db_good w' \<and> log w' = log w
      \<and> (res = Inr () \<longrightarrow> db_pending w' = filter (\<lambda>p. fst p \<notin> set ids) (db_pending w))
      \<and> (db_pending w' = db_pending w \<or> db_pending w' = filter (\<lambda>p. fst p \<notin> set ids) (db_pending w))"
    by auto
next
  fix w :: "'x world_scheme" and w' res now i ev us
  assume "db_good w" "pub now i ev us w = (res, w')"
  from pub_ok [OF this]
  show "db_good w' \<and> db_pending w' = db_pending w
      \<and> (log w' = log w \<or> log w' = log w @ [key i ev us])
      \<and> (res = Inr () \<longrightarrow> key i ev us \<in> set (log w'))" .
qed

section \<open>A history of the node\<close>

text \<open>
  What happens to a node with a database: the rest of the program takes its steps, and whichever
  node is the relay drains. \<open>A\<close> collects every row that ever waited.
\<close>

inductive node_history ::
  "lock_fault \<Rightarrow> nat \<Rightarrow> 'x world_scheme publisher \<Rightarrow> ('x world_scheme \<Rightarrow> 'k list)
     \<Rightarrow> (nat \<times> json) list \<Rightarrow> 'x world_scheme \<Rightarrow> bool" for fault conn pub log where
  boot: "db_reachable (w_db w) \<Longrightarrow> log w = [] \<Longrightarrow> db_pending w = ps \<Longrightarrow>
    node_history fault conn pub log ps w"
| service: "node_history fault conn pub log A w \<Longrightarrow> service_step (w_db w) d \<Longrightarrow>
    waiting_rows (tbl d) = waiting_rows (tbl (w_db w)) @ ps \<Longrightarrow>
    node_history fault conn pub log (A @ ps) (w\<lparr>w_db := d\<rparr>)"
| lock: "node_history fault conn pub log A w \<Longrightarrow> node_history fault conn pub log A (w\<lparr>w_lock := h\<rparr>)"
| drained: "node_history fault conn pub log A w \<Longrightarrow>
    drain now (db_store fault conn) pub (r, w) = (res, r', w') \<Longrightarrow>
    node_history fault conn pub log A w'"

context db_publisher
begin

lemma node_history_relay:
  assumes "node_history fault conn pub log A w"
  shows "relay_history (db_store fault conn) pub db_good db_pending log A w \<and> db_good w"
  using assms
proof (induction rule: node_history.induct)
  case (boot w ps)
  then have "db_good w" by (simp add: db_good_def db_reachable_ok)
  with boot relay_history.start [of db_good w log "db_store fault conn" pub db_pending] show ?case by simp
next
  case (service A w d ps)
  then have "db_good (w\<lparr>w_db := d\<rparr>)" by (simp add: db_good_def service_step_keeps)
  with service show ?case
    by (auto intro!: relay_history.arrive [of _ _ _ _ _ A w] simp: log_db db_pending_def)
next
  case (lock A w h)
  then have "db_good (w\<lparr>w_lock := h\<rparr>)" by (simp add: db_good_def)
  moreover have "db_pending (w\<lparr>w_lock := h\<rparr>) = db_pending w @ []" by (simp add: db_pending_def)
  ultimately have "relay_history (db_store fault conn) pub db_good db_pending log (A @ []) (w\<lparr>w_lock := h\<rparr>)"
    using lock.IH log_lock by (blast intro: relay_history.arrive)
  with \<open>db_good (w\<lparr>w_lock := h\<rparr>)\<close> show ?case by simp
next
  case (drained A w now r res r' w')
  then have h: "relay_history (db_store fault conn) pub db_good db_pending log A w'"
    by (blast intro: relay_history.drained)
  with history_safe [OF h] show ?case by blast
qed

lemmas node_history_safe = history_safe [OF conjunct1 [OF node_history_relay]]

end

end
