(* ===== verification/Relay_Local.thy ===== *)
theory Relay_Local
  imports Relay_Db
begin

text \<open>
  The publisher of a single node, \<open>internal/outbox/local.go\<close>, and the durable work behind it,
  \<open>applyUnread\<close> of \<open>internal/server/ws.go\<close>. The interpretation at the end discharges the relay's
  contract for this program's own database and this publisher, so the lemmas of \<open>Relay\<close> hold of
  the node that runs without a broker.
\<close>

section \<open>The work behind one event\<close>

record unread_metrics =
  unread_applied :: nat
  unread_duplicates :: nat

text \<open>\<open>Server.applyUnread\<close>: zero rows moved is counted as a duplicate.\<close>

definition server_apply_unread ::
  "time \<Rightarrow> message_created \<Rightarrow> db \<times> unread_metrics \<Rightarrow> (db_error + unit) \<times> db \<times> unread_metrics" where
  "server_apply_unread now ev s =
     (case s of (d, m) \<Rightarrow>
       (case apply_unread now (mc_message_id ev) (mc_conversation_id ev) (mc_sender_id ev) (mc_seq ev) d of
          (Inl e, d') \<Rightarrow> (Inl e, d', m)
        | (Inr changed, d') \<Rightarrow>
            (Inr (), d',
             if changed = 0 then m\<lparr>unread_duplicates := unread_duplicates m + 1\<rparr>
             else m\<lparr>unread_applied := unread_applied m + changed\<rparr>)))"

section \<open>The publisher\<close>

type_synonym 'w deliver_func = "message_created \<Rightarrow> nat list \<Rightarrow> 'w \<Rightarrow> 'w"
type_synonym 'w apply_func = "time \<Rightarrow> message_created \<Rightarrow> 'w \<Rightarrow> (string + unit) \<times> 'w"

record 'w local_publisher =
  lp_deliver :: "'w deliver_func option"
  lp_apply :: "'w apply_func option"

definition new_local_publisher ::
  "'w deliver_func option \<Rightarrow> 'w apply_func option \<Rightarrow> 'w local_publisher" where
  "new_local_publisher deliver apply_work = \<lparr>lp_deliver = deliver, lp_apply = apply_work\<rparr>"

text \<open>The durable work first; the push only after it, and its result is not looked at.\<close>

definition local_publish :: "'w local_publisher \<Rightarrow> 'w publisher" where
  "local_publish p now i ev us w =
     (case (case lp_apply p of None \<Rightarrow> (Inr (), w) | Some work \<Rightarrow> work now ev w) of
        (Inl err, w1) \<Rightarrow> (Inl err, w1)
      | (Inr _, w1) \<Rightarrow>
          (Inr (), case lp_deliver p of None \<Rightarrow> w1 | Some deliver \<Rightarrow> deliver ev us w1))"

section \<open>The single node\<close>

text \<open>
  \<open>pushed\<close> records the calls of \<open>deliverMessage\<close>, in order; what the hub does with one is in the
  theory of the hub.
\<close>

record single_node = world +
  pushed :: "(message_created \<times> nat list) list"
  metrics :: unread_metrics

definition node_deliver :: "single_node deliver_func" where
  "node_deliver ev us w = w\<lparr>pushed := pushed w @ [(ev, us)]\<rparr>"

definition node_apply :: "single_node apply_func" where
  "node_apply now ev w =
     (case server_apply_unread now ev (w_db w, metrics w) of
        (r, d, m) \<Rightarrow> (case r of Inl e \<Rightarrow> Inl (error_text e) | Inr u \<Rightarrow> Inr u, w\<lparr>w_db := d, metrics := m\<rparr>))"

definition node_publish :: "single_node publisher" where
  "node_publish = local_publish (new_local_publisher (Some node_deliver) (Some node_apply))"

definition push_key :: "nat \<Rightarrow> message_created \<Rightarrow> nat list \<Rightarrow> message_created \<times> nat list" where
  "push_key i ev us = (ev, us)"

lemma server_apply_db:
  assumes "server_apply_unread now ev (d, m) = (r, d', m')"
  obtains n where "apply_unread now (mc_message_id ev) (mc_conversation_id ev) (mc_sender_id ev) (mc_seq ev) d = (n, d')"
    "r = (case n of Inl e \<Rightarrow> Inl e | Inr _ \<Rightarrow> Inr ())"
  using assms by (auto simp: server_apply_unread_def split: prod.splits sum.splits)

lemma node_publish_cases:
  assumes "node_publish now i ev us w = (r, w')"
  obtains (failed) e d m where
    "apply_unread now (mc_message_id ev) (mc_conversation_id ev) (mc_sender_id ev) (mc_seq ev) (w_db w) = (Inl e, d)"
    "w' = w\<lparr>w_db := d, metrics := m\<rparr>" "r = Inl (error_text e)"
  | (handed_on) x d m where
    "apply_unread now (mc_message_id ev) (mc_conversation_id ev) (mc_sender_id ev) (mc_seq ev) (w_db w) = (Inr x, d)"
    "w' = w\<lparr>w_db := d, metrics := m, pushed := pushed w @ [(ev, us)]\<rparr>" "r = Inr ()"
proof -
  obtain s d m where a: "server_apply_unread now ev (w_db w, metrics w) = (s, d, m)"
    by (metis prod.collapse)
  from a obtain n where n: "apply_unread now (mc_message_id ev) (mc_conversation_id ev) (mc_sender_id ev)
      (mc_seq ev) (w_db w) = (n, d)" and s: "s = (case n of Inl e \<Rightarrow> Inl e | Inr _ \<Rightarrow> Inr ())"
    by (rule server_apply_db)
  show thesis
  proof (cases n)
    case (Inl e)
    with assms a s n show thesis
      by (intro failed [of e d m])
        (auto simp: node_publish_def local_publish_def new_local_publisher_def node_apply_def)
  next
    case (Inr x)
    with assms a s n show thesis
      by (intro handed_on [of x d m])
        (auto simp: node_publish_def local_publish_def new_local_publisher_def node_apply_def
          node_deliver_def)
  qed
qed

lemma apply_keeps_queue:
  assumes "db_ok d" "apply_unread now i conv sender n d = (r, d')"
  shows "db_ok d' \<and> waiting_rows (tbl d') = waiting_rows (tbl d)"
proof -
  have "outbox (tbl d') = outbox (tbl d)" using apply_unread_cases [OF assms(2)] by auto
  with apply_unread_keeps [OF assms] waiting_rows_same show ?thesis by blast
qed

interpretation single: db_publisher NoFault 0 node_publish pushed push_key
proof
  fix w :: single_node and w' now i ev us and res :: "string + unit"
  show "pushed (w\<lparr>w_db := d\<rparr>) = pushed w" "pushed (w\<lparr>w_lock := h\<rparr>) = pushed w" for d h
    by simp_all
  assume good: "db_good w" and p: "node_publish now i ev us w = (res, w')"
  from p show "db_good w' \<and> db_pending w' = db_pending w
        \<and> (pushed w' = pushed w \<or> pushed w' = pushed w @ [push_key i ev us])
        \<and> (res = Inr () \<longrightarrow> push_key i ev us \<in> set (pushed w'))"
  proof (cases rule: node_publish_cases)
    case (failed e d m)
    with apply_keeps_queue [OF _ failed(1)] good show ?thesis
      by (simp add: db_good_def db_pending_def)
  next
    case (handed_on x d m)
    with apply_keeps_queue [OF _ handed_on(1)] good show ?thesis
      by (simp add: db_good_def db_pending_def push_key_def)
  qed
qed

section \<open>A database that answers\<close>

definition db_calm :: "'x world_scheme \<Rightarrow> bool" where
  "db_calm w \<longleftrightarrow> db_good w \<and> faults (w_db w) = []"

lemma calm_simps:
  assumes "faults d = []"
  shows "\<exists>rows. fetch_outbox n d = (Inr rows, d)"
    "\<exists>us. list_conversation_member_ids c d = (Inr us, d)"
    "\<exists>d'. mark_outbox_published now ids d = (Inr (), d') \<and> faults d' = []"
    "\<exists>d'. mark_outbox_failed i reason d = (Inr (), d') \<and> faults d' = []"
    "\<exists>x d'. apply_unread now i conv sender m d = (Inr x, d') \<and> faults d' = []"
proof -
  show "\<exists>rows. fetch_outbox n d = (Inr rows, d)"
    using assms by (simp add: fetch_outbox_def on_ok_def return_def)
  show "\<exists>us. list_conversation_member_ids c d = (Inr us, d)"
    using assms by (simp add: list_conversation_member_ids_def on_ok_def return_def)
  show "\<exists>d'. mark_outbox_published now ids d = (Inr (), d') \<and> faults d' = []"
    using assms by (simp add: mark_outbox_published_def on_ok_def return_def)
  show "\<exists>d'. mark_outbox_failed i reason d = (Inr (), d') \<and> faults d' = []"
    using assms by (simp add: mark_outbox_failed_def Let_def on_ok_def return_def)
  have "\<exists>x d'. unread_tx now i conv sender m d = (Inr x, d') \<and> faults d' = []"
    using assms by (simp add: unread_tx_def on_ok_def return_def claim_message_def bump_counters_def
        exec_count_def)
  then show "\<exists>x d'. apply_unread now i conv sender m d = (Inr x, d') \<and> faults d' = []"
    using assms by (auto simp: apply_unread_def transaction_ok)
qed

locale calm_publisher = db_publisher +
  assumes pub_calm: "db_calm w \<Longrightarrow> \<exists>w'. pub now i ev us w = (Inr (), w') \<and> faults (w_db w') = []"

sublocale calm_publisher \<subseteq> answers: answering_world "db_store fault conn" pub db_calm db_pending log key
proof unfold_locales
  fix w w' :: "'a world_scheme" and res n
  assume c: "db_calm w"
  then have g: "db_good w" "faults (w_db w) = []" by (auto simp: db_calm_def)
  show "distinct (map fst (db_pending w))" using g(1) by (rule good_ids)
  from calm_simps(1) [OF g(2), of n] obtain rows where
    f: "s_fetch (db_store fault conn) n w = (Inr rows, w)"
    by (auto simp: db_store_def on_db_def)
  then show "\<exists>rows w'. s_fetch (db_store fault conn) n w = (Inr rows, w')" by blast
  assume "s_fetch (db_store fault conn) n w = (res, w')"
  with fetch [OF g(1) this] f c show "db_calm w' \<and> db_pending w' = db_pending w \<and> log w' = log w
      \<and> (\<forall>rows. res = Inr rows \<longrightarrow> map row_key rows = take n (db_pending w))" by auto
next
  fix w w' :: "'a world_scheme" and res c
  assume c: "db_calm w"
  then have g: "db_good w" "faults (w_db w) = []" by (auto simp: db_calm_def)
  from calm_simps(2) [OF g(2), of c] obtain us where
    f: "s_member_ids (db_store fault conn) c w = (Inr us, w)"
    by (auto simp: db_store_def on_db_def)
  then show "\<exists>us w'. s_member_ids (db_store fault conn) c w = (Inr us, w')" by blast
  assume "s_member_ids (db_store fault conn) c w = (res, w')"
  with f c show "db_calm w' \<and> db_pending w' = db_pending w \<and> log w' = log w" by auto
next
  fix w w' :: "'a world_scheme" and res i reason
  assume c: "db_calm w"
  then have g: "db_good w" "faults (w_db w) = []" by (auto simp: db_calm_def)
  from calm_simps(4) [OF g(2), of i reason] have
    f: "\<exists>w1. s_mark_failed (db_store fault conn) i reason w = (Inr (), w1) \<and> faults (w_db w1) = []"
    by (auto simp: db_store_def on_db_def)
  assume "s_mark_failed (db_store fault conn) i reason w = (res, w')"
  with mark_failed [OF g(1) this] f show "db_calm w' \<and> db_pending w' = db_pending w \<and> log w' = log w"
    by (auto simp: db_calm_def)
next
  fix w w' :: "'a world_scheme" and res now ids
  assume c: "db_calm w"
  then have g: "db_good w" "faults (w_db w) = []" by (auto simp: db_calm_def)
  from calm_simps(3) [OF g(2), of now ids] have
    f: "\<exists>w1. s_mark_published (db_store fault conn) now ids w = (Inr (), w1) \<and> faults (w_db w1) = []"
    by (auto simp: db_store_def on_db_def)
  then show "\<exists>w'. s_mark_published (db_store fault conn) now ids w = (Inr (), w')" by blast
  assume "s_mark_published (db_store fault conn) now ids w = (res, w')"
  with mark_published [OF g(1) this] f show "db_calm w' \<and> log w' = log w
        \<and> (res = Inr () \<longrightarrow> db_pending w' = filter (\<lambda>p. fst p \<notin> set ids) (db_pending w))
        \<and> (db_pending w' = db_pending w \<or> db_pending w' = filter (\<lambda>p. fst p \<notin> set ids) (db_pending w))"
    by (auto simp: db_calm_def)
next
  fix w w' :: "'a world_scheme" and res now i ev us
  assume c: "db_calm w"
  from pub_calm [OF c] show "\<exists>w'. pub now i ev us w = (Inr (), w')" by blast
  assume "pub now i ev us w = (res, w')"
  with publish [of w now i ev us res w'] pub_calm [OF c, of now i ev us] c
  show "db_calm w' \<and> db_pending w' = db_pending w
        \<and> (log w' = log w \<or> log w' = log w @ [key i ev us])
        \<and> (res = Inr () \<longrightarrow> key i ev us \<in> set (log w'))"
    by (auto simp: db_calm_def)
qed

interpretation calm_single: calm_publisher NoFault 0 node_publish pushed push_key
proof
  fix w :: single_node and now i us and ev :: message_created
  assume "db_calm w"
  then have "faults (w_db w) = []" by (simp add: db_calm_def)
  from calm_simps(5) [OF this, of now "mc_message_id ev" "mc_conversation_id ev" "mc_sender_id ev" "mc_seq ev"]
  show "\<exists>w'. node_publish now i ev us w = (Inr (), w') \<and> faults (w_db w') = []"
    by (auto simp: node_publish_def local_publish_def new_local_publisher_def node_apply_def
        server_apply_unread_def node_deliver_def)
qed

end
