(* ===== verification/Relay_Run.thy ===== *)
theory Relay_Run
  imports Relay_Local
begin

text \<open>
  \<open>Relay.Run\<close>: ask for the lock, drain while it is held, release it, ask again. The first part is
  one turn of that loop on one node and shows that it is a history in the sense of the relay's
  contract. The second part is the cluster: several nodes and one advisory lock.
\<close>

section \<open>One turn of the loop\<close>

text \<open>\<open>runLeader\<close> until its context ends: one entry per round, its instant and whether the janitor ticked.\<close>

fun run_leader :: "'w store \<Rightarrow> 'w publisher \<Rightarrow> (time \<times> bool) list \<Rightarrow> relay \<times> 'w \<Rightarrow> relay \<times> 'w" where
  "run_leader st pub [] rw = rw"
| "run_leader st pub ((now, tick) # rounds) rw =
     (case leader_round now tick st pub rw of (wait, rw') \<Rightarrow> run_leader st pub rounds rw')"

text \<open>
  One turn of \<open>Run\<close>, with the wait before the next one: the error and the lost race both wait
  \<open>leaderRetry\<close>, and a finished leader releases its lock on a connection of its own.
\<close>

definition run_turn ::
  "lock_fault \<Rightarrow> nat \<Rightarrow> bool \<Rightarrow> bool \<Rightarrow> 'x world_scheme publisher \<Rightarrow> (time \<times> bool) list \<Rightarrow>
   relay \<times> 'x world_scheme \<Rightarrow> duration option \<times> relay \<times> 'x world_scheme" where
  "run_turn fault conn unlock_ok close_ok pub rounds rw =
     (case rw of (r, w) \<Rightarrow>
       (case s_try_lock (db_store fault conn) w of
          (Inl e, w1) \<Rightarrow> (Some leader_retry, r, w1)
        | (Inr None, w1) \<Rightarrow> (Some leader_retry, r, w1)
        | (Inr (Some c), w1) \<Rightarrow>
            (case run_leader (db_store fault conn) pub rounds (r\<lparr>r_leader := True\<rparr>, w1) of (r2, w2) \<Rightarrow>
              (case release_outbox_lock unlock_ok close_ok (Some c) (w_lock w2) of (_, _, h) \<Rightarrow>
                (None, r2\<lparr>r_leader := False\<rparr>, w2\<lparr>w_lock := h\<rparr>)))))"

lemma delete_keeps_rows:
  assumes "delete_outbox_published_before t d = (r, d')"
  shows "waiting_rows (tbl d') = waiting_rows (tbl d)"
  using delete_published_effect [OF assms]
  by (auto simp: waiting_rows_def delete_keeps_waiting simp del: filter_filter)

lemma forget_keeps_rows:
  assumes "delete_consumed_before t d = (r, d')"
  shows "waiting_rows (tbl d') = waiting_rows (tbl d)"
  using delete_consumed_effect [OF assms] by (auto simp: waiting_rows_def)

lemma clean_history:
  assumes "node_history f c pub log A w"
  shows "node_history f c pub log A (clean now (db_store f c) r w)"
proof -
  obtain n d1 where d1: "delete_outbox_published_before (now - r_retention r) (w_db w) = (n, d1)"
    by fastforce
  obtain m d2 where d2: "delete_consumed_before (now - r_inbox_retention r) d1 = (m, d2)" by fastforce
  have "node_history f c pub log (A @ []) (w\<lparr>w_db := d1\<rparr>)"
    using assms service_step.delete_published [OF d1]
    by (rule node_history.service) (simp add: delete_keeps_rows [OF d1])
  then have "node_history f c pub log (A @ []) (w\<lparr>w_db := d1\<rparr>)" by simp
  then have "node_history f c pub log ((A @ []) @ []) (w\<lparr>w_db := d1\<rparr>\<lparr>w_db := d2\<rparr>)"
    by (rule node_history.service) (use d2 in \<open>simp_all add: service_step.delete_consumed forget_keeps_rows\<close>)
  then show ?thesis
    using d1 d2 by (simp add: clean_def db_store_def on_db_def)
qed

lemma run_leader_history:
  "node_history f c pub log A w \<Longrightarrow>
   node_history f c pub log A (snd (run_leader (db_store f c) pub rounds (r, w)))"
proof (induction rounds arbitrary: r w)
  case (Cons round rounds)
  obtain now tick where round: "round = (now, tick)" by fastforce
  let ?w1 = "if tick then clean now (db_store f c) r w else w"
  obtain res r' w' where d: "drain now (db_store f c) pub (r, ?w1) = (res, r', w')"
    by (metis prod.collapse)
  have "node_history f c pub log A ?w1" using Cons.prems clean_history by auto
  then have "node_history f c pub log A w'" using d by (rule node_history.drained)
  from Cons.IH [OF this, of r'] show ?case
    using d by (simp add: round leader_round_def Let_def)
qed simp

text \<open>A whole turn, whatever it met, is part of a history.\<close>

lemma run_turn_history:
  assumes "node_history f c pub log A w" "run_turn f c u k pub rounds (r, w) = (wait, r', w')"
  shows "node_history f c pub log A w'"
proof -
  obtain res h where t: "try_outbox_lock f c (w_lock w) = (res, h)" by fastforce
  have w1: "node_history f c pub log A (w\<lparr>w_lock := h\<rparr>)" using assms(1) by (rule node_history.lock)
  obtain r2 w2 where l: "run_leader (db_store f c) pub rounds (r\<lparr>r_leader := True\<rparr>, w\<lparr>w_lock := h\<rparr>) = (r2, w2)"
    by fastforce
  have w2: "node_history f c pub log A w2"
    using run_leader_history [OF w1, of rounds "r\<lparr>r_leader := True\<rparr>"] l by simp
  show ?thesis
    using assms(2) t w1 l node_history.lock [OF w2]
    by (auto simp: run_turn_def db_store_def on_lock_def split: sum.splits option.splits prod.splits)
qed

section \<open>The cluster\<close>

text \<open>
  Every node runs the same loop. Postgres knows which connection holds the lock; a node knows only
  the handle it was given. Each attempt opens a connection of its own.
\<close>

datatype phase = Asking | Draining nat | Ended

record cluster =
  node_phase :: "nat \<Rightarrow> phase"
  lock_holder :: "nat option"
  next_conn :: nat

datatype cluster_event =
    Elect nat lock_fault
  | Retire nat bool bool
  | ConnectionLost nat

definition boot_cluster :: cluster where
  "boot_cluster = \<lparr>node_phase = (\<lambda>_. Asking), lock_holder = None, next_conn = 0\<rparr>"

text \<open>
  \<open>ConnectionLost\<close> ends a session on the server, which gives the lock back. No event tells
  the node: \<open>runLeader\<close> never looks at its handle.
\<close>

fun cluster_step :: "cluster \<Rightarrow> cluster_event \<Rightarrow> cluster" where
  "cluster_step s (Elect n fault) =
     (if node_phase s n = Asking then
        (case try_outbox_lock fault (next_conn s) (lock_holder s) of
           (Inr (Some c), h) \<Rightarrow> s\<lparr>node_phase := (node_phase s)(n := Draining c), lock_holder := h,
                                   next_conn := next_conn s + 1\<rparr>
         | (_, h) \<Rightarrow> s\<lparr>lock_holder := h, next_conn := next_conn s + 1\<rparr>)
      else s)"
| "cluster_step s (Retire n unlock_ok close_ok) =
     (case node_phase s n of
        Draining c \<Rightarrow>
          (case release_outbox_lock unlock_ok close_ok (Some c) (lock_holder s) of (_, _, h) \<Rightarrow>
             s\<lparr>node_phase := (node_phase s)(n := Ended), lock_holder := h\<rparr>)
      | _ \<Rightarrow> s\<lparr>node_phase := (node_phase s)(n := Ended)\<rparr>)"
| "cluster_step s (ConnectionLost c) =
     (if lock_holder s = Some c then s\<lparr>lock_holder := None\<rparr> else s)"

definition run_cluster :: "cluster_event list \<Rightarrow> cluster" where
  "run_cluster es = foldl cluster_step boot_cluster es"

definition draining :: "cluster \<Rightarrow> nat \<Rightarrow> bool" where
  "draining s n \<longleftrightarrow> (\<exists>c. node_phase s n = Draining c)"

definition lock_ok :: "cluster \<Rightarrow> bool" where
  "lock_ok s \<longleftrightarrow> (\<forall>n c. node_phase s n = Draining c \<longrightarrow> lock_holder s = Some c)
     \<and> (\<forall>n m c. node_phase s n = Draining c \<and> node_phase s m = Draining c \<longrightarrow> n = m)
     \<and> (\<forall>c. lock_holder s = Some c \<longrightarrow> c < next_conn s)"

lemma lock_ok_step:
  assumes "lock_ok s" "\<And>c. e \<noteq> ConnectionLost c"
  shows "lock_ok (cluster_step s e)"
proof (cases e)
  case (Elect n fault)
  show ?thesis
  proof (cases "node_phase s n = Asking \<and> fault = NoFault \<and> lock_holder s = None")
    case True
    with assms(1) have "\<forall>m c. node_phase s m \<noteq> Draining c" by (auto simp: lock_ok_def)
    with True show ?thesis by (auto simp: Elect lock_ok_def try_outbox_lock_def)
  next
    case False
    moreover have "lock_holder s \<noteq> Some (next_conn s)" using assms(1) by (auto simp: lock_ok_def)
    ultimately show ?thesis using assms(1)
      by (cases fault) (auto simp: Elect lock_ok_def try_outbox_lock_def less_SucI split: option.splits)
  qed
next
  case (Retire n unlock_ok close_ok)
  show ?thesis
  proof (cases "node_phase s n")
    case (Draining c)
    with assms(1) have h: "lock_holder s = Some c" by (auto simp: lock_ok_def)
    have "m = n" if "node_phase s m = Draining c'" for m c'
    proof -
      from assms(1) that h have "c' = c" by (auto simp: lock_ok_def)
      with assms(1) that Draining show ?thesis unfolding lock_ok_def by blast
    qed
    then have "\<forall>m c'. m \<noteq> n \<longrightarrow> node_phase s m \<noteq> Draining c'" by metis
    then show ?thesis by (simp add: Retire Draining h lock_ok_def release_outbox_lock_def)
  qed (use assms(1) in \<open>auto simp: Retire lock_ok_def\<close>)
qed (use assms(2) in simp)

lemma lock_ok_run:
  assumes "\<And>c. ConnectionLost c \<notin> set es"
  shows "lock_ok (run_cluster es)"
  using assms
proof (induction es rule: rev_induct)
  case Nil
  show ?case by (simp add: run_cluster_def boot_cluster_def lock_ok_def)
next
  case (snoc e es)
  then have "lock_ok (run_cluster es)" "\<And>c. e \<noteq> ConnectionLost c" by auto
  from lock_ok_step [OF this] show ?case by (simp add: run_cluster_def)
qed

text \<open>When the relay stops in order, the next node that asks and is answered takes over.\<close>

lemma hand_over:
  assumes "lock_ok s" "draining s n" "node_phase s m = Asking"
  shows "draining (cluster_step (cluster_step s (Retire n u k)) (Elect m NoFault)) m"
proof -
  from assms(2) obtain c where c: "node_phase s n = Draining c" by (auto simp: draining_def)
  with assms have "lock_holder s = Some c" "n \<noteq> m" by (auto simp: lock_ok_def)
  with c assms(3) show ?thesis
    by (simp add: draining_def release_outbox_lock_def try_outbox_lock_def)
qed

end
