(* ===== verification/Broker.thy ===== *)
theory Broker
  imports Relay_Run
begin

text \<open>
  \<open>internal/broker\<close>: publishing to the JetStream stream, the fan-out to this node's sockets, and
  the shared consumer with its retries and its dead-letter queue. JetStream itself is not part of
  this program: what it does with a publish is an argument of the definitions, and the locale
  \<open>jetstream\<close> of the next theory names what the program relies on.
  A nil \<open>*Broker\<close> is \<open>None\<close>.
\<close>

section \<open>Configuration\<close>

definition stream_name :: string where "stream_name = ''CHAT''"
definition dlq_stream_name :: string where "dlq_stream_name = ''CHAT_DLQ''"
definition message_subject_prefix :: string where "message_subject_prefix = ''chat.message.''"
definition dead_subject :: string where "dead_subject = ''chat.dead.unread''"
definition unread_durable :: string where "unread_durable = ''unread''"
definition max_deliver :: nat where "max_deliver = 5"
definition ack_wait :: duration where "ack_wait = 30 * second"
definition duplicate_window :: duration where "duplicate_window = 5 * minute"
definition max_age :: duration where "max_age = 24 * hour"

record broker =
  br_node_id :: string
  br_published :: nat
  br_publish_fails :: nat
  br_fanout_recv :: nat
  br_unread_done :: nat
  br_redelivered :: nat
  br_dead_lettered :: nat
  br_consuming :: bool

record stream_config =
  sc_name :: string
  sc_subjects :: "string list"
  sc_max_age :: duration
  sc_duplicates :: "duration option"

definition chat_stream :: stream_config where
  "chat_stream = \<lparr>sc_name = stream_name, sc_subjects = [message_subject_prefix @ ''>''],
     sc_max_age = max_age, sc_duplicates = Some duplicate_window\<rparr>"

definition dlq_stream :: stream_config where
  "dlq_stream = \<lparr>sc_name = dlq_stream_name, sc_subjects = [''chat.dead.>''],
     sc_max_age = 30 * 24 * hour, sc_duplicates = None\<rparr>"

definition setup_streams :: "(stream_config \<Rightarrow> string option) \<Rightarrow> string + unit" where
  "setup_streams create =
     (case create chat_stream of
        Some err \<Rightarrow> Inl (''create stream CHAT: '' @ err)
      | None \<Rightarrow>
          (case create dlq_stream of
             Some err \<Rightarrow> Inl (''create stream CHAT_DLQ: '' @ err)
           | None \<Rightarrow> Inr ()))"

definition node_id :: "string \<Rightarrow> string option \<Rightarrow> string" where
  "node_id env host =
     (if env \<noteq> [] then env
      else case host of None \<Rightarrow> ''unknown'' | Some h \<Rightarrow> if h \<noteq> [] then h else ''unknown'')"

definition new_broker :: "string \<Rightarrow> broker" where
  "new_broker i = \<lparr>br_node_id = i, br_published = 0, br_publish_fails = 0, br_fanout_recv = 0,
     br_unread_done = 0, br_redelivered = 0, br_dead_lettered = 0, br_consuming = False\<rparr>"

text \<open>No address, no connection, no JetStream or no streams: each means a node on its own.\<close>

definition broker_from_env ::
  "string \<Rightarrow> string \<Rightarrow> bool \<Rightarrow> bool \<Rightarrow> (stream_config \<Rightarrow> string option) \<Rightarrow> broker option" where
  "broker_from_env url i connected js create =
     (if url = [] then None
      else if \<not> connected then None
      else if \<not> js then None
      else case setup_streams create of Inl _ \<Rightarrow> None | Inr _ \<Rightarrow> Some (new_broker i))"

definition broker_ping :: "broker option \<Rightarrow> bool \<Rightarrow> string option \<Rightarrow> string option" where
  "broker_ping b connected account =
     (case b of
        None \<Rightarrow> Some ''no broker configured''
      | Some _ \<Rightarrow>
          if \<not> connected then Some ''not connected to nats''
          else map_option (\<lambda>err. ''nats account info: '' @ err) account)"

definition broker_close :: "broker option \<Rightarrow> string option \<Rightarrow> string option" where
  "broker_close b drained =
     (case b of None \<Rightarrow> None | Some _ \<Rightarrow> map_option (\<lambda>err. ''drain nats: '' @ err) drained)"

text \<open>The counters as \<open>/metrics\<close> reads them: a nil broker reads zero.\<close>

definition counter :: "(broker \<Rightarrow> nat) \<Rightarrow> broker option \<Rightarrow> nat" where
  "counter f b = (case b of None \<Rightarrow> 0 | Some b \<Rightarrow> f b)"

definition consuming :: "broker option \<Rightarrow> nat" where
  "consuming b = (case b of None \<Rightarrow> 0 | Some b \<Rightarrow> if br_consuming b then 1 else 0)"

section \<open>The envelope\<close>

record envelope =
  env_event :: message_created
  env_user_ids :: "nat list"
  env_from :: string

definition encode_envelope :: "envelope \<Rightarrow> json option" where
  "encode_envelope e =
     (case encode_event (env_event e) of
        None \<Rightarrow> None
      | Some ev \<Rightarrow> Some (JObj [(''event'', ev), (''user_ids'', JArr (map jnum (env_user_ids e))),
                               (''from'', JStr (env_from e))]))"

fun decode_uints :: "json list \<Rightarrow> nat list option" where
  "decode_uints [] = Some []"
| "decode_uints (j # js) =
     (case decode_uint j 0 of None \<Rightarrow> None | Some n \<Rightarrow> map_option ((#) n) (decode_uints js))"

fun decode_uint_list :: "json \<Rightarrow> nat list option" where
  "decode_uint_list JNull = Some []"
| "decode_uint_list (JArr js) = decode_uints js"
| "decode_uint_list _ = None"

fun decode_nested_event :: "json \<Rightarrow> message_created \<Rightarrow> message_created option" where
  "decode_nested_event JNull old = Some old"
| "decode_nested_event (JObj kvs) old = set_fields old kvs"
| "decode_nested_event _ old = None"

definition set_env_field :: "envelope \<Rightarrow> string \<times> json \<Rightarrow> envelope option" where
  "set_env_field e kv = (case kv of (k, v) \<Rightarrow>
     if equal_fold k ''event'' then
       map_option (\<lambda>m. e\<lparr>env_event := m\<rparr>) (decode_nested_event v (env_event e))
     else if equal_fold k ''user_ids'' then
       map_option (\<lambda>us. e\<lparr>env_user_ids := us\<rparr>) (decode_uint_list v)
     else if equal_fold k ''from'' then
       map_option (\<lambda>s. e\<lparr>env_from := s\<rparr>) (decode_str v (env_from e))
     else Some e)"

fun set_env_fields :: "envelope \<Rightarrow> (string \<times> json) list \<Rightarrow> envelope option" where
  "set_env_fields e [] = Some e"
| "set_env_fields e (kv # kvs) =
     (case set_env_field e kv of None \<Rightarrow> None | Some e' \<Rightarrow> set_env_fields e' kvs)"

text \<open>What arrives is bytes: a JSON document, or not.\<close>

datatype wire = Json json | Garbage bytes

fun decode_envelope :: "wire \<Rightarrow> envelope option" where
  "decode_envelope (Json (JObj kvs)) =
     set_env_fields \<lparr>env_event = zero_event, env_user_ids = [], env_from = []\<rparr> kvs"
| "decode_envelope (Json JNull) = Some \<lparr>env_event = zero_event, env_user_ids = [], env_from = []\<rparr>"
| "decode_envelope _ = None"

lemma decode_uints_jnum: "\<forall>n \<in> set ns. n < 2 ^ 64 \<Longrightarrow> decode_uints (map jnum ns) = Some ns"
  by (induction ns) auto

lemma decode_nested:
  assumes "event_in_range m" "encode_event m = Some j"
  shows "decode_nested_event j zero_event = Some m"
proof -
  from decode_encode [OF assms] obtain kvs where "j = JObj kvs" "set_fields zero_event kvs = Some m"
    using assms(2) by (auto simp: decode_event_def encode_event_def split: option.splits)
  then show ?thesis by simp
qed

lemma envelope_round_trip:
  assumes "event_in_range (env_event e)" "\<forall>u \<in> set (env_user_ids e). u < 2 ^ 64"
    and "encode_envelope e = Some j"
  shows "decode_envelope (Json j) = Some e"
proof -
  from assms(3) obtain ev where ev: "encode_event (env_event e) = Some ev"
    and j: "j = JObj [(''event'', ev), (''user_ids'', JArr (map jnum (env_user_ids e))),
                      (''from'', JStr (env_from e))]"
    by (auto simp: encode_envelope_def split: option.splits)
  show ?thesis
    using decode_nested [OF assms(1) ev] decode_uints_jnum [OF assms(2)]
    by (simp add: j set_env_field_def equal_fold_def to_lower_def lower_char_def)
qed

section \<open>Publishing\<close>

definition msg_id :: "nat \<Rightarrow> string" where
  "msg_id outbox_id = ''outbox-'' @ format_uint outbox_id"

definition message_subject :: "nat \<Rightarrow> string" where
  "message_subject conversation_id = message_subject_prefix @ format_uint conversation_id"

text \<open>\<open>PublishMsg\<close> with a message id: the instant, subject, data and id.\<close>

type_synonym 's js_publish = "time \<Rightarrow> string \<Rightarrow> json \<Rightarrow> string \<Rightarrow> 's \<Rightarrow> (string + unit) \<times> 's"

definition broker_publish ::
  "'s js_publish \<Rightarrow> time \<Rightarrow> nat \<Rightarrow> message_created \<Rightarrow> nat list \<Rightarrow> broker option \<times> 's \<Rightarrow>
   (string + unit) \<times> broker option \<times> 's" where
  "broker_publish js now outbox_id ev user_ids bs =
     (case bs of
        (None, s) \<Rightarrow> (Inr (), None, s)
      | (Some b, s) \<Rightarrow>
          (case encode_envelope \<lparr>env_event = ev, env_user_ids = user_ids, env_from = br_node_id b\<rparr> of
             None \<Rightarrow> (Inl ''encode envelope: '', Some b, s)
           | Some data \<Rightarrow>
               (case js now (message_subject (mc_conversation_id ev)) data (msg_id outbox_id) s of
                  (Inl err, s') \<Rightarrow>
                    (Inl (''publish to nats: '' @ err),
                     Some (b\<lparr>br_publish_fails := br_publish_fails b + 1\<rparr>), s')
                | (Inr _, s') \<Rightarrow> (Inr (), Some (b\<lparr>br_published := br_published b + 1\<rparr>), s'))))"

lemma msg_id_inj: "msg_id i = msg_id j \<longleftrightarrow> i = j"
  by (auto simp: msg_id_def dest: format_uint_inj)

section \<open>Fan-out to this node's sockets\<close>

record consumer_config =
  cc_name :: string
  cc_durable :: bool
  cc_filter :: string
  cc_deliver_all :: bool
  cc_explicit_ack :: bool
  cc_ack_wait :: duration
  cc_max_deliver :: nat

text \<open>\<open>SubscribeFanout\<close>: new messages only, no acks; \<open>cc_max_deliver\<close> 0 is no limit.\<close>

definition fanout_consumer :: "broker \<Rightarrow> consumer_config" where
  "fanout_consumer b = \<lparr>cc_name = ''fanout-'' @ br_node_id b, cc_durable = False,
     cc_filter = message_subject_prefix @ ''>'', cc_deliver_all = False, cc_explicit_ack = False,
     cc_ack_wait = 0, cc_max_deliver = 0\<rparr>"

definition handle_fanout ::
  "'w deliver_func \<Rightarrow> wire \<Rightarrow> broker \<times> 'w \<Rightarrow> broker \<times> 'w" where
  "handle_fanout deliver data bw =
     (case bw of (b, w) \<Rightarrow>
       (case decode_envelope data of
          None \<Rightarrow> (b, w)
        | Some env \<Rightarrow>
            (b\<lparr>br_fanout_recv := br_fanout_recv b + 1\<rparr>, deliver (env_event env) (env_user_ids env) w)))"

text \<open>The subscription while its context lives: \<open>consuming\<close> is up exactly then.\<close>

definition subscribe_fanout ::
  "'w deliver_func \<Rightarrow> (consumer_config \<Rightarrow> bool) \<Rightarrow> bool \<Rightarrow> wire list \<Rightarrow> broker option \<times> 'w \<Rightarrow>
   broker option \<times> 'w" where
  "subscribe_fanout deliver create started arrivals bw =
     (case bw of
        (None, w) \<Rightarrow> (None, w)
      | (Some b, w) \<Rightarrow>
          if \<not> create (fanout_consumer b) \<or> \<not> started then (Some b, w)
          else case fold (handle_fanout deliver) arrivals (b\<lparr>br_consuming := True\<rparr>, w) of
                 (b', w') \<Rightarrow> (Some (b'\<lparr>br_consuming := False\<rparr>), w'))"

section \<open>The shared consumer\<close>

definition unread_consumer_config :: consumer_config where
  "unread_consumer_config = \<lparr>cc_name = unread_durable, cc_durable = True,
     cc_filter = message_subject_prefix @ ''>'', cc_deliver_all = True, cc_explicit_ack = True,
     cc_ack_wait = ack_wait, cc_max_deliver = max_deliver\<rparr>"

text \<open>What the handler tells JetStream.\<close>

datatype verdict = Acked | AckLost | Nak duration | Term

text \<open>
  The dead letter: a JSON object around the original, or, when the original is not JSON, its
  reason and the bytes as a string.
\<close>

datatype dead_note =
    Dead string nat string time json
  | Dead_raw string bytes

definition dead_body :: "broker \<Rightarrow> time \<Rightarrow> nat \<Rightarrow> string \<Rightarrow> wire \<Rightarrow> dead_note" where
  "dead_body b now tries reason data =
     (case data of
        Json j \<Rightarrow> Dead reason tries (br_node_id b) now j
      | Garbage bs \<Rightarrow> Dead_raw reason bs)"

type_synonym 'w dlq_publish = "dead_note \<Rightarrow> 'w \<Rightarrow> bool \<times> 'w"

text \<open>Copy first, \<open>Term\<close> only after the copy is safe; a failed copy is a \<open>Nak\<close>.\<close>

definition dead_letter ::
  "'w dlq_publish \<Rightarrow> time \<Rightarrow> nat \<Rightarrow> string \<Rightarrow> wire \<Rightarrow> broker \<times> 'w \<Rightarrow> verdict \<times> broker \<times> 'w" where
  "dead_letter dlq now tries reason data bw =
     (case bw of (b, w) \<Rightarrow>
       (case dlq (dead_body b now tries reason data) w of
          (False, w') \<Rightarrow> (Nak ack_wait, b, w')
        | (True, w') \<Rightarrow> (Term, b\<lparr>br_dead_lettered := br_dead_lettered b + 1\<rparr>, w')))"

text \<open>
  \<open>handleUnread\<close>. \<open>meta\<close> is how often the message has been handed out, when its metadata can be
  read; \<open>ack_ok\<close> whether the ack arrives.
\<close>

definition handle_unread ::
  "'w apply_func \<Rightarrow> 'w dlq_publish \<Rightarrow> time \<Rightarrow> bool \<Rightarrow> nat option \<Rightarrow> wire \<Rightarrow> broker \<times> 'w \<Rightarrow>
   verdict \<times> broker \<times> 'w" where
  "handle_unread work dlq now ack_ok meta data bw =
     (case bw of (b, w) \<Rightarrow>
       (case meta of
          None \<Rightarrow> (Term, b, w)
        | Some tries \<Rightarrow>
            let b1 = (if tries > 1 then b\<lparr>br_redelivered := br_redelivered b + 1\<rparr> else b)
            in case decode_envelope data of
                 None \<Rightarrow> dead_letter dlq now tries ''decode envelope: '' data (b1, w)
               | Some env \<Rightarrow>
                   (case work now (env_event env) w of
                      (Inl err, w1) \<Rightarrow>
                        if tries \<ge> max_deliver then dead_letter dlq now tries err data (b1, w1)
                        else (Nak (int tries * second), b1, w1)
                    | (Inr _, w1) \<Rightarrow>
                        if ack_ok then (Acked, b1\<lparr>br_unread_done := br_unread_done b1 + 1\<rparr>, w1)
                        else (AckLost, b1, w1))))"

end
