(* ===== verification/Broker_Delivery.thy ===== *)
theory Broker_Delivery
  imports Broker
begin

text \<open>
  What the broker's two halves promise together with JetStream. The locale \<open>jetstream\<close> states the
  one documented fact the relay needs of a publish, and gives the relay's contract for a node
  with a broker. The second half follows one message through the shared consumer, from its first
  delivery to its end.
\<close>

section \<open>The relay with a broker\<close>

record 's bus_world = world +
  bus_broker :: broker
  bus_stream :: 's

definition bus_publish :: "'s js_publish \<Rightarrow> 's bus_world publisher" where
  "bus_publish js now i ev us w =
     (case broker_publish js now i ev us (Some (bus_broker w), bus_stream w) of
        (r, b, s) \<Rightarrow>
          (r, w\<lparr>bus_broker := (case b of None \<Rightarrow> bus_broker w | Some b \<Rightarrow> b), bus_stream := s\<rparr>))"

text \<open>The ids on the stream, in order; a message that is not found there was not stored.\<close>

locale jetstream =
  fixes js :: "'s js_publish" and stored :: "'s \<Rightarrow> string list"
  assumes js_publish: "js now subject data mid s = (res, s') \<Longrightarrow>
    (stored s' = stored s \<or> stored s' = stored s @ [mid])
    \<and> (res = Inr () \<longrightarrow> mid \<in> set (stored s'))"
begin

lemma bus_publish_law:
  assumes "bus_publish js now i ev us w = (res, w')"
  shows "w_db w' = w_db w \<and> w_lock w' = w_lock w
    \<and> (stored (bus_stream w') = stored (bus_stream w)
       \<or> stored (bus_stream w') = stored (bus_stream w) @ [msg_id i])
    \<and> (res = Inr () \<longrightarrow> msg_id i \<in> set (stored (bus_stream w')))"
proof (cases "encode_envelope \<lparr>env_event = ev, env_user_ids = us, env_from = br_node_id (bus_broker w)\<rparr>")
  case None
  with assms show ?thesis by (auto simp: bus_publish_def broker_publish_def)
next
  case (Some data)
  obtain a s' where p: "js now (message_subject (mc_conversation_id ev)) data (msg_id i) (bus_stream w) = (a, s')"
    by fastforce
  from js_publish [OF p] show ?thesis
    using assms Some p by (cases a) (auto simp: bus_publish_def broker_publish_def)
qed

end

sublocale jetstream \<subseteq> bus: db_publisher NoFault conn "bus_publish js" "\<lambda>w. stored (bus_stream w)"
    "\<lambda>i ev us. msg_id i" for conn
proof
  show "stored (bus_stream (w\<lparr>w_db := d\<rparr>)) = stored (bus_stream w)"
    "stored (bus_stream (w\<lparr>w_lock := h\<rparr>)) = stored (bus_stream w)" for w :: "'s bus_world" and d h
    by simp_all
  fix w w' :: "'s bus_world" and now i ev us and res :: "string + unit"
  assume "db_good w" "bus_publish js now i ev us w = (res, w')"
  with bus_publish_law [OF this(2)] show "db_good w' \<and> db_pending w' = db_pending w
        \<and> (stored (bus_stream w') = stored (bus_stream w)
           \<or> stored (bus_stream w') = stored (bus_stream w) @ [msg_id i])
        \<and> (res = Inr () \<longrightarrow> msg_id i \<in> set (stored (bus_stream w')))"
    by (auto simp: db_good_def db_pending_def)
qed

text \<open>
  A stream with message ids as the JetStream manual describes it: a repeat of an id inside the
  window is acknowledged and not stored. Its script of faults is the network between.
\<close>

record window_stream =
  stream_entries :: "(time \<times> string \<times> string \<times> json) list"
  stream_faults :: "fault list"

definition window_store :: "time \<Rightarrow> string \<Rightarrow> json \<Rightarrow> string \<Rightarrow> window_stream \<Rightarrow> window_stream" where
  "window_store now subject data mid s =
     (if list_ex (\<lambda>(t, i, _). i = mid \<and> now < t + duplicate_window) (stream_entries s) then s
      else s\<lparr>stream_entries := stream_entries s @ [(now, mid, subject, data)]\<rparr>)"

definition window_publish :: "window_stream js_publish" where
  "window_publish now subject data mid s =
     (case stream_faults s of
        [] \<Rightarrow> (Inr (), window_store now subject data mid s)
      | Works # fs \<Rightarrow> (Inr (), window_store now subject data mid (s\<lparr>stream_faults := fs\<rparr>))
      | Refused # fs \<Rightarrow> (Inl ''timeout'', s\<lparr>stream_faults := fs\<rparr>)
      | ReplyLost # fs \<Rightarrow> (Inl ''timeout'', window_store now subject data mid (s\<lparr>stream_faults := fs\<rparr>)))"

definition stream_ids :: "window_stream \<Rightarrow> string list" where
  "stream_ids s = map (\<lambda>(_, i, _). i) (stream_entries s)"

lemma window_store_ids:
  "(stream_ids (window_store now subject data mid s) = stream_ids s
     \<or> stream_ids (window_store now subject data mid s) = stream_ids s @ [mid])
   \<and> mid \<in> set (stream_ids (window_store now subject data mid s))"
  by (force simp: window_store_def stream_ids_def list_ex_iff)

lemma stream_ids_faults [simp]: "stream_ids (s\<lparr>stream_faults := fs\<rparr>) = stream_ids s"
  by (simp add: stream_ids_def)

interpretation windowed: jetstream window_publish stream_ids
proof
  fix now subject data mid and s s' :: window_stream and res
  assume p: "window_publish now subject data mid s = (res, s')"
  then consider fs where "s' = window_store now subject data mid (s\<lparr>stream_faults := fs\<rparr>)"
    | fs where "s' = s\<lparr>stream_faults := fs\<rparr>" "res \<noteq> Inr ()"
    | "s' = window_store now subject data mid s"
    by (auto simp: window_publish_def split: list.splits fault.splits)
  then show "(stream_ids s' = stream_ids s \<or> stream_ids s' = stream_ids s @ [mid])
      \<and> (res = Inr () \<longrightarrow> mid \<in> set (stream_ids s'))"
    using window_store_ids [of now subject data mid] stream_ids_faults by cases metis+
qed

section \<open>One message through the shared consumer\<close>

record consumer_world =
  cw_db :: db
  cw_metrics :: unread_metrics
  cw_dead :: "dead_note list"

definition consumer_apply :: "consumer_world apply_func" where
  "consumer_apply now ev w =
     (case server_apply_unread now ev (cw_db w, cw_metrics w) of
        (r, d, m) \<Rightarrow> (case r of Inl e \<Rightarrow> Inl (error_text e) | Inr u \<Rightarrow> Inr u, w\<lparr>cw_db := d, cw_metrics := m\<rparr>))"

definition dlq_store :: "bool \<Rightarrow> consumer_world dlq_publish" where
  "dlq_store ok body w = (ok, if ok then w\<lparr>cw_dead := cw_dead w @ [body]\<rparr> else w)"

text \<open>
  One attempt: its instant, the database faults it meets, whether the dead-letter stream answers
  and whether the ack arrives. A node that dies before its ack is an ack that does not arrive.
\<close>

record attempt_env =
  at_time :: time
  at_faults :: "fault list"
  at_dlq :: bool
  at_ack :: bool

datatype fate = Finished | Dead_lettered | Abandoned | In_flight

text \<open>
  The life of a message on the consumer \<open>unread_consumer_config\<close>: an ack or a \<open>Term\<close> ends it, a
  \<open>Nak\<close> or no answer brings it back, and after \<open>cc_max_deliver\<close> deliveries JetStream hands it out
  no more. \<open>n\<close> counts the deliveries so far.
\<close>

fun consume_message ::
  "wire \<Rightarrow> nat \<Rightarrow> attempt_env list \<Rightarrow> broker \<times> consumer_world \<Rightarrow> fate \<times> broker \<times> consumer_world" where
  "consume_message data n [] bw =
     (if n \<ge> cc_max_deliver unread_consumer_config then Abandoned else In_flight, bw)"
| "consume_message data n (a # as) bw =
     (if n \<ge> cc_max_deliver unread_consumer_config then (Abandoned, bw)
      else case bw of (b, w) \<Rightarrow>
        (case handle_unread consumer_apply (dlq_store (at_dlq a)) (at_time a) (at_ack a) (Some (n + 1)) data
                (b, w\<lparr>cw_db := (cw_db w)\<lparr>faults := at_faults a\<rparr>\<rparr>) of
           (v, bw') \<Rightarrow>
             (case v of
                Acked \<Rightarrow> (Finished, bw')
              | Term \<Rightarrow> (Dead_lettered, bw')
              | _ \<Rightarrow> consume_message data (n + 1) as bw')))"

text \<open>One delivery, by the verdict it ends with.\<close>

definition applied_event :: "time \<Rightarrow> message_created \<Rightarrow> tables \<Rightarrow> tables" where
  "applied_event now ev =
     applied now (mc_message_id ev) (mc_conversation_id ev) (mc_sender_id ev) (mc_seq ev)"

lemma applied_event_consumed [simp]: "is_consumed (applied_event now ev t) (mc_message_id ev)"
  by (simp add: applied_event_def applied_consumed)

lemma applied_event_idem: "is_consumed t (mc_message_id ev) \<Longrightarrow> applied_event now ev t = t"
  by (simp add: applied_event_def applied_def)

text \<open>The tables after an event's work was done once or not at all.\<close>

definition at_most_once :: "message_created \<Rightarrow> tables \<Rightarrow> tables \<Rightarrow> bool" where
  "at_most_once ev t0 t \<longleftrightarrow> t = t0 \<or> (\<exists>now. t = applied_event now ev t0)"

lemma at_most_once_refl [simp]: "at_most_once ev t t"
  by (simp add: at_most_once_def)

lemma at_most_once_applied [simp]: "at_most_once ev t (applied_event now ev t)"
  by (auto simp: at_most_once_def)

lemma at_most_once_trans:
  "at_most_once ev t0 t1 \<Longrightarrow> at_most_once ev t1 t2 \<Longrightarrow> at_most_once ev t0 t2"
  unfolding at_most_once_def by (metis applied_event_consumed applied_event_idem)

lemma dead_body_redelivered [simp]: "dead_body (b\<lparr>br_redelivered := n\<rparr>) = dead_body b"
  by (intro ext) (simp add: dead_body_def split: wire.split)

lemma dead_body_node: "br_node_id b' = br_node_id b \<Longrightarrow> dead_body b' = dead_body b"
  by (intro ext) (simp add: dead_body_def split: wire.split)

lemma consumer_apply_cases:
  assumes "consumer_apply now ev w = (r, w')"
  shows "cw_dead w' = cw_dead w \<and> (tbl (cw_db w') = tbl (cw_db w) \<and> r \<noteq> Inr ()
    \<or> tbl (cw_db w') = applied_event now ev (tbl (cw_db w)))"
proof -
  obtain s d m where a: "server_apply_unread now ev (cw_db w, cw_metrics w) = (s, d, m)"
    by (metis prod.collapse)
  from a obtain n where n: "apply_unread now (mc_message_id ev) (mc_conversation_id ev) (mc_sender_id ev)
      (mc_seq ev) (cw_db w) = (n, d)" and s: "s = (case n of Inl e \<Rightarrow> Inl e | Inr _ \<Rightarrow> Inr ())"
    by (rule server_apply_db)
  from apply_unread_cases [OF n] s assms a show ?thesis
    by (auto simp: consumer_apply_def applied_event_def split: sum.splits)
qed

lemma handle_unread_cases:
  assumes run: "handle_unread consumer_apply (dlq_store dlq) now ack (Some k) data (b, w) = (v, b', w')"
    and env: "decode_envelope data = Some env"
  obtains (acked) "v = Acked" "tbl (cw_db w') = applied_event now (env_event env) (tbl (cw_db w))"
      "cw_dead w' = cw_dead w" "br_unread_done b' = br_unread_done b + 1"
      "br_dead_lettered b' = br_dead_lettered b" "br_node_id b' = br_node_id b"
  | (lost) "v = AckLost" "tbl (cw_db w') = applied_event now (env_event env) (tbl (cw_db w))"
      "cw_dead w' = cw_dead w" "br_unread_done b' = br_unread_done b"
      "br_dead_lettered b' = br_dead_lettered b" "br_node_id b' = br_node_id b"
  | (again) t where "v = Nak t" "k < max_deliver \<or> \<not> dlq"
      "at_most_once (env_event env) (tbl (cw_db w)) (tbl (cw_db w'))"
      "cw_dead w' = cw_dead w" "br_unread_done b' = br_unread_done b"
      "br_dead_lettered b' = br_dead_lettered b" "br_node_id b' = br_node_id b"
  | (dead) reason where "v = Term" "max_deliver \<le> k"
      "at_most_once (env_event env) (tbl (cw_db w)) (tbl (cw_db w'))"
      "cw_dead w' = cw_dead w @ [dead_body b now k reason data]" "br_unread_done b' = br_unread_done b"
      "br_dead_lettered b' = br_dead_lettered b + 1" "br_node_id b' = br_node_id b"
proof -
  obtain r w1 where w1: "consumer_apply now (env_event env) w = (r, w1)" by fastforce
  note c = consumer_apply_cases [OF w1]
  let ?b1 = "if k > 1 then b\<lparr>br_redelivered := br_redelivered b + 1\<rparr> else b"
  have b1: "br_unread_done ?b1 = br_unread_done b" "br_dead_lettered ?b1 = br_dead_lettered b"
    "br_node_id ?b1 = br_node_id b" by simp_all
  show thesis
  proof (cases r)
    case (Inr u)
    with c have t: "tbl (cw_db w1) = applied_event now (env_event env) (tbl (cw_db w))"
      "cw_dead w1 = cw_dead w" by auto
    show thesis
    proof (cases ack)
      case True
      with run env w1 Inr t b1 show thesis by (intro acked) (auto simp: handle_unread_def Let_def)
    next
      case False
      with run env w1 Inr t b1 show thesis by (intro lost) (auto simp: handle_unread_def Let_def)
    qed
  next
    case (Inl err)
    from c have t: "at_most_once (env_event env) (tbl (cw_db w)) (tbl (cw_db w1))"
      "cw_dead w1 = cw_dead w" by auto
    show thesis
    proof (cases "max_deliver \<le> k \<and> dlq")
      case True
      with run env w1 Inl t b1 show thesis
        by (intro dead [of err])
          (auto simp: handle_unread_def Let_def dead_letter_def dlq_store_def)
    next
      case False
      with run env w1 Inl t b1 show thesis
        by (intro again [of "if max_deliver \<le> k then ack_wait else int k * second"])
          (auto simp: handle_unread_def Let_def dead_letter_def dlq_store_def split: if_splits)
    qed
  qed
qed

text \<open>
  However often a message is delivered and whatever goes wrong, its work is done at most once;
  finished means done, dead-lettered means a copy in the dead-letter stream, and nothing but the
  fifth delivery is dead-lettered.
\<close>

lemma consume_message_effect:
  assumes "consume_message data n as (b, w) = (f, b', w')" "decode_envelope data = Some env"
  shows "at_most_once (env_event env) (tbl (cw_db w)) (tbl (cw_db w'))
    \<and> (f = Finished \<longrightarrow> is_consumed (tbl (cw_db w')) (mc_message_id (env_event env)))
    \<and> (if f = Dead_lettered
       then \<exists>t reason. cw_dead w' = cw_dead w @ [dead_body b t max_deliver reason data]
       else cw_dead w' = cw_dead w)"
  using assms
proof (induction as arbitrary: n b w)
  case Nil
  then show ?case by (auto split: if_splits)
next
  case (Cons a as)
  show ?case
  proof (cases "cc_max_deliver unread_consumer_config \<le> n")
    case True
    with Cons.prems show ?thesis by simp
  next
    case False
    then have n: "n < max_deliver" by (simp add: unread_consumer_config_def)
    let ?w = "w\<lparr>cw_db := (cw_db w)\<lparr>faults := at_faults a\<rparr>\<rparr>"
    obtain v b1 w1 where h: "handle_unread consumer_apply (dlq_store (at_dlq a)) (at_time a) (at_ack a)
        (Some (n + 1)) data (b, ?w) = (v, b1, w1)" by (metis prod.collapse)
    have run: "(case v of Acked \<Rightarrow> (Finished, b1, w1) | Term \<Rightarrow> (Dead_lettered, b1, w1)
        | _ \<Rightarrow> consume_message data (n + 1) as (b1, w1)) = (f, b', w')"
      using Cons.prems(1) False h by simp
    have come_back: ?thesis
      if "consume_message data (n + 1) as (b1, w1) = (f, b', w')"
        "at_most_once (env_event env) (tbl (cw_db w)) (tbl (cw_db w1))"
        "cw_dead w1 = cw_dead w" "br_node_id b1 = br_node_id b"
      using Cons.IH [OF that(1) Cons.prems(2)] at_most_once_trans [OF that(2)] that(3)
        dead_body_node [OF that(4)] by (auto split: if_splits)
    from h Cons.prems(2) show ?thesis
    proof (cases rule: handle_unread_cases)
      case acked
      with run show ?thesis by auto
    next
      case lost
      with run show ?thesis by (intro come_back) auto
    next
      case (again t)
      with run show ?thesis by (intro come_back) auto
    next
      case (dead reason)
      with n have "n + 1 = max_deliver" by simp
      with dead run show ?thesis by auto
    qed
  qed
qed

text \<open>
  The end nobody hears of: the work fails on every delivery and the copy of the fifth fails too.
  The \<open>Nak\<close> that follows asks for a sixth delivery, which \<open>MaxDeliver\<close> forbids. Whatever would
  have worked later, the message is neither counted nor in the dead-letter stream.
\<close>

definition cut_off :: "attempt_env \<Rightarrow> bool" where
  "cut_off a \<longleftrightarrow> (\<exists>fs. at_faults a = Refused # fs)"

lemma consumer_apply_cut_off:
  assumes "cut_off a"
  shows "\<exists>err w1. consumer_apply now ev (w\<lparr>cw_db := (cw_db w)\<lparr>faults := at_faults a\<rparr>\<rparr>) = (Inl err, w1)
      \<and> tbl (cw_db w1) = tbl (cw_db w) \<and> cw_dead w1 = cw_dead w"
proof -
  from assms obtain fs where fs: "at_faults a = Refused # fs" by (auto simp: cut_off_def)
  then show ?thesis
    by (simp add: consumer_apply_def server_apply_unread_def apply_unread_def transaction_def stmt_def)
qed

lemma handle_cut_off:
  assumes "cut_off a" "decode_envelope data = Some env" "n < max_deliver" "n + 1 < max_deliver \<or> \<not> at_dlq a"
  shows "\<exists>t b' w'. handle_unread consumer_apply (dlq_store (at_dlq a)) (at_time a) (at_ack a) (Some (n + 1)) data
      (b, w\<lparr>cw_db := (cw_db w)\<lparr>faults := at_faults a\<rparr>\<rparr>) = (Nak t, b', w')
      \<and> tbl (cw_db w') = tbl (cw_db w) \<and> cw_dead w' = cw_dead w"
proof -
  obtain err w1 where c: "consumer_apply (at_time a) (env_event env) (w\<lparr>cw_db := (cw_db w)\<lparr>faults := at_faults a\<rparr>\<rparr>)
      = (Inl err, w1)" "tbl (cw_db w1) = tbl (cw_db w)" "cw_dead w1 = cw_dead w"
    using consumer_apply_cut_off [OF assms(1)] by blast
  show ?thesis
  proof (cases "n + 1 < max_deliver")
    case True
    with c assms(2) show ?thesis by (simp add: handle_unread_def)
  next
    case False
    with c assms(2,4) show ?thesis by (simp add: handle_unread_def dead_letter_def dlq_store_def)
  qed
qed

lemma consume_abandons:
  assumes "length as \<ge> max_deliver - n" "n \<le> max_deliver" "decode_envelope data = Some env"
    and "\<And>i. i < max_deliver - n \<Longrightarrow> cut_off (as ! i)"
    and "\<And>i. i = max_deliver - n - 1 \<Longrightarrow> n < max_deliver \<Longrightarrow> \<not> at_dlq (as ! i)"
  shows "\<exists>b' w'. consume_message data n as (b, w) = (Abandoned, b', w')
      \<and> tbl (cw_db w') = tbl (cw_db w) \<and> cw_dead w' = cw_dead w"
  using assms
proof (induction "max_deliver - n" arbitrary: n as b w)
  case 0
  then have "cc_max_deliver unread_consumer_config \<le> n" by (simp add: unread_consumer_config_def)
  then show ?case by (cases as) auto
next
  case (Suc k)
  then obtain a as' where as: "as = a # as'" by (cases as) auto
  have n: "n < max_deliver" using Suc.hyps(2) by simp
  have "cut_off a" using Suc.prems(4) [of 0] Suc.hyps(2) as by simp
  moreover have "n + 1 < max_deliver \<or> \<not> at_dlq a"
    using Suc.prems(5) [of 0] Suc.hyps(2) n as by (cases "n + 1 < max_deliver") auto
  ultimately obtain t b1 w1 where
    h: "handle_unread consumer_apply (dlq_store (at_dlq a)) (at_time a) (at_ack a) (Some (n + 1)) data
      (b, w\<lparr>cw_db := (cw_db w)\<lparr>faults := at_faults a\<rparr>\<rparr>) = (Nak t, b1, w1)"
    and same: "tbl (cw_db w1) = tbl (cw_db w)" "cw_dead w1 = cw_dead w"
    using handle_cut_off [OF _ Suc.prems(3) n] by blast
  have "\<exists>b' w'. consume_message data (n + 1) as' (b1, w1) = (Abandoned, b', w')
      \<and> tbl (cw_db w') = tbl (cw_db w1) \<and> cw_dead w' = cw_dead w1"
  proof (rule Suc.hyps(1))
    show "k = max_deliver - (n + 1)" using Suc.hyps(2) by simp
    show "max_deliver - (n + 1) \<le> length as'" using Suc.prems(1) as by simp
    show "n + 1 \<le> max_deliver" using n by simp
    show "decode_envelope data = Some env" by (rule Suc.prems(3))
    show "cut_off (as' ! i)" if "i < max_deliver - (n + 1)" for i
      using Suc.prems(4) [of "Suc i"] that as by simp
    show "\<not> at_dlq (as' ! i)" if "i = max_deliver - (n + 1) - 1" "n + 1 < max_deliver" for i
      using Suc.prems(5) [of "Suc i"] that as n by simp
  qed
  then show ?case
    using h same n by (auto simp: as unread_consumer_config_def)
qed

end
