(* ===== verification/Hub.thy ===== *)
theory Hub
  imports Relay_Local "HOL-Library.AList"
begin

text \<open>
  \<open>internal/ws/hub.go\<close>: every open socket of a node, and the fan-out to them. The hub is one
  goroutine, so its operations run one at a time. Closing a channel twice and sending on a closed
  one panic in Go: the operations return \<open>None\<close> there, and the invariant shows it never happens.
  Go ranges over a map in no fixed order; the list order used here is one of them.
\<close>

section \<open>State\<close>

definition send_buffer :: nat where "send_buffer = 16"
definition broadcast_buffer :: nat where "broadcast_buffer = 256"

text \<open>One \<open>Client\<close> as the hub sees it: whose it is, when its token ends, its send channel.\<close>

record socket =
  sk_user :: nat
  sk_expires_at :: time
  sk_send :: "bytes list"
  sk_closed :: bool

record fan_out =
  fo_user_ids :: "nat list"
  fo_payload :: bytes

record hub =
  h_clients :: "(nat \<times> nat list) list"
  h_sock :: "nat \<Rightarrow> socket option"
  h_broadcast :: "fan_out list"
  h_done :: bool
  h_stopped :: bool
  h_open :: int
  h_dropped :: nat
  h_shed :: nat
  h_sent :: nat
  h_expired :: nat

definition new_hub :: hub where
  "new_hub = \<lparr>h_clients = [], h_sock = (\<lambda>_. None), h_broadcast = [], h_done = False,
     h_stopped = False, h_open = 0, h_dropped = 0, h_shed = 0, h_sent = 0, h_expired = 0\<rparr>"

definition sockets :: "hub \<Rightarrow> nat \<Rightarrow> nat list" where
  "sockets h u = (case map_of (h_clients h) u of None \<Rightarrow> [] | Some cs \<Rightarrow> cs)"

section \<open>On the hub's goroutine\<close>

definition hub_add :: "nat \<Rightarrow> socket \<Rightarrow> hub \<Rightarrow> hub" where
  "hub_add c s h =
     (let cs = sockets h (sk_user s)
      in h\<lparr>h_clients := AList.update (sk_user s) (if c \<in> set cs then cs else cs @ [c]) (h_clients h),
           h_sock := (h_sock h)(c := Some s), h_open := h_open h + 1\<rparr>)"

definition close_send :: "nat \<Rightarrow> hub \<Rightarrow> hub option" where
  "close_send c h =
     (case h_sock h c of
        None \<Rightarrow> None
      | Some s \<Rightarrow> if sk_closed s then None
                  else Some (h\<lparr>h_sock := (h_sock h)(c := Some (s\<lparr>sk_closed := True\<rparr>)),
                               h_open := h_open h - 1\<rparr>))"

definition hub_remove :: "nat \<Rightarrow> nat \<Rightarrow> hub \<Rightarrow> hub option" where
  "hub_remove c u h =
     (case map_of (h_clients h) u of
        None \<Rightarrow> Some h
      | Some cs \<Rightarrow>
          if c \<notin> set cs then Some h
          else let cs' = removeAll c cs
               in close_send c (h\<lparr>h_clients :=
                    (if cs' = [] then AList.delete u (h_clients h)
                     else AList.update u cs' (h_clients h))\<rparr>))"

definition local_user_ids :: "hub \<Rightarrow> nat list" where
  "local_user_ids h = map fst (h_clients h)"

text \<open>One non-blocking send: queued, or the client is too slow and is dropped.\<close>

definition send_or_drop :: "bytes \<Rightarrow> nat \<Rightarrow> nat \<Rightarrow> hub \<Rightarrow> hub option" where
  "send_or_drop payload u c h =
     (case h_sock h c of
        None \<Rightarrow> None
      | Some s \<Rightarrow>
          if sk_closed s then None
          else if length (sk_send s) < send_buffer
            then Some (h\<lparr>h_sock := (h_sock h)(c := Some (s\<lparr>sk_send := sk_send s @ [payload]\<rparr>)),
                         h_sent := h_sent h + 1\<rparr>)
          else hub_remove c u (h\<lparr>h_dropped := h_dropped h + 1\<rparr>))"

fun deliver_sockets :: "bytes \<Rightarrow> nat \<Rightarrow> nat list \<Rightarrow> hub \<Rightarrow> hub option" where
  "deliver_sockets payload u [] h = Some h"
| "deliver_sockets payload u (c # cs) h =
     (case send_or_drop payload u c h of None \<Rightarrow> None | Some h' \<Rightarrow> deliver_sockets payload u cs h')"

fun hub_deliver :: "bytes \<Rightarrow> nat list \<Rightarrow> hub \<Rightarrow> hub option" where
  "hub_deliver payload [] h = Some h"
| "hub_deliver payload (u # us) h =
     (case deliver_sockets payload u (sockets h u) h of
        None \<Rightarrow> None | Some h' \<Rightarrow> hub_deliver payload us h')"

fun close_sockets :: "nat list \<Rightarrow> hub \<Rightarrow> hub option" where
  "close_sockets [] h = Some h"
| "close_sockets (c # cs) h =
     (case close_send c h of None \<Rightarrow> None | Some h' \<Rightarrow> close_sockets cs h')"

fun close_users :: "(nat \<times> nat list) list \<Rightarrow> hub \<Rightarrow> hub option" where
  "close_users [] h = Some h"
| "close_users ((u, cs) # rest) h =
     (case close_sockets cs h of
        None \<Rightarrow> None
      | Some h' \<Rightarrow> close_users rest (h'\<lparr>h_clients := AList.delete u (h_clients h')\<rparr>))"

definition close_all :: "hub \<Rightarrow> hub option" where
  "close_all h = close_users (h_clients h) h"

section \<open>From other goroutines\<close>

text \<open>
  \<open>Broadcast\<close>. When both the queue has room and the hub is closing, \<open>select\<close> takes either
  branch: \<open>coin\<close> says which.
\<close>

definition broadcast :: "bool \<Rightarrow> nat list \<Rightarrow> bytes \<Rightarrow> hub \<Rightarrow> hub" where
  "broadcast coin us payload h =
     (if us = [] \<or> payload = [] then h
      else if length (h_broadcast h) < broadcast_buffer \<and> (\<not> h_done h \<or> coin)
        then h\<lparr>h_broadcast := h_broadcast h @ [\<lparr>fo_user_ids = us, fo_payload = payload\<rparr>]\<rparr>
      else if h_done h then h
      else h\<lparr>h_shed := h_shed h + 1\<rparr>)"

definition hub_close :: "hub \<Rightarrow> hub" where
  "hub_close h = h\<lparr>h_done := True\<rparr>"

text \<open>\<open>UserIDs\<close>: nobody once the hub has stopped.\<close>

definition user_ids :: "bool \<Rightarrow> hub \<Rightarrow> nat list" where
  "user_ids coin h =
     (if h_stopped h \<or> (h_done h \<and> coin) then [] else local_user_ids h)"

text \<open>\<open>Add\<close>: false when the hub is closing; otherwise the goroutine registers the socket.\<close>

definition add_conn :: "bool \<Rightarrow> nat \<Rightarrow> nat \<Rightarrow> time \<Rightarrow> hub \<Rightarrow> bool \<times> hub" where
  "add_conn coin c u expires h =
     (if h_stopped h \<or> (h_done h \<and> coin) then (False, h)
      else (True, hub_add c \<lparr>sk_user = u, sk_expires_at = expires, sk_send = [], sk_closed = False\<rparr> h))"

text \<open>One turn of \<open>Run\<close>'s \<open>select\<close>.\<close>

datatype hub_event = Unregister nat | Take | Finish

definition run_once :: "hub_event \<Rightarrow> hub \<Rightarrow> hub option" where
  "run_once e h =
     (if h_stopped h then Some h
      else case e of
        Unregister c \<Rightarrow>
          (case h_sock h c of None \<Rightarrow> Some h | Some s \<Rightarrow> hub_remove c (sk_user s) h)
      | Take \<Rightarrow>
          (case h_broadcast h of
             [] \<Rightarrow> Some h
           | e # es \<Rightarrow> hub_deliver (fo_payload e) (fo_user_ids e) (h\<lparr>h_broadcast := es\<rparr>))
      | Finish \<Rightarrow>
          if \<not> h_done h then Some h
          else map_option (\<lambda>h'. h'\<lparr>h_stopped := True\<rparr>) (close_all h))"

text \<open>The write pump takes one payload off its channel.\<close>

definition receive :: "nat \<Rightarrow> hub \<Rightarrow> hub" where
  "receive c h =
     (case h_sock h c of
        None \<Rightarrow> h
      | Some s \<Rightarrow> h\<lparr>h_sock := (h_sock h)(c := Some (s\<lparr>sk_send := tl (sk_send s)\<rparr>))\<rparr>)"

section \<open>The invariant\<close>

text \<open>
  Every listed socket is listed under its own user, once, and its channel is open; a channel never
  holds more than the buffer; the gauge of open sockets counts exactly the listed ones.
\<close>

fun total :: "(nat \<times> nat list) list \<Rightarrow> nat" where
  "total [] = 0"
| "total (x # xs) = length (snd x) + total xs"

definition lists_ok :: "hub \<Rightarrow> bool" where
  "lists_ok h \<longleftrightarrow> distinct (map fst (h_clients h))
     \<and> (\<forall>u cs. map_of (h_clients h) u = Some cs \<longrightarrow> cs \<noteq> [] \<and> distinct cs)"

definition owners_ok :: "hub \<Rightarrow> bool" where
  "owners_ok h \<longleftrightarrow> (\<forall>u c. c \<in> set (sockets h u) \<longrightarrow>
     (\<exists>s. h_sock h c = Some s \<and> sk_user s = u \<and> \<not> sk_closed s))"

definition channels_ok :: "hub \<Rightarrow> bool" where
  "channels_ok h \<longleftrightarrow> (\<forall>c s. h_sock h c = Some s \<longrightarrow> length (sk_send s) \<le> send_buffer
     \<and> (\<not> sk_closed s \<longrightarrow> c \<in> set (sockets h (sk_user s))))"

definition gauge_ok :: "hub \<Rightarrow> bool" where
  "gauge_ok h \<longleftrightarrow> h_open h = int (total (h_clients h))"

definition hub_ok :: "hub \<Rightarrow> bool" where
  "hub_ok h \<longleftrightarrow> lists_ok h \<and> owners_ok h \<and> channels_ok h \<and> gauge_ok h
     \<and> length (h_broadcast h) \<le> broadcast_buffer"

lemma hub_okD:
  assumes "hub_ok h"
  shows "lists_ok h" "owners_ok h" "channels_ok h" "gauge_ok h"
    "length (h_broadcast h) \<le> broadcast_buffer"
  using assms by (simp_all add: hub_ok_def)

lemma ownerD: "owners_ok h \<Longrightarrow> c \<in> set (sockets h u) \<Longrightarrow>
    \<exists>s. h_sock h c = Some s \<and> sk_user s = u \<and> \<not> sk_closed s"
  by (simp add: owners_ok_def)

lemma channelD: "channels_ok h \<Longrightarrow> h_sock h c = Some s \<Longrightarrow> length (sk_send s) \<le> send_buffer
     \<and> (\<not> sk_closed s \<longrightarrow> c \<in> set (sockets h (sk_user s)))"
  by (simp add: channels_ok_def)

lemma sockets_distinct: "lists_ok h \<Longrightarrow> distinct (sockets h u)"
  by (simp add: lists_ok_def sockets_def split: option.split)

lemma total_update:
  "int (total (AList.update u cs xs))
     = int (total xs) - int (length (case map_of xs u of None \<Rightarrow> [] | Some ds \<Rightarrow> ds))
       + int (length cs)"
  by (induction xs) auto

lemma total_delete:
  assumes "distinct (map fst xs)"
  shows "int (total (AList.delete u xs))
     = int (total xs) - int (length (case map_of xs u of None \<Rightarrow> [] | Some ds \<Rightarrow> ds))"
  using assms
proof (induction xs)
  case (Cons x xs)
  show ?case
  proof (cases "fst x = u")
    case True
    with Cons.prems have "map_of xs u = None" by (auto simp: map_of_eq_None_iff)
    with True Cons show ?thesis by (cases x) (simp add: AList.delete_eq)
  next
    case False
    with Cons show ?thesis by (cases x) (simp add: AList.delete_eq)
  qed
qed simp

text \<open>Replacing the sockets of one user, \<open>[]\<close> meaning that the user leaves the map.\<close>

definition put_sockets :: "nat \<Rightarrow> nat list \<Rightarrow> (nat \<times> nat list) list \<Rightarrow> (nat \<times> nat list) list" where
  "put_sockets u cs xs = (if cs = [] then AList.delete u xs else AList.update u cs xs)"

lemma put_sockets_of:
  "h_clients h' = put_sockets u cs (h_clients h) \<Longrightarrow>
   sockets h' v = (if v = u then cs else sockets h v)"
  by (simp add: sockets_def put_sockets_def update_conv' delete_conv')

lemma put_lists_ok:
  assumes "lists_ok h" "distinct cs" "h_clients h' = put_sockets u cs (h_clients h)"
  shows "lists_ok h'"
proof (cases "cs = []")
  case True
  with assms show ?thesis
    by (simp add: lists_ok_def put_sockets_def delete_conv' distinct_delete)
next
  case False
  with assms show ?thesis
    by (simp add: lists_ok_def put_sockets_def update_conv' distinct_update)
qed

lemma put_gauge_ok:
  assumes "lists_ok h" "gauge_ok h" "h_clients h' = put_sockets u cs (h_clients h)"
    and "h_open h' = h_open h - int (length (sockets h u)) + int (length cs)"
  shows "gauge_ok h'"
proof -
  have "distinct (map fst (h_clients h))" using assms(1) by (simp add: lists_ok_def)
  from total_delete [OF this, of u] show ?thesis
    using assms(2-4) total_update [of u cs "h_clients h"]
    by (simp add: gauge_ok_def put_sockets_def sockets_def)
qed

lemma hub_ok_new: "hub_ok new_hub"
  by (simp add: hub_ok_def lists_ok_def owners_ok_def channels_ok_def gauge_ok_def new_hub_def sockets_def)

text \<open>Operations that only touch what the invariant does not speak of.\<close>

lemma hub_ok_same:
  assumes "hub_ok h" "h_clients h' = h_clients h" "h_sock h' = h_sock h" "h_open h' = h_open h"
    and "length (h_broadcast h') \<le> broadcast_buffer"
  shows "hub_ok h'"
proof -
  have "sockets h' = sockets h" using assms(2) by (simp add: sockets_def fun_eq_iff)
  with assms show ?thesis
    by (simp add: hub_ok_def lists_ok_def owners_ok_def channels_ok_def gauge_ok_def)
qed

text \<open>A socket's queue may grow and shrink within its bound.\<close>

lemma hub_ok_queue:
  assumes ok: "hub_ok h" and s: "h_sock h c = Some s" and short: "length q \<le> send_buffer"
    and h': "h_clients h' = h_clients h" "h_sock h' = (h_sock h)(c := Some (s\<lparr>sk_send := q\<rparr>))"
      "h_open h' = h_open h" "h_broadcast h' = h_broadcast h"
  shows "hub_ok h'"
proof -
  have so: "sockets h' = sockets h" using h'(1) by (simp add: sockets_def fun_eq_iff)
  note d = hub_okD [OF ok]
  have "owners_ok h'"
    unfolding owners_ok_def so h'(2)
  proof (intro allI impI)
    fix u e
    assume "e \<in> set (sockets h u)"
    from ownerD [OF d(2) this] s
    show "\<exists>sa. ((h_sock h)(c := Some (s\<lparr>sk_send := q\<rparr>))) e = Some sa \<and> sk_user sa = u \<and> \<not> sk_closed sa"
      by (cases "e = c") auto
  qed
  moreover have "channels_ok h'"
    using channelD [OF d(3)] s short unfolding channels_ok_def so h'(2) by auto
  ultimately show ?thesis
    using d h' by (simp add: hub_ok_def lists_ok_def gauge_ok_def)
qed

lemma hub_ok_add:
  assumes ok: "hub_ok h" and c: "h_sock h c = None"
  shows "hub_ok (snd (add_conn coin c u expires h))"
proof (cases "h_stopped h \<or> (h_done h \<and> coin)")
  case True
  with ok show ?thesis by (simp add: add_conn_def)
next
  case False
  let ?s = "\<lparr>sk_user = u, sk_expires_at = expires, sk_send = [], sk_closed = False\<rparr>"
  let ?cs = "sockets h u @ [c]"
  note d = hub_okD [OF ok]
  have new: "c \<notin> set (sockets h v)" for v using ownerD [OF d(2)] c by fastforce
  define h' where "h' = h\<lparr>h_clients := AList.update u ?cs (h_clients h),
      h_sock := (h_sock h)(c := Some ?s), h_open := h_open h + 1\<rparr>"
  have e: "snd (add_conn coin c u expires h) = h'"
    using False new [of u] unfolding add_conn_def hub_add_def h'_def Let_def by auto
  have cl: "h_clients h' = put_sockets u ?cs (h_clients h)" "h_open h' = h_open h + 1"
    "h_broadcast h' = h_broadcast h" "h_sock h' = (h_sock h)(c := Some ?s)"
    by (simp_all add: h'_def put_sockets_def)
  note so = put_sockets_of [OF cl(1)]
  have "lists_ok h'"
    by (rule put_lists_ok [OF d(1) _ cl(1)]) (simp add: sockets_distinct [OF d(1)] new)
  moreover have "owners_ok h'"
    unfolding owners_ok_def so cl(4)
  proof (intro allI impI)
    fix v e
    assume e: "e \<in> set (if v = u then ?cs else sockets h v)"
    show "\<exists>s. ((h_sock h)(c := Some ?s)) e = Some s \<and> sk_user s = v \<and> \<not> sk_closed s"
    proof (cases "e = c")
      case True
      with e new have "v = u" by (auto split: if_splits)
      with True show ?thesis by simp
    next
      case False
      with e have "e \<in> set (sockets h v)" by (auto split: if_splits)
      from ownerD [OF d(2) this] False show ?thesis by simp
    qed
  qed
  moreover have "channels_ok h'"
    unfolding channels_ok_def so cl(4) using channelD [OF d(3)] by auto
  moreover have "gauge_ok h'"
    by (rule put_gauge_ok [OF d(1,4) cl(1)]) (simp add: cl(2))
  ultimately show ?thesis unfolding e using d(5) by (simp add: hub_ok_def cl(3))
qed

text \<open>Taking one listed socket out never panics.\<close>

lemma hub_remove_listed:
  assumes ok: "hub_ok h" and c: "c \<in> set (sockets h u)"
  shows "\<exists>s h'. h_sock h c = Some s \<and> hub_remove c u h = Some h' \<and> hub_ok h'
    \<and> h_sock h' = (h_sock h)(c := Some (s\<lparr>sk_closed := True\<rparr>))
    \<and> sockets h' = (sockets h)(u := removeAll c (sockets h u))
    \<and> h_sent h' = h_sent h \<and> h_dropped h' = h_dropped h"
proof -
  note d = hub_okD [OF ok]
  from ownerD [OF d(2) c] obtain s where
    s: "h_sock h c = Some s" "sk_user s = u" "\<not> sk_closed s" by blast
  from c obtain cs where cs: "map_of (h_clients h) u = Some cs" "sockets h u = cs"
    by (cases "map_of (h_clients h) u") (auto simp: sockets_def)
  define h' where "h' = h\<lparr>h_clients := put_sockets u (removeAll c cs) (h_clients h),
      h_sock := (h_sock h)(c := Some (s\<lparr>sk_closed := True\<rparr>)), h_open := h_open h - 1\<rparr>"
  have run: "hub_remove c u h = Some h'"
    using cs c s by (simp add: hub_remove_def close_send_def h'_def put_sockets_def Let_def)
  have cl: "h_clients h' = put_sockets u (removeAll c cs) (h_clients h)" "h_open h' = h_open h - 1"
    "h_broadcast h' = h_broadcast h" "h_sock h' = (h_sock h)(c := Some (s\<lparr>sk_closed := True\<rparr>))"
    "h_sent h' = h_sent h" "h_dropped h' = h_dropped h"
    by (simp_all add: h'_def)
  note so = put_sockets_of [OF cl(1)]
  have dc: "distinct cs" using sockets_distinct [OF d(1), of u] cs(2) by simp
  have "lists_ok h'" by (rule put_lists_ok [OF d(1) _ cl(1)]) (simp add: dc distinct_removeAll)
  moreover have "owners_ok h'"
    unfolding owners_ok_def so cl(4)
  proof (intro allI impI)
    fix v e
    assume e: "e \<in> set (if v = u then removeAll c cs else sockets h v)"
    then have "e \<in> set (sockets h v)" using cs(2) by (auto split: if_splits)
    moreover have "e \<noteq> c"
    proof
      assume "e = c"
      with e have "v \<noteq> u" "c \<in> set (sockets h v)" by (auto split: if_splits)
      from ownerD [OF d(2) this(2)] s(1,2) \<open>v \<noteq> u\<close> show False by simp
    qed
    ultimately show "\<exists>sa. ((h_sock h)(c := Some (s\<lparr>sk_closed := True\<rparr>))) e = Some sa
        \<and> sk_user sa = v \<and> \<not> sk_closed sa"
      using ownerD [OF d(2)] by fastforce
  qed
  moreover have "channels_ok h'"
    unfolding channels_ok_def so cl(4) using channelD [OF d(3)] s(1) cs(2) by auto
  moreover have "gauge_ok h'"
  proof (rule put_gauge_ok [OF d(1,4) cl(1)])
    have "length (removeAll c cs) = length cs - 1"
      using dc c cs(2) by (simp add: distinct_remove1_removeAll [symmetric] length_remove1)
    moreover have "0 < length cs" using c cs(2) by (cases cs) auto
    ultimately have "length cs = Suc (length (removeAll c cs))" by linarith
    then show "h_open h' = h_open h - int (length (sockets h u)) + int (length (removeAll c cs))"
      by (simp add: cl(2) cs(2))
  qed
  ultimately have "hub_ok h'" using d(5) by (simp add: hub_ok_def cl(3))
  moreover have "sockets h' = (sockets h)(u := removeAll c (sockets h u))"
    using so cs(2) by (simp add: fun_eq_iff)
  ultimately show ?thesis using s(1) run cl(4-6) by blast
qed

lemma hub_remove_ok:
  assumes "hub_ok h"
  shows "\<exists>h'. hub_remove c u h = Some h' \<and> hub_ok h'"
proof (cases "c \<in> set (sockets h u)")
  case True
  from hub_remove_listed [OF assms this] show ?thesis by blast
next
  case False
  with assms show ?thesis by (auto simp: hub_remove_def sockets_def split: option.splits)
qed

section \<open>Fan-out\<close>

text \<open>Whether a socket is listed can be read off its record.\<close>

lemma listed_iff:
  assumes "hub_ok h"
  shows "c \<in> set (sockets h u) \<longleftrightarrow> (\<exists>s. h_sock h c = Some s \<and> sk_user s = u \<and> \<not> sk_closed s)"
  using ownerD [OF hub_okD(2) [OF assms]] channelD [OF hub_okD(3) [OF assms]] by blast

text \<open>What one payload does to an open socket: it is queued, or the socket is dropped.\<close>

definition offered :: "bytes \<Rightarrow> socket \<Rightarrow> socket" where
  "offered payload s =
     (if length (sk_send s) < send_buffer then s\<lparr>sk_send := sk_send s @ [payload]\<rparr>
      else s\<lparr>sk_closed := True\<rparr>)"

lemma offered_user [simp]: "sk_user (offered payload s) = sk_user s"
  by (simp add: offered_def)

lemma send_or_drop_spec:
  assumes ok: "hub_ok h" and c: "c \<in> set (sockets h u)"
  shows "\<exists>s h'. h_sock h c = Some s \<and> send_or_drop payload u c h = Some h' \<and> hub_ok h'
    \<and> h_sock h' = (h_sock h)(c := Some (offered payload s))"
proof -
  from c ok obtain s where s: "h_sock h c = Some s" "\<not> sk_closed s" by (auto simp: listed_iff)
  show ?thesis
  proof (cases "length (sk_send s) < send_buffer")
    case True
    let ?h = "h\<lparr>h_sock := (h_sock h)(c := Some (s\<lparr>sk_send := sk_send s @ [payload]\<rparr>)), h_sent := h_sent h + 1\<rparr>"
    have "hub_ok ?h"
      by (rule hub_ok_queue [OF ok s(1), of "sk_send s @ [payload]"]) (use True in simp_all)
    with True s show ?thesis by (simp add: send_or_drop_def offered_def)
  next
    case False
    let ?h = "h\<lparr>h_dropped := h_dropped h + 1\<rparr>"
    have ok': "hub_ok ?h" by (rule hub_ok_same [OF ok]) (simp_all add: hub_okD [OF ok])
    have "c \<in> set (sockets ?h u)" using c by (simp add: sockets_def)
    from hub_remove_listed [OF ok' this] obtain h' where
      "hub_remove c u ?h = Some h'" "hub_ok h'" "h_sock h' = (h_sock h)(c := Some (s\<lparr>sk_closed := True\<rparr>))"
      using s(1) by auto
    with False s show ?thesis by (simp add: send_or_drop_def offered_def)
  qed
qed

lemma deliver_sockets_spec:
  assumes "hub_ok h" "distinct cs" "set cs \<subseteq> set (sockets h u)"
  shows "\<exists>h'. deliver_sockets payload u cs h = Some h' \<and> hub_ok h'
    \<and> (\<forall>c. h_sock h' c = (if c \<in> set cs then map_option (offered payload) (h_sock h c) else h_sock h c))"
  using assms
proof (induction cs arbitrary: h)
  case (Cons c cs)
  from send_or_drop_spec [OF Cons.prems(1), of c u payload] Cons.prems(3) obtain s h1 where
    h1: "h_sock h c = Some s" "send_or_drop payload u c h = Some h1" "hub_ok h1"
      "h_sock h1 = (h_sock h)(c := Some (offered payload s))" by auto
  have "set cs \<subseteq> set (sockets h1 u)"
  proof
    fix d
    assume d: "d \<in> set cs"
    with Cons.prems(2) have "d \<noteq> c" by auto
    moreover have "d \<in> set (sockets h u)" using d Cons.prems(3) by auto
    ultimately show "d \<in> set (sockets h1 u)"
      using listed_iff [OF Cons.prems(1)] listed_iff [OF h1(3)] h1(4) by simp
  qed
  from Cons.IH [OF h1(3) _ this] Cons.prems(2) obtain h' where
    "deliver_sockets payload u cs h1 = Some h'" "hub_ok h'"
    "\<forall>c. h_sock h' c = (if c \<in> set cs then map_option (offered payload) (h_sock h1 c) else h_sock h1 c)"
    by auto
  with h1 Cons.prems(2) show ?case by auto
qed simp

lemma deliver_user:
  assumes "hub_ok h"
  shows "\<exists>h'. deliver_sockets payload u (sockets h u) h = Some h' \<and> hub_ok h'
    \<and> (\<forall>c. h_sock h' c = map_option (\<lambda>s. if \<not> sk_closed s \<and> sk_user s = u then offered payload s else s)
                          (h_sock h c))"
proof -
  from deliver_sockets_spec [OF assms sockets_distinct [OF hub_okD(1) [OF assms]] subset_refl] obtain h' where
    h': "deliver_sockets payload u (sockets h u) h = Some h'" "hub_ok h'"
    "\<forall>c. h_sock h' c = (if c \<in> set (sockets h u) then map_option (offered payload) (h_sock h c) else h_sock h c)"
    by blast
  have "h_sock h' c = map_option (\<lambda>s. if \<not> sk_closed s \<and> sk_user s = u then offered payload s else s)
                          (h_sock h c)" for c
    using h'(3) listed_iff [OF assms, of c u] by (cases "h_sock h c") auto
  with h'(1,2) show ?thesis by blast
qed

text \<open>
  A fan-out reaches every open socket of every listed user, exactly once when nobody is listed
  twice, and touches no other. A full socket is closed and everybody else is served all the same.
\<close>

lemma hub_deliver_ok:
  "hub_ok h \<Longrightarrow> \<exists>h'. hub_deliver payload us h = Some h' \<and> hub_ok h'"
proof (induction us arbitrary: h)
  case (Cons u us)
  from deliver_user [OF Cons.prems, of payload u] obtain h1 where
    "deliver_sockets payload u (sockets h u) h = Some h1" "hub_ok h1" by blast
  with Cons.IH show ?case by simp
qed simp

lemma hub_deliver_spec:
  assumes "hub_ok h" "distinct us" "hub_deliver payload us h = Some h'"
  shows "h_sock h' c = map_option
    (\<lambda>s. if \<not> sk_closed s \<and> sk_user s \<in> set us then offered payload s else s) (h_sock h c)"
  using assms
proof (induction us arbitrary: h)
  case Nil
  then show ?case by (cases "h_sock h c") auto
next
  case (Cons u us)
  from deliver_user [OF Cons.prems(1)] obtain h1 where
    h1: "deliver_sockets payload u (sockets h u) h = Some h1" "hub_ok h1"
    "h_sock h1 c = map_option (\<lambda>s. if \<not> sk_closed s \<and> sk_user s = u then offered payload s else s) (h_sock h c)"
    by blast
  from Cons.IH [OF h1(2)] Cons.prems(2,3) h1(1) have
    "h_sock h' c = map_option
      (\<lambda>s. if \<not> sk_closed s \<and> sk_user s \<in> set us then offered payload s else s) (h_sock h1 c)" by simp
  with h1(3) Cons.prems(2) show ?case by (cases "h_sock h c") auto
qed

section \<open>Shutting down\<close>

lemma close_send_spec:
  assumes "hub_ok h" "c \<in> set (sockets h u)"
  shows "\<exists>s. h_sock h c = Some s \<and> close_send c h =
    Some (h\<lparr>h_sock := (h_sock h)(c := Some (s\<lparr>sk_closed := True\<rparr>)), h_open := h_open h - 1\<rparr>)"
  using assms by (auto simp: listed_iff close_send_def)

lemma close_sockets_spec:
  assumes "distinct cs" "\<And>c. c \<in> set cs \<Longrightarrow> \<exists>s. h_sock h c = Some s \<and> \<not> sk_closed s"
  shows "\<exists>h'. close_sockets cs h = Some h' \<and> h_clients h' = h_clients h
    \<and> h_open h' = h_open h - int (length cs)
    \<and> h_broadcast h' = h_broadcast h
    \<and> (\<forall>c. h_sock h' c = (if c \<in> set cs then map_option (\<lambda>s. s\<lparr>sk_closed := True\<rparr>) (h_sock h c)
                            else h_sock h c))"
  using assms
proof (induction cs arbitrary: h)
  case (Cons c cs)
  from Cons.prems(2) [of c] obtain s where s: "h_sock h c = Some s" "\<not> sk_closed s" by auto
  let ?h = "h\<lparr>h_sock := (h_sock h)(c := Some (s\<lparr>sk_closed := True\<rparr>)), h_open := h_open h - 1\<rparr>"
  have "\<exists>s. h_sock ?h d = Some s \<and> \<not> sk_closed s" if "d \<in> set cs" for d
    using Cons.prems that by auto
  from Cons.IH [of ?h, OF _ this] Cons.prems(1) s show ?case
    by (auto simp: close_send_def)
qed simp

lemma close_users_spec:
  assumes "distinct (map fst xs)" "distinct (concat (map snd xs))"
    and "\<And>c. c \<in> set (concat (map snd xs)) \<Longrightarrow> \<exists>s. h_sock h c = Some s \<and> \<not> sk_closed s"
  shows "\<exists>h'. close_users xs h = Some h'
    \<and> h_clients h' = fold AList.delete (map fst xs) (h_clients h)
    \<and> h_open h' = h_open h - int (total xs)
    \<and> h_broadcast h' = h_broadcast h
    \<and> (\<forall>c. h_sock h' c = (if c \<in> set (concat (map snd xs))
                            then map_option (\<lambda>s. s\<lparr>sk_closed := True\<rparr>) (h_sock h c) else h_sock h c))"
  using assms
proof (induction xs arbitrary: h)
  case (Cons x xs)
  obtain u cs where x: "x = (u, cs)" by fastforce
  from close_sockets_spec [of cs h] Cons.prems(2,3) x obtain h1 where
    h1: "close_sockets cs h = Some h1" "h_clients h1 = h_clients h" "h_open h1 = h_open h - int (length cs)"
      "h_broadcast h1 = h_broadcast h"
      "\<forall>c. h_sock h1 c = (if c \<in> set cs then map_option (\<lambda>s. s\<lparr>sk_closed := True\<rparr>) (h_sock h c)
                            else h_sock h c)" by auto
  let ?h = "h1\<lparr>h_clients := AList.delete u (h_clients h1)\<rparr>"
  have "\<exists>s. h_sock ?h c = Some s \<and> \<not> sk_closed s" if "c \<in> set (concat (map snd xs))" for c
  proof -
    have "c \<notin> set cs" using Cons.prems(2) that x by auto
    moreover have "c \<in> set (concat (map snd (x # xs)))" using that by simp
    ultimately show ?thesis using Cons.prems(3) [of c] h1(5) by simp
  qed
  from Cons.IH [of ?h, OF _ _ this] Cons.prems(1,2) x obtain h' where
    h': "close_users xs ?h = Some h'"
    "h_clients h' = fold AList.delete (map fst xs) (h_clients ?h)"
    "h_open h' = h_open ?h - int (total xs)"
    "h_broadcast h' = h_broadcast ?h"
    "\<forall>c. h_sock h' c = (if c \<in> set (concat (map snd xs))
        then map_option (\<lambda>s. s\<lparr>sk_closed := True\<rparr>) (h_sock ?h c) else h_sock ?h c)" by auto
  have "h_sock h' c = (if c \<in> set (concat (map snd (x # xs)))
      then map_option (\<lambda>s. s\<lparr>sk_closed := True\<rparr>) (h_sock h c) else h_sock h c)" for c
    using h'(5) h1(5) Cons.prems(2) x by (cases "c \<in> set cs") auto
  with h' h1 x show ?case by simp
qed simp

lemma fold_delete_all: "fst ` set ys \<subseteq> set us \<Longrightarrow> fold AList.delete us ys = []"
proof (induction us arbitrary: ys)
  case (Cons u us)
  have "fst ` set (AList.delete u ys) \<subseteq> set us" using Cons.prems by (auto simp: AList.delete_eq)
  with Cons.IH show ?case by simp
qed simp

lemma listed_concat:
  assumes "lists_ok h"
  shows "c \<in> set (concat (map snd (h_clients h))) \<longleftrightarrow> (\<exists>u. c \<in> set (sockets h u))"
proof
  assume "c \<in> set (concat (map snd (h_clients h)))"
  then obtain u cs where "(u, cs) \<in> set (h_clients h)" "c \<in> set cs" by auto
  with assms have "map_of (h_clients h) u = Some cs" by (simp add: lists_ok_def map_of_is_SomeI)
  with \<open>c \<in> set cs\<close> have "c \<in> set (sockets h u)" by (simp add: sockets_def)
  then show "\<exists>u. c \<in> set (sockets h u)" ..
next
  assume "\<exists>u. c \<in> set (sockets h u)"
  then obtain u where c: "c \<in> set (sockets h u)" ..
  then obtain cs where "map_of (h_clients h) u = Some cs" "c \<in> set cs"
    by (cases "map_of (h_clients h) u") (auto simp: sockets_def)
  from map_of_SomeD [OF this(1)] this(2) show "c \<in> set (concat (map snd (h_clients h)))" by force
qed

lemma clients_disjoint:
  assumes "distinct (map fst xs)"
    and "\<And>u cs. (u, cs) \<in> set xs \<Longrightarrow> distinct cs"
    and "\<And>u cs c. (u, cs) \<in> set xs \<Longrightarrow> c \<in> set cs \<Longrightarrow> f c = u"
  shows "distinct (concat (map snd xs))"
  using assms
proof (induction xs)
  case (Cons x xs)
  obtain u cs where x: "x = (u, cs)" by fastforce
  have "set cs \<inter> set (concat (map snd xs)) = {}"
  proof (rule ccontr)
    assume "set cs \<inter> set (concat (map snd xs)) \<noteq> {}"
    then obtain c v ds where "c \<in> set cs" "(v, ds) \<in> set xs" "c \<in> set ds" by auto
    with Cons.prems(3) [of u cs c] Cons.prems(3) [of v ds c] x have "u = v" by simp
    with \<open>(v, ds) \<in> set xs\<close> Cons.prems(1) x show False by force
  qed
  moreover have "distinct (concat (map snd xs))"
  proof (rule Cons.IH)
    show "distinct (map fst xs)" using Cons.prems(1) by simp
    show "distinct cs" if "(u, cs) \<in> set xs" for u cs using Cons.prems(2) [of u cs] that by simp
    show "f c = u" if "(u, cs) \<in> set xs" "c \<in> set cs" for u cs c
      using Cons.prems(3) [of u cs c] that by simp
  qed
  moreover have "distinct cs" using Cons.prems(2) [of u cs] x by simp
  ultimately show ?case using x by simp
qed simp

text \<open>Closing the hub closes every socket, each once, and leaves nobody listed.\<close>

lemma close_all_spec:
  assumes ok: "hub_ok h"
  shows "\<exists>h'. close_all h = Some h' \<and> hub_ok h' \<and> h_clients h' = [] \<and> h_open h' = 0
    \<and> (\<forall>c s. h_sock h' c = Some s \<longrightarrow> sk_closed s)"
proof -
  note d = hub_okD [OF ok]
  have keys: "distinct (map fst (h_clients h))" using d(1) by (simp add: lists_ok_def)
  have pair: "map_of (h_clients h) u = Some cs" if "(u, cs) \<in> set (h_clients h)" for u cs
    using keys that by (simp add: map_of_is_SomeI)
  have own: "\<exists>s. h_sock h c = Some s \<and> sk_user s = u \<and> \<not> sk_closed s"
    if "(u, cs) \<in> set (h_clients h)" "c \<in> set cs" for u cs c
    using ownerD [OF d(2), of c u] pair [OF that(1)] that(2) by (simp add: sockets_def)
  have "distinct (concat (map snd (h_clients h)))"
  proof (rule clients_disjoint [OF keys])
    show "distinct cs" if "(u, cs) \<in> set (h_clients h)" for u cs
      using d(1) pair [OF that] by (simp add: lists_ok_def)
    show "(case h_sock h c of None \<Rightarrow> 0 | Some s \<Rightarrow> sk_user s) = u"
      if "(u, cs) \<in> set (h_clients h)" "c \<in> set cs" for u cs c
      using own [OF that] by auto
  qed
  moreover have "\<exists>s. h_sock h c = Some s \<and> \<not> sk_closed s" if "c \<in> set (concat (map snd (h_clients h)))" for c
    using that listed_concat [OF d(1)] ownerD [OF d(2)] by blast
  ultimately obtain h' where
    h': "close_users (h_clients h) h = Some h'"
    "h_clients h' = fold AList.delete (map fst (h_clients h)) (h_clients h)"
    "h_open h' = h_open h - int (total (h_clients h))" "h_broadcast h' = h_broadcast h"
    "\<forall>c. h_sock h' c = (if c \<in> set (concat (map snd (h_clients h)))
        then map_option (\<lambda>s. s\<lparr>sk_closed := True\<rparr>) (h_sock h c) else h_sock h c)"
    using close_users_spec [OF keys] by blast
  have empty: "h_clients h' = []" unfolding h'(2) by (rule fold_delete_all) simp
  have zero: "h_open h' = 0" using d(4) h'(3) by (simp add: gauge_ok_def)
  have closed: "sk_closed s" if "h_sock h' c = Some s" for c s
  proof (cases "c \<in> set (concat (map snd (h_clients h)))")
    case True
    with that h'(5) have "map_option (\<lambda>s. s\<lparr>sk_closed := True\<rparr>) (h_sock h c) = Some s" by simp
    then show ?thesis by auto
  next
    case False
    with that h'(5) have "h_sock h c = Some s" by simp
    with False show ?thesis using channelD [OF d(3)] listed_concat [OF d(1)] by blast
  qed
  have len: "length (sk_send s) \<le> send_buffer" if "h_sock h' c = Some s" for c s
  proof -
    have "h_sock h' c = map_option (\<lambda>s. s\<lparr>sk_closed := True\<rparr>) (h_sock h c) \<or> h_sock h' c = h_sock h c"
      using h'(5) by metis
    with that obtain s0 where "h_sock h c = Some s0" "sk_send s = sk_send s0"
      by (cases "h_sock h c") auto
    with channelD [OF d(3)] show ?thesis by metis
  qed
  have "hub_ok h'"
    using closed len zero d(5) h'(4)
    by (simp add: hub_ok_def lists_ok_def owners_ok_def channels_ok_def gauge_ok_def sockets_def empty)
  with h'(1) empty zero closed show ?thesis by (auto simp: close_all_def)
qed

section \<open>The hub never panics\<close>

lemma run_once_ok:
  assumes ok: "hub_ok h"
  shows "\<exists>h'. run_once e h = Some h' \<and> hub_ok h'"
proof (cases "h_stopped h")
  case True
  with ok show ?thesis by (simp add: run_once_def)
next
  case False
  show ?thesis
  proof (cases e)
    case (Unregister c)
    with False ok hub_remove_ok [OF ok] show ?thesis
      by (auto simp: run_once_def split: option.split)
  next
    case Take
    show ?thesis
    proof (cases "h_broadcast h")
      case Nil
      with False Take ok show ?thesis by (simp add: run_once_def)
    next
      case (Cons f fs)
      have "hub_ok (h\<lparr>h_broadcast := fs\<rparr>)"
        by (rule hub_ok_same [OF ok]) (use hub_okD(5) [OF ok] Cons in simp_all)
      from hub_deliver_ok [OF this] show ?thesis using False Take Cons by (simp add: run_once_def)
    qed
  next
    case Finish
    show ?thesis
    proof (cases "h_done h")
      case True
      from close_all_spec [OF ok] obtain h' where h': "close_all h = Some h'" "hub_ok h'" by blast
      have "hub_ok (h'\<lparr>h_stopped := True\<rparr>)"
        by (rule hub_ok_same [OF h'(2)]) (simp_all add: hub_okD [OF h'(2)])
      with h' True False Finish show ?thesis by (simp add: run_once_def)
    qed (use False Finish ok in \<open>simp add: run_once_def\<close>)
  qed
qed

inductive hub_reachable :: "hub \<Rightarrow> bool" where
  start: "hub_reachable new_hub"
| add: "hub_reachable h \<Longrightarrow> h_sock h c = None \<Longrightarrow> hub_reachable (snd (add_conn coin c u expires h))"
| broadcast: "hub_reachable h \<Longrightarrow> hub_reachable (broadcast coin us payload h)"
| close: "hub_reachable h \<Longrightarrow> hub_reachable (hub_close h)"
| receive: "hub_reachable h \<Longrightarrow> hub_reachable (receive c h)"
| expire: "hub_reachable h \<Longrightarrow> hub_reachable (h\<lparr>h_expired := h_expired h + 1\<rparr>)"
| run: "hub_reachable h \<Longrightarrow> run_once e h = Some h' \<Longrightarrow> hub_reachable h'"

lemma hub_reachable_ok: "hub_reachable h \<Longrightarrow> hub_ok h"
proof (induction rule: hub_reachable.induct)
  case start
  show ?case by (rule hub_ok_new)
next
  case (add h c coin u expires)
  then show ?case by (intro hub_ok_add)
next
  case (broadcast h coin us payload)
  note d = hub_okD [OF broadcast.IH]
  show ?case
    by (rule hub_ok_same [OF broadcast.IH]) (use d(5) in \<open>auto simp: broadcast_def\<close>)
next
  case (close h)
  show ?case by (rule hub_ok_same [OF close.IH]) (simp_all add: hub_close_def hub_okD [OF close.IH])
next
  case (receive h c)
  show ?case
  proof (cases "h_sock h c")
    case None
    with receive.IH show ?thesis by (simp add: receive_def)
  next
    case (Some s)
    then have "length (sk_send s) \<le> send_buffer" using channelD [OF hub_okD(3) [OF receive.IH]] by blast
    then have "length (tl (sk_send s)) \<le> send_buffer" by simp
    from hub_ok_queue [OF receive.IH Some this, of "receive c h"] show ?thesis
      by (simp add: receive_def Some)
  qed
next
  case (expire h)
  show ?case by (rule hub_ok_same [OF expire.IH]) (simp_all add: hub_okD [OF expire.IH])
next
  case (run h e h')
  from run_once_ok [OF run.IH, of e] run.hyps(2) show ?case by auto
qed

end
