(* ===== verification/Delivery_Scenario.thy ===== *)
theory Delivery_Scenario
  imports Scenario Presence_Client Relay_Run Broker_Delivery Hub
begin

text \<open>
  Concrete runs of the delivery path and of presence: the node of \<open>Scenario\<close> with two messages
  waiting, a presence service that does not answer, a consumer that loses its dead letter, a hub
  with two users.
\<close>

definition five_timeouts :: "unit request list" where
  "five_timeouts = replicate 5 (0, None, second,
     (\<lambda>_. \<lparr>a_result = Inl DeadlineExceeded, a_at = 0, a_jitter = 0, a_interrupted = False, a_woken = 0\<rparr>), False)"

definition some_client :: presence_client where
  "some_client = the (client_from_env (\<lambda>_. True) ''presence:9090'' ''node-1'')"

definition silent :: "unit rpc_attempt" where
  "silent = \<lparr>a_result = Inl DeadlineExceeded, a_at = 0, a_jitter = 0, a_interrupted = False, a_woken = 0\<rparr>"

lemma dead_silent: "dead (\<lambda>_. silent)"
  by (simp add: dead_def answered_def silent_def)

definition tea_node :: single_node where
  "tea_node = \<lparr>w_db = two_sent, w_lock = None, pushed = [],
     metrics = \<lparr>unread_applied = 0, unread_duplicates = 0\<rparr>\<rparr>"

definition tea_relay :: relay where
  "tea_relay = new_relay (\<lambda>_. []) (\<lambda>_. None)"

lemma tea_waiting: "waiting_rows (tbl two_sent) = [(1, hi_payload), (2, yo_payload)]"
  by (simp add: two_sent_eq tea_db_def waiting_rows_def hi_row_def yo_row_def waiting_row_def
      waiting_def row_key_def)

lemma tea_history: "node_history f c pub log [(1, hi_payload), (2, yo_payload)] w"
  if "w_db w = two_sent" "log w = []"
  by (rule node_history.boot) (use that two_reachable tea_waiting in \<open>simp_all add: db_pending_def\<close>)

lemma tea_calm: "db_calm tea_node"
  by (simp add: db_calm_def db_good_def tea_node_def db_reachable_ok [OF two_reachable])
    (simp add: two_sent_eq tea_db_def)

lemma tea_batch: "r_batch_size tea_relay = 100"
  by (simp add: tea_relay_def new_relay_def Let_def)

lemma hi_decoded: "decode_event hi_payload = Inr (event_of hi_message ''ann'')"
  by (rule decode_encode [OF _ hi_encoded])
    (simp add: event_in_range_def event_of_def hi_message_def message_row_def)

lemma yo_decoded: "decode_event yo_payload = Inr (event_of yo_message ''bob'')"
  by (rule decode_encode [OF _ yo_encoded])
    (simp add: event_in_range_def event_of_def yo_message_def message_row_def)

definition tea_bus :: "window_stream bus_world" where
  "tea_bus = \<lparr>w_db = two_sent, w_lock = None, bus_broker = new_broker ''node-1'',
     bus_stream = \<lparr>stream_entries = [], stream_faults = [ReplyLost]\<rparr>\<rparr>"

definition hi_envelope :: envelope where
  "hi_envelope = \<lparr>env_event = event_of hi_message ''ann'', env_user_ids = [1, 2], env_from = ''node-1''\<rparr>"

definition hi_wire :: json where
  "hi_wire = JObj [(''event'', hi_payload), (''user_ids'', JArr [jnum 1, jnum 2]), (''from'', JStr ''node-1'')]"

lemma hi_wire_encoded: "encode_envelope hi_envelope = Some hi_wire"
  by (simp add: encode_envelope_def hi_envelope_def hi_encoded hi_wire_def)

lemma hi_wire_decoded: "decode_envelope (Json hi_wire) = Some hi_envelope"
  by (rule envelope_round_trip [OF _ _ hi_wire_encoded])
    (simp_all add: hi_envelope_def event_in_range_def event_of_def hi_message_def message_row_def)

definition tea_consumer :: consumer_world where
  "tea_consumer = \<lparr>cw_db = two_sent, cw_metrics = \<lparr>unread_applied = 0, unread_duplicates = 0\<rparr>, cw_dead = []\<rparr>"

definition down :: "bool \<Rightarrow> attempt_env" where
  "down dlq = \<lparr>at_time = 7, at_faults = [Refused], at_dlq = dlq, at_ack = True\<rparr>"

definition up :: attempt_env where
  "up = \<lparr>at_time = 9, at_faults = [], at_dlq = True, at_ack = True\<rparr>"

definition tea_hub :: hub where
  "tea_hub = snd (add_conn False 11 2 0 (snd (add_conn False 10 1 0 new_hub)))"

lemma tea_hub_reachable: "hub_reachable tea_hub"
  unfolding tea_hub_def
  by (intro hub_reachable.add hub_reachable.start)
    (simp_all add: new_hub_def add_conn_def hub_add_def sockets_def)

end
