(* ===== verification/Http.thy ===== *)
theory Http
  imports Db_System "HOL-Library.List_Lexorder"
begin

text \<open>
  What travels over HTTP: the request as a handler sees it, the bodies the server answers with and
  their JSON, and the request bodies with the \<open>binding\<close> tags that guard them
  (\<open>internal/server/conversations.go\<close>, \<open>auth.go\<close>).

  A request body is the first JSON value of the text, or nothing when there is no body or it is
  not JSON. Every \<open>time.Now()\<close> of one request is the same instant.
\<close>

section \<open>Requests and responses\<close>

record http_request =
  rq_method :: string
  rq_path :: string
  rq_id_param :: string
  rq_query :: "string \<Rightarrow> string"
  rq_header :: "string \<Rightarrow> string"
  rq_cookie :: "string option"
  rq_body :: "json option"
  rq_ip :: string

record user_dto =
  ud_id :: nat
  ud_username :: string

record conversation_dto =
  cd_id :: nat
  cd_title :: string
  cd_created_by_id :: nat
  cd_created_at :: time
  cd_members :: "user_dto list"
  cd_unread_count :: nat

record message_dto =
  md_id :: nat
  md_conversation_id :: nat
  md_sender :: user_dto
  md_content :: string
  md_client_msg_id :: "string option"
  md_seq :: nat
  md_created_at :: time

record message_page_dto =
  pg_messages :: "message_dto list"
  pg_next_before_id :: "nat option"
  pg_next_after_seq :: "nat option"

record presence_dto =
  pr_online :: "nat list"
  pr_offline :: "nat list"

text \<open>A body is one of the values the handlers hand to \<open>c.JSON\<close>.\<close>

datatype body =
    Error string
  | Note string
  | Token string int
  | Room conversation_dto
  | RoomList "conversation_dto list"
  | ReadMark nat
  | UserBody user_dto
  | MessageBody message_dto
  | Page message_page_dto
  | PresenceBody presence_dto
  | Profile nat string
  | Strings "(string \<times> string) list"
  | NoBody

record cookie =
  ck_name :: string
  ck_value :: string
  ck_max_age :: int
  ck_path :: string
  ck_secure :: bool
  ck_http_only :: bool
  ck_same_site :: string

record response =
  rs_status :: nat
  rs_body :: body
  rs_headers :: "(string \<times> string) list"
  rs_cookies :: "cookie list"

definition respond :: "nat \<Rightarrow> body \<Rightarrow> response" where
  "respond status b = \<lparr>rs_status = status, rs_body = b, rs_headers = [], rs_cookies = []\<rparr>"

definition refuse :: "nat \<Rightarrow> string \<Rightarrow> response" where
  "refuse status why = respond status (Error why)"

lemma respond_simps [simp]: "rs_status (respond st b) = st" "rs_body (respond st b) = b"
  "rs_headers (respond st b) = []" "rs_cookies (respond st b) = []"
  "rs_status (refuse st why) = st" "rs_body (refuse st why) = Error why" "rs_cookies (refuse st why) = []"
  by (simp_all add: respond_def refuse_def)

type_synonym handler = "db \<Rightarrow> response \<times> db"

definition reply :: "response \<Rightarrow> handler" where
  "reply r d = (r, d)"

text \<open>One call of the database: the branch its error takes, the branch its value takes.\<close>

definition attempt :: "'a op \<Rightarrow> (db_error \<Rightarrow> handler) \<Rightarrow> ('a \<Rightarrow> handler) \<Rightarrow> handler" where
  "attempt f bad good d = (case f d of (Inl e, d') \<Rightarrow> bad e d' | (Inr x, d') \<Rightarrow> good x d')"

lemma attempt_cases:
  assumes "attempt f bad good d = (r, d')"
  obtains (err) e d1 where "f d = (Inl e, d1)" "bad e d1 = (r, d')"
  | (ok) x d1 where "f d = (Inr x, d1)" "good x d1 = (r, d')"
  using assms by (cases "f d"; cases "fst (f d)") (auto simp: attempt_def)

lemma reads_attempt [reads_rules]:
  assumes "reads f" "\<And>e. reads (bad e)" "\<And>x. reads (good x)"
  shows "reads (attempt f bad good)"
  by (rule readsI, erule attempt_cases) (use assms in \<open>metis readsD\<close>)+

lemma reads_reply [reads_rules]: "reads (reply r)"
  by (simp add: reads_def reply_def)

lemma reads_sum [reads_rules]:
  "(\<And>x. reads (f x)) \<Longrightarrow> (\<And>x. reads (g x)) \<Longrightarrow> reads (case p of Inl x \<Rightarrow> f x | Inr x \<Rightarrow> g x)"
  by (cases p) simp_all

text \<open>
  A handler touches the database through its operations only: what it does is a run of the steps of
  the state machine. One rule per construct.
\<close>

named_theorems runs_rules "handlers that are runs of service steps"

definition runs :: "(db \<Rightarrow> 'a \<times> db) \<Rightarrow> bool" where
  "runs f \<longleftrightarrow> (\<forall>d. service_step\<^sup>*\<^sup>* d (snd (f d)))"

lemma runsD: "runs f \<Longrightarrow> f d = (r, d') \<Longrightarrow> service_step\<^sup>*\<^sup>* d d'"
  unfolding runs_def by (metis snd_conv)

lemma runsI: "(\<And>d r d'. f d = (r, d') \<Longrightarrow> service_step\<^sup>*\<^sup>* d d') \<Longrightarrow> runs f"
  unfolding runs_def by (metis prod.collapse)

lemma runs_step: "(\<And>d r d'. f d = (r, d') \<Longrightarrow> service_step d d') \<Longrightarrow> runs f"
  by (rule runsI) blast

lemma runs_attempt [runs_rules]:
  assumes "runs f" "\<And>e. runs (bad e)" "\<And>x. runs (good x)"
  shows "runs (attempt f bad good)"
  by (rule runsI, erule attempt_cases) (use assms in \<open>metis runsD rtranclp_trans\<close>)+

lemma runs_reply [runs_rules]: "runs (reply r)"
  by (simp add: runs_def reply_def)

lemma runs_if [runs_rules]: "runs f \<Longrightarrow> runs g \<Longrightarrow> runs (if b then f else g)"
  by simp

lemma runs_option [runs_rules]:
  "runs f \<Longrightarrow> (\<And>x. runs (g x)) \<Longrightarrow> runs (case p of None \<Rightarrow> f | Some x \<Rightarrow> g x)"
  by (cases p) simp_all

lemma runs_sum [runs_rules]:
  "(\<And>x. runs (f x)) \<Longrightarrow> (\<And>x. runs (g x)) \<Longrightarrow> runs (case p of Inl x \<Rightarrow> f x | Inr x \<Rightarrow> g x)"
  by (cases p) simp_all

lemma runs_prod [runs_rules]: "(\<And>x y. runs (f x y)) \<Longrightarrow> runs (case p of (x, y) \<Rightarrow> f x y)"
  by (cases p) simp

lemma runs_reads: "reads f \<Longrightarrow> grows f \<Longrightarrow> runs f"
  by (rule runs_step) (rule read_step)

lemma runs_ops [runs_rules]:
  "runs (create_user now name hash)" "runs (create_refresh_token now uid hash expires)"
  "runs (revoke_refresh_token now hash)" "runs (purge_expired_refresh_tokens now uid)"
  "runs (create_conversation now title creator ids)" "runs (add_member now conv uid)"
  "runs (create_message now conv sender name content cid carrier)"
  "runs (mark_conversation_read now conv uid)"
  by (rule runs_step; erule service_step.intros)+

lemma runs_queries [runs_rules]:
  "runs (get_user_by_username name)" "runs (get_user_by_id i)" "runs (get_valid_refresh_token now hash)"
  "runs (ensure_member conv uid)" "runs (list_conversation_member_ids conv)"
  "runs (list_conversations_for_user uid)" "runs (list_messages conv before limit)"
  "runs (list_messages_after_seq conv after limit)" "runs (unread_for_user uid)"
  by (intro runs_reads reads_rules grows_rules)+

lemma run_keeps:
  assumes "service_step\<^sup>*\<^sup>* d d'" "db_ok d"
  shows "db_ok d'"
  using assms by (induction rule: rtranclp_induct) (auto intro: service_step_keeps)

lemma run_waiting:
  assumes "service_step\<^sup>*\<^sup>* d d'"
  shows "\<exists>ps. waiting_rows (tbl d') = waiting_rows (tbl d) @ ps"
  using assms
proof (induction rule: rtranclp_induct)
  case (step d1 d2)
  with service_step_waiting [of d1 d2] show ?case by auto
qed simp

lemma run_reachable:
  assumes "service_step\<^sup>*\<^sup>* d d'" "db_reachable d"
  shows "db_reachable d'"
  using assms
  by (induction rule: rtranclp_induct) (auto intro: db_reachable.step db_step.service)

section \<open>From rows to what is sent\<close>

definition to_user_dto :: "user \<Rightarrow> user_dto" where
  "to_user_dto u = \<lparr>ud_id = u_id u, ud_username = u_username u\<rparr>"

definition to_conversation_dto :: "room \<Rightarrow> conversation_dto" where
  "to_conversation_dto r = (case r of (c, ms) \<Rightarrow>
     \<lparr>cd_id = c_id c, cd_title = c_title c, cd_created_by_id = c_created_by_id c,
      cd_created_at = c_created_at c,
      cd_members = map (\<lambda>(m, u). \<lparr>ud_id = cm_user_id m, ud_username = u_username u\<rparr>) ms,
      cd_unread_count = 0\<rparr>)"

definition to_message_dto :: "message \<times> user \<Rightarrow> message_dto" where
  "to_message_dto mu = (case mu of (m, u) \<Rightarrow>
     \<lparr>md_id = m_id m, md_conversation_id = m_conversation_id m,
      md_sender = \<lparr>ud_id = m_sender_id m, ud_username = u_username u\<rparr>,
      md_content = m_content m, md_client_msg_id = m_client_msg_id m, md_seq = m_seq m,
      md_created_at = m_created_at m\<rparr>)"

definition event_to_message_dto :: "message_created \<Rightarrow> message_dto" where
  "event_to_message_dto ev =
     \<lparr>md_id = mc_message_id ev, md_conversation_id = mc_conversation_id ev,
      md_sender = \<lparr>ud_id = mc_sender_id ev, ud_username = mc_sender_name ev\<rparr>,
      md_content = mc_content ev, md_client_msg_id = mc_client_msg_id ev, md_seq = mc_seq ev,
      md_created_at = mc_created_at ev\<rparr>"

section \<open>JSON of the bodies\<close>

text \<open>
  The fields of a struct in the order they are declared, the keys of a \<open>gin.H\<close> in alphabetical
  order. The only value that has no JSON is an instant outside the years 0 to 9999.
\<close>

definition user_json :: "user_dto \<Rightarrow> json" where
  "user_json u = JObj [(''id'', jnum (ud_id u)), (''username'', JStr (ud_username u))]"

definition conversation_json :: "conversation_dto \<Rightarrow> json option" where
  "conversation_json c = map_option (\<lambda>ts. JObj
     [(''id'', jnum (cd_id c)), (''title'', JStr (cd_title c)),
      (''created_by_id'', jnum (cd_created_by_id c)), (''created_at'', JStr ts),
      (''members'', JArr (map user_json (cd_members c))),
      (''unread_count'', jnum (cd_unread_count c))]) (rfc3339 (cd_created_at c))"

definition message_json :: "message_dto \<Rightarrow> json option" where
  "message_json m = map_option (\<lambda>ts. JObj
     ([(''id'', jnum (md_id m)), (''conversation_id'', jnum (md_conversation_id m)),
       (''sender'', user_json (md_sender m)), (''content'', JStr (md_content m))]
      @ (case md_client_msg_id m of None \<Rightarrow> [] | Some k \<Rightarrow> [(''client_msg_id'', JStr k)])
      @ [(''seq'', jnum (md_seq m)), (''created_at'', JStr ts)])) (rfc3339 (md_created_at m))"

fun all_json :: "('a \<Rightarrow> json option) \<Rightarrow> 'a list \<Rightarrow> json list option" where
  "all_json f [] = Some []"
| "all_json f (x # xs) =
     (case f x of None \<Rightarrow> None | Some j \<Rightarrow> map_option (Cons j) (all_json f xs))"

definition page_json :: "message_page_dto \<Rightarrow> json option" where
  "page_json p = map_option (\<lambda>ms. JObj
     ([(''messages'', JArr ms),
       (''next_before_id'', case pg_next_before_id p of None \<Rightarrow> JNull | Some i \<Rightarrow> jnum i)]
      @ (case pg_next_after_seq p of None \<Rightarrow> [] | Some n \<Rightarrow> [(''next_after_seq'', jnum n)])))
     (all_json message_json (pg_messages p))"

definition presence_json :: "presence_dto \<Rightarrow> json" where
  "presence_json p = JObj [(''online'', JArr (map jnum (pr_online p))),
                           (''offline'', JArr (map jnum (pr_offline p)))]"

definition render :: "body \<Rightarrow> json option" where
  "render b = (case b of
     Error why \<Rightarrow> Some (JObj [(''error'', JStr why)])
   | Note what \<Rightarrow> Some (JObj [(''message'', JStr what)])
   | Token tok secs \<Rightarrow> Some (JObj [(''expires_in'', JNum (format_int secs)), (''token'', JStr tok)])
   | Room c \<Rightarrow> conversation_json c
   | RoomList cs \<Rightarrow> map_option (\<lambda>js. JObj [(''conversations'', JArr js)]) (all_json conversation_json cs)
   | ReadMark conv \<Rightarrow> Some (JObj [(''conversation_id'', jnum conv), (''unread_count'', jnum 0)])
   | UserBody u \<Rightarrow> Some (user_json u)
   | MessageBody m \<Rightarrow> message_json m
   | Page p \<Rightarrow> page_json p
   | PresenceBody p \<Rightarrow> Some (presence_json p)
   | Profile i name \<Rightarrow> Some (JObj [(''id'', jnum i), (''user'', JStr name)])
   | Strings kvs \<Rightarrow> Some (JObj (map (\<lambda>(k, v). (k, JStr v)) (sort_key fst kvs)))
   | NoBody \<Rightarrow> None)"

section \<open>Request bodies\<close>

record credentials =
  cr_username :: string
  cr_password :: string

record create_conversation_request =
  cq_title :: string
  cq_member_ids :: "nat list"

record send_message_request =
  sq_content :: string
  sq_client_msg_id :: string

text \<open>\<open>json.Decoder.Decode\<close> into a struct, \<open>put\<close> storing one member of the object.\<close>

fun decode_members :: "('r \<Rightarrow> string \<times> json \<Rightarrow> 'r option) \<Rightarrow> 'r \<Rightarrow> (string \<times> json) list \<Rightarrow> 'r option" where
  "decode_members put r [] = Some r"
| "decode_members put r (kv # kvs) =
     (case put r kv of None \<Rightarrow> None | Some r' \<Rightarrow> decode_members put r' kvs)"

definition decode_struct :: "('r \<Rightarrow> string \<times> json \<Rightarrow> 'r option) \<Rightarrow> 'r \<Rightarrow> json option \<Rightarrow> 'r option" where
  "decode_struct put zero j = (case j of
     Some (JObj kvs) \<Rightarrow> decode_members put zero kvs | Some JNull \<Rightarrow> Some zero | _ \<Rightarrow> None)"

text \<open>A slice: an element that is \<open>null\<close> keeps what the slice had there, zero at first.\<close>

fun decode_elems :: "json list \<Rightarrow> nat list \<Rightarrow> nat list option" where
  "decode_elems [] old = Some []"
| "decode_elems (j # js) old =
     (case decode_uint j (case old of [] \<Rightarrow> 0 | k # _ \<Rightarrow> k) of
        None \<Rightarrow> None
      | Some n \<Rightarrow> map_option (Cons n) (decode_elems js (tl old)))"

fun decode_ids :: "json \<Rightarrow> nat list \<Rightarrow> nat list option" where
  "decode_ids JNull old = Some []"
| "decode_ids (JArr js) old = decode_elems js old"
| "decode_ids _ old = None"

text \<open>The validator's \<open>min\<close> and \<open>max\<close> of a string count runes; \<open>required\<close> refuses the zero value.\<close>

definition runes_within :: "nat \<Rightarrow> nat \<Rightarrow> string \<Rightarrow> bool" where
  "runes_within lo hi s \<longleftrightarrow> s \<noteq> [] \<and> lo \<le> rune_count s \<and> rune_count s \<le> hi"

definition validated :: "('r \<Rightarrow> bool) \<Rightarrow> 'r option \<Rightarrow> 'r option" where
  "validated ok r = (case r of None \<Rightarrow> None | Some x \<Rightarrow> if ok x then Some x else None)"

definition bind_credentials :: "json option \<Rightarrow> credentials option" where
  "bind_credentials j = validated
     (\<lambda>c. runes_within 3 64 (cr_username c) \<and> runes_within 8 72 (cr_password c))
     (decode_struct (\<lambda>c (k, v).
         if equal_fold k ''username'' then
           map_option (\<lambda>s. c\<lparr>cr_username := s\<rparr>) (decode_str v (cr_username c))
         else if equal_fold k ''password'' then
           map_option (\<lambda>s. c\<lparr>cr_password := s\<rparr>) (decode_str v (cr_password c))
         else Some c)
       \<lparr>cr_username = [], cr_password = []\<rparr> j)"

definition bind_create_conversation :: "json option \<Rightarrow> create_conversation_request option" where
  "bind_create_conversation j = validated
     (\<lambda>c. runes_within 1 200 (cq_title c) \<and> length (cq_member_ids c) \<le> 50
        \<and> list_all (\<lambda>i. 0 < i) (cq_member_ids c))
     (decode_struct (\<lambda>c (k, v).
         if equal_fold k ''title'' then
           map_option (\<lambda>s. c\<lparr>cq_title := s\<rparr>) (decode_str v (cq_title c))
         else if equal_fold k ''member_ids'' then
           map_option (\<lambda>ns. c\<lparr>cq_member_ids := ns\<rparr>) (decode_ids v (cq_member_ids c))
         else Some c)
       \<lparr>cq_title = [], cq_member_ids = []\<rparr> j)"

definition bind_add_member :: "json option \<Rightarrow> nat option" where
  "bind_add_member j = validated (\<lambda>i. 0 < i)
     (decode_struct (\<lambda>i (k, v). if equal_fold k ''user_id'' then decode_uint v i else Some i) 0 j)"

definition bind_send_message :: "json option \<Rightarrow> send_message_request option" where
  "bind_send_message j = validated
     (\<lambda>c. runes_within 1 4000 (sq_content c) \<and> rune_count (sq_client_msg_id c) \<le> 64)
     (decode_struct (\<lambda>c (k, v).
         if equal_fold k ''content'' then
           map_option (\<lambda>s. c\<lparr>sq_content := s\<rparr>) (decode_str v (sq_content c))
         else if equal_fold k ''client_msg_id'' then
           map_option (\<lambda>s. c\<lparr>sq_client_msg_id := s\<rparr>) (decode_str v (sq_client_msg_id c))
         else Some c)
       \<lparr>sq_content = [], sq_client_msg_id = []\<rparr> j)"

lemma validatedD: "validated ok r = Some x \<Longrightarrow> r = Some x \<and> ok x"
  by (auto simp: validated_def split: option.splits if_splits)

lemma bound_message:
  assumes "bind_send_message j = Some c"
  shows "sq_content c \<noteq> []" "rune_count (sq_content c) \<le> 4000" "rune_count (sq_client_msg_id c) \<le> 64"
  using validatedD [OF assms [unfolded bind_send_message_def]] by (simp_all add: runes_within_def)

lemma bound_conversation:
  assumes "bind_create_conversation j = Some c"
  shows "cq_title c \<noteq> []" "rune_count (cq_title c) \<le> 200" "length (cq_member_ids c) \<le> 50"
    "0 \<notin> set (cq_member_ids c)"
  using validatedD [OF assms [unfolded bind_create_conversation_def]]
  by (auto simp: runes_within_def list_all_iff)

lemma bound_credentials:
  assumes "bind_credentials j = Some c"
  shows "3 \<le> rune_count (cr_username c)" "rune_count (cr_username c) \<le> 64"
    "8 \<le> rune_count (cr_password c)" "rune_count (cr_password c) \<le> 72"
  using validatedD [OF assms [unfolded bind_credentials_def]] by (simp_all add: runes_within_def)

section \<open>History and live push say the same\<close>

text \<open>
  The event a send writes next to the message becomes, frame by frame, the item history serves.
\<close>

lemma live_is_history:
  "event_to_message_dto (event_of m (u_username u)) = to_message_dto (m, u)"
  by (simp add: event_to_message_dto_def event_of_def to_message_dto_def)

end
