(* ===== verification/Go_Crypto.thy ===== *)
theory Go_Crypto
  imports Go_Strings "HOL-Library.Word"
begin

unbundle bit_operations_syntax

text \<open>
  The two encodings of Go's standard library the sessions rest on: \<open>base64.RawURLEncoding\<close> and
  \<open>sha256.Sum256\<close>.
\<close>

section \<open>Base 64 for URLs, without padding\<close>

definition b64_char :: "nat \<Rightarrow> char" where
  "b64_char k =
     (if k < 26 then char_of (65 + k) else if k < 52 then char_of (71 + k)
      else if k < 62 then char_of (k - 4) else if k = 62 then CHR ''-'' else CHR ''_'')"

fun b64_encode :: "bytes \<Rightarrow> string" where
  "b64_encode [] = []"
| "b64_encode [a] = (let n = of_char a * 16 :: nat in [b64_char (n div 64), b64_char (n mod 64)])"
| "b64_encode [a, b] = (let n = (of_char a * 256 + of_char b) * 4 :: nat in
     [b64_char (n div 4096), b64_char (n div 64 mod 64), b64_char (n mod 64)])"
| "b64_encode (a # b # c # rest) =
     (let n = (of_char a * 256 + of_char b) * 256 + of_char c :: nat in
     [b64_char (n div 262144), b64_char (n div 4096 mod 64), b64_char (n div 64 mod 64),
      b64_char (n mod 64)] @ b64_encode rest)"

lemma b64_length: "length (b64_encode bs) = (4 * length bs + 2) div 3"
  by (induction bs rule: b64_encode.induct) (simp_all add: Let_def)

section \<open>SHA-256\<close>

definition sha_k :: "32 word list" where
  "sha_k = [
     0x428a2f98, 0x71374491, 0xb5c0fbcf, 0xe9b5dba5, 0x3956c25b, 0x59f111f1, 0x923f82a4, 0xab1c5ed5,
     0xd807aa98, 0x12835b01, 0x243185be, 0x550c7dc3, 0x72be5d74, 0x80deb1fe, 0x9bdc06a7, 0xc19bf174,
     0xe49b69c1, 0xefbe4786, 0x0fc19dc6, 0x240ca1cc, 0x2de92c6f, 0x4a7484aa, 0x5cb0a9dc, 0x76f988da,
     0x983e5152, 0xa831c66d, 0xb00327c8, 0xbf597fc7, 0xc6e00bf3, 0xd5a79147, 0x06ca6351, 0x14292967,
     0x27b70a85, 0x2e1b2138, 0x4d2c6dfc, 0x53380d13, 0x650a7354, 0x766a0abb, 0x81c2c92e, 0x92722c85,
     0xa2bfe8a1, 0xa81a664b, 0xc24b8b70, 0xc76c51a3, 0xd192e819, 0xd6990624, 0xf40e3585, 0x106aa070,
     0x19a4c116, 0x1e376c08, 0x2748774c, 0x34b0bcb5, 0x391c0cb3, 0x4ed8aa4a, 0x5b9cca4f, 0x682e6ff3,
     0x748f82ee, 0x78a5636f, 0x84c87814, 0x8cc70208, 0x90befffa, 0xa4506ceb, 0xbef9a3f7, 0xc67178f2]"

definition sha_init :: "32 word list" where
  "sha_init = [0x6a09e667, 0xbb67ae85, 0x3c6ef372, 0xa54ff53a,
               0x510e527f, 0x9b05688c, 0x1f83d9ab, 0x5be0cd19]"

definition rotr :: "nat \<Rightarrow> 32 word \<Rightarrow> 32 word" where
  "rotr n x = (drop_bit n x) OR (push_bit (32 - n) x)"

text \<open>A message ends in a one bit, zeros up to 56 bytes modulo 64, and its length in bits.\<close>

definition sha_pad :: "bytes \<Rightarrow> bytes" where
  "sha_pad m =
     (let n = length m; zeros = (119 - n mod 64) mod 64
      in m @ [char_of (128 :: nat)] @ replicate zeros (char_of (0 :: nat))
           @ map (\<lambda>i. char_of (8 * n div 256 ^ (7 - i))) [0..<8])"

fun be_words :: "bytes \<Rightarrow> 32 word list" where
  "be_words (a # b # c # d # rest) =
     word_of_nat (((of_char a * 256 + of_char b) * 256 + of_char c) * 256 + of_char d) # be_words rest"
| "be_words _ = []"

definition word_bytes :: "32 word \<Rightarrow> bytes" where
  "word_bytes w = map (\<lambda>i. char_of (unat w div 256 ^ (3 - i))) [0..<4]"

text \<open>The schedule, newest word first: the sixteen of the block and forty-eight more.\<close>

fun sha_schedule :: "nat \<Rightarrow> 32 word list \<Rightarrow> 32 word list" where
  "sha_schedule 0 w = rev w"
| "sha_schedule (Suc n) w =
     (let s0 = (\<lambda>x. rotr 7 x XOR rotr 18 x XOR drop_bit 3 x) (w ! 14);
          s1 = (\<lambda>x. rotr 17 x XOR rotr 19 x XOR drop_bit 10 x) (w ! 1)
      in sha_schedule n ((w ! 15 + s0 + w ! 6 + s1) # w))"

fun sha_rounds :: "(32 word \<times> 32 word) list \<Rightarrow> 32 word list \<Rightarrow> 32 word list" where
  "sha_rounds ((k, w) # kws) [a, b, c, d, e, f, g, h] =
     (let s1 = rotr 6 e XOR rotr 11 e XOR rotr 25 e;
          ch = (e AND f) XOR (NOT e AND g);
          t1 = h + s1 + ch + k + w;
          s0 = rotr 2 a XOR rotr 13 a XOR rotr 22 a;
          maj = (a AND b) XOR (a AND c) XOR (b AND c)
      in sha_rounds kws [t1 + (s0 + maj), a, b, c, d + t1, e, f, g])"
| "sha_rounds _ st = st"

definition sha_block :: "32 word list \<Rightarrow> 32 word list \<Rightarrow> 32 word list" where
  "sha_block st ws = map2 (+) st (sha_rounds (zip sha_k (sha_schedule 48 (rev ws))) st)"

function sha_blocks :: "32 word list \<Rightarrow> 32 word list \<Rightarrow> 32 word list" where
  "sha_blocks st ws =
     (if ws = [] then st else sha_blocks (sha_block st (take 16 ws)) (drop 16 ws))"
  by pat_completeness auto
termination by (relation "measure (\<lambda>(st, ws). length ws)") auto

declare sha_blocks.simps [simp del]

definition sum256 :: "bytes \<Rightarrow> bytes" where
  "sum256 m = concat (map word_bytes (sha_blocks sha_init (be_words (sha_pad m))))"

text \<open>A digest has thirty-two bytes.\<close>

lemma sha_rounds_length: "length st = 8 \<Longrightarrow> length (sha_rounds kws st) = 8"
  by (induction kws st rule: sha_rounds.induct) (auto simp: Let_def)

lemma sha_blocks_length: "length st = 8 \<Longrightarrow> length (sha_blocks st ws) = 8"
proof (induction st ws rule: sha_blocks.induct)
  case (1 st ws)
  then show ?case
    by (subst sha_blocks.simps) (simp add: sha_block_def sha_rounds_length)
qed

lemma sum256_length: "length (sum256 m) = 32"
proof -
  have "length (concat (map word_bytes ws)) = 4 * length ws" for ws
    by (induction ws) (simp_all add: word_bytes_def)
  then show ?thesis by (simp add: sum256_def sha_blocks_length sha_init_def)
qed

end
