(* ===== verification/Auth.thy ===== *)
theory Auth
  imports Http Go_Crypto
begin

text \<open>
  Accounts and sessions over HTTP: \<open>internal/server/auth.go\<close> and \<open>refresh.go\<close>.

  bcrypt and JWT are libraries, so they are parameters: the record \<open>library\<close> holds what the two
  handlers call, and \<open>jwt_law\<close> and \<open>bcrypt_law\<close> state what their documentation promises. A random
  draw is an input of the operation that makes it.
\<close>

section \<open>Configuration and libraries\<close>

text \<open>\<open>ExpiresAt\<close> is a pointer: a token may come without one.\<close>

record claims =
  cl_user_id :: nat
  cl_username :: string
  cl_subject :: string
  cl_issued_at :: "time option"
  cl_expires_at :: "time option"

text \<open>
  \<open>generate\<close> is \<open>bcrypt.GenerateFromPassword\<close> with the salt it draws, \<open>matches\<close> the comparison;
  \<open>sign key alg claims\<close> is \<open>SignedString\<close>, and \<open>verify key algs exp_required now tok\<close> is
  \<open>ParseWithClaims\<close> with a valid token.
\<close>

record library =
  generate :: "string \<Rightarrow> string option"
  matches :: "string \<Rightarrow> string \<Rightarrow> bool"
  sign :: "bytes \<Rightarrow> string \<Rightarrow> claims \<Rightarrow> string option"
  verify :: "bytes \<Rightarrow> string list \<Rightarrow> bool \<Rightarrow> time \<Rightarrow> string \<Rightarrow> claims option"

record auth_env =
  ae_jwt_key :: bytes
  ae_token_ttl :: duration
  ae_dummy_hash :: string
  ae_app_env :: string

text \<open>\<open>parsed\<close> is what \<open>time.ParseDuration\<close> makes of the variable.\<close>

definition env_duration_or :: "duration option \<Rightarrow> duration \<Rightarrow> duration" where
  "env_duration_or parsed fallback =
     (case parsed of None \<Rightarrow> fallback | Some v \<Rightarrow> if v \<le> 0 then fallback else v)"

definition token_ttl :: "duration option \<Rightarrow> duration" where
  "token_ttl parsed = env_duration_or parsed (15 * minute)"

section \<open>Access tokens\<close>

text \<open>\<open>jwt.NewNumericDate\<close> cuts to whole seconds.\<close>

definition numeric_date :: "time \<Rightarrow> time" where
  "numeric_date t = (t div second) * second"

definition hs256 :: string where "hs256 = ''HS256''"

definition access_claims :: "auth_env \<Rightarrow> time \<Rightarrow> nat \<Rightarrow> string \<Rightarrow> claims" where
  "access_claims env now uid name =
     \<lparr>cl_user_id = uid, cl_username = name, cl_subject = name,
      cl_issued_at = Some (numeric_date now),
      cl_expires_at = Some (numeric_date (now + ae_token_ttl env))\<rparr>"

definition sign_access_token :: "library \<Rightarrow> auth_env \<Rightarrow> time \<Rightarrow> nat \<Rightarrow> string \<Rightarrow> string option" where
  "sign_access_token lib env now uid name =
     sign lib (ae_jwt_key env) hs256 (access_claims env now uid name)"

definition parse_access_token :: "library \<Rightarrow> auth_env \<Rightarrow> time \<Rightarrow> string \<Rightarrow> claims option" where
  "parse_access_token lib env now tok = verify lib (ae_jwt_key env) [hs256] True now tok"

definition bearer_token :: "string \<Rightarrow> string option" where
  "bearer_token header =
     (case Go_Strings.fields header of
        [x] \<Rightarrow> if equal_fold x ''Bearer'' then None else Some x
      | [x, y] \<Rightarrow> if \<not> equal_fold x ''Bearer'' then None else Some y
      | _ \<Rightarrow> None)"

text \<open>\<open>Inr\<close> is the identity the handlers behind the middleware read from the context.\<close>

definition auth_middleware :: "library \<Rightarrow> auth_env \<Rightarrow> time \<Rightarrow> http_request \<Rightarrow> response + (nat \<times> string)" where
  "auth_middleware lib env now rq =
     (case bearer_token (rq_header rq ''Authorization'') of
        None \<Rightarrow> Inl (refuse 401 ''Missing token'')
      | Some tok \<Rightarrow>
          (case parse_access_token lib env now tok of
             None \<Rightarrow> Inl (refuse 401 ''Invalid token'')
           | Some c \<Rightarrow> Inr (cl_user_id c, cl_username c)))"

text \<open>\<open>currentUser\<close>: the zero values when the middleware did not run.\<close>

definition current_user :: "(nat \<times> string) option \<Rightarrow> nat \<times> string" where
  "current_user who = (case who of None \<Rightarrow> (0, []) | Some p \<Rightarrow> p)"

definition expires_in :: "auth_env \<Rightarrow> int" where
  "expires_in env = whole second (ae_token_ttl env)"

section \<open>Refresh sessions\<close>

definition refresh_ttl :: duration where "refresh_ttl = 7 * 24 * hour"
definition refresh_cookie :: string where "refresh_cookie = ''refresh_token''"
definition refresh_cookie_path :: string where "refresh_cookie_path = ''/auth''"
definition refresh_token_bytes :: nat where "refresh_token_bytes = 32"

definition hash_refresh_token :: "string \<Rightarrow> bytes" where
  "hash_refresh_token tok = sum256 tok"

text \<open>\<open>None\<close> is \<open>rand.Read\<close> failing.\<close>

definition new_refresh_token :: "bytes option \<Rightarrow> (string \<times> bytes) option" where
  "new_refresh_token drawn =
     (case drawn of None \<Rightarrow> None
      | Some raw \<Rightarrow> (let tok = b64_encode (take refresh_token_bytes raw)
                     in Some (tok, hash_refresh_token tok)))"

definition secure_cookies :: "auth_env \<Rightarrow> bool" where
  "secure_cookies env \<longleftrightarrow> ae_app_env env \<noteq> ''local''"

definition set_refresh_cookie :: "auth_env \<Rightarrow> string \<Rightarrow> cookie" where
  "set_refresh_cookie env tok =
     \<lparr>ck_name = refresh_cookie, ck_value = tok, ck_max_age = whole second refresh_ttl,
      ck_path = refresh_cookie_path, ck_secure = secure_cookies env, ck_http_only = True,
      ck_same_site = ''Lax''\<rparr>"

definition clear_refresh_cookie :: "auth_env \<Rightarrow> cookie" where
  "clear_refresh_cookie env =
     \<lparr>ck_name = refresh_cookie, ck_value = [], ck_max_age = -1, ck_path = refresh_cookie_path,
      ck_secure = secure_cookies env, ck_http_only = True, ck_same_site = ''Lax''\<rparr>"

definition with_cookie :: "cookie \<Rightarrow> response \<Rightarrow> response" where
  "with_cookie ck r = r\<lparr>rs_cookies := rs_cookies r @ [ck]\<rparr>"

text \<open>
  \<open>good\<close> continues with the cookie of the new session, \<open>bad\<close> is the error. A purge that fails is
  logged and passed over.
\<close>

definition issue_refresh_session ::
  "auth_env \<Rightarrow> time \<Rightarrow> bytes option \<Rightarrow> nat \<Rightarrow> handler \<Rightarrow> (cookie \<Rightarrow> handler) \<Rightarrow> handler" where
  "issue_refresh_session env now drawn uid bad good =
     (case new_refresh_token drawn of
        None \<Rightarrow> bad
      | Some (tok, hash) \<Rightarrow>
          (let create = attempt (create_refresh_token now uid hash (now + refresh_ttl))
                 (\<lambda>_. bad) (\<lambda>_. good (set_refresh_cookie env tok))
           in attempt (purge_expired_refresh_tokens now uid) (\<lambda>_. create) (\<lambda>_. create)))"

section \<open>Handlers\<close>

definition register_handler :: "library \<Rightarrow> time \<Rightarrow> http_request \<Rightarrow> handler" where
  "register_handler lib now rq =
     (case bind_credentials (rq_body rq) of
        None \<Rightarrow> reply (refuse 400 ''Invalid input'')
      | Some c \<Rightarrow>
          (case generate lib (cr_password c) of
             None \<Rightarrow> reply (refuse 500 ''Could not hash password'')
           | Some hash \<Rightarrow>
               attempt (create_user now (cr_username c) hash)
                 (\<lambda>e. if errors_is e ErrUserExists then reply (refuse 409 ''Username already taken'')
                      else reply (refuse 500 ''Could not create user''))
                 (\<lambda>_. reply (respond 201 (Note ''User registered'')))))"

text \<open>The second half of \<open>LoginHandler\<close>: the password check, for a user or for nobody.\<close>

definition login_as ::
  "library \<Rightarrow> auth_env \<Rightarrow> time \<Rightarrow> bytes option \<Rightarrow> string \<Rightarrow> user option \<Rightarrow> handler" where
  "login_as lib env now drawn password found =
     (let stored = (case found of None \<Rightarrow> ae_dummy_hash env | Some u \<Rightarrow> u_password_hash u);
          right = matches lib stored password
      in case found of
           None \<Rightarrow> reply (refuse 401 ''Unauthorized'')
         | Some u \<Rightarrow>
             if \<not> right then reply (refuse 401 ''Unauthorized'')
             else (case sign_access_token lib env now (u_id u) (u_username u) of
                     None \<Rightarrow> reply (refuse 500 ''Could not issue token'')
                   | Some tok \<Rightarrow>
                       issue_refresh_session env now drawn (u_id u)
                         (reply (refuse 500 ''Could not start session''))
                         (\<lambda>ck. reply (with_cookie ck (respond 200 (Token tok (expires_in env)))))))"

definition login_handler ::
  "library \<Rightarrow> auth_env \<Rightarrow> time \<Rightarrow> bytes option \<Rightarrow> http_request \<Rightarrow> handler" where
  "login_handler lib env now drawn rq =
     (case bind_credentials (rq_body rq) of
        None \<Rightarrow> reply (refuse 400 ''Invalid input'')
      | Some c \<Rightarrow>
          attempt (get_user_by_username (cr_username c))
            (\<lambda>e. if errors_is e ErrUserNotFound then login_as lib env now drawn (cr_password c) None
                 else reply (refuse 500 ''Could not look up user''))
            (\<lambda>u. login_as lib env now drawn (cr_password c) (Some u)))"

definition unauthorized_session :: response where
  "unauthorized_session = refuse 401 ''Invalid or expired session''"

definition refresh_handler :: "library \<Rightarrow> auth_env \<Rightarrow> time \<Rightarrow> http_request \<Rightarrow> handler" where
  "refresh_handler lib env now rq =
     (case rq_cookie rq of
        None \<Rightarrow> reply unauthorized_session
      | Some tok \<Rightarrow>
          if tok = [] then reply unauthorized_session
          else attempt (get_valid_refresh_token now (hash_refresh_token tok))
            (\<lambda>e. if errors_is e ErrRefreshTokenNotFound
                 then reply (with_cookie (clear_refresh_cookie env) unauthorized_session)
                 else reply (refuse 500 ''Could not read session''))
            (\<lambda>(k, u). case sign_access_token lib env now (rt_user_id k) (u_username u) of
                 None \<Rightarrow> reply (refuse 500 ''Could not issue token'')
               | Some access \<Rightarrow> reply (respond 200 (Token access (expires_in env)))))"

definition logout_handler :: "auth_env \<Rightarrow> time \<Rightarrow> http_request \<Rightarrow> handler" where
  "logout_handler env now rq =
     (let bye = reply (with_cookie (clear_refresh_cookie env) (respond 200 (Note ''Logged out'')))
      in case rq_cookie rq of
           None \<Rightarrow> bye
         | Some tok \<Rightarrow>
             if tok = [] then bye
             else attempt (revoke_refresh_token now (hash_refresh_token tok))
               (\<lambda>_. reply (refuse 500 ''Could not end session'')) (\<lambda>_. bye))"

section \<open>What the libraries promise\<close>

definition has_expired :: "time \<Rightarrow> claims \<Rightarrow> bool" where
  "has_expired now c \<longleftrightarrow> (case cl_expires_at c of None \<Rightarrow> True | Some e \<Rightarrow> e \<le> now)"

text \<open>
  A signed token verifies under its key and algorithm to the claims signed, while it lasts; and
  \<open>WithExpirationRequired\<close> lets nothing through that has no expiry or a past one.
\<close>

definition jwt_law :: "library \<Rightarrow> bool" where
  "jwt_law lib \<longleftrightarrow>
     (\<forall>key alg c tok now. sign lib key alg c = Some tok \<longrightarrow>
        verify lib key [alg] True now tok = (if has_expired now c then None else Some c))
     \<and> (\<forall>key algs now tok c. verify lib key algs True now tok = Some c \<longrightarrow> \<not> has_expired now c)"

definition bcrypt_law :: "library \<Rightarrow> bool" where
  "bcrypt_law lib \<longleftrightarrow>
     (\<forall>p h. generate lib p = Some h \<longrightarrow> matches lib h p) \<and> (\<forall>p. generate lib p = None \<longleftrightarrow> 72 < length p)"

section \<open>What the handlers do\<close>

lemma numeric_date_le: "numeric_date t \<le> t" "t < numeric_date t + second"
  using pos_mod_bound [of second t] pos_mod_sign [of second t] div_mult_mod_eq [of t second]
  unfolding numeric_date_def by simp_all

text \<open>A token is good for its lifetime, cut to a whole second, and stands for the user it names.\<close>

lemma token_life:
  assumes "jwt_law lib" "sign_access_token lib env now uid name = Some tok"
  shows "parse_access_token lib env later tok =
    (if numeric_date (now + ae_token_ttl env) \<le> later then None else Some (access_claims env now uid name))"
  using assms unfolding jwt_law_def sign_access_token_def parse_access_token_def
  by (simp add: has_expired_def access_claims_def)

lemma parsed_alive:
  assumes "jwt_law lib" "parse_access_token lib env now tok = Some c"
  obtains e where "cl_expires_at c = Some e" "now < e"
  using assms unfolding jwt_law_def parse_access_token_def
  by (fastforce simp: has_expired_def split: option.splits)

lemma middleware_inr:
  "auth_middleware lib env now rq = Inr (i, name) \<longleftrightarrow>
     (\<exists>tok c. bearer_token (rq_header rq ''Authorization'') = Some tok
        \<and> parse_access_token lib env now tok = Some c \<and> i = cl_user_id c \<and> name = cl_username c)"
  by (auto simp: auth_middleware_def split: option.splits)

lemma middleware_inl: "auth_middleware lib env now rq = Inl r \<Longrightarrow> rs_status r = 401"
  by (auto simp: auth_middleware_def split: option.splits)

text \<open>What a bearer header of one or two words says.\<close>

lemma bearer_scheme: "bearer_token header = Some tok \<Longrightarrow> tok \<in> set (Go_Strings.fields header)"
  by (auto simp: bearer_token_def split: list.splits if_splits)

lemma fields_word: "w \<noteq> [] \<Longrightarrow> \<forall>c \<in> set w. \<not> is_space c \<Longrightarrow> Go_Strings.fields w = [w]"
  by (cases w) (subst fields.simps, simp add: takeWhile_eq_all_conv [THEN iffD2] fields.simps [of "[]"] dropWhile_eq_Nil_conv [THEN iffD2])+

lemma bearer_prefix:
  assumes "tok \<noteq> []" "\<forall>c \<in> set tok. \<not> is_space c"
  shows "bearer_token (''Bearer '' @ tok) = Some tok"
proof -
  have sp: "is_space (CHR '' '')" "\<not> is_space (CHR ''B'')" "\<not> is_space (CHR ''e'')" "\<not> is_space (CHR ''a'')"
    "\<not> is_space (CHR ''r'')" by (simp_all add: is_space_def)
  have "Go_Strings.fields (CHR '' '' # tok) = Go_Strings.fields tok"
    by (subst (1 2) fields.simps) (simp add: sp)
  then have "Go_Strings.fields (''Bearer '' @ tok) = ''Bearer'' # [tok]"
    using fields_word [OF assms] by (subst fields.simps) (simp add: sp)
  then show ?thesis by (simp add: bearer_token_def equal_fold_def)
qed

text \<open>
  The validator counts runes, bcrypt bytes: a password of at most 72 runes and more than 72 bytes
  passes the one and fails the other.
\<close>

lemma long_password_500:
  assumes "bcrypt_law lib" "bind_credentials (rq_body rq) = Some c" "72 < length (cr_password c)"
  shows "register_handler lib now rq d = (refuse 500 ''Could not hash password'', d)"
proof -
  have "generate lib (cr_password c) = None" using assms(1,3) by (auto simp: bcrypt_law_def)
  with assms(2) show ?thesis by (simp add: register_handler_def reply_def)
qed

text \<open>A login that succeeds opened a session for a user whose password it was.\<close>

lemma issue_cases:
  assumes "issue_refresh_session env now drawn uid bad good d = (r, d')"
  obtains (bad) d1 where "bad d1 = (r, d')"
  | (good) raw k d1 d2 where "drawn = Some raw"
      "new_refresh_token drawn = Some (b64_encode (take 32 raw), hash_refresh_token (b64_encode (take 32 raw)))"
      "create_refresh_token now uid (hash_refresh_token (b64_encode (take 32 raw))) (now + refresh_ttl) d1 = (Inr k, d2)"
      "good (set_refresh_cookie env (b64_encode (take 32 raw))) d2 = (r, d')"
      "users (tbl d1) = users (tbl d)"
proof (cases drawn)
  case None
  with assms bad show thesis by (simp add: issue_refresh_session_def new_refresh_token_def)
next
  case (Some raw)
  let ?tok = "b64_encode (take 32 raw)"
  have new: "new_refresh_token drawn = Some (?tok, hash_refresh_token ?tok)"
    by (simp add: new_refresh_token_def Some refresh_token_bytes_def Let_def)
  have create: thesis if p: "purge_expired_refresh_tokens now uid d = (p, d1)" and
    "attempt (create_refresh_token now uid (hash_refresh_token ?tok) (now + refresh_ttl))
       (\<lambda>_. bad) (\<lambda>_. good (set_refresh_cookie env ?tok)) d1 = (r, d')" for p d1
    using that(2)
  proof (cases rule: attempt_cases)
    case (err e d2)
    then show thesis by (intro bad)
  next
    case (ok k d2)
    from purge_effect [OF p] have "users (tbl d1) = users (tbl d)" by auto
    with ok new Some show thesis by (intro good)
  qed
  let ?create = "attempt (create_refresh_token now uid (hash_refresh_token ?tok) (now + refresh_ttl))
       (\<lambda>_. bad) (\<lambda>_. good (set_refresh_cookie env ?tok))"
  from assms have "attempt (purge_expired_refresh_tokens now uid) (\<lambda>_. ?create) (\<lambda>_. ?create) d = (r, d')"
    by (simp add: issue_refresh_session_def new Let_def)
  then show thesis by (cases rule: attempt_cases) (rule create; assumption)+
qed

lemma login_ok:
  assumes "login_handler lib env now drawn rq d = (r, d')" "rs_status r = 200"
  shows "\<exists>c u tok raw k d1 d2. bind_credentials (rq_body rq) = Some c
    \<and> u \<in> set (users (tbl d)) \<and> u_deleted_at u = None \<and> u_username u = cr_username c
    \<and> matches lib (u_password_hash u) (cr_password c)
    \<and> sign_access_token lib env now (u_id u) (u_username u) = Some tok
    \<and> drawn = Some raw
    \<and> create_refresh_token now (u_id u) (hash_refresh_token (b64_encode (take 32 raw)))
        (now + refresh_ttl) d1 = (Inr k, d2)
    \<and> users (tbl d1) = users (tbl d) \<and> d' = d2
    \<and> r = with_cookie (set_refresh_cookie env (b64_encode (take 32 raw))) (respond 200 (Token tok (expires_in env)))"
proof -
  from assms obtain c where c: "bind_credentials (rq_body rq) = Some c"
    by (auto simp: login_handler_def reply_def split: option.splits)
  let ?get = "get_user_by_username (cr_username c)"
  from assms(1) have "attempt ?get
      (\<lambda>e. if errors_is e ErrUserNotFound then login_as lib env now drawn (cr_password c) None
           else reply (refuse 500 ''Could not look up user''))
      (\<lambda>u. login_as lib env now drawn (cr_password c) (Some u)) d = (r, d')"
    by (simp add: login_handler_def c)
  then show ?thesis
  proof (cases rule: attempt_cases)
    case (err e d1)
    with assms(2) show ?thesis
      by (auto simp: login_as_def reply_def split: if_splits)
  next
    case (ok u d1)
    from ok(1) have q: "query (\<lambda>t. first_by u_id (\<lambda>u. u_username u = cr_username c) (live_users t)) d
        = (Inr u, d1)"
      unfolding get_user_by_username_def by (auto simp: return_def elim!: on_ok_cases)
    have u: "u \<in> set (users (tbl d))" "u_deleted_at u = None" "u_username u = cr_username c"
      using first_by_Inr [OF query_Inr [OF q]] by (auto simp: live_users_def)
    have same: "tbl d1 = tbl d" using query_tbl [OF q] by simp
    from ok(2) assms(2) obtain tok where m: "matches lib (u_password_hash u) (cr_password c)"
      and tok: "sign_access_token lib env now (u_id u) (u_username u) = Some tok"
      and issue: "issue_refresh_session env now drawn (u_id u)
           (reply (refuse 500 ''Could not start session''))
           (\<lambda>ck. reply (with_cookie ck (respond 200 (Token tok (expires_in env))))) d1 = (r, d')"
      by (auto simp: login_as_def reply_def split: if_splits option.splits)
    from issue show ?thesis
    proof (cases rule: issue_cases)
      case (bad d2)
      with assms(2) show ?thesis by (auto simp: reply_def)
    next
      case (good raw k d2 d3)
      show ?thesis
        by (rule exI [of _ c], rule exI [of _ u], rule exI [of _ tok], rule exI [of _ raw],
            rule exI [of _ k], rule exI [of _ d2], rule exI [of _ d3])
          (use c u m tok good same in \<open>simp add: reply_def\<close>)
    qed
  qed
qed

section \<open>The life of a session\<close>

text \<open>The row a login leaves is the only one with its hash.\<close>

lemma created_session:
  assumes "create_refresh_token now uid hash expires d1 = (Inr k, d2)"
  shows "k \<in> set (tokens (tbl d2)) \<and> rt_token_hash k = hash \<and> rt_user_id k = uid
    \<and> rt_expires_at k = expires \<and> rt_revoked_at k = None
    \<and> (\<forall>r \<in> set (tokens (tbl d2)). rt_token_hash r = hash \<longrightarrow> r = k) \<and> users (tbl d2) = users (tbl d1)"
proof -
  from create_token_effect [OF assms] have k: "k = token_row now (next_token (seqs d1)) uid hash expires"
    and fresh: "hash \<notin> rt_token_hash ` set (tokens (tbl d1))"
    and t: "tbl d2 = (tbl d1)\<lparr>tokens := tokens (tbl d1) @ [k]\<rparr>"
    by blast+
  have "rt_token_hash k = hash" "rt_user_id k = uid" "rt_expires_at k = expires" "rt_revoked_at k = None"
    unfolding k by (simp_all add: token_row_def)
  moreover have "rt_token_hash r \<noteq> hash" if "r \<in> set (tokens (tbl d1))" for r
    using fresh that by (metis imageI)
  ultimately show ?thesis unfolding t by auto
qed

lemma first_by_only:
  assumes "x \<in> set xs" "P x" "\<forall>y \<in> set xs. P y \<longrightarrow> y = x"
  shows "first_by key P xs = Inr x"
proof -
  have "set (sort_key key (filter P xs)) = {x}"
    unfolding set_sort set_filter using assms by blast
  then show ?thesis by (cases "sort_key key (filter P xs)") (auto simp: first_by_def)
qed

lemma valid_session_found:
  assumes k: "k \<in> set (tokens (tbl d))" "live_token now hash k"
    and only: "\<forall>r \<in> set (tokens (tbl d)). rt_token_hash r = hash \<longrightarrow> r = k"
    and u: "u \<in> set (users (tbl d))" "u_deleted_at u = None" "u_id u = rt_user_id k"
    and ids: "distinct (map u_id (users (tbl d)))" and ok: "faults d = []"
  shows "get_valid_refresh_token now hash d = (Inr (k, u), d)"
proof -
  have "first_by rt_id (live_token now hash) (tokens (tbl d)) = Inr k"
  proof (rule first_by_only [where P = "live_token now hash", OF k])
    show "\<forall>r \<in> set (tokens (tbl d)). live_token now hash r \<longrightarrow> r = k"
      using only unfolding live_token_def by blast
  qed
  moreover have "user_or_zero (filter (\<lambda>v. u_id v = rt_user_id k) (live_users (tbl d))) (rt_user_id k) = u"
  proof -
    let ?us = "filter (\<lambda>v. u_id v = rt_user_id k) (live_users (tbl d))"
    have "distinct (map u_id ?us)" using ids by (simp add: live_users_def distinct_map_filter)
    moreover have "u \<in> set ?us" using u by (simp add: live_users_def)
    ultimately show ?thesis using user_or_zero_found [of ?us u] u(3) by simp
  qed
  ultimately show ?thesis
    using ok by (simp add: get_valid_refresh_token_def on_ok_def return_def)
qed

lemma refresh_live:
  assumes "rq_cookie rq = Some tok" "tok \<noteq> []"
    and "get_valid_refresh_token now (hash_refresh_token tok) d = (Inr (k, u), d)"
    and "sign_access_token lib env now (rt_user_id k) (u_username u) = Some access"
  shows "refresh_handler lib env now rq d = (respond 200 (Token access (expires_in env)), d)"
  using assms by (simp add: refresh_handler_def attempt_def reply_def)

text \<open>A session nobody has any more is cleared from the browser.\<close>

lemma refresh_dead:
  assumes "rq_cookie rq = Some tok" "tok \<noteq> []" "faults d = []"
    and "\<And>r. r \<in> set (tokens (tbl d)) \<Longrightarrow> \<not> live_token now (hash_refresh_token tok) r"
  shows "refresh_handler lib env now rq d = (with_cookie (clear_refresh_cookie env) unauthorized_session, d)"
proof -
  have "filter (live_token now (hash_refresh_token tok)) (tokens (tbl d)) = []"
    using assms(4) by (simp add: filter_empty_conv)
  then have "first_by rt_id (live_token now (hash_refresh_token tok)) (tokens (tbl d)) = Inl RecordNotFound"
    by (simp add: first_by_def)
  then have "get_valid_refresh_token now (hash_refresh_token tok) d = (Inl ErrRefreshTokenNotFound, d)"
    using assms(3) by (simp add: get_valid_refresh_token_def on_ok_def)
  with assms(1,2) show ?thesis by (simp add: refresh_handler_def attempt_def reply_def)
qed

lemma logout_ok:
  assumes "rq_cookie rq = Some tok" "tok \<noteq> []" "faults d = []"
  shows "logout_handler env now rq d =
    (with_cookie (clear_refresh_cookie env) (respond 200 (Note ''Logged out'')),
     d\<lparr>tbl := (tbl d)\<lparr>tokens := map (revoke_row now (hash_refresh_token tok)) (tokens (tbl d))\<rparr>\<rparr>)"
  using assms
  by (simp add: logout_handler_def attempt_def revoke_refresh_token_def on_ok_def return_def reply_def Let_def)

lemma revoked_rows_dead: "r \<in> set (map (revoke_row now hash) rows) \<Longrightarrow> \<not> live_token later hash r"
proof -
  assume "r \<in> set (map (revoke_row now hash) rows)"
  then obtain r0 where r: "r = revoke_row now hash r0" by auto
  show ?thesis
  proof (cases "rt_token_hash r0 = hash \<and> rt_revoked_at r0 = None")
    case True
    then show ?thesis unfolding r by (simp add: revoke_row_def live_token_def)
  next
    case False
    then have "r = r0" unfolding r by (simp add: revoke_row_def)
    with False show ?thesis by (simp add: live_token_def)
  qed
qed

lemma b64_nonempty: "bs \<noteq> [] \<Longrightarrow> b64_encode bs \<noteq> []"
  by (cases bs rule: b64_encode.cases) (simp_all add: Let_def)

end
