(* ===== verification/Rooms_Api.thy ===== *)
theory Rooms_Api
  imports Auth Presence_Client Hub
begin

text \<open>
  The rooms over HTTP: \<open>internal/server/conversations.go\<close> and \<open>presence.go\<close>. Every handler
  gets the identity \<open>AuthMiddleware\<close> put on the context, and every route of one room starts at
  \<open>member_only\<close>.
\<close>

definition default_page_size :: nat where "default_page_size = 50"
definition max_page_size :: nat where "max_page_size = 100"

section \<open>Helpers\<close>

definition conversation_not_found :: response where
  "conversation_not_found = refuse 404 ''Conversation not found''"

text \<open>\<open>memberOnly\<close>: the response it has written, or the room.\<close>

definition member_only :: "string \<Rightarrow> nat \<Rightarrow> db \<Rightarrow> (response + nat) \<times> db" where
  "member_only raw uid d =
     (case parse_uint raw of
        None \<Rightarrow> (Inl conversation_not_found, d)
      | Some conv \<Rightarrow>
          if conv = 0 then (Inl conversation_not_found, d)
          else (case ensure_member conv uid d of
                  (Inl e, d1) \<Rightarrow>
                    (Inl (if errors_is e ErrConversationNotFound then conversation_not_found
                          else refuse 500 ''Could not look up conversation''), d1)
                | (Inr _, d1) \<Rightarrow> (Inr conv, d1)))"

text \<open>\<open>if !ok \{ return \}\<close>, the first lines of every handler of one room.\<close>

definition in_the_room :: "nat \<times> string \<Rightarrow> http_request \<Rightarrow> (nat \<Rightarrow> handler) \<Rightarrow> handler" where
  "in_the_room who rq go d =
     (case member_only (rq_id_param rq) (fst who) d of
        (Inl r, d1) \<Rightarrow> (r, d1)
      | (Inr conv, d1) \<Rightarrow> go conv d1)"

record page_query =
  pq_before_id :: nat
  pq_after_seq :: nat
  pq_gap :: bool
  pq_limit :: nat

definition cursor_param :: "string \<Rightarrow> string \<Rightarrow> response + nat option" where
  "cursor_param raw why =
     (if raw = [] then Inr None
      else case parse_uint raw of None \<Rightarrow> Inl (refuse 400 why) | Some v \<Rightarrow> Inr (Some v))"

definition limit_param :: "string \<Rightarrow> response + nat" where
  "limit_param raw =
     (if raw = [] then Inr default_page_size
      else case atoi raw of
             None \<Rightarrow> Inl (refuse 400 ''limit must be a whole number above zero'')
           | Some v \<Rightarrow> if v < 1 then Inl (refuse 400 ''limit must be a whole number above zero'')
                      else Inr (nat (min v (int max_page_size))))"

definition page_params :: "(string \<Rightarrow> string) \<Rightarrow> response + page_query" where
  "page_params params =
     (let before = params ''before_id''; after = params ''after_seq''
      in if before \<noteq> [] \<and> after \<noteq> [] then Inl (refuse 400 ''Use before_id or after_seq, not both'')
         else case cursor_param before ''before_id must be a whole number'' of
           Inl r \<Rightarrow> Inl r
         | Inr b \<Rightarrow>
             (case cursor_param after ''after_seq must be a whole number'' of
                Inl r \<Rightarrow> Inl r
              | Inr a \<Rightarrow>
                  (case limit_param (params ''limit'') of
                     Inl r \<Rightarrow> Inl r
                   | Inr n \<Rightarrow> Inr \<lparr>pq_before_id = (case b of None \<Rightarrow> 0 | Some v \<Rightarrow> v),
                                   pq_after_seq = (case a of None \<Rightarrow> 0 | Some v \<Rightarrow> v),
                                   pq_gap = (a \<noteq> None), pq_limit = n\<rparr>)))"

section \<open>Handlers\<close>

definition create_conversation_handler :: "time \<Rightarrow> nat \<times> string \<Rightarrow> http_request \<Rightarrow> handler" where
  "create_conversation_handler now who rq =
     (case bind_create_conversation (rq_body rq) of
        None \<Rightarrow> reply (refuse 400 ''Invalid input'')
      | Some c \<Rightarrow>
          attempt (create_conversation now (cq_title c) (fst who) (cq_member_ids c))
            (\<lambda>e. if errors_is e ErrUserNotFound
                 then reply (refuse 400 ''One of the members does not exist'')
                 else reply (refuse 500 ''Could not create conversation''))
            (\<lambda>r. reply (respond 201 (Room (to_conversation_dto r)))))"

definition badge :: "(nat \<rightharpoonup> nat) \<Rightarrow> room \<Rightarrow> conversation_dto" where
  "badge counts r = (to_conversation_dto r)\<lparr>cd_unread_count :=
     (case counts (c_id (fst r)) of None \<Rightarrow> 0 | Some n \<Rightarrow> n)\<rparr>"

definition list_conversations_handler :: "nat \<times> string \<Rightarrow> handler" where
  "list_conversations_handler who =
     attempt (list_conversations_for_user (fst who))
       (\<lambda>_. reply (refuse 500 ''Could not list conversations''))
       (\<lambda>rooms. attempt (unread_for_user (fst who))
          (\<lambda>_. reply (respond 200 (RoomList (map (badge Map.empty) rooms))))
          (\<lambda>counts. reply (respond 200 (RoomList (map (badge counts) rooms)))))"

definition mark_read_handler :: "time \<Rightarrow> nat \<times> string \<Rightarrow> http_request \<Rightarrow> handler" where
  "mark_read_handler now who rq =
     in_the_room who rq (\<lambda>conv.
       attempt (mark_conversation_read now conv (fst who))
         (\<lambda>_. reply (refuse 500 ''Could not mark the conversation read''))
         (\<lambda>_. reply (respond 200 (ReadMark conv))))"

definition add_member_handler :: "time \<Rightarrow> nat \<times> string \<Rightarrow> http_request \<Rightarrow> handler" where
  "add_member_handler now who rq =
     in_the_room who rq (\<lambda>conv.
       case bind_add_member (rq_body rq) of
         None \<Rightarrow> reply (refuse 400 ''Invalid input'')
       | Some uid \<Rightarrow>
           attempt (get_user_by_id uid)
             (\<lambda>e. if errors_is e ErrUserNotFound then reply (refuse 404 ''User not found'')
                  else reply (refuse 500 ''Could not look up user''))
             (\<lambda>_. attempt (add_member now conv uid)
                (\<lambda>e. if errors_is e ErrAlreadyMember then reply (refuse 409 ''User is already a member'')
                     else reply (refuse 500 ''Could not add member''))
                (\<lambda>(m, u). reply (respond 201 (UserBody (to_user_dto u))))))"

text \<open>The \<open>Sender\<close> of a row \<open>CreateMessage\<close> returns is not loaded: the name is the token's.\<close>

definition sent_dto :: "message \<Rightarrow> string \<Rightarrow> message_dto" where
  "sent_dto m name =
     (let dto = to_message_dto (m, zero_user)
      in dto\<lparr>md_sender := (md_sender dto)\<lparr>ud_username := name\<rparr>\<rparr>)"

definition send_message_handler :: "time \<Rightarrow> nat \<times> string \<Rightarrow> bytes \<Rightarrow> http_request \<Rightarrow> handler" where
  "send_message_handler now who carrier rq =
     in_the_room who rq (\<lambda>conv.
       case bind_send_message (rq_body rq) of
         None \<Rightarrow> reply (refuse 400 ''Invalid input'')
       | Some c \<Rightarrow>
           (let key = (if sq_client_msg_id c \<noteq> [] then Some (sq_client_msg_id c) else None)
            in attempt (create_message now conv (fst who) (snd who) (sq_content c) key carrier)
                 (\<lambda>_. reply (refuse 500 ''Could not send message''))
                 (\<lambda>(m, created). reply (respond (if created then 201 else 200)
                    (MessageBody (sent_dto m (snd who)))))))"

definition list_gap :: "nat \<Rightarrow> page_query \<Rightarrow> handler" where
  "list_gap conv q =
     attempt (list_messages_after_seq conv (pq_after_seq q) (pq_limit q))
       (\<lambda>_. reply (refuse 500 ''Could not list messages''))
       (\<lambda>ms. reply (respond 200 (Page
          \<lparr>pg_messages = map to_message_dto ms, pg_next_before_id = None,
           pg_next_after_seq = (if length ms = pq_limit q then Some (m_seq (fst (last ms))) else None)\<rparr>)))"

definition list_messages_handler :: "nat \<times> string \<Rightarrow> http_request \<Rightarrow> handler" where
  "list_messages_handler who rq =
     in_the_room who rq (\<lambda>conv.
       case page_params (rq_query rq) of
         Inl r \<Rightarrow> reply r
       | Inr q \<Rightarrow>
           if pq_gap q then list_gap conv q
           else attempt (list_messages conv (pq_before_id q) (pq_limit q))
             (\<lambda>_. reply (refuse 500 ''Could not list messages''))
             (\<lambda>ms. reply (respond 200 (Page
                \<lparr>pg_messages = map to_message_dto ms,
                 pg_next_before_id = (if length ms = pq_limit q then Some (m_id (fst (last ms))) else None),
                 pg_next_after_seq = None\<rparr>))))"

section \<open>Presence\<close>

text \<open>
  What \<open>onlineMembers\<close> asks: the presence service when there is a client, this node's own sockets
  when there is none. \<open>env\<close> and \<open>gone\<close> are the network's side of the call, as in the client.
\<close>

definition online_members ::
  "time \<Rightarrow> (nat \<Rightarrow> nat list rpc_attempt) \<Rightarrow> bool \<Rightarrow> bool \<Rightarrow> hub \<Rightarrow> nat list \<Rightarrow> presence_client option
     \<Rightarrow> (presence_error + (nat \<rightharpoonup> bool)) \<times> presence_client option" where
  "online_members now env gone coin h ids c =
     (case c of
        Some _ \<Rightarrow> client_online now None env gone ids c
      | None \<Rightarrow> (Inr (fold (\<lambda>i m. m(i \<mapsto> True)) (user_ids coin h) Map.empty), None))"

definition split_online :: "(nat \<rightharpoonup> bool) \<Rightarrow> nat list \<Rightarrow> presence_dto" where
  "split_online up ids =
     \<lparr>pr_online = filter (\<lambda>i. up i = Some True) ids, pr_offline = filter (\<lambda>i. up i \<noteq> Some True) ids\<rparr>"

text \<open>
  \<open>lookup\<close> is \<open>onlineMembers\<close>; the new state of the client is returned beside the response.
\<close>

definition presence_handler ::
  "(nat list \<Rightarrow> (presence_error + (nat \<rightharpoonup> bool)) \<times> presence_client option) \<Rightarrow> presence_client option
     \<Rightarrow> nat \<times> string \<Rightarrow> http_request \<Rightarrow> db \<Rightarrow> (response \<times> presence_client option) \<times> db" where
  "presence_handler lookup c who rq d =
     (case member_only (rq_id_param rq) (fst who) d of
        (Inl r, d1) \<Rightarrow> ((r, c), d1)
      | (Inr conv, d1) \<Rightarrow>
          (case list_conversation_member_ids conv d1 of
             (Inl _, d2) \<Rightarrow> ((refuse 500 ''Could not list members'', c), d2)
           | (Inr ids, d2) \<Rightarrow>
               (case lookup ids of
                  (Inl _, c') \<Rightarrow> ((refuse 503 ''Presence is not available right now'', c'), d2)
                | (Inr up, c') \<Rightarrow> ((respond 200 (PresenceBody (split_online up ids)), c'), d2))))"

section \<open>The gate\<close>

lemma member_only_cases:
  assumes "member_only raw uid d = (r, d')"
  obtains (no_room) "r = Inl conversation_not_found" "d' = d" "\<forall>conv. parse_uint raw = Some conv \<longrightarrow> conv = 0"
  | (failed) conv e where "parse_uint raw = Some conv" "ensure_member conv uid d = (Inl e, d')"
      "r = Inl (if errors_is e ErrConversationNotFound then conversation_not_found
                else refuse 500 ''Could not look up conversation'')"
  | (member) conv where "parse_uint raw = Some conv" "0 < conv" "ensure_member conv uid d = (Inr (), d')"
      "r = Inr conv"
  using assms
  by (auto simp: member_only_def split: option.splits if_splits prod.splits sum.splits)

lemma member_only_Inr:
  assumes "member_only raw uid d = (Inr conv, d')"
  shows "parse_uint raw = Some conv \<and> 0 < conv \<and> is_member (tbl d) conv uid"
  using assms
proof (cases rule: member_only_cases)
  case (member c)
  with ensure_member_sound [OF member(3)] show ?thesis by simp
qed auto

lemma member_only_Inl:
  assumes "member_only raw uid d = (Inl r, d')"
  shows "r = conversation_not_found \<or> r = refuse 500 ''Could not look up conversation''"
  using assms by (cases rule: member_only_cases) (auto split: if_splits)

lemma member_only_reads [reads_rules]: "reads (member_only raw uid)"
proof (rule readsI)
  fix d r d' assume "member_only raw uid d = (r, d')"
  then show "tbl d' = tbl d"
    by (cases rule: member_only_cases) (auto dest: readsD [OF room_reads(1)])
qed

lemma member_only_seqs:
  assumes "member_only raw uid d = (r, d')"
  shows "seqs d' = seqs d"
proof -
  have "seqs d2 = seqs d" if "ensure_member conv uid d = (e, d2)" for conv e d2
    using that unfolding ensure_member_def count_membership_def
    by (auto simp: fail_def return_def elim!: on_ok_cases dest!: select_tbl split: if_splits)
  with assms show ?thesis by (auto elim!: member_only_cases)
qed

lemma member_only_runs: "runs (member_only raw uid)"
proof (rule runsI)
  fix d r d' assume "member_only raw uid d = (r, d')"
  then show "service_step\<^sup>*\<^sup>* d d'"
    by (cases rule: member_only_cases) (auto dest: runsD [OF runs_queries(4)])
qed

lemma in_the_room_cases:
  assumes "in_the_room who rq go d = (r, d')"
  obtains (out) "member_only (rq_id_param rq) (fst who) d = (Inl r, d')"
  | (inside) conv d1 where "member_only (rq_id_param rq) (fst who) d = (Inr conv, d1)"
      "tbl d1 = tbl d" "go conv d1 = (r, d')"
proof (cases "member_only (rq_id_param rq) (fst who) d")
  case (Pair g d1)
  with assms that readsD [OF member_only_reads Pair] show thesis
    by (cases g) (auto simp: in_the_room_def)
qed

lemma in_the_room_reads [reads_rules]:
  assumes "\<And>conv. reads (go conv)"
  shows "reads (in_the_room who rq go)"
proof (rule readsI, erule in_the_room_cases)
  fix d r d' assume "member_only (rq_id_param rq) (fst who) d = (Inl r, d')"
  then show "tbl d' = tbl d" by (rule readsD [OF member_only_reads])
qed (metis assms readsD)

lemma in_the_room_runs [runs_rules]:
  assumes "\<And>conv. runs (go conv)"
  shows "runs (in_the_room who rq go)"
proof (rule runsI)
  fix d r d' assume run: "in_the_room who rq go d = (r, d')"
  show "service_step\<^sup>*\<^sup>* d d'"
  proof (cases "member_only (rq_id_param rq) (fst who) d")
    case (Pair g d1)
    from runsD [OF member_only_runs Pair] have "service_step\<^sup>*\<^sup>* d d1" .
    moreover have "service_step\<^sup>*\<^sup>* d1 d'"
      using run Pair runsD [OF assms] by (cases g) (auto simp: in_the_room_def)
    ultimately show ?thesis by (rule rtranclp_trans)
  qed
qed

text \<open>Somebody who is not in the room gets no further, and never learns whether it exists.\<close>

definition outsider :: "tables \<Rightarrow> nat \<times> string \<Rightarrow> http_request \<Rightarrow> bool" where
  "outsider t who rq \<longleftrightarrow>
     (\<forall>conv. parse_uint (rq_id_param rq) = Some conv \<longrightarrow> \<not> is_member t conv (fst who))"

lemma outsider_stopped:
  assumes "outsider (tbl d) who rq" "in_the_room who rq go d = (r, d')"
  shows "(r = conversation_not_found \<or> r = refuse 500 ''Could not look up conversation'') \<and> tbl d' = tbl d"
  using assms(2)
proof (cases rule: in_the_room_cases)
  case out
  with member_only_Inl [OF out] readsD [OF member_only_reads out] show ?thesis by simp
next
  case (inside conv d1)
  with member_only_Inr [OF inside(1)] assms(1) show ?thesis by (auto simp: outsider_def)
qed

lemma outsider_not_found:
  assumes "outsider (tbl d) who rq" "faults d = []"
  shows "in_the_room who rq go d = (conversation_not_found, d)"
proof -
  have "member_only (rq_id_param rq) (fst who) d = (Inl conversation_not_found, d)"
    using assms ensure_member_ok [OF assms(2)]
    by (auto simp: member_only_def outsider_def split: option.split)
  then show ?thesis by (simp add: in_the_room_def)
qed

text \<open>Every handler is a run of service steps, and the ones that only read change no row.\<close>

lemma room_handlers_run [runs_rules]:
  "runs (create_conversation_handler now who rq)" "runs (list_conversations_handler who)"
  "runs (mark_read_handler now who rq)" "runs (add_member_handler now who rq)"
  "runs (send_message_handler now who carrier rq)" "runs (list_messages_handler who rq)"
  unfolding create_conversation_handler_def list_conversations_handler_def mark_read_handler_def
    add_member_handler_def send_message_handler_def list_messages_handler_def list_gap_def Let_def
  by (intro runs_rules)+

lemma room_handlers_read [reads_rules]:
  "reads (list_conversations_handler who)" "reads (list_messages_handler who rq)"
  unfolding list_messages_handler_def list_gap_def list_conversations_handler_def
  by (intro reads_rules)+

section \<open>Pages\<close>

lemma limit_bounds: "limit_param raw = Inr n \<Longrightarrow> 1 \<le> n \<and> n \<le> max_page_size"
  by (auto simp: limit_param_def default_page_size_def max_page_size_def min_def split: if_splits option.splits)

lemma page_params_Inr:
  assumes "page_params params = Inr q"
  shows "1 \<le> pq_limit q \<and> pq_limit q \<le> max_page_size
    \<and> pq_before_id q < 2 ^ 64 \<and> pq_after_seq q < 2 ^ 64
    \<and> (pq_gap q \<longrightarrow> pq_before_id q = 0) \<and> (pq_gap q \<longleftrightarrow> params ''after_seq'' \<noteq> [])"
  using assms
  by (auto simp: page_params_def Let_def cursor_param_def dest!: limit_bounds parse_uint_bound
      split: if_splits sum.splits option.splits)

lemma page_params_Inl: "page_params params = Inl r \<Longrightarrow> rs_status r = 400"
  by (auto simp: page_params_def limit_param_def Let_def cursor_param_def
      split: if_splits sum.splits option.splits)

section \<open>Sending\<close>

text \<open>What the sender is answered is what the members are pushed.\<close>

lemma sent_is_pushed: "event_to_message_dto (event_of m name) = sent_dto m name"
  by (simp add: event_to_message_dto_def event_of_def sent_dto_def to_message_dto_def)

lemma send_handler_cases:
  assumes "send_message_handler now who carrier rq d = (r, d')"
  obtains (refused) "rs_status r \<in> {400, 404, 500}" "tbl d' = tbl d"
  | (lost) m out conv where "r = refuse 500 ''Could not send message''" "tbl d' = sent conv m out (tbl d)"
  | (again) m where "r = respond 200 (MessageBody (sent_dto m (snd who)))" "tbl d' = tbl d"
  | (created) conv c m out where "parse_uint (rq_id_param rq) = Some conv" "is_member (tbl d) conv (fst who)"
      "bind_send_message (rq_body rq) = Some c"
      "send_rows now conv (fst who) (snd who) (sq_content c)
         (if sq_client_msg_id c \<noteq> [] then Some (sq_client_msg_id c) else None) carrier
         (tbl d) (seqs d) m out"
      "tbl d' = sent conv m out (tbl d)" "r = respond 201 (MessageBody (sent_dto m (snd who)))"
  using assms unfolding send_message_handler_def
proof (cases rule: in_the_room_cases)
  case out
  with member_only_Inl [OF out] readsD [OF member_only_reads out] refused show thesis
    by (auto simp: conversation_not_found_def)
next
  case (inside conv d1)
  have in_room: "parse_uint (rq_id_param rq) = Some conv" "is_member (tbl d) conv (fst who)"
    using member_only_Inr [OF inside(1)] by simp_all
  have s1: "seqs d1 = seqs d"
    using inside(1) by (rule member_only_seqs)
  show thesis
  proof (cases "bind_send_message (rq_body rq)")
    case None
    with inside(2,3) refused show thesis by (auto simp: reply_def)
  next
    case (Some c)
    let ?key = "if sq_client_msg_id c \<noteq> [] then Some (sq_client_msg_id c) else None"
    from inside(3) Some have "attempt (create_message now conv (fst who) (snd who) (sq_content c) ?key carrier)
           (\<lambda>_. reply (refuse 500 ''Could not send message''))
           (\<lambda>(m, created). reply (respond (if created then 201 else 200) (MessageBody (sent_dto m (snd who))))) d1
        = (r, d')"
      by (simp add: Let_def)
    then obtain res d2 where create:
        "create_message now conv (fst who) (snd who) (sq_content c) ?key carrier d1 = (res, d2)"
      and r: "d' = d2" "r = (case res of Inl _ \<Rightarrow> refuse 500 ''Could not send message''
         | Inr (m, made) \<Rightarrow> respond (if made then 201 else 200) (MessageBody (sent_dto m (snd who))))"
      by (elim attempt_cases) (auto simp: reply_def split: prod.splits)
    from create show thesis
    proof (cases rule: create_message_cases)
      case unchanged
      show thesis
      proof (cases res)
        case (Inl e)
        with r unchanged(1) inside(2) refused show thesis by auto
      next
        case (Inr mb)
        with unchanged(3) obtain m where "mb = (m, False)" by (cases mb) (metis (full_types))
        with Inr r unchanged(1) inside(2) again show thesis by auto
      qed
    next
      case (everything m out)
      from everything(6) show thesis
      proof
        assume "res = Inr (m, True)"
        with everything(1,2) r inside(2) s1 Some in_room created show thesis by auto
      next
        assume "res = Inl (Wrap ''insert message'' (Raw Unavailable))"
        with everything(2) r inside(2) lost show thesis by auto
      qed
    qed
  qed
qed

text \<open>
  A history query is accepted only with one cursor at most, both cursors in 64 bits, and a page of 1
  to 100 messages; anything else is answered 400.
\<close>

lemma page_query_bounds:
  "case page_params params of
     Inl r \<Rightarrow> rs_status r = 400
   | Inr q \<Rightarrow> 1 \<le> pq_limit q \<and> pq_limit q \<le> 100 \<and> pq_before_id q < 2 ^ 64 \<and> pq_after_seq q < 2 ^ 64
       \<and> (params ''before_id'' = [] \<or> params ''after_seq'' = []) \<and> (pq_gap q = (params ''after_seq'' \<noteq> []))"
proof (cases "page_params params")
  case (Inr q)
  then have "params ''before_id'' = [] \<or> params ''after_seq'' = []"
    by (auto simp: page_params_def Let_def split: if_splits)
  with page_params_Inr [OF Inr] Inr show ?thesis by (simp add: max_page_size_def)
qed (simp add: page_params_Inl)

end
