(* ===== verification/Ws_Client.thy ===== *)
theory Ws_Client
  imports Hub
begin

text \<open>
  One open socket, \<open>internal/ws/client.go\<close>: the write pump, the read pump, and the timer that ends
  the socket with its token. The two pumps and the hub interleave as they like, so a socket is a
  step relation; whether a write reaches the peer is decided by the network, and no write succeeds
  on a connection that was closed.
\<close>

section \<open>Constants\<close>

definition default_write_wait :: duration where "default_write_wait = 10 * second"
definition default_pong_wait :: duration where "default_pong_wait = 60 * second"
definition default_ping_period :: duration where "default_ping_period = default_pong_wait * 9 div 10"
definition max_message_size :: nat where "max_message_size = 512"
definition close_token_expired :: nat where "close_token_expired = 4401"
definition close_going_away :: nat where "close_going_away = 1001"

section \<open>The read pump\<close>

text \<open>
  What arrives on the connection: a pong, a data frame with its size, or a failure. The result is
  the instant the loop ends; a list that ends is a peer that says nothing more.
\<close>

datatype arrival = Pong | Data nat | Gone

fun read_pump :: "duration \<Rightarrow> time \<Rightarrow> (time \<times> arrival) list \<Rightarrow> time" where
  "read_pump pong_wait deadline [] = deadline"
| "read_pump pong_wait deadline ((t, a) # rest) =
     (if deadline \<le> t then deadline
      else case a of
        Pong \<Rightarrow> read_pump pong_wait (t + pong_wait) rest
      | Data n \<Rightarrow> if max_message_size < n then t else read_pump pong_wait deadline rest
      | Gone \<Rightarrow> t)"

text \<open>The loop outlives its last pong by at most one wait.\<close>

lemma read_pump_bound:
  "0 \<le> pong_wait \<Longrightarrow> read_pump pong_wait deadline arrivals
     \<le> Max (insert deadline ((\<lambda>(t, a). t + pong_wait) ` {x \<in> set arrivals. snd x = Pong}))"
proof (induction arrivals arbitrary: deadline)
  case (Cons x rest)
  obtain t a where x: "x = (t, a)" by fastforce
  let ?pongs = "(\<lambda>(t, a). t + pong_wait) ` {x \<in> set rest. snd x = Pong}"
  let ?all = "(\<lambda>(t, a). t + pong_wait) ` {y \<in> set (x # rest). snd y = Pong}"
  have fin: "finite ?all" "finite ?pongs" by simp_all
  have sub: "?pongs \<subseteq> ?all" by auto
  have here: "deadline \<le> Max (insert deadline ?all)" using fin by simp
  show ?case
  proof (cases "deadline \<le> t")
    case True
    then show ?thesis using here x by simp
  next
    case False
    show ?thesis
    proof (cases a)
      case Pong
      with x have "t + pong_wait \<in> ?all" by force
      then have "insert (t + pong_wait) ?pongs \<subseteq> insert deadline ?all" using sub by auto
      then have "Max (insert (t + pong_wait) ?pongs) \<le> Max (insert deadline ?all)"
        using fin by (intro Max_mono) auto
      with Cons.IH [OF Cons.prems, of "t + pong_wait"]
      have "read_pump pong_wait (t + pong_wait) rest \<le> Max (insert deadline ?all)"
        by (rule order_trans)
      with False Pong x show ?thesis by simp
    next
      case (Data n)
      have "Max (insert deadline ?pongs) \<le> Max (insert deadline ?all)"
        using sub fin by (intro Max_mono) auto
      with Cons.IH [OF Cons.prems, of deadline]
      have "read_pump pong_wait deadline rest \<le> Max (insert deadline ?all)"
        by (rule order_trans)
      moreover have "t \<le> Max (insert deadline ?all)" using here False by linarith
      ultimately show ?thesis using False Data x by simp
    next
      case Gone
      moreover have "t \<le> Max (insert deadline ?all)" using here False by linarith
      ultimately show ?thesis using False x by simp
    qed
  qed
qed simp

section \<open>The connection\<close>

datatype frame = Text bytes | Ping | Close nat string

record conn =
  cn_written :: "frame list"
  cn_pumping :: bool
  cn_reading :: bool
  cn_closed :: bool

definition fresh_conn :: "frame list \<Rightarrow> conn" where
  "fresh_conn hello = \<lparr>cn_written = hello, cn_pumping = True, cn_reading = True, cn_closed = False\<rparr>"

text \<open>One write of the pump. A write that fails ends it; its deferred \<open>Close\<close> ends the connection.\<close>

definition pump_ends :: "conn \<Rightarrow> conn" where
  "pump_ends k = k\<lparr>cn_pumping := False, cn_closed := True\<rparr>"

definition write_frame :: "bool \<Rightarrow> frame \<Rightarrow> conn \<Rightarrow> conn" where
  "write_frame reaches f k =
     (if reaches \<and> \<not> cn_closed k then k\<lparr>cn_written := cn_written k @ [f]\<rparr> else pump_ends k)"

lemma codes_differ: "close_going_away \<noteq> close_token_expired"
  by (simp add: close_going_away_def close_token_expired_def)

text \<open>A last write, whose result is not looked at.\<close>

definition say_goodbye :: "bool \<Rightarrow> nat \<Rightarrow> string \<Rightarrow> conn \<Rightarrow> conn" where
  "say_goodbye reaches code why k = pump_ends (write_frame reaches (Close code why) k)"

text \<open>\<open>expiryTimer\<close>: whether the timer has fired.\<close>

definition expiry_fired :: "time \<Rightarrow> socket \<Rightarrow> bool" where
  "expiry_fired now s \<longleftrightarrow> sk_expires_at s \<noteq> zero_time \<and> sk_expires_at s \<le> now"

record line =
  ln_hub :: hub
  ln_conn :: conn
  ln_now :: time

section \<open>Steps\<close>

text \<open>
  The steps of socket \<open>c\<close>: the five branches of the two pumps, the hub's turns and callers, and
  time. A closed channel is read only after what it still holds.
\<close>

inductive line_step :: "nat \<Rightarrow> line \<Rightarrow> line \<Rightarrow> bool" where
  payload: "cn_pumping (ln_conn w) \<Longrightarrow> h_sock (ln_hub w) c = Some s \<Longrightarrow> sk_send s = p # ps \<Longrightarrow>
     line_step c w (w\<lparr>ln_hub := receive c (ln_hub w), ln_conn := write_frame reaches (Text p) (ln_conn w)\<rparr>)"
| closed: "cn_pumping (ln_conn w) \<Longrightarrow> h_sock (ln_hub w) c = Some s \<Longrightarrow> sk_send s = [] \<Longrightarrow> sk_closed s \<Longrightarrow>
     line_step c w (w\<lparr>ln_conn := say_goodbye reaches close_going_away ''server closing'' (ln_conn w)\<rparr>)"
| ping: "cn_pumping (ln_conn w) \<Longrightarrow> line_step c w (w\<lparr>ln_conn := write_frame reaches Ping (ln_conn w)\<rparr>)"
| expired: "cn_pumping (ln_conn w) \<Longrightarrow> h_sock (ln_hub w) c = Some s \<Longrightarrow> expiry_fired (ln_now w) s \<Longrightarrow>
     line_step c w (w\<lparr>ln_hub := (ln_hub w)\<lparr>h_expired := h_expired (ln_hub w) + 1\<rparr>,
       ln_conn := say_goodbye reaches close_token_expired ''token expired'' (ln_conn w)\<rparr>)"
| read_ends: "cn_reading (ln_conn w) \<Longrightarrow>
     line_step c w (w\<lparr>ln_conn := (ln_conn w)\<lparr>cn_reading := False, cn_closed := True\<rparr>\<rparr>)"
| hub: "run_once e (ln_hub w) = Some h \<Longrightarrow> line_step c w (w\<lparr>ln_hub := h\<rparr>)"
| pushed: "line_step c w (w\<lparr>ln_hub := broadcast coin us p (ln_hub w)\<rparr>)"
| joined: "h_sock (ln_hub w) c' = None \<Longrightarrow> add_conn coin c' u e (ln_hub w) = (ok, h) \<Longrightarrow>
     line_step c w (w\<lparr>ln_hub := h\<rparr>)"
| stopping: "line_step c w (w\<lparr>ln_hub := hub_close (ln_hub w)\<rparr>)"
| later: "ln_now w \<le> t \<Longrightarrow> line_step c w (w\<lparr>ln_now := t\<rparr>)"

inductive_cases line_stepE: "line_step c w w'"

section \<open>What a peer sees\<close>

fun is_close :: "frame \<Rightarrow> bool" where
  "is_close (Close code why) = True"
| "is_close f = False"

text \<open>
  A close frame is the last one; the pump that wrote it is gone, and the connection with it; and
  the one that says the token ran out comes when it has.
\<close>

definition line_ok :: "time \<Rightarrow> line \<Rightarrow> bool" where
  "line_ok e w \<longleftrightarrow>
     list_all (\<lambda>f. \<not> is_close f) (butlast (cn_written (ln_conn w)))
     \<and> (cn_pumping (ln_conn w) \<longrightarrow> list_all (\<lambda>f. \<not> is_close f) (cn_written (ln_conn w)))
     \<and> (\<not> cn_pumping (ln_conn w) \<or> \<not> cn_reading (ln_conn w) \<longrightarrow> cn_closed (ln_conn w))
     \<and> (\<forall>why. Close close_token_expired why \<in> set (cn_written (ln_conn w)) \<longrightarrow>
          e \<noteq> zero_time \<and> e \<le> ln_now w)"

definition expires_at :: "nat \<Rightarrow> line \<Rightarrow> time \<Rightarrow> bool" where
  "expires_at c w e \<longleftrightarrow> (\<exists>s. h_sock (ln_hub w) c = Some s \<and> sk_expires_at s = e)"

lemma list_all_butlast: "list_all P xs \<Longrightarrow> list_all P (butlast xs)"
  by (auto simp: list_all_iff dest: in_set_butlastD)

lemma line_ok_same_conn:
  "line_ok e w \<Longrightarrow> ln_conn w' = ln_conn w \<Longrightarrow> ln_now w \<le> ln_now w' \<Longrightarrow> line_ok e w'"
  by (auto simp: line_ok_def)

lemma line_ok_write:
  assumes "line_ok e w" "cn_pumping (ln_conn w)" "\<not> is_close f"
    and "ln_conn w' = write_frame reaches f (ln_conn w)" "ln_now w' = ln_now w"
  shows "line_ok e w'"
  using assms by (cases f) (auto simp: line_ok_def write_frame_def pump_ends_def)

lemma line_ok_goodbye:
  assumes "line_ok e w" "cn_pumping (ln_conn w)"
    and "ln_conn w' = say_goodbye reaches code why (ln_conn w)" "ln_now w' = ln_now w"
    and "code = close_token_expired \<Longrightarrow> e \<noteq> zero_time \<and> e \<le> ln_now w"
  shows "line_ok e w'"
  using assms by (auto simp: line_ok_def write_frame_def pump_ends_def say_goodbye_def)

lemma line_step_ok:
  assumes "line_step c w w'" "line_ok e w" "expires_at c w e"
  shows "line_ok e w'"
  using assms(1)
proof cases
  case (payload s p ps reaches)
  then show ?thesis by (intro line_ok_write [OF assms(2)]) simp_all
next
  case (closed s reaches)
  then show ?thesis
    by (intro line_ok_goodbye [OF assms(2)]) (simp_all, metis codes_differ)
next
  case (ping reaches)
  then show ?thesis by (intro line_ok_write [OF assms(2)]) simp_all
next
  case (expired s reaches)
  have "e \<noteq> zero_time \<and> e \<le> ln_now w"
    using assms(3) expired(3,4) by (auto simp: expires_at_def expiry_fired_def)
  with expired show ?thesis by (intro line_ok_goodbye [OF assms(2)]) simp_all
next
  case read_ends
  with assms(2) show ?thesis by (auto simp: line_ok_def)
qed (use assms(2) in \<open>auto intro: line_ok_same_conn\<close>)

section \<open>The hub never touches the expiry\<close>

text \<open>What may happen to a socket behind the pump's back: its queue grows at the end, it is closed.\<close>

definition evolves :: "socket \<Rightarrow> socket \<Rightarrow> bool" where
  "evolves s s' \<longleftrightarrow> sk_user s' = sk_user s \<and> sk_expires_at s' = sk_expires_at s
     \<and> prefix (sk_send s) (sk_send s') \<and> (sk_closed s \<longrightarrow> s' = s)"

definition hub_evolves :: "hub \<Rightarrow> hub \<Rightarrow> bool" where
  "hub_evolves h h' \<longleftrightarrow> (\<forall>c s. h_sock h c = Some s \<longrightarrow> (\<exists>s'. h_sock h' c = Some s' \<and> evolves s s'))"

lemma evolves_trans: "evolves s t \<Longrightarrow> evolves t u \<Longrightarrow> evolves s u"
  by (auto simp: evolves_def)

lemma hub_evolves_same: "h_sock h' = h_sock h \<Longrightarrow> hub_evolves h h'"
  by (simp add: hub_evolves_def evolves_def)

lemma hub_evolves_trans: "hub_evolves g h \<Longrightarrow> hub_evolves h k \<Longrightarrow> hub_evolves g k"
  unfolding hub_evolves_def by (meson evolves_trans)

lemma hub_evolves_upd:
  "h_sock h c = Some s \<Longrightarrow> evolves s s' \<Longrightarrow> h_sock h' = (h_sock h)(c := Some s') \<Longrightarrow> hub_evolves h h'"
  by (auto simp: hub_evolves_def evolves_def)

lemma close_send_evolves:
  assumes "close_send c h = Some h'" shows "hub_evolves h h'"
proof -
  from assms obtain s where s: "h_sock h c = Some s" "\<not> sk_closed s"
    and h': "h_sock h' = (h_sock h)(c := Some (s\<lparr>sk_closed := True\<rparr>))"
    by (auto simp: close_send_def split: option.splits if_splits)
  show ?thesis by (rule hub_evolves_upd [OF s(1) _ h']) (use s(2) in \<open>simp add: evolves_def\<close>)
qed

lemma hub_remove_evolves:
  assumes "hub_remove c u h = Some h'" shows "hub_evolves h h'"
proof (cases "h' = h")
  case False
  with assms obtain cs where "close_send c (h\<lparr>h_clients := cs\<rparr>) = Some h'"
    by (auto simp: hub_remove_def Let_def split: option.splits if_splits)
  from close_send_evolves [OF this] show ?thesis by (simp add: hub_evolves_def)
qed (simp add: hub_evolves_same)

lemma send_or_drop_evolves:
  assumes "send_or_drop payload u c h = Some h'" shows "hub_evolves h h'"
proof -
  from assms obtain s where s: "h_sock h c = Some s" "\<not> sk_closed s"
    by (auto simp: send_or_drop_def split: option.splits if_splits)
  show ?thesis
  proof (cases "length (sk_send s) < send_buffer")
    case True
    show ?thesis
      by (rule hub_evolves_upd [OF s(1), of "s\<lparr>sk_send := sk_send s @ [payload]\<rparr>"])
        (use True assms s in \<open>auto simp: send_or_drop_def evolves_def\<close>)
  next
    case False
    with assms s have "hub_remove c u (h\<lparr>h_dropped := h_dropped h + 1\<rparr>) = Some h'"
      by (simp add: send_or_drop_def)
    from hub_remove_evolves [OF this] show ?thesis by (simp add: hub_evolves_def)
  qed
qed

lemma deliver_sockets_evolves: "deliver_sockets payload u cs h = Some h' \<Longrightarrow> hub_evolves h h'"
  by (induction payload u cs h rule: deliver_sockets.induct)
    (auto split: option.splits intro: hub_evolves_same hub_evolves_trans dest: send_or_drop_evolves)

lemma hub_deliver_evolves: "hub_deliver payload us h = Some h' \<Longrightarrow> hub_evolves h h'"
  by (induction payload us h rule: hub_deliver.induct)
    (auto split: option.splits intro: hub_evolves_same hub_evolves_trans dest: deliver_sockets_evolves)

lemma close_sockets_evolves: "close_sockets cs h = Some h' \<Longrightarrow> hub_evolves h h'"
  by (induction cs h rule: close_sockets.induct)
    (auto split: option.splits intro: hub_evolves_same hub_evolves_trans dest: close_send_evolves)

lemma close_users_evolves: "close_users xs h = Some h' \<Longrightarrow> hub_evolves h h'"
proof (induction xs h rule: close_users.induct)
  case (2 u cs rest h)
  then obtain h1 where h1: "close_sockets cs h = Some h1"
    "close_users rest (h1\<lparr>h_clients := AList.delete u (h_clients h1)\<rparr>) = Some h'"
    by (auto split: option.splits)
  with 2(1) [OF h1(1)] have "hub_evolves (h1\<lparr>h_clients := AList.delete u (h_clients h1)\<rparr>) h'" by simp
  then have "hub_evolves h1 h'" by (simp add: hub_evolves_def)
  with close_sockets_evolves [OF h1(1)] show ?case by (rule hub_evolves_trans)
qed (simp add: hub_evolves_same)

lemma run_once_evolves:
  assumes "run_once e h = Some h'" shows "hub_evolves h h'"
proof (cases e)
  case (Unregister c)
  with assms show ?thesis
    by (auto simp: run_once_def split: if_splits option.splits
        intro: hub_evolves_same dest: hub_remove_evolves)
next
  case Take
  show ?thesis
  proof (cases "h_stopped h \<or> h_broadcast h = []")
    case True
    with assms Take show ?thesis by (cases "h_stopped h") (auto simp: run_once_def intro: hub_evolves_same)
  next
    case False
    then obtain q qs where q: "h_broadcast h = q # qs" by (auto simp: neq_Nil_conv)
    with assms Take False have "hub_deliver (fo_payload q) (fo_user_ids q) (h\<lparr>h_broadcast := qs\<rparr>) = Some h'"
      by (simp add: run_once_def)
    from hub_deliver_evolves [OF this] show ?thesis by (simp add: hub_evolves_def)
  qed
next
  case Finish
  show ?thesis
  proof (cases "h_stopped h \<or> \<not> h_done h")
    case True
    with assms Finish show ?thesis by (cases "h_stopped h") (auto simp: run_once_def intro: hub_evolves_same)
  next
    case False
    with assms Finish obtain h1 where h1: "close_all h = Some h1" "h' = h1\<lparr>h_stopped := True\<rparr>"
      by (auto simp: run_once_def)
    from close_users_evolves [OF h1(1) [unfolded close_all_def]] h1(2) show ?thesis
      by (simp add: hub_evolves_def)
  qed
qed

text \<open>Nothing a socket lives through moves its expiry.\<close>

lemma expires_at_evolves: "expires_at c w e \<Longrightarrow> hub_evolves (ln_hub w) (ln_hub w') \<Longrightarrow> expires_at c w' e"
  unfolding expires_at_def hub_evolves_def evolves_def by metis

lemma line_step_expires:
  assumes "line_step c w w'" "expires_at c w e"
  shows "expires_at c w' e"
  using assms(1)
proof cases
  case (payload s p ps reaches)
  with assms(2) show ?thesis by (auto simp: expires_at_def receive_def)
next
  case (expired s reaches)
  with assms(2) show ?thesis by (simp add: expires_at_def)
next
  case (hub ev h)
  with expires_at_evolves [OF assms(2) , of w'] run_once_evolves show ?thesis by simp
next
  case (pushed coin us p)
  with assms(2) show ?thesis by (simp add: expires_at_def broadcast_def)
next
  case (joined c' coin u e' ok h)
  with assms(2) show ?thesis
    by (auto simp: expires_at_def add_conn_def hub_add_def Let_def split: if_splits)
next
  case stopping
  with assms(2) show ?thesis by (simp add: expires_at_def hub_close_def)
qed (use assms(2) in \<open>simp_all add: expires_at_def\<close>)

lemma line_run_ok:
  assumes "(line_step c)\<^sup>*\<^sup>* w w'" "line_ok e w" "expires_at c w e"
  shows "line_ok e w' \<and> expires_at c w' e"
  using assms by (induction rule: rtranclp_induct) (auto intro: line_step_ok line_step_expires)

text \<open>After a close frame the peer hears nothing.\<close>

lemma line_step_silent:
  assumes "line_step c w w'" "line_ok e w" "list_ex is_close (cn_written (ln_conn w))"
  shows "cn_written (ln_conn w') = cn_written (ln_conn w)"
proof -
  have "\<not> cn_pumping (ln_conn w)" using assms(2,3) by (auto simp: line_ok_def list_all_iff list_ex_iff)
  with assms(1) show ?thesis by cases auto
qed

lemma line_run_silent:
  assumes "(line_step c)\<^sup>*\<^sup>* w w'" "line_ok e w" "expires_at c w e"
    and "list_ex is_close (cn_written (ln_conn w))"
  shows "cn_written (ln_conn w') = cn_written (ln_conn w)"
  using assms
proof (induction rule: rtranclp_induct)
  case (step w1 w2)
  from line_run_ok [OF step.hyps(1) step.prems(1,2)] step.IH [OF step.prems] step.prems(3)
    line_step_silent [OF step.hyps(2), of e] show ?case by simp
qed simp

text \<open>When the token has run out the pump can always leave, whatever is queued.\<close>

lemma expiry_enabled:
  assumes "expires_at c w e" "e \<noteq> zero_time" "e \<le> ln_now w" "cn_pumping (ln_conn w)"
    "\<not> cn_closed (ln_conn w)"
  obtains w' where "line_step c w w'" "\<not> cn_pumping (ln_conn w')"
    "cn_written (ln_conn w') = cn_written (ln_conn w) @ [Close close_token_expired ''token expired'']"
proof -
  from assms(1) obtain s where s: "h_sock (ln_hub w) c = Some s" "sk_expires_at s = e"
    by (auto simp: expires_at_def)
  have fired: "expiry_fired (ln_now w) s" using assms(2,3) s by (simp add: expiry_fired_def)
  show thesis
    by (rule that, rule line_step.expired [OF assms(4) s(1) fired, where reaches = True])
      (use assms(5) in \<open>simp_all add: say_goodbye_def write_frame_def pump_ends_def\<close>)
qed

end
