(* ===== verification/Json_Text.thy ===== *)
theory Json_Text
  imports Event_Json
begin

text \<open>
  \<open>json.Marshal\<close>: the text of a JSON tree. A string is well-formed UTF-8; quotes, backslashes,
  control characters, the three characters HTML cares about and the two line separators of
  Unicode are escaped.
\<close>

definition hex4 :: "nat \<Rightarrow> string" where
  "hex4 n = CHR 0x5C # ''u00'' @ [hex_char (n div 16), hex_char (n mod 16)]"

definition escape_char :: "char \<Rightarrow> string" where
  "escape_char c = (let k = of_char c :: nat in
     if c = CHR 0x22 \<or> c = CHR 0x5C then [CHR 0x5C, c]
     else if k = 8 then CHR 0x5C # ''b'' else if k = 12 then CHR 0x5C # ''f''
     else if k = 10 then CHR 0x5C # ''n'' else if k = 13 then CHR 0x5C # ''r''
     else if k = 9 then CHR 0x5C # ''t''
     else if k < 32 \<or> c = CHR ''<'' \<or> c = CHR ''>'' \<or> c = CHR ''&'' then hex4 k
     else [c])"

text \<open>\<open>U+2028\<close> and \<open>U+2029\<close> are the bytes \<open>E2 80 A8\<close> and \<open>E2 80 A9\<close>.\<close>

fun escape :: "string \<Rightarrow> string" where
  "escape [] = []"
| "escape (a # b # c # cs) =
     (if a = CHR 0xE2 \<and> b = CHR 0x80 \<and> (c = CHR 0xA8 \<or> c = CHR 0xA9)
      then CHR 0x5C # ''u202'' @ [if c = CHR 0xA8 then CHR ''8'' else CHR ''9''] @ escape cs
      else escape_char a @ escape (b # c # cs))"
| "escape (a # cs) = escape_char a @ escape cs"

definition quote :: "string \<Rightarrow> string" where
  "quote s = CHR 0x22 # escape s @ [CHR 0x22]"

fun commas :: "string list \<Rightarrow> string" where
  "commas [] = []"
| "commas [x] = x"
| "commas (x # xs) = x @ '','' @ commas xs"

fun json_text :: "json \<Rightarrow> string" where
  "json_text JNull = ''null''"
| "json_text (JBool b) = (if b then ''true'' else ''false'')"
| "json_text (JNum lit) = lit"
| "json_text (JStr s) = quote s"
| "json_text (JArr js) = ''['' @ commas (map json_text js) @ '']''"
| "json_text (JObj kvs) = CHR 0x7B # commas (map (\<lambda>kv. quote (fst kv) @ '':'' @ json_text (snd kv)) kvs) @ [CHR 0x7D]"

lemma json_text_object: "json_text (JObj kvs) \<noteq> []"
  by simp

end
