(* ===== verification/Ws_Api.thy ===== *)
theory Ws_Api
  imports Auth Ws_Client Json_Text
begin

text \<open>
  The WebSocket door and the last step of a delivery, \<open>internal/server/ws.go\<close>. The handshake
  itself is gorilla's: \<open>handshake\<close> says whether it accepts the request apart from the origin,
  which the server checks itself.
\<close>

section \<open>The door\<close>

definition allowed_ws_origin :: string where
  "allowed_ws_origin = ''http://localhost:5173''"

definition check_origin :: "http_request \<Rightarrow> bool" where
  "check_origin rq \<longleftrightarrow>
     (let origin = rq_header rq ''Origin'' in origin = [] \<or> origin = allowed_ws_origin)"

definition ws_access_token :: "http_request \<Rightarrow> string option" where
  "ws_access_token rq =
     (case bearer_token (rq_header rq ''Authorization'') of
        Some tok \<Rightarrow> Some tok
      | None \<Rightarrow> if rq_query rq ''token'' \<noteq> [] then Some (rq_query rq ''token'') else None)"

definition ws_envelope :: "string \<Rightarrow> json \<Rightarrow> json" where
  "ws_envelope ty payload = JObj [(''type'', JStr ty), (''data'', payload)]"

definition hello_frame :: "nat \<Rightarrow> bytes" where
  "hello_frame uid = json_text (ws_envelope ''connected'' (JObj [(''user_id'', jnum uid)]))"

text \<open>
  How the handler ends: with a response, with gorilla's own error, in front of a closing hub, in a
  panic (\<open>ExpiresAt\<close> is a pointer and is read without a check), or with an open socket.
\<close>

datatype ws_outcome = Answered response | NotUpgraded | HubClosing | NilExpiry | Connected conn

definition ws_handler ::
  "library \<Rightarrow> auth_env \<Rightarrow> time \<Rightarrow> bool \<Rightarrow> bool \<Rightarrow> nat \<Rightarrow> http_request \<Rightarrow> hub \<Rightarrow> ws_outcome \<times> hub" where
  "ws_handler lib env now handshake coin c rq h =
     (case ws_access_token rq of
        None \<Rightarrow> (Answered (refuse 401 ''Missing token''), h)
      | Some tok \<Rightarrow>
          (case parse_access_token lib env now tok of
             None \<Rightarrow> (Answered (refuse 401 ''Invalid token''), h)
           | Some cl \<Rightarrow>
               if \<not> handshake \<or> \<not> check_origin rq then (NotUpgraded, h)
               else (case cl_expires_at cl of
                       None \<Rightarrow> (NilExpiry, h)
                     | Some e \<Rightarrow>
                         (case add_conn coin c (cl_user_id cl) e h of
                            (False, h') \<Rightarrow> (HubClosing, h')
                          | (True, h') \<Rightarrow>
                              (Connected (fresh_conn [Text (hello_frame (cl_user_id cl))]), h')))))"

section \<open>The last step of a delivery\<close>

definition ws_message_event :: string where "ws_message_event = ''message.new''"

definition message_frame :: "message_created \<Rightarrow> bytes option" where
  "message_frame ev =
     map_option (\<lambda>j. json_text (ws_envelope ws_message_event j)) (message_json (event_to_message_dto ev))"

definition deliver_message :: "bool \<Rightarrow> message_created \<Rightarrow> nat list \<Rightarrow> hub \<Rightarrow> hub" where
  "deliver_message coin ev us h =
     (case message_frame ev of None \<Rightarrow> h | Some payload \<Rightarrow> broadcast coin us payload h)"

section \<open>Who gets a socket\<close>

lemma ws_handler_connected:
  assumes "ws_handler lib env now handshake coin c rq h = (Connected k, h')"
  shows "\<exists>tok cl e. ws_access_token rq = Some tok \<and> parse_access_token lib env now tok = Some cl
    \<and> check_origin rq \<and> cl_expires_at cl = Some e
    \<and> k = fresh_conn [Text (hello_frame (cl_user_id cl))]
    \<and> h' = hub_add c \<lparr>sk_user = cl_user_id cl, sk_expires_at = e, sk_send = [], sk_closed = False\<rparr> h"
  using assms
  by (auto simp: ws_handler_def add_conn_def split: option.splits if_splits prod.splits bool.splits)

lemma hub_add_socket: "h_sock (hub_add c s h) c = Some s"
  by (simp add: hub_add_def Let_def)

text \<open>A new socket belongs to the token's user, ends with the token, and has a token that lives.\<close>

lemma connected_line:
  assumes law: "jwt_law lib"
    and run: "ws_handler lib env now handshake coin c rq h = (Connected k, h')"
  obtains cl e where "cl_expires_at cl = Some e" "now < e" "k = fresh_conn [Text (hello_frame (cl_user_id cl))]"
    "expires_at c \<lparr>ln_hub = h', ln_conn = k, ln_now = now\<rparr> e"
    "line_ok e \<lparr>ln_hub = h', ln_conn = k, ln_now = now\<rparr>"
    "\<exists>tok. ws_access_token rq = Some tok \<and> parse_access_token lib env now tok = Some cl"
proof -
  from ws_handler_connected [OF run] obtain tok cl e where
    *: "ws_access_token rq = Some tok" "parse_access_token lib env now tok = Some cl"
      "cl_expires_at cl = Some e" "k = fresh_conn [Text (hello_frame (cl_user_id cl))]"
      "h' = hub_add c \<lparr>sk_user = cl_user_id cl, sk_expires_at = e, sk_send = [], sk_closed = False\<rparr> h"
    by blast
  from parsed_alive [OF law *(2)] *(3) have e: "now < e" by auto
  show thesis
    by (rule that [OF *(3) e *(4)])
      (use * in \<open>auto simp: expires_at_def hub_add_socket line_ok_def fresh_conn_def\<close>)
qed

lemma never_nil:
  assumes "jwt_law lib"
  shows "fst (ws_handler lib env now handshake coin c rq h) \<noteq> NilExpiry"
proof -
  have none: "parse_access_token lib env now tok \<noteq> Some cl" if "cl_expires_at cl = None" for tok cl
    using parsed_alive [OF assms, of env now tok cl] that by auto
  show ?thesis
    by (auto simp: ws_handler_def none split: option.split prod.split bool.split)
qed

lemma check_origin_browser: "rq_header rq ''Origin'' \<noteq> [] \<Longrightarrow> check_origin rq = (rq_header rq ''Origin'' = allowed_ws_origin)"
  by (simp add: check_origin_def)

end
