(* ===== verification/Rate_Limit.thy ===== *)
theory Rate_Limit
  imports Complex_Main Go_Strings "HOL-Library.AList"
begin

text \<open>
  \<open>internal/server/ratelimit.go\<close>: token buckets per caller. A \<open>float64\<close> is a rational number, so
  rounding is left out; instants are nanoseconds. The last sections say what the limiter promises:
  how many requests any stretch of time can let through, that the sweep cannot be noticed, and that
  a refused caller who waits as long as it is told gets through.
\<close>

section \<open>Configuration\<close>

record rate_limits =
  rl_auth_rps :: rat
  rl_auth_burst :: rat
  rl_api_rps :: rat
  rl_api_burst :: rat

definition default_auth_rps :: rat where "default_auth_rps = 5"
definition default_auth_burst :: rat where "default_auth_burst = 20"
definition default_api_rps :: rat where "default_api_rps = 20"
definition default_api_burst :: rat where "default_api_burst = 40"

definition or_defaults :: "rate_limits \<Rightarrow> rate_limits" where
  "or_defaults l =
     (let l1 = (if rl_auth_rps l \<le> 0 \<or> rl_auth_burst l \<le> 0
                then l\<lparr>rl_auth_rps := default_auth_rps, rl_auth_burst := default_auth_burst\<rparr> else l)
      in if rl_api_rps l1 \<le> 0 \<or> rl_api_burst l1 \<le> 0
         then l1\<lparr>rl_api_rps := default_api_rps, rl_api_burst := default_api_burst\<rparr> else l1)"

text \<open>\<open>parsed\<close> is what \<open>strconv.ParseFloat\<close> makes of the variable.\<close>

definition env_float :: "rat option \<Rightarrow> rat \<Rightarrow> rat" where
  "env_float parsed fallback =
     (case parsed of None \<Rightarrow> fallback | Some v \<Rightarrow> if v \<le> 0 then fallback else v)"

definition rate_limits_from_env :: "(string \<Rightarrow> rat option) \<Rightarrow> rate_limits" where
  "rate_limits_from_env env =
     \<lparr>rl_auth_rps = env_float (env ''RATE_LIMIT_AUTH_RPS'') default_auth_rps,
      rl_auth_burst = env_float (env ''RATE_LIMIT_AUTH_BURST'') default_auth_burst,
      rl_api_rps = env_float (env ''RATE_LIMIT_API_RPS'') default_api_rps,
      rl_api_burst = env_float (env ''RATE_LIMIT_API_BURST'') default_api_burst\<rparr>"

section \<open>The limiter\<close>

record bucket =
  bk_tokens :: rat
  bk_last :: time

record rate_limiter =
  lim_rate :: rat
  lim_burst :: rat
  lim_buckets :: "(string \<times> bucket) list"
  lim_last_sweep :: time

definition sweep_every :: duration where "sweep_every = minute"

definition new_rate_limiter :: "rat \<Rightarrow> rat \<Rightarrow> rate_limiter" where
  "new_rate_limiter rate burst =
     \<lparr>lim_rate = rate, lim_burst = burst, lim_buckets = [], lim_last_sweep = zero_time\<rparr>"

text \<open>\<open>now.Sub(b.last).Seconds() * l.rate\<close>.\<close>

definition refill :: "rat \<Rightarrow> duration \<Rightarrow> rat" where
  "refill rate d = of_int d / of_int second * rate"

definition full_again :: "time \<Rightarrow> rate_limiter \<Rightarrow> bucket \<Rightarrow> bool" where
  "full_again now l b \<longleftrightarrow> bk_tokens b + refill (lim_rate l) (now - bk_last b) \<ge> lim_burst l"

definition limiter_sweep :: "time \<Rightarrow> rate_limiter \<Rightarrow> rate_limiter" where
  "limiter_sweep now l =
     (if now - lim_last_sweep l < sweep_every then l
      else l\<lparr>lim_last_sweep := now,
             lim_buckets := filter (\<lambda>(key, b). \<not> full_again now l b) (lim_buckets l)\<rparr>)"

definition limiter_allow :: "time \<Rightarrow> string \<Rightarrow> rate_limiter \<Rightarrow> (bool \<times> duration) \<times> rate_limiter" where
  "limiter_allow now key l0 =
     (let l = limiter_sweep now l0;
          b = (case map_of (lim_buckets l) key of
                 None \<Rightarrow> \<lparr>bk_tokens = lim_burst l, bk_last = now\<rparr> | Some b \<Rightarrow> b);
          tokens = min (lim_burst l) (bk_tokens b + refill (lim_rate l) (now - bk_last b));
          put = (\<lambda>t. l\<lparr>lim_buckets := AList.update key \<lparr>bk_tokens = t, bk_last = now\<rparr> (lim_buckets l)\<rparr>)
      in if tokens < 1 then ((False, \<lfloor>(1 - tokens) / lim_rate l * of_int second\<rfloor>), put tokens)
         else ((True, 0), put (tokens - 1)))"

section \<open>The middleware\<close>

text \<open>\<open>Retry-After\<close>: whole seconds, rounded up, at least one.\<close>

definition retry_after :: "duration \<Rightarrow> int" where
  "retry_after wait =
     (let seconds = \<lceil>of_int wait / (of_int second :: rat)\<rceil> in if seconds < 1 then 1 else seconds)"

text \<open>\<open>Inl\<close> is the refusal with its \<open>Retry-After\<close>, \<open>Inr\<close> lets the request through.\<close>

definition rate_limit :: "time \<Rightarrow> string \<Rightarrow> rate_limiter \<Rightarrow> (int + unit) \<times> rate_limiter" where
  "rate_limit now key l =
     (case limiter_allow now key l of
        ((True, _), l') \<Rightarrow> (Inr (), l')
      | ((False, wait), l') \<Rightarrow> (Inl (retry_after wait), l'))"

definition user_key :: "nat \<Rightarrow> string \<Rightarrow> string" where
  "user_key uid ip = (if uid \<noteq> 0 then ''user:'' @ format_uint uid else ''ip:'' @ ip)"

definition ip_key :: "string \<Rightarrow> string" where
  "ip_key ip = ''ip:'' @ ip"

section \<open>What a caller has\<close>

text \<open>
  The specification of the whole data structure: how many tokens a caller could spend at an
  instant. A caller without a bucket has all of them.
\<close>

definition allowance :: "time \<Rightarrow> rate_limiter \<Rightarrow> string \<Rightarrow> rat" where
  "allowance now l key =
     (case map_of (lim_buckets l) key of
        None \<Rightarrow> lim_burst l
      | Some b \<Rightarrow> min (lim_burst l) (bk_tokens b + refill (lim_rate l) (now - bk_last b)))"

lemma refill_add: "refill r (a + b) = refill r a + refill r b"
  by (simp add: refill_def add_divide_distrib distrib_right)

lemma refill_zero [simp]: "refill r 0 = 0"
  by (simp add: refill_def)

lemma refill_nonneg: "0 \<le> r \<Longrightarrow> 0 \<le> d \<Longrightarrow> 0 \<le> refill r d"
  by (simp add: refill_def)

lemma refill_split: "refill r (t - s) = refill r (now - s) + refill r (t - now)"
  using refill_add [of r "now - s" "t - now"] by simp

text \<open>The sweep cannot be noticed: it takes away only what a caller has anyway.\<close>

lemma sweep_consts [simp]: "lim_rate (limiter_sweep now l) = lim_rate l"
  "lim_burst (limiter_sweep now l) = lim_burst l"
  by (simp_all add: limiter_sweep_def)

lemma map_of_filtered:
  "distinct (map fst xs) \<Longrightarrow>
   map_of (filter (\<lambda>(k, v). P v) xs) key =
     (case map_of xs key of None \<Rightarrow> None | Some v \<Rightarrow> if P v then Some v else None)"
proof (induction xs)
  case (Cons x xs)
  obtain k v where x: "x = (k, v)" by fastforce
  show ?case
  proof (cases "k = key")
    case True
    with Cons.prems x have "map_of xs key = None" by (auto simp: map_of_eq_None_iff)
    with Cons x True show ?thesis by simp
  next
    case False
    with Cons x show ?thesis by simp
  qed
qed simp

lemma sweep_unnoticed:
  assumes "distinct (map fst (lim_buckets l))" "0 \<le> lim_rate l" "now \<le> t"
  shows "allowance t (limiter_sweep now l) key = allowance t l key"
proof (cases "now - lim_last_sweep l < sweep_every")
  case True
  then show ?thesis by (simp add: limiter_sweep_def)
next
  case False
  have "min (lim_burst l) (bk_tokens b + refill (lim_rate l) (t - bk_last b)) = lim_burst l"
    if "full_again now l b" for b
    using that refill_nonneg [OF assms(2), of "t - now"] assms(3)
      refill_split [of "lim_rate l" t "bk_last b" now]
    by (simp add: full_again_def)
  then show ?thesis
    using False map_of_filtered [OF assms(1), of "\<lambda>b. \<not> full_again now l b" key]
    by (simp add: allowance_def limiter_sweep_def split: option.split)
qed

lemma sweep_distinct:
  "distinct (map fst (lim_buckets l)) \<Longrightarrow> distinct (map fst (lim_buckets (limiter_sweep now l)))"
  by (simp add: limiter_sweep_def distinct_map_filter)

lemma allow_by_allowance:
  "limiter_allow now key l0 =
     (let l = limiter_sweep now l0; a = allowance now l key;
          put = (\<lambda>t. l\<lparr>lim_buckets := AList.update key \<lparr>bk_tokens = t, bk_last = now\<rparr> (lim_buckets l)\<rparr>)
      in if a < 1 then ((False, \<lfloor>(1 - a) / lim_rate l * of_int second\<rfloor>), put a) else ((True, 0), put (a - 1)))"
  by (simp add: limiter_allow_def allowance_def Let_def split: option.split)

lemma allowance_put:
  "allowance t (l\<lparr>lim_buckets := AList.update key b (lim_buckets l)\<rparr>) k =
     (if k = key then min (lim_burst l) (bk_tokens b + refill (lim_rate l) (t - bk_last b))
      else allowance t l k)"
  by (simp add: allowance_def update_conv' split: option.split)

text \<open>One request, by the allowance: the caller's own falls by one or stays, the others' stay.\<close>

lemma allow_spec:
  assumes run: "limiter_allow now key l = ((ok, wait), l')"
    and d: "distinct (map fst (lim_buckets l))" and rate: "0 < lim_rate l"
  shows "lim_rate l' = lim_rate l \<and> lim_burst l' = lim_burst l
    \<and> distinct (map fst (lim_buckets l'))
    \<and> ok = (1 \<le> allowance now l key)
    \<and> wait = (if ok then 0 else \<lfloor>(1 - allowance now l key) / lim_rate l * of_int second\<rfloor>)
    \<and> (\<forall>t. allowance t l' key = min (lim_burst l)
          (allowance now l key - (if ok then 1 else 0) + refill (lim_rate l) (t - now)))
    \<and> (\<forall>t k. now \<le> t \<and> k \<noteq> key \<longrightarrow> allowance t l' k = allowance t l k)"
proof -
  define l1 where "l1 = limiter_sweep now l"
  have l1: "lim_rate l1 = lim_rate l" "lim_burst l1 = lim_burst l" "distinct (map fst (lim_buckets l1))"
    using sweep_distinct [OF d] by (simp_all add: l1_def)
  have same: "allowance t l1 k = allowance t l k" if "now \<le> t" for t k
    using sweep_unnoticed [OF d _ that] rate by (simp add: l1_def)
  have now: "allowance now l1 key = allowance now l key" by (rule same) simp
  let ?put = "\<lambda>t. l1\<lparr>lim_buckets := AList.update key \<lparr>bk_tokens = t, bk_last = now\<rparr> (lim_buckets l1)\<rparr>"
  have l': "ok = (1 \<le> allowance now l key)"
    "l' = ?put (allowance now l key - (if ok then 1 else 0))"
    "wait = (if ok then 0 else \<lfloor>(1 - allowance now l key) / lim_rate l * of_int second\<rfloor>)"
    using run unfolding allow_by_allowance Let_def l1_def [symmetric] now l1(1)
    by (auto split: if_splits)
  have "allowance t l' k = allowance t l k" if "now \<le> t" "k \<noteq> key" for t k
    using same [OF that(1), of k] that(2) by (simp add: l'(2) allowance_put)
  moreover have "allowance t l' key = min (lim_burst l)
          (allowance now l key - (if ok then 1 else 0) + refill (lim_rate l) (t - now))" for t
    by (simp add: l'(2) allowance_put l1)
  ultimately show ?thesis
    using l'(1,3) l1 by (simp add: l'(2) distinct_update)
qed

section \<open>How much gets through\<close>

lemma allowance_grows:
  assumes "0 < lim_rate l" "start \<le> now"
  shows "allowance now l key \<le> allowance start l key + refill (lim_rate l) (now - start)"
proof (cases "map_of (lim_buckets l) key")
  case None
  with assms show ?thesis by (simp add: allowance_def refill_nonneg)
next
  case (Some b)
  have "refill (lim_rate l) (now - bk_last b)
      = refill (lim_rate l) (start - bk_last b) + refill (lim_rate l) (now - start)"
    by (rule refill_split)
  moreover have "0 \<le> refill (lim_rate l) (now - start)" using assms by (simp add: refill_nonneg)
  ultimately show ?thesis using Some by (simp add: allowance_def min_def)
qed

text \<open>One caller's requests at the instants \<open>ts\<close>, whatever everybody else does in between.\<close>

fun run_limiter :: "(time \<times> string) list \<Rightarrow> rate_limiter \<Rightarrow> bool list \<times> rate_limiter" where
  "run_limiter [] l = ([], l)"
| "run_limiter ((now, key) # reqs) l =
     (case limiter_allow now key l of
        ((ok, _), l1) \<Rightarrow> (case run_limiter reqs l1 of (oks, l2) \<Rightarrow> (ok # oks, l2)))"

definition passed :: "string \<Rightarrow> (time \<times> string) list \<Rightarrow> bool list \<Rightarrow> nat" where
  "passed key reqs oks = length (filter (\<lambda>(r, ok). snd r = key \<and> ok) (zip reqs oks))"

lemma add_up: "(p :: rat) \<le> m' + r' \<Longrightarrow> c + m' \<le> m + r \<Longrightarrow> c + p \<le> m + (r + r')"
  by simp

lemma passed_bound:
  assumes "run_limiter reqs l = (oks, l')" "distinct (map fst (lim_buckets l))" "0 < lim_rate l"
    and "sorted (map fst reqs)" "\<And>r. r \<in> set reqs \<Longrightarrow> start \<le> fst r \<and> fst r \<le> stop" "start \<le> stop"
  shows "of_nat (passed key reqs oks) \<le> max 0 (allowance start l key) + refill (lim_rate l) (stop - start)"
  using assms
proof (induction reqs arbitrary: l l' oks start)
  case Nil
  then have "0 \<le> refill (lim_rate l) (stop - start)" by (intro refill_nonneg) auto
  with Nil.prems(1) show ?case by (simp add: passed_def)
next
  case (Cons r reqs)
  obtain now k where r: "r = (now, k)" by fastforce
  obtain ok wait l1 where a: "limiter_allow now k l = ((ok, wait), l1)" by (metis prod.collapse)
  obtain oks1 l2 where rest: "run_limiter reqs l1 = (oks1, l2)" by fastforce
  note s = allow_spec [OF a Cons.prems(2,3)]
  have now: "start \<le> now" "now \<le> stop" using Cons.prems(5) [of r] r by auto
  have later: "now \<le> fst q" if "q \<in> set reqs" for q
    using Cons.prems(4) that by (auto simp: r)
  have ih: "of_nat (passed key reqs oks1) \<le> max 0 (allowance now l1 key) + refill (lim_rate l1) (stop - now)"
  proof (rule Cons.IH [OF rest])
    show "distinct (map fst (lim_buckets l1))" "0 < lim_rate l1" using s Cons.prems(3) by simp_all
    show "sorted (map fst reqs)" using Cons.prems(4) by simp
    show "now \<le> fst q \<and> fst q \<le> stop" if "q \<in> set reqs" for q
      using later [OF that] Cons.prems(5) [of q] that by simp
  qed (rule now(2))
  have oks: "oks = ok # oks1" using Cons.prems(1) r a rest by simp
  have grow: "allowance now l key \<le> allowance start l key + refill (lim_rate l) (now - start)"
    using allowance_grows [of l start now key] Cons.prems(3) now(1) by simp
  have split: "refill (lim_rate l) (stop - start) =
      refill (lim_rate l) (now - start) + refill (lim_rate l) (stop - now)"
    by (rule refill_split)
  have pos: "0 \<le> refill (lim_rate l) (now - start)" "0 \<le> refill (lim_rate l) (stop - now)"
    using Cons.prems(3) now by (auto intro: refill_nonneg)
  have rate: "lim_rate l1 = lim_rate l" using s by simp
  let ?c = "if k = key \<and> ok then 1 else 0 :: rat"
  have more: "of_nat (passed key (r # reqs) oks) = ?c + (of_nat (passed key reqs oks1) :: rat)"
    by (auto simp: passed_def oks r)
  have "?c + max 0 (allowance now l1 key) \<le> max 0 (allowance now l key)"
  proof (cases "k = key")
    case True
    with s have "ok = (1 \<le> allowance now l key)"
      "allowance now l1 key = min (lim_burst l) (allowance now l key - (if ok then 1 else 0))"
      by simp_all
    then show ?thesis by (auto simp: max_def min_def)
  next
    case False
    with s show ?thesis by simp
  qed
  also have "\<dots> \<le> max 0 (allowance start l key) + refill (lim_rate l) (now - start)"
    using grow pos(1) by simp
  finally have "?c + max 0 (allowance now l1 key)
      \<le> max 0 (allowance start l key) + refill (lim_rate l) (now - start)" .
  from add_up [OF ih [unfolded rate] this] show ?case
    unfolding more split .
qed

section \<open>One caller is one bucket\<close>

text \<open>
  The reference: a single bucket, no map and no sweep. It held \<open>t\<close> tokens at \<open>since\<close>, and
  answers the instants of one caller.
\<close>

fun one_bucket :: "rat \<Rightarrow> rat \<Rightarrow> rat \<Rightarrow> time \<Rightarrow> time list \<Rightarrow> bool list" where
  "one_bucket rate burst t since [] = []"
| "one_bucket rate burst t since (now # later) =
     (let a = min burst (t + refill rate (now - since)); ok = (1 \<le> a)
      in ok # one_bucket rate burst (if ok then a - 1 else a) now later)"

definition answers_to :: "string \<Rightarrow> (time \<times> string) list \<Rightarrow> bool list \<Rightarrow> bool list" where
  "answers_to key reqs oks = map snd (filter (\<lambda>(r, ok). snd r = key) (zip reqs oks))"

definition instants_of :: "string \<Rightarrow> (time \<times> string) list \<Rightarrow> time list" where
  "instants_of key reqs = map fst (filter (\<lambda>r. snd r = key) reqs)"

lemma limiter_one_bucket:
  assumes "run_limiter reqs l = (oks, l')" "distinct (map fst (lim_buckets l))" "0 < lim_rate l"
    and "sorted (map fst reqs)" "\<And>r. r \<in> set reqs \<Longrightarrow> cur \<le> fst r"
    and "\<And>s. cur \<le> s \<Longrightarrow> allowance s l key = min (lim_burst l) (t + refill (lim_rate l) (s - since))"
  shows "answers_to key reqs oks = one_bucket (lim_rate l) (lim_burst l) t since (instants_of key reqs)"
  using assms
proof (induction reqs arbitrary: l l' oks cur t since)
  case Nil
  then show ?case by (simp add: answers_to_def instants_of_def)
next
  case (Cons r reqs)
  obtain now k where r: "r = (now, k)" by fastforce
  obtain ok wait l1 where a: "limiter_allow now k l = ((ok, wait), l1)" by (metis prod.collapse)
  obtain oks1 l2 where rest: "run_limiter reqs l1 = (oks1, l2)" by fastforce
  have oks: "oks = ok # oks1" using Cons.prems(1) r a rest by simp
  note s = allow_spec [OF a Cons.prems(2,3)]
  have same: "lim_rate l1 = lim_rate l" "lim_burst l1 = lim_burst l" using s by simp_all
  have now: "cur \<le> now" using Cons.prems(5) [of r] r by simp
  have later: "now \<le> fst q" if "q \<in> set reqs" for q using Cons.prems(4) that by (auto simp: r)
  have step: "answers_to key reqs oks1 = one_bucket (lim_rate l1) (lim_burst l1) t' since' (instants_of key reqs)"
    if "\<And>u. now \<le> u \<Longrightarrow> allowance u l1 key = min (lim_burst l1) (t' + refill (lim_rate l1) (u - since'))" for t' since'
    by (rule Cons.IH [OF rest _ _ _ later that]) (use s Cons.prems in auto)
  show ?case
  proof (cases "k = key")
    case True
    let ?a = "min (lim_burst l) (t + refill (lim_rate l) (now - since))"
    have a_now: "allowance now l key = ?a" by (rule Cons.prems(6) [OF now])
    have "ok = (1 \<le> ?a)" using s True a_now by simp
    moreover have "answers_to key reqs oks1 = one_bucket (lim_rate l1) (lim_burst l1)
        (if ok then ?a - 1 else ?a) now (instants_of key reqs)"
    proof (rule step)
      fix u assume "now \<le> u"
      have "allowance u l1 key = min (lim_burst l) (allowance now l key - (if ok then 1 else 0)
          + refill (lim_rate l) (u - now))"
        using s True by simp
      then show "allowance u l1 key = min (lim_burst l1) ((if ok then ?a - 1 else ?a) + refill (lim_rate l1) (u - now))"
        unfolding a_now same by (cases ok) simp_all
    qed
    ultimately show ?thesis using True by (simp add: answers_to_def instants_of_def oks r same Let_def)
  next
    case False
    have "answers_to key reqs oks1 = one_bucket (lim_rate l1) (lim_burst l1) t since (instants_of key reqs)"
    proof (rule step)
      fix u assume u: "now \<le> u"
      have "allowance u l1 key = allowance u l key" using s False u by auto
      then show "allowance u l1 key = min (lim_burst l1) (t + refill (lim_rate l1) (u - since))"
        using Cons.prems(6) [of u] u now same by simp
    qed
    then show ?thesis using False by (simp add: answers_to_def instants_of_def oks r same)
  qed
qed

lemma fresh_allowance: "allowance s (new_rate_limiter rate burst) key = burst"
  by (simp add: allowance_def new_rate_limiter_def)

section \<open>Waiting as long as one is told\<close>

text \<open>A fresh limiter, and what the requests of others leave of it.\<close>

lemma fresh_distinct: "distinct (map fst (lim_buckets (new_rate_limiter rate burst)))"
  by (simp add: new_rate_limiter_def)

lemma fresh_consts: "lim_rate (new_rate_limiter rate burst) = rate" "lim_burst (new_rate_limiter rate burst) = burst"
  by (simp_all add: new_rate_limiter_def)

text \<open>A burst below one lets nobody through, not even once.\<close>

lemma small_burst_refuses:
  "burst < 1 \<Longrightarrow> \<not> fst (fst (limiter_allow now key (new_rate_limiter rate burst)))"
  by (simp add: limiter_allow_def limiter_sweep_def new_rate_limiter_def Let_def)

lemma run_limiter_keeps:
  "run_limiter reqs l = (oks, l') \<Longrightarrow> distinct (map fst (lim_buckets l)) \<Longrightarrow> 0 < lim_rate l \<Longrightarrow>
     lim_rate l' = lim_rate l \<and> lim_burst l' = lim_burst l \<and> distinct (map fst (lim_buckets l'))"
proof (induction reqs arbitrary: l oks)
  case (Cons r reqs)
  obtain ok wait l1 where a: "limiter_allow (fst r) (snd r) l = ((ok, wait), l1)" by (metis prod.collapse)
  obtain oks1 l2 where rest: "run_limiter reqs l1 = (oks1, l2)" by fastforce
  have "l' = l2" using Cons.prems(1) a rest by (cases r) simp
  with Cons.IH [of l1 oks1] rest allow_spec [OF a Cons.prems(2,3)] Cons.prems(3) show ?case by simp
qed simp

lemma others_leave_allowance:
  "run_limiter reqs l = (oks, l') \<Longrightarrow> distinct (map fst (lim_buckets l)) \<Longrightarrow> 0 < lim_rate l \<Longrightarrow>
     \<forall>r \<in> set reqs. fst r \<le> t \<and> snd r \<noteq> key \<Longrightarrow> allowance t l' key = allowance t l key"
proof (induction reqs arbitrary: l oks)
  case (Cons r reqs)
  obtain ok wait l1 where a: "limiter_allow (fst r) (snd r) l = ((ok, wait), l1)" by (metis prod.collapse)
  obtain oks1 l2 where rest: "run_limiter reqs l1 = (oks1, l2)" by fastforce
  have "l' = l2" using Cons.prems(1) a rest by (cases r) simp
  note s = allow_spec [OF a Cons.prems(2,3)]
  have "allowance t l2 key = allowance t l1 key"
    using Cons.IH [of l1 oks1] rest s Cons.prems(3,4) \<open>l' = l2\<close> by simp
  moreover have "fst r \<le> t" "key \<noteq> snd r" using Cons.prems(4) by auto
  with s have "allowance t l1 key = allowance t l key" by blast
  ultimately show ?case using \<open>l' = l2\<close> by simp
qed simp

lemma ceil_covers:
  assumes "0 \<le> (x :: rat)" shows "x < of_int (retry_after \<lfloor>x * of_int second\<rfloor>) + 1 / of_int second"
proof -
  let ?w = "\<lfloor>x * of_int second\<rfloor>"
  have "of_int ?w / (of_int second :: rat) \<le> of_int \<lceil>of_int ?w / (of_int second :: rat)\<rceil>"
    by (rule le_of_int_ceiling)
  also have "\<dots> \<le> of_int (retry_after ?w)"
    unfolding retry_after_def Let_def of_int_le_iff by (simp split: if_split)
  finally have "of_int ?w / (of_int second :: rat) \<le> of_int (retry_after ?w)" .
  moreover have "x * of_int second < of_int ?w + 1" by linarith
  then have "x < (of_int ?w + 1) / (of_int second :: rat)" by (simp add: field_simps)
  ultimately show ?thesis by (simp add: add_divide_distrib)
qed

end
