(* ===== verification/Server_Node.thy ===== *)
theory Server_Node
  imports Rooms_Api Ws_Api Rate_Limit
begin

text \<open>
  One node answering requests: the routes and the chain of middleware in front of them
  (\<open>internal/server/routes.go\<close>), the request id, the access log and the recovery
  (\<open>logging.go\<close>), the health pages (\<open>health.go\<close>, \<open>Health\<close> of \<open>database.go\<close>), the labels of the
  metrics (\<open>metrics.go\<close>) and the filter of the traces (\<open>trace.go\<close>).

  gin's router is the match of a method and a path against the table; its CORS middleware is a
  parameter, and so is what a Prometheus page holds.
\<close>

section \<open>Configuration\<close>

definition trusted_proxies :: "string \<Rightarrow> string list" where
  "trusted_proxies var =
     (let raw = trim_space var
      in if raw = [] then []
         else filter (\<lambda>p. p \<noteq> []) (map trim_space (split_on (CHR '','') raw)))"

definition service_name :: "string \<Rightarrow> string" where
  "service_name var = (if var \<noteq> [] then var else ''chat-api'')"

section \<open>Request ids\<close>

definition max_request_id_len :: nat where "max_request_id_len = 64"

definition id_char :: "char \<Rightarrow> bool" where
  "id_char c \<longleftrightarrow> (let k = of_char c :: nat in
     (97 \<le> k \<and> k \<le> 122) \<or> (65 \<le> k \<and> k \<le> 90) \<or> (48 \<le> k \<and> k \<le> 57)
     \<or> c = CHR ''-'' \<or> c = CHR ''_'' \<or> c = CHR ''.'')"

definition valid_request_id :: "string \<Rightarrow> bool" where
  "valid_request_id i \<longleftrightarrow> i \<noteq> [] \<and> length i \<le> max_request_id_len \<and> list_all id_char i"

definition new_request_id :: "bytes \<Rightarrow> string" where
  "new_request_id drawn = hex_encode (take 8 drawn)"

definition request_id :: "bytes \<Rightarrow> http_request \<Rightarrow> string" where
  "request_id drawn rq =
     (let i = rq_header rq ''X-Request-Id'' in if valid_request_id i then i else new_request_id drawn)"

section \<open>The access log, metrics and traces\<close>

datatype log_level = Info_Line | Warn_Line | Error_Line

text \<open>The levels are ordered, as \<open>slog\<close> orders them.\<close>

fun level_rank :: "log_level \<Rightarrow> nat" where
  "level_rank Info_Line = 0"
| "level_rank Warn_Line = 1"
| "level_rank Error_Line = 2"

lemma level_rank_inj: "level_rank a = level_rank b \<Longrightarrow> a = b"
  by (cases a; cases b) simp_all

instantiation log_level :: linorder
begin

definition less_eq_log_level :: "log_level \<Rightarrow> log_level \<Rightarrow> bool" where
  "less_eq_log_level a b \<longleftrightarrow> level_rank a \<le> level_rank b"

definition less_log_level :: "log_level \<Rightarrow> log_level \<Rightarrow> bool" where
  "less_log_level a b \<longleftrightarrow> level_rank a < level_rank b"

instance
  by standard (auto simp: less_eq_log_level_def less_log_level_def intro: level_rank_inj)

end

definition level_of :: "nat \<Rightarrow> log_level" where
  "level_of status =
     (if status \<ge> 500 then Error_Line else if status \<ge> 400 then Warn_Line else Info_Line)"

lemma level_mono: "mono level_of"
  by (rule monoI) (simp add: level_of_def less_eq_log_level_def)

record access_line =
  al_level :: log_level
  al_method :: string
  al_path :: string
  al_status :: nat
  al_user :: "nat option"

definition quiet_when_healthy :: "string list" where
  "quiet_when_healthy = [''/metrics'', ''/livez'', ''/readyz'']"

definition request_logger :: "string \<Rightarrow> http_request \<Rightarrow> (nat \<times> string) option \<Rightarrow> nat \<Rightarrow> access_line option" where
  "request_logger full_path rq who status =
     (if full_path \<in> set quiet_when_healthy \<and> status < 400 then None
      else Some \<lparr>al_level = level_of status,
             al_method = rq_method rq, al_path = rq_path rq, al_status = status,
             al_user = (let uid = fst (current_user who) in if uid \<noteq> 0 then Some uid else None)\<rparr>)"

definition unrouted_label :: string where "unrouted_label = ''other''"

text \<open>The labels of \<open>http_requests_total\<close>: method, route template, status.\<close>

definition observe_requests :: "string \<Rightarrow> http_request \<Rightarrow> nat \<Rightarrow> string \<times> string \<times> string" where
  "observe_requests full_path rq status =
     (rq_method rq, if full_path = [] then unrouted_label else full_path, format_uint status)"

definition not_traced :: "string list" where
  "not_traced = ''/ws'' # quiet_when_healthy"

definition trace_requests :: "http_request \<Rightarrow> bool" where
  "trace_requests rq \<longleftrightarrow> rq_path rq \<notin> set not_traced"

section \<open>Recovery\<close>

text \<open>A panic: a \<open>net.OpError\<close> with its errno and its text, or anything else.\<close>

datatype errno = EPIPE | ECONNRESET | OtherErrno
datatype panic = OpError errno string | OtherPanic string

definition is_broken_pipe :: "panic \<Rightarrow> bool" where
  "is_broken_pipe p =
     (case p of
        OtherPanic _ \<Rightarrow> False
      | OpError e msg \<Rightarrow>
          e = EPIPE \<or> e = ECONNRESET
          \<or> (let m = to_lower msg in contains m ''broken pipe'' \<or> contains m ''connection reset by peer''
                \<or> contains m ''forcibly closed''))"

text \<open>\<open>None\<close>: nothing is written, the peer is gone.\<close>

definition recovery :: "panic \<Rightarrow> response option" where
  "recovery p = (if is_broken_pipe p then None else Some (refuse 500 ''Internal server error''))"

section \<open>Health\<close>

record pool_stats =
  ps_open :: nat
  ps_in_use :: nat
  ps_idle :: nat
  ps_wait_count :: nat
  ps_wait_duration :: string
  ps_max_idle_closed :: nat
  ps_max_lifetime_closed :: nat

text \<open>\<open>Health\<close>: the text of the error of the handle or the ping, or the counters of the pool.\<close>

definition pool_message :: "pool_stats \<Rightarrow> string" where
  "pool_message s =
     (if ps_max_lifetime_closed s > ps_open s div 2 then
        ''Many connections are being closed due to max lifetime, consider increasing max lifetime or revising the connection usage pattern.''
      else if ps_max_idle_closed s > ps_open s div 2 then
        ''Many idle connections are being closed, consider revising the connection pool settings.''
      else if ps_wait_count s > 1000 then
        ''The database has a high number of wait events, indicating potential bottlenecks.''
      else if ps_open s > 40 then ''The database is experiencing heavy load.''
      else ''It's healthy'')"

definition db_health :: "string + pool_stats \<Rightarrow> (string \<times> string) list" where
  "db_health probe =
     (case probe of
        Inl err \<Rightarrow> [(''status'', ''down''), (''error'', ''db down: '' @ err)]
      | Inr s \<Rightarrow>
          [(''status'', ''up''), (''message'', pool_message s),
           (''open_connections'', format_uint (ps_open s)), (''in_use'', format_uint (ps_in_use s)),
           (''idle'', format_uint (ps_idle s)), (''wait_count'', format_uint (ps_wait_count s)),
           (''wait_duration'', ps_wait_duration s),
           (''max_idle_closed'', format_uint (ps_max_idle_closed s)),
           (''max_lifetime_closed'', format_uint (ps_max_lifetime_closed s))])"

definition stat :: "string \<Rightarrow> (string \<times> string) list \<Rightarrow> string" where
  "stat k stats = (case map_of stats k of None \<Rightarrow> [] | Some v \<Rightarrow> v)"

definition livez_handler :: response where
  "livez_handler = respond 200 (Strings [(''status'', ''alive'')])"

definition readyz_handler :: "bool \<Rightarrow> string + pool_stats \<Rightarrow> response" where
  "readyz_handler draining probe =
     (if draining then respond 503 (Strings [(''status'', ''shutting down'')])
      else let status = stat ''status'' (db_health probe)
           in if status \<noteq> ''up'' then respond 503 (Strings [(''status'', ''not ready''), (''database'', status)])
              else respond 200 (Strings [(''status'', ''ready'')]))"

definition presence_status :: "time \<Rightarrow> (grpc_code + string) \<Rightarrow> presence_client option \<Rightarrow> string" where
  "presence_status now check c =
     (case c of
        None \<Rightarrow> ''not configured (single node, online means a socket here)''
      | Some _ \<Rightarrow>
          (case client_ping check c of
             Inl err \<Rightarrow> ''down: '' @ err @ '' (breaker '' @ client_breaker_state now c @ '')''
           | Inr _ \<Rightarrow> ''up (breaker '' @ client_breaker_state now c @ '')''))"

text \<open>\<open>None\<close>: no broker is configured; otherwise what \<open>Broker.Ping\<close> reports.\<close>

definition nats_status :: "(string + unit) option \<Rightarrow> string" where
  "nats_status ping =
     (case ping of
        None \<Rightarrow> ''not configured (single node, delivering locally)''
      | Some (Inl err) \<Rightarrow> ''down: '' @ err
      | Some (Inr _) \<Rightarrow> ''up'')"

definition health_handler ::
  "time \<Rightarrow> string + pool_stats \<Rightarrow> (grpc_code + string) \<Rightarrow> presence_client option \<Rightarrow> (string + unit) option
     \<Rightarrow> response" where
  "health_handler now probe check c nats =
     (let stats = AList.update ''nats'' (nats_status nats)
            (AList.update ''presence'' (presence_status now check c) (db_health probe))
      in respond (if stat ''status'' stats \<noteq> ''up'' then 503 else 200) (Strings stats))"

section \<open>Routes\<close>

datatype route =
    Livez | Readyz | HealthPage | MetricsPage | Register | Login | WebSocket | Refresh | Logout
  | ProfilePage | CreateConversation | ListConversations | AddMember | SendMessage | ListMessages
  | MarkRead | RoomPresence

text \<open>The table of \<open>RegisterRoutes\<close>: method, path as segments with \<open>''*''\<close> for \<open>:id\<close>, template.\<close>

definition route_table :: "(string \<times> string list \<times> string \<times> route) list" where
  "route_table =
     [(''GET'', [''livez''], ''/livez'', Livez),
      (''GET'', [''readyz''], ''/readyz'', Readyz),
      (''GET'', [''health''], ''/health'', HealthPage),
      (''GET'', [''metrics''], ''/metrics'', MetricsPage),
      (''POST'', [''register''], ''/register'', Register),
      (''POST'', [''login''], ''/login'', Login),
      (''GET'', [''ws''], ''/ws'', WebSocket),
      (''POST'', [''auth'', ''refresh''], ''/auth/refresh'', Refresh),
      (''POST'', [''auth'', ''logout''], ''/auth/logout'', Logout),
      (''GET'', [''auth'', ''profile''], ''/auth/profile'', ProfilePage),
      (''POST'', [''conversations''], ''/conversations'', CreateConversation),
      (''GET'', [''conversations''], ''/conversations'', ListConversations),
      (''POST'', [''conversations'', ''*'', ''members''], ''/conversations/:id/members'', AddMember),
      (''POST'', [''conversations'', ''*'', ''messages''], ''/conversations/:id/messages'', SendMessage),
      (''GET'', [''conversations'', ''*'', ''messages''], ''/conversations/:id/messages'', ListMessages),
      (''POST'', [''conversations'', ''*'', ''read''], ''/conversations/:id/read'', MarkRead),
      (''GET'', [''conversations'', ''*'', ''presence''], ''/conversations/:id/presence'', RoomPresence)]"

fun match_segments :: "string list \<Rightarrow> string list \<Rightarrow> bool" where
  "match_segments [] [] = True"
| "match_segments (p # ps) (s # ss) \<longleftrightarrow> (p = s \<or> (p = ''*'' \<and> s \<noteq> [])) \<and> match_segments ps ss"
| "match_segments _ _ = False"

definition find_route :: "http_request \<Rightarrow> (string \<times> route) option" where
  "find_route rq =
     map_option (\<lambda>(_, _, template, r). (template, r))
       (find (\<lambda>(m, ps, _, _). m = rq_method rq \<and> match_segments ps (tl (split_on (CHR ''/'') (rq_path rq))))
          route_table)"

text \<open>The group a route is in: who may call it, and which limiter counts it.\<close>

datatype guard = Unguarded | AuthByIp | ApiByIp | Authenticated

definition guard_of :: "route \<Rightarrow> guard" where
  "guard_of r =
     (case r of
        Livez \<Rightarrow> Unguarded | Readyz \<Rightarrow> Unguarded | HealthPage \<Rightarrow> Unguarded | MetricsPage \<Rightarrow> Unguarded
      | Register \<Rightarrow> AuthByIp | Login \<Rightarrow> AuthByIp | Refresh \<Rightarrow> AuthByIp | Logout \<Rightarrow> AuthByIp
      | WebSocket \<Rightarrow> ApiByIp
      | _ \<Rightarrow> Authenticated)"

end
