(* ===== verification/Node_Requests.thy ===== *)
theory Node_Requests
  imports Server_Node
begin

text \<open>
  A node as a whole: its state, and one request from the outermost middleware to the response
  (\<open>RegisterRoutes\<close> of \<open>internal/server/routes.go\<close>). What a request meets outside the program -
  the clock, random draws, the answers of the presence service, the state of the connection pool -
  is the record \<open>surroundings\<close>.
\<close>

record node =
  nd_db :: db
  nd_auth :: rate_limiter
  nd_api :: rate_limiter
  nd_hub :: hub
  nd_presence :: "presence_client option"
  nd_draining :: bool

record surroundings =
  x_now :: time
  x_drawn_id :: bytes
  x_drawn_token :: "bytes option"
  x_carrier :: bytes
  x_presence :: "nat \<Rightarrow> nat list rpc_attempt"
  x_gone :: bool
  x_coin :: bool
  x_handshake :: bool
  x_socket :: nat
  x_probe :: "string + pool_stats"
  x_check :: "grpc_code + string"
  x_nats :: "(string + unit) option"
  x_cors :: "response option"
  x_write_panic :: "panic option"

definition new_node :: "rate_limits \<Rightarrow> db \<Rightarrow> hub \<Rightarrow> presence_client option \<Rightarrow> node" where
  "new_node conf d h p =
     (let l = or_defaults conf
      in \<lparr>nd_db = d, nd_auth = new_rate_limiter (rl_auth_rps l) (rl_auth_burst l),
          nd_api = new_rate_limiter (rl_api_rps l) (rl_api_burst l),
          nd_hub = h, nd_presence = p, nd_draining = False\<rparr>)"

section \<open>Handlers on the node\<close>

datatype served = Responded response | Upgraded ws_outcome | Severed

definition at_db :: "handler \<Rightarrow> node \<Rightarrow> served \<times> node" where
  "at_db f nd = (case f (nd_db nd) of (r, d) \<Rightarrow> (Responded r, nd\<lparr>nd_db := d\<rparr>))"

definition profile_handler :: "nat \<times> string \<Rightarrow> response" where
  "profile_handler who = respond 200 (Profile (fst who) (snd who))"

definition run_route ::
  "library \<Rightarrow> auth_env \<Rightarrow> surroundings \<Rightarrow> http_request \<Rightarrow> nat \<times> string \<Rightarrow> route \<Rightarrow> node \<Rightarrow> served \<times> node" where
  "run_route lib env x rq who r nd =
     (let now = x_now x in
      case r of
        Livez \<Rightarrow> (Responded livez_handler, nd)
      | Readyz \<Rightarrow> (Responded (readyz_handler (nd_draining nd) (x_probe x)), nd)
      | HealthPage \<Rightarrow> (Responded (health_handler now (x_probe x) (x_check x) (nd_presence nd) (x_nats x)), nd)
      | MetricsPage \<Rightarrow> (Responded (respond 200 NoBody), nd)
      | Register \<Rightarrow> at_db (register_handler lib now rq) nd
      | Login \<Rightarrow> at_db (login_handler lib env now (x_drawn_token x) rq) nd
      | WebSocket \<Rightarrow>
          (case ws_handler lib env now (x_handshake x) (x_coin x) (x_socket x) rq (nd_hub nd) of
             (out, h) \<Rightarrow> (Upgraded out, nd\<lparr>nd_hub := h\<rparr>))
      | Refresh \<Rightarrow> at_db (refresh_handler lib env now rq) nd
      | Logout \<Rightarrow> at_db (logout_handler env now rq) nd
      | ProfilePage \<Rightarrow> (Responded (profile_handler who), nd)
      | CreateConversation \<Rightarrow> at_db (create_conversation_handler now who rq) nd
      | ListConversations \<Rightarrow> at_db (list_conversations_handler who) nd
      | AddMember \<Rightarrow> at_db (add_member_handler now who rq) nd
      | SendMessage \<Rightarrow> at_db (send_message_handler now who (x_carrier x) rq) nd
      | ListMessages \<Rightarrow> at_db (list_messages_handler who rq) nd
      | MarkRead \<Rightarrow> at_db (mark_read_handler now who rq) nd
      | RoomPresence \<Rightarrow>
          (case presence_handler (\<lambda>ids. online_members now (x_presence x) (x_gone x) (x_coin x) (nd_hub nd) ids (nd_presence nd))
                  (nd_presence nd) who rq (nd_db nd) of
             ((r, p), d) \<Rightarrow> (Responded r, nd\<lparr>nd_db := d, nd_presence := p\<rparr>)))"

section \<open>Groups\<close>

definition too_many_requests :: "int \<Rightarrow> response" where
  "too_many_requests secs =
     \<lparr>rs_status = 429, rs_body = Error ''Too many requests'',
      rs_headers = [(''Retry-After'', format_int secs)], rs_cookies = []\<rparr>"

definition count_auth :: "time \<Rightarrow> string \<Rightarrow> (node \<Rightarrow> served \<times> node) \<Rightarrow> node \<Rightarrow> served \<times> node" where
  "count_auth now key go nd =
     (case rate_limit now key (nd_auth nd) of
        (Inl secs, l) \<Rightarrow> (Responded (too_many_requests secs), nd\<lparr>nd_auth := l\<rparr>)
      | (Inr _, l) \<Rightarrow> go (nd\<lparr>nd_auth := l\<rparr>))"

definition count_api :: "time \<Rightarrow> string \<Rightarrow> (node \<Rightarrow> served \<times> node) \<Rightarrow> node \<Rightarrow> served \<times> node" where
  "count_api now key go nd =
     (case rate_limit now key (nd_api nd) of
        (Inl secs, l) \<Rightarrow> (Responded (too_many_requests secs), nd\<lparr>nd_api := l\<rparr>)
      | (Inr _, l) \<Rightarrow> go (nd\<lparr>nd_api := l\<rparr>))"

text \<open>The identity is returned for the access log.\<close>

definition serve_route ::
  "library \<Rightarrow> auth_env \<Rightarrow> surroundings \<Rightarrow> http_request \<Rightarrow> route \<Rightarrow> node
     \<Rightarrow> (served \<times> (nat \<times> string) option) \<times> node" where
  "serve_route lib env x rq r nd =
     (let now = x_now x; ip = rq_ip rq; nobody = current_user None;
          anon = (\<lambda>(s, nd'). ((s, None), nd'))
      in case guard_of r of
           Unguarded \<Rightarrow> anon (run_route lib env x rq nobody r nd)
         | AuthByIp \<Rightarrow> anon (count_auth now (ip_key ip) (run_route lib env x rq nobody r) nd)
         | ApiByIp \<Rightarrow> anon (count_api now (ip_key ip) (run_route lib env x rq nobody r) nd)
         | Authenticated \<Rightarrow>
             (case auth_middleware lib env now rq of
                Inl refusal \<Rightarrow> ((Responded refusal, None), nd)
              | Inr who \<Rightarrow>
                  (case count_api now (user_key (fst who) ip) (run_route lib env x rq (current_user (Some who)) r) nd of
                     (s, nd') \<Rightarrow> ((s, Some who), nd'))))"

section \<open>The whole chain\<close>

record exchange =
  ex_served :: served
  ex_request_id :: string
  ex_log :: "access_line option"
  ex_labels :: "string \<times> string \<times> string"
  ex_traced :: bool

definition not_found :: response where "not_found = respond 404 NoBody"

definition panicked :: "surroundings \<Rightarrow> served \<Rightarrow> panic option" where
  "panicked x s =
     (case s of Upgraded NilExpiry \<Rightarrow> Some (OtherPanic ''nil pointer dereference'') | _ \<Rightarrow> x_write_panic x)"

text \<open>A panic on the way to the response ends in \<open>recovery\<close>.\<close>

definition after_recovery :: "surroundings \<Rightarrow> served \<Rightarrow> served" where
  "after_recovery x s =
     (case panicked x s of
        None \<Rightarrow> s
      | Some p \<Rightarrow> (case recovery p of None \<Rightarrow> Severed | Some r \<Rightarrow> Responded r))"

text \<open>What \<open>c.Writer.Status()\<close> shows: a hijacked connection leaves it at 200.\<close>

definition status_of :: "served \<Rightarrow> nat" where
  "status_of s = (case s of Responded r \<Rightarrow> rs_status r | Upgraded (Answered r) \<Rightarrow> rs_status r | _ \<Rightarrow> 200)"

definition serve :: "library \<Rightarrow> auth_env \<Rightarrow> surroundings \<Rightarrow> http_request \<Rightarrow> node \<Rightarrow> exchange \<times> node" where
  "serve lib env x rq nd =
     (let found = find_route rq;
          full_path = (case found of None \<Rightarrow> [] | Some (template, _) \<Rightarrow> template);
          inner = (case x_cors x of
              Some r \<Rightarrow> ((Responded r, None), nd)
            | None \<Rightarrow>
                (case found of
                   None \<Rightarrow> ((Responded not_found, None), nd)
                 | Some (_, r) \<Rightarrow> serve_route lib env x rq r nd));
          s = after_recovery x (fst (fst inner)); who = snd (fst inner)
      in (\<lparr>ex_served = s, ex_request_id = request_id (x_drawn_id x) rq,
           ex_log = request_logger full_path rq who (status_of s),
           ex_labels = observe_requests full_path rq (status_of s),
           ex_traced = trace_requests rq\<rparr>, snd inner))"

section \<open>What a request can do to the node\<close>

lemma presence_handler_runs: "runs (presence_handler lookup c who rq)"
proof (rule runsI)
  fix d r d' assume run: "presence_handler lookup c who rq d = (r, d')"
  show "service_step\<^sup>*\<^sup>* d d'"
  proof (cases "member_only (rq_id_param rq) (fst who) d")
    case (Pair g d1)
    from runsD [OF member_only_runs Pair] have s: "service_step\<^sup>*\<^sup>* d d1" .
    show ?thesis
    proof (cases g)
      case (Inl e)
      with run Pair s show ?thesis by (simp add: presence_handler_def)
    next
      case (Inr conv)
      obtain m d2 where m: "list_conversation_member_ids conv d1 = (m, d2)" by fastforce
      from runsD [OF runs_queries(5) m] have "service_step\<^sup>*\<^sup>* d1 d2" .
      moreover have "d' = d2"
        using run Pair Inr m by (auto simp: presence_handler_def split: sum.splits prod.splits)
      ultimately show ?thesis using s by auto
    qed
  qed
qed

lemma account_handlers_run [runs_rules]:
  "runs (register_handler lib now rq)" "runs (login_handler lib env now drawn rq)"
  "runs (refresh_handler lib env now rq)" "runs (logout_handler env now rq)"
  unfolding register_handler_def login_handler_def login_as_def refresh_handler_def logout_handler_def
    issue_refresh_session_def Let_def
  by (intro runs_rules)+

definition node_evolves :: "node \<Rightarrow> node \<Rightarrow> bool" where
  "node_evolves nd nd' \<longleftrightarrow> service_step\<^sup>*\<^sup>* (nd_db nd) (nd_db nd') \<and> nd_draining nd' = nd_draining nd"

lemma node_evolves_refl [simp]: "node_evolves nd nd"
  by (simp add: node_evolves_def)

lemma at_db_evolves: "runs f \<Longrightarrow> at_db f nd = (s, nd') \<Longrightarrow> node_evolves nd nd'"
  by (auto simp: at_db_def node_evolves_def dest: runsD split: prod.splits)

lemma run_route_evolves:
  assumes "run_route lib env x rq who r nd = (s, nd')"
  shows "node_evolves nd nd'"
proof -
  have step: "node_evolves nd nd'" if "at_db f nd = (s, nd')" "runs f" for f
    using at_db_evolves that by blast
  show ?thesis
  proof (cases r)
    case RoomPresence
    then show ?thesis
      using assms
      by (auto simp: run_route_def Let_def node_evolves_def split: prod.splits
          dest!: runsD [OF presence_handler_runs])
  next
    case WebSocket
    with assms show ?thesis
      by (auto simp: run_route_def Let_def node_evolves_def split: prod.splits)
  qed (use assms in \<open>auto simp: run_route_def Let_def intro: step runs_rules\<close>)
qed

lemma count_auth_evolves:
  assumes "count_auth now key go nd = (s, nd')" "\<And>nd s nd'. go nd = (s, nd') \<Longrightarrow> node_evolves nd nd'"
  shows "node_evolves nd nd'"
  using assms by (fastforce simp: count_auth_def node_evolves_def split: prod.splits sum.splits)

lemma count_api_evolves:
  assumes "count_api now key go nd = (s, nd')" "\<And>nd s nd'. go nd = (s, nd') \<Longrightarrow> node_evolves nd nd'"
  shows "node_evolves nd nd'"
  using assms by (fastforce simp: count_api_def node_evolves_def split: prod.splits sum.splits)

lemma serve_route_evolves:
  assumes "serve_route lib env x rq r nd = (s, nd')"
  shows "node_evolves nd nd'"
  using assms run_route_evolves count_auth_evolves count_api_evolves
  unfolding serve_route_def Let_def
  by (auto split: guard.splits prod.splits sum.splits)

text \<open>Whatever a request is, the database moves by service steps only.\<close>

lemma serve_evolves:
  assumes "serve lib env x rq nd = (ex, nd')"
  shows "node_evolves nd nd'"
proof -
  have "node_evolves nd (snd (serve_route lib env x rq r nd))" for r
    using serve_route_evolves [of lib env x rq r nd "fst (serve_route lib env x rq r nd)"]
    by (metis prod.collapse)
  then show ?thesis
    using assms by (auto simp: serve_def Let_def split: option.splits)
qed

text \<open>Without a good token nothing behind the middleware happens at all.\<close>

lemma unauthenticated_untouched:
  assumes "guard_of r = Authenticated" "auth_middleware lib env (x_now x) rq = Inl refusal"
  shows "serve_route lib env x rq r nd = ((Responded refusal, None), nd)"
  using assms by (simp add: serve_route_def Let_def)

text \<open>A refused caller costs its limiter and nothing else.\<close>

lemma refused_untouched:
  assumes "count_api now key go nd = (Responded r, nd')" "fst (rate_limit now key (nd_api nd)) = Inl secs"
  shows "r = too_many_requests secs \<and> nd' = nd\<lparr>nd_api := snd (rate_limit now key (nd_api nd))\<rparr>"
  using assms by (auto simp: count_api_def split: prod.splits sum.splits)

section \<open>The gate of the rooms, on the node\<close>

definition room_routes :: "route list" where
  "room_routes = [AddMember, SendMessage, ListMessages, MarkRead, RoomPresence]"

lemma outsider_on_node:
  assumes "outsider (tbl (nd_db nd)) who rq" "faults (nd_db nd) = []" "r \<in> set room_routes"
  shows "run_route lib env x rq who r nd = (Responded conversation_not_found, nd)"
proof -
  have room: "in_the_room who rq go (nd_db nd) = (conversation_not_found, nd_db nd)" for go
    by (rule outsider_not_found [OF assms(1,2)])
  have gate: "member_only (rq_id_param rq) (fst who) (nd_db nd) = (Inl conversation_not_found, nd_db nd)"
    using assms(1) ensure_member_ok [OF assms(2)]
    by (auto simp: member_only_def outsider_def split: option.split)
  from assms(3) show ?thesis
    by (auto simp: room_routes_def run_route_def at_db_def Let_def add_member_handler_def send_message_handler_def
        list_messages_handler_def mark_read_handler_def presence_handler_def room gate)
qed

text \<open>Everything under \<open>/conversations\<close> is behind the token.\<close>

lemma find_route_table:
  assumes "find_route rq = Some (template, r)"
  shows "(template, r) \<in> (\<lambda>(m, ps, t, r). (t, r)) ` set route_table"
proof -
  from assms obtain q where q: "q \<in> set route_table" "(\<lambda>(m, ps, t, r). (t, r)) q = (template, r)"
    unfolding find_route_def by (auto dest!: find_Some_set)
  then show ?thesis by (metis imageI)
qed

lemma conversations_guarded:
  assumes "find_route rq = Some (template, r)" "take 14 template = ''/conversations''"
  shows "guard_of r = Authenticated"
  using find_route_table [OF assms(1)] assms(2)
  by (auto simp: route_table_def guard_of_def)

section \<open>Every answer is one of the API's\<close>

definition well_typed :: "response \<Rightarrow> bool" where
  "well_typed r \<longleftrightarrow> rs_status r \<in> set (case rs_body r of
     Error _ \<Rightarrow> [400, 401, 404, 409, 429, 500, 503]
   | Strings _ \<Rightarrow> [200, 503]
   | NoBody \<Rightarrow> [200, 404]
   | _ \<Rightarrow> [200, 201])"

named_theorems typed_rules "handlers whose every answer is well typed"

definition typed :: "(db \<Rightarrow> response \<times> db) \<Rightarrow> bool" where
  "typed f \<longleftrightarrow> (\<forall>d. well_typed (fst (f d)))"

lemma typed_attempt [typed_rules]:
  "(\<And>e. typed (bad e)) \<Longrightarrow> (\<And>x. typed (good x)) \<Longrightarrow> typed (attempt f bad good)"
  by (auto simp: typed_def attempt_def split: prod.split sum.split)

lemma typed_reply [typed_rules]: "well_typed r \<Longrightarrow> typed (reply r)"
  by (simp add: typed_def reply_def)

lemma typed_if [typed_rules]: "typed f \<Longrightarrow> typed g \<Longrightarrow> typed (if b then f else g)"
  by simp

lemma typed_option [typed_rules]:
  "typed f \<Longrightarrow> (\<And>x. typed (g x)) \<Longrightarrow> typed (case p of None \<Rightarrow> f | Some x \<Rightarrow> g x)"
  by (cases p) simp_all

lemma typed_prod [typed_rules]: "(\<And>x y. typed (f x y)) \<Longrightarrow> typed (case p of (x, y) \<Rightarrow> f x y)"
  by (cases p) simp

lemma refuse_typed [typed_rules]:
  "st \<in> set [400, 401, 404, 409, 429, 500, 503] \<Longrightarrow> well_typed (refuse st why)"
  by (simp add: well_typed_def)

lemma member_only_typed: "member_only raw uid d = (Inl r, d') \<Longrightarrow> well_typed r"
  by (drule member_only_Inl) (auto simp: well_typed_def conversation_not_found_def)

lemma typed_room [typed_rules]:
  assumes "\<And>conv. typed (go conv)" shows "typed (in_the_room who rq go)"
  using assms member_only_typed by (auto simp: typed_def in_the_room_def split: prod.split sum.split)

lemma page_params_typed: "page_params params = Inl r \<Longrightarrow> well_typed r"
  by (auto simp: page_params_def limit_param_def Let_def cursor_param_def well_typed_def
      split: if_splits sum.splits option.splits)

lemma typed_page [typed_rules]:
  "(\<And>q. typed (g q)) \<Longrightarrow> typed (case page_params params of Inl r \<Rightarrow> reply r | Inr q \<Rightarrow> g q)"
  using page_params_typed by (auto simp: typed_def reply_def split: sum.split)

lemma typed_handlers:
  "typed (register_handler lib now rq)" "typed (login_handler lib env now drawn rq)"
  "typed (refresh_handler lib env now rq)" "typed (logout_handler env now rq)"
  "typed (create_conversation_handler now who rq)" "typed (list_conversations_handler who)"
  "typed (mark_read_handler now who rq)" "typed (add_member_handler now who rq)"
  "typed (send_message_handler now who carrier rq)" "typed (list_messages_handler who rq)"
  unfolding register_handler_def login_handler_def login_as_def refresh_handler_def logout_handler_def
    issue_refresh_session_def create_conversation_handler_def list_conversations_handler_def
    mark_read_handler_def add_member_handler_def send_message_handler_def list_messages_handler_def
    list_gap_def Let_def unauthorized_session_def
  by (intro typed_rules; simp add: well_typed_def with_cookie_def)+

definition answer_typed :: "served \<Rightarrow> bool" where
  "answer_typed s = (case s of Responded r \<Rightarrow> well_typed r | Upgraded (Answered r) \<Rightarrow> well_typed r | _ \<Rightarrow> True)"

lemma responded_typed: "answer_typed (Responded r) = well_typed r"
  by (simp add: answer_typed_def)

lemma at_db_typed: "typed f \<Longrightarrow> answer_typed (fst (at_db f nd))"
  by (simp add: at_db_def answer_typed_def typed_def split: prod.split) (metis fst_conv)

lemma presence_typed: "well_typed (fst (fst (presence_handler lookup c who rq d)))"
  using member_only_typed
  by (auto simp: presence_handler_def well_typed_def split: prod.split sum.split)

lemma ops_pages_typed:
  "well_typed livez_handler" "well_typed (readyz_handler draining probe)"
  "well_typed (health_handler now probe check c nats)" "well_typed (profile_handler who)"
  by (simp_all add: well_typed_def livez_handler_def readyz_handler_def health_handler_def
      profile_handler_def Let_def)

lemma ws_typed: "answer_typed (Upgraded (fst (ws_handler lib env now handshake coin c rq h)))"
  by (auto simp: answer_typed_def ws_handler_def well_typed_def split: option.split prod.split bool.split)

lemma run_route_typed: "answer_typed (fst (run_route lib env x rq who r nd))"
proof (cases r)
  case WebSocket
  with ws_typed show ?thesis by (simp add: run_route_def Let_def case_prod_unfold)
next
  case RoomPresence
  with presence_typed show ?thesis by (simp add: run_route_def Let_def answer_typed_def case_prod_unfold)
next
  case MetricsPage
  then show ?thesis by (simp add: run_route_def Let_def answer_typed_def well_typed_def)
qed (simp_all add: run_route_def Let_def at_db_typed typed_handlers ops_pages_typed responded_typed)

lemma serve_route_typed: "answer_typed (fst (fst (serve_route lib env x rq r nd)))"
proof -
  have ip: "answer_typed (fst (count_auth now key (run_route lib env x rq who r) nd))"
    "answer_typed (fst (count_api now key (run_route lib env x rq who r) nd))" for now key who
    using run_route_typed
    by (auto simp: count_auth_def count_api_def answer_typed_def well_typed_def too_many_requests_def
        split: prod.split sum.split)
  have refused: "answer_typed (Responded r)" if "auth_middleware lib env now rq = Inl r" for r now
    using that by (auto simp: auth_middleware_def answer_typed_def well_typed_def split: option.splits)
  show ?thesis
    using ip refused run_route_typed
    by (auto simp: serve_route_def Let_def case_prod_unfold split: guard.split sum.split)
qed

lemma serve_typed:
  assumes "\<And>r. x_cors x = Some r \<Longrightarrow> well_typed r"
  shows "answer_typed (ex_served (fst (serve lib env x rq nd)))"
proof -
  have rec: "answer_typed (after_recovery x s)" if "answer_typed s" for s
    using that by (auto simp: after_recovery_def recovery_def answer_typed_def well_typed_def split: option.split)
  have missing: "answer_typed (Responded not_found)" by (simp add: answer_typed_def well_typed_def not_found_def)
  show ?thesis
    using serve_route_typed assms missing
    by (auto simp: serve_def Let_def answer_typed_def intro!: rec [unfolded answer_typed_def] split: option.split)
qed

section \<open>What presence can cost\<close>

lemma run_route_presence:
  assumes "r \<noteq> RoomPresence" "r \<noteq> HealthPage"
  shows "run_route lib env x rq who r (nd\<lparr>nd_presence := p\<rparr>) =
    (case run_route lib env x rq who r nd of (s, nd') \<Rightarrow> (s, nd'\<lparr>nd_presence := p\<rparr>))"
  using assms by (cases r) (simp_all add: run_route_def Let_def at_db_def split: prod.split)

end
