(* ===== verification/Lifecycle.thy ===== *)
theory Lifecycle
  imports Node_Requests
begin

text \<open>
  How a node starts, beats and stops: \<open>internal/server/server.go\<close>. Starting is a decision on the
  environment; the background goroutines are a list of tasks; stopping is a fixed sequence of
  actions on the parts of the process, each of which may report an error.
\<close>

section \<open>Starting\<close>

definition default_port :: int where "default_port = 8080"

definition listen_port :: "string \<Rightarrow> int" where
  "listen_port var = (case atoi var of None \<Rightarrow> default_port | Some p \<Rightarrow> if p \<le> 0 then default_port else p)"

datatype task = RelayLoop | FanoutConsumer | UnreadConsumer | PresenceBeat

text \<open>Where the relay's rows go: onto the stream, or straight to this node's sockets.\<close>

datatype destination = Stream_Publisher | Local_Publisher

definition destination_of :: "bool \<Rightarrow> destination" where
  "destination_of has_broker = (if has_broker then Stream_Publisher else Local_Publisher)"

definition start_background :: "bool \<Rightarrow> bool \<Rightarrow> task list" where
  "start_background has_broker has_presence =
     [RelayLoop] @ (if has_broker then [FanoutConsumer, UnreadConsumer] else [])
       @ (if has_presence then [PresenceBeat] else [])"

record app =
  ap_port :: int
  ap_node :: node
  ap_to :: destination
  ap_has_broker :: bool
  ap_accepting :: bool
  ap_in_flight :: nat
  ap_tasks :: "task list"
  ap_broker_open :: bool
  ap_presence_open :: bool
  ap_db_open :: bool
  ap_tracing :: bool

text \<open>
  \<open>New\<close>: without a signing key or with a database that will not migrate the process exits.
\<close>

definition new_app ::
  "(string \<Rightarrow> string) \<Rightarrow> rate_limits \<Rightarrow> (string + db) \<Rightarrow> bool \<Rightarrow> presence_client option \<Rightarrow> string + app" where
  "new_app env limits migrated has_broker presence =
     (if env ''JWT_SECRET'' = [] then Inl ''JWT_SECRET is not set''
      else case migrated of
        Inl err \<Rightarrow> Inl ''could not prepare database''
      | Inr d \<Rightarrow> Inr
          \<lparr>ap_port = listen_port (env ''PORT''), ap_node = new_node limits d new_hub presence,
           ap_to = destination_of has_broker, ap_has_broker = has_broker,
           ap_accepting = True, ap_in_flight = 0,
           ap_tasks = start_background has_broker (presence \<noteq> None),
           ap_broker_open = has_broker, ap_presence_open = (presence \<noteq> None), ap_db_open = True,
           ap_tracing = True\<rparr>)"

section \<open>The heartbeat loop\<close>

text \<open>
  \<open>runPresence\<close>: one beat per tick with the users the hub has at that moment, until the context
  ends. \<open>sent\<close> collects what was told to the service; a failed beat is dropped.
\<close>

datatype beat_event = Beat time "nat \<Rightarrow> unit rpc_attempt" hub bool | Cancelled

fun run_presence :: "beat_event list \<Rightarrow> presence_client option \<Rightarrow> nat list list
    \<Rightarrow> presence_client option \<times> nat list list" where
  "run_presence [] c told = (c, told)"
| "run_presence (Cancelled # _) c told = (c, told)"
| "run_presence (Beat now env h coin # rest) c told =
     (case client_heartbeat now None env False c of
        (_, c') \<Rightarrow> run_presence rest c' (told @ [user_ids coin h]))"

section \<open>Stopping\<close>

datatype action =
    Drain | Stop_Http | Cancel_Tasks | Await_Tasks | Close_Hub | Close_Broker | Close_Presence
  | Close_Db | Flush_Traces

definition shutdown_order :: "action list" where
  "shutdown_order = [Drain, Stop_Http, Cancel_Tasks, Await_Tasks, Close_Hub, Close_Broker,
     Close_Presence, Close_Db, Flush_Traces]"

text \<open>
  What each action does to the process. \<open>failed\<close> is its error. \<open>http.Server.Shutdown\<close> always stops
  accepting, and has waited for the open requests exactly when it reports none.
\<close>

definition perform :: "(action \<Rightarrow> string option) \<Rightarrow> action \<Rightarrow> app \<Rightarrow> app" where
  "perform failed a p =
     (case a of
        Drain \<Rightarrow> p\<lparr>ap_node := (ap_node p)\<lparr>nd_draining := True\<rparr>\<rparr>
      | Stop_Http \<Rightarrow> p\<lparr>ap_accepting := False,
          ap_in_flight := (if failed Stop_Http = None then 0 else ap_in_flight p)\<rparr>
      | Cancel_Tasks \<Rightarrow> p
      | Await_Tasks \<Rightarrow> p\<lparr>ap_tasks := []\<rparr>
      | Close_Hub \<Rightarrow> p\<lparr>ap_node := (ap_node p)\<lparr>nd_hub := hub_close (nd_hub (ap_node p))\<rparr>\<rparr>
      | Close_Broker \<Rightarrow> p\<lparr>ap_broker_open := False\<rparr>
      | Close_Presence \<Rightarrow> p\<lparr>ap_presence_open := False\<rparr>
      | Close_Db \<Rightarrow> p\<lparr>ap_db_open := False\<rparr>
      | Flush_Traces \<Rightarrow> p\<lparr>ap_tracing := False\<rparr>)"

definition reports :: "action list" where
  "reports = [Stop_Http, Close_Broker, Close_Presence, Close_Db, Flush_Traces]"

text \<open>\<open>errors.Join\<close>: nil when every error is.\<close>

definition join_errors :: "string option list \<Rightarrow> string list option" where
  "join_errors es = (case List.map_filter id es of [] \<Rightarrow> None | xs \<Rightarrow> Some xs)"

definition shutdown :: "(action \<Rightarrow> string option) \<Rightarrow> app \<Rightarrow> string list option \<times> app" where
  "shutdown failed p =
     (join_errors (map failed reports), fold (perform failed) shutdown_order p)"

text \<open>The states the process is in while it stops, the first before any action.\<close>

definition shutdown_states :: "(action \<Rightarrow> string option) \<Rightarrow> app \<Rightarrow> app list" where
  "shutdown_states failed p = map (\<lambda>n. fold (perform failed) (take n shutdown_order) p) [0..<10]"

section \<open>What stopping keeps\<close>

text \<open>
  Nothing that works needs something that is closed: the database outlives the tasks, the requests
  that finished in time, and every part that delivers; and a node that takes no requests said so.
\<close>

definition stop_safe :: "bool \<Rightarrow> app \<Rightarrow> bool" where
  "stop_safe drained p \<longleftrightarrow>
     (\<not> ap_accepting p \<longrightarrow> nd_draining (ap_node p))
     \<and> (\<not> ap_db_open p \<longrightarrow> ap_tasks p = [] \<and> \<not> ap_accepting p \<and> h_done (nd_hub (ap_node p))
          \<and> (drained \<longrightarrow> ap_in_flight p = 0))
     \<and> (\<not> ap_broker_open p \<and> ap_has_broker p \<longrightarrow> ap_tasks p = [])
     \<and> (h_done (nd_hub (ap_node p)) \<longrightarrow> ap_tasks p = [] \<and> \<not> ap_accepting p)"

definition running_app :: "app \<Rightarrow> bool" where
  "running_app p \<longleftrightarrow> ap_accepting p \<and> ap_db_open p \<and> \<not> h_done (nd_hub (ap_node p))
     \<and> ap_broker_open p = ap_has_broker p \<and> RelayLoop \<in> set (ap_tasks p)"

lemma new_app_running: "new_app env limits migrated has_broker presence = Inr p \<Longrightarrow> running_app p"
  by (auto simp: new_app_def running_app_def new_node_def new_hub_def Let_def start_background_def
      split: if_splits sum.splits)

lemma shutdown_steps:
  "[0..<10] = [0, 1, 2, 3, 4, 5, 6, 7, 8, 9 :: nat]"
  by (simp add: upt_rec)

lemma shutdown_safe:
  assumes "running_app p" "s \<in> set (shutdown_states failed p)"
  shows "stop_safe (failed Stop_Http = None) s"
  using assms(2) assms(1)
  unfolding shutdown_states_def shutdown_steps
  by (auto simp: shutdown_order_def stop_safe_def running_app_def perform_def hub_close_def numeral_eq_Suc)

lemma shutdown_complete:
  "shutdown failed p = (e, p') \<Longrightarrow>
     \<not> ap_accepting p' \<and> ap_tasks p' = [] \<and> \<not> ap_broker_open p' \<and> \<not> ap_presence_open p'
     \<and> \<not> ap_db_open p' \<and> \<not> ap_tracing p' \<and> nd_draining (ap_node p') \<and> h_done (nd_hub (ap_node p'))
     \<and> nd_db (ap_node p') = nd_db (ap_node p)"
  by (auto simp: shutdown_def shutdown_order_def perform_def hub_close_def)

lemma shutdown_errors:
  "fst (shutdown failed p) = None \<longleftrightarrow> (\<forall>a \<in> set reports. failed a = None)"
  by (auto simp: shutdown_def join_errors_def reports_def map_filter_def split: list.splits)

text \<open>A draining node answers its readiness probe with 503 whatever the database says.\<close>

lemma draining_not_ready: "rs_status (readyz_handler True probe) = 503"
  by (simp add: readyz_handler_def)

text \<open>However the service answers, every tick until the end tells it the hub's users.\<close>

lemma run_presence_tells:
  "snd (run_presence beats c told) =
     told @ map (\<lambda>b. case b of Beat _ _ h coin \<Rightarrow> user_ids coin h | Cancelled \<Rightarrow> [])
       (takeWhile (\<lambda>b. b \<noteq> Cancelled) beats)"
  by (induction beats c told rule: run_presence.induct) (auto split: prod.split)

end
