(* ===== verification/Gap_Client.thy ===== *)
theory Gap_Client
  imports Rooms_Api Scenario
begin

text \<open>
  The other side of the gap read: how a client that lost its socket catches up, as
  \<open>cmd/gapcheck/main.go\<close> does it. It remembers the numbers it has seen, drops second copies, and
  follows \<open>next_after_seq\<close> page by page. The server it talks to is a parameter of the client's
  functions; the locale \<open>gap_source\<close> says what the client needs of it, and \<open>room_reader\<close> shows that
  the history route provides it.
\<close>

section \<open>What the client holds\<close>

datatype how = Live | Gap

record held =
  hd_seen :: "nat \<rightharpoonup> how"
  hd_duplicates :: nat

definition nothing_held :: held where
  "nothing_held = \<lparr>hd_seen = Map.empty, hd_duplicates = 0\<rparr>"

text \<open>The closure \<open>note\<close> of \<open>run\<close>: the second copy of a number is counted and dropped.\<close>

definition note_arrival :: "nat \<Rightarrow> how \<Rightarrow> held \<Rightarrow> held" where
  "note_arrival n w h =
     (if hd_seen h n \<noteq> None then h\<lparr>hd_duplicates := hd_duplicates h + 1\<rparr>
      else h\<lparr>hd_seen := (hd_seen h)(n \<mapsto> w)\<rparr>)"

definition note_all :: "nat list \<Rightarrow> how \<Rightarrow> held \<Rightarrow> held" where
  "note_all ns w h = fold (\<lambda>n. note_arrival n w) ns h"

definition highest :: "nat list \<Rightarrow> nat" where
  "highest ns = fold (\<lambda>s top. if s > top then s else top) ns 0"

section \<open>Requests\<close>

text \<open>One answer of \<open>do\<close>: the decoded body, a 429 with its wait, or another error.\<close>

datatype 'a answer = Body 'a | Limited duration | Failed string

definition retry_after_header :: "string \<Rightarrow> duration" where
  "retry_after_header raw =
     (case atoi raw of None \<Rightarrow> second | Some secs \<Rightarrow> if secs > 0 then secs * second else second)"

text \<open>\<open>send\<close>: five attempts; \<open>post\<close> gives each attempt's answer, the number the server gave.\<close>

fun send_loop :: "(nat \<Rightarrow> nat answer) \<Rightarrow> nat \<Rightarrow> nat \<Rightarrow> string + nat" where
  "send_loop post k 0 = Inl ''unreachable''"
| "send_loop post k (Suc left) =
     (case post k of
        Failed e \<Rightarrow> Inl e
      | Body n \<Rightarrow>
          if n = 0 then Inl ''the server returned no seq'' else Inr n
      | Limited _ \<Rightarrow> if k = 4 then Inl ''rate limited'' else send_loop post (k + 1) left)"

definition client_send :: "(nat \<Rightarrow> nat answer) \<Rightarrow> string + nat" where
  "client_send post = send_loop post 0 5"

text \<open>
  \<open>fetchGap\<close>: at most a hundred pages, the next one after the last number of a full one. The
  error after the last page comes with what was fetched.
\<close>

record seq_page =
  sp_seqs :: "nat list"
  sp_next :: "nat option"

datatype gap_end = Complete | Request_Failed | Never_Ended

fun gap_loop :: "(nat \<Rightarrow> seq_page option) \<Rightarrow> nat \<Rightarrow> nat \<Rightarrow> nat list \<Rightarrow> nat list \<times> gap_end" where
  "gap_loop get 0 cursor out = (out, Never_Ended)"
| "gap_loop get (Suc left) cursor out =
     (case get cursor of
        None \<Rightarrow> ([], Request_Failed)
      | Some p \<Rightarrow>
          (case sp_next p of
             None \<Rightarrow> (out @ sp_seqs p, Complete)
           | Some next \<Rightarrow> gap_loop get left next (out @ sp_seqs p)))"

definition fetch_gap :: "(nat \<Rightarrow> seq_page option) \<Rightarrow> nat \<Rightarrow> nat list \<times> gap_end" where
  "fetch_gap get after = gap_loop get 100 after []"

definition pick_lower :: "held \<Rightarrow> nat \<Rightarrow> nat \<Rightarrow> nat" where
  "pick_lower h n low = (if hd_seen h n = None \<and> (low = 0 \<or> n < low) then n else low)"

definition lowest_missing :: "nat list \<Rightarrow> held \<Rightarrow> nat" where
  "lowest_missing ns h = fold (pick_lower h) ns 0"

text \<open>\<open>fillFromGap\<close>, with the number of arrivals it added.\<close>

definition fill_from_gap :: "(nat \<Rightarrow> seq_page option) \<Rightarrow> nat list \<Rightarrow> held \<Rightarrow> nat \<times> held" where
  "fill_from_gap get ns h =
     (let low = lowest_missing ns h
      in if low = 0 then (0, h)
         else case fetch_gap get (low - 1) of
           (got, Complete) \<Rightarrow>
             (let h' = note_all got Gap h
              in (length (filter (\<lambda>n. hd_seen h n = None) (remdups got)), h'))
         | _ \<Rightarrow> (0, h))"

text \<open>\<open>report\<close>: seen live, recovered, missing.\<close>

definition report :: "nat list \<Rightarrow> held \<Rightarrow> nat \<times> nat \<times> nat list" where
  "report ns h =
     (length (filter (\<lambda>n. hd_seen h n = Some Live) ns),
      length (filter (\<lambda>n. hd_seen h n = Some Gap) ns),
      filter (\<lambda>n. hd_seen h n = None) ns)"

section \<open>What the client needs of the server\<close>

text \<open>
  A page after a cursor holds the numbers that follow it, up to the last one of the room, and a
  full page names its last number.
\<close>

locale gap_source =
  fixes get :: "nat \<Rightarrow> seq_page option" and per :: nat and top :: nat
  assumes page: "cursor \<le> top \<Longrightarrow> get cursor = Some \<lparr>sp_seqs = [Suc cursor..<Suc (min top (cursor + per))],
      sp_next = (if cursor + per \<le> top then Some (cursor + per) else None)\<rparr>"
begin

lemma upt_join: "m \<le> n \<Longrightarrow> n \<le> k \<Longrightarrow> [Suc m..<Suc n] @ [Suc n..<Suc k] = [Suc m..<Suc k]"
  by (metis Suc_le_mono le_add_diff_inverse upt_add_eq_append)

lemma loop_complete:
  "cursor \<le> top \<Longrightarrow> top < cursor + Suc pages * per \<Longrightarrow>
     gap_loop get (Suc pages) cursor out = (out @ [Suc cursor..<Suc top], Complete)"
proof (induction pages arbitrary: cursor out)
  case 0
  then show ?case by (simp add: page)
next
  case (Suc pages)
  show ?case
  proof (cases "cursor + per \<le> top")
    case True
    have next_page: "gap_loop get (Suc (Suc pages)) cursor out =
        gap_loop get (Suc pages) (cursor + per) (out @ [Suc cursor..<Suc (cursor + per)])"
      unfolding gap_loop.simps(2) [of get "Suc pages"] using Suc.prems(1) True by (simp add: page min_absorb2)
    have "top < (cursor + per) + Suc pages * per" using Suc.prems(2) by simp
    from Suc.IH [OF True this] next_page upt_join [of cursor "cursor + per" top] True
    show ?thesis by simp
  next
    case False
    with Suc.prems(1) show ?thesis by (simp add: page min_absorb1)
  qed
qed

lemma loop_gives_up:
  "cursor + pages * per \<le> top \<Longrightarrow>
     gap_loop get pages cursor out = (out @ [Suc cursor..<Suc (cursor + pages * per)], Never_Ended)"
proof (induction pages arbitrary: cursor out)
  case (Suc pages)
  then have le: "cursor + per \<le> top" "(cursor + per) + pages * per \<le> top" by simp_all
  have "gap_loop get (Suc pages) cursor out =
      gap_loop get pages (cursor + per) (out @ [Suc cursor..<Suc (cursor + per)])"
    using le(1) by (simp add: page min_absorb2)
  also have "\<dots> = (out @ [Suc cursor..<Suc (cursor + per)] @ [Suc (cursor + per)..<Suc ((cursor + per) + pages * per)],
      Never_Ended)"
    using Suc.IH [OF le(2)] by simp
  finally show ?case using upt_join [of cursor "cursor + per" "(cursor + per) + pages * per"]
    by (simp add: add.assoc)
qed simp

lemma fetched:
  assumes "cursor \<le> top" "top < cursor + 100 * per"
  shows "fetch_gap get cursor = ([Suc cursor..<Suc top], Complete)"
proof -
  have "(100 :: nat) = Suc 99" by simp
  then show ?thesis
    using loop_complete [of cursor 99 "[]"] assms unfolding fetch_gap_def by simp
qed

end

section \<open>The history route provides it\<close>

definition gap_request :: "http_request \<Rightarrow> nat \<Rightarrow> nat \<Rightarrow> http_request" where
  "gap_request rq conv cursor = rq\<lparr>rq_id_param := format_uint conv,
     rq_query := (\<lambda>k. if k = ''after_seq'' then format_uint cursor else if k = ''limit'' then ''100'' else [])\<rparr>"

definition ask_page :: "db \<Rightarrow> nat \<times> string \<Rightarrow> http_request \<Rightarrow> nat \<Rightarrow> nat \<Rightarrow> seq_page option" where
  "ask_page d who rq conv cursor =
     (let r = fst (list_messages_handler who (gap_request rq conv cursor) d)
      in if rs_status r \<ge> 300 then None
         else case rs_body r of
           Page p \<Rightarrow> Some \<lparr>sp_seqs = map md_seq (pg_messages p), sp_next = pg_next_after_seq p\<rparr>
         | _ \<Rightarrow> None)"

locale room_reader =
  fixes d :: db and c :: conversation and who :: "nat \<times> string" and rq :: http_request
  assumes state: "db_reachable d" "faults d = []" and room: "c \<in> set (conversations (tbl d))"
    and inside: "is_member (tbl d) (c_id c) (fst who)"
    and width: "0 < c_id c" "c_id c < 2 ^ 64" "c_last_seq c < 2 ^ 64"
begin

lemma page_params_read:
  assumes "cursor \<le> c_last_seq c"
  shows "page_params (rq_query (gap_request rq (c_id c) cursor)) =
    Inr \<lparr>pq_before_id = 0, pq_after_seq = cursor, pq_gap = True, pq_limit = 100\<rparr>"
proof -
  have "atoi ''100'' = Some 100" by (simp add: atoi_def digit_val_def)
  then have "limit_param ''100'' = Inr 100" by (simp add: limit_param_def max_page_size_def)
  moreover have "parse_uint (format_uint cursor) = Some cursor"
    using assms width(3) by (intro parse_format_uint) simp
  ultimately show ?thesis by (simp add: gap_request_def page_params_def Let_def cursor_param_def)
qed

lemma gate_passed:
  "member_only (rq_id_param (gap_request rq (c_id c) cursor)) (fst who) d = (Inr (c_id c), d)"
  using inside width ensure_member_ok [OF state(2)]
  by (simp add: member_only_def gap_request_def parse_format_uint)

lemma page_read:
  assumes "cursor \<le> c_last_seq c"
  shows "ask_page d who rq (c_id c) cursor =
    Some \<lparr>sp_seqs = [Suc cursor..<Suc (min (c_last_seq c) (cursor + 100))],
      sp_next = (if cursor + 100 \<le> c_last_seq c then Some (cursor + 100) else None)\<rparr>"
proof -
  from list_after_ok [OF state(2), of "c_id c" cursor 100] obtain rows where
    rows: "list_messages_after_seq (c_id c) cursor 100 d = (Inr rows, d)"
    "map fst rows = gap_page (c_id c) cursor 100 (tbl d)" by blast
  let ?ns = "[Suc cursor..<Suc (min (c_last_seq c) (cursor + 100))]"
  have ns: "map (\<lambda>r. m_seq (fst r)) rows = ?ns"
    using gap_page_exact [OF db_reachable_ok [OF state(1)] room, of cursor 100] rows(2)
    by (metis (no_types, lifting) list.map_comp comp_def map_eq_conv)
  then have len: "length rows = min (c_last_seq c) (cursor + 100) - cursor"
    by (metis length_map length_upt diff_Suc_Suc)
  have seqs: "map md_seq (map to_message_dto rows) = ?ns"
    using ns by (simp add: to_message_dto_def comp_def case_prod_unfold)
  have last: "m_seq (fst (last rows)) = cursor + 100" if "cursor + 100 \<le> c_last_seq c"
  proof -
    have "rows \<noteq> []" using len that by auto
    then have "m_seq (fst (last rows)) = last (map (\<lambda>r. m_seq (fst r)) rows)" by (simp add: last_map)
    also have "\<dots> = cursor + 100" unfolding ns using that by simp
    finally show ?thesis .
  qed
  have full: "length rows = 100 \<longleftrightarrow> cursor + 100 \<le> c_last_seq c" using len assms by auto
  show ?thesis
    unfolding ask_page_def list_messages_handler_def in_the_room_def gate_passed
    using rows(1) seqs last full
    by (simp add: page_params_read [OF assms] list_gap_def attempt_def reply_def Let_def)
qed

end

sublocale room_reader \<subseteq> gap: gap_source "ask_page d who rq (c_id c)" 100 "c_last_seq c"
  by unfold_locales (rule page_read)

definition plain_request :: http_request where
  "plain_request = \<lparr>rq_method = ''GET'', rq_path = ''/'', rq_id_param = [], rq_query = (\<lambda>_. []),
     rq_header = (\<lambda>_. []), rq_cookie = None, rq_body = None, rq_ip = ''127.0.0.1''\<rparr>"

lemma bob_inside: "is_member (tbl two_sent) 1 2" "tea 2 \<in> set (conversations (tbl two_sent))" "faults two_sent = []"
  by (simp_all add: two_sent_eq tea_db_def is_member_def has_member_def live_conversations_def tea_def
      room_row_def member_row_def)

interpretation bob: room_reader two_sent "tea 2" "(2, ''bob'')" plain_request
  by unfold_locales (use two_reachable bob_inside in \<open>simp_all add: tea_def room_row_def\<close>)

section \<open>Nothing stays missing\<close>

lemma note_all_seen:
  "hd_seen (note_all ns w h) n =
     (if hd_seen h n \<noteq> None then hd_seen h n else if n \<in> set ns then Some w else None)"
  unfolding note_all_def by (induction ns arbitrary: h) (auto simp: note_arrival_def)

lemma lowest_bounds:
  assumes "0 \<notin> set ns" "low' = fold (pick_lower h) ns low"
  shows "(low \<noteq> 0 \<longrightarrow> low' \<noteq> 0 \<and> low' \<le> low) \<and> (low' = low \<or> low' \<in> set ns)
    \<and> (\<forall>n \<in> set ns. hd_seen h n = None \<longrightarrow> low' \<noteq> 0 \<and> low' \<le> n)"
  using assms
proof (induction ns arbitrary: low)
  case (Cons n ns)
  let ?one = "pick_lower h n low"
  have low': "low' = fold (pick_lower h) ns ?one" using Cons.prems(2) by simp
  have one: "hd_seen h n = None \<Longrightarrow> ?one \<noteq> 0 \<and> ?one \<le> n" "low \<noteq> 0 \<Longrightarrow> ?one \<noteq> 0 \<and> ?one \<le> low"
    "?one = low \<or> ?one = n"
    using Cons.prems(1) by (auto simp: pick_lower_def)
  have ih: "(?one \<noteq> 0 \<longrightarrow> low' \<noteq> 0 \<and> low' \<le> ?one) \<and> (low' = ?one \<or> low' \<in> set ns)
    \<and> (\<forall>n \<in> set ns. hd_seen h n = None \<longrightarrow> low' \<noteq> 0 \<and> low' \<le> n)"
    using Cons.IH [OF _ low'] Cons.prems(1) by simp
  show ?case
  proof (intro conjI impI ballI)
    fix m assume m: "m \<in> set (n # ns)" "hd_seen h m = None"
    show "low' \<noteq> 0" "low' \<le> m" using m ih one(1) by (auto intro: order_trans)
  next
    assume "low \<noteq> 0"
    then show "low' \<noteq> 0" "low' \<le> low" using ih one(2) by (auto intro: order_trans)
  next
    show "low' = low \<or> low' \<in> set (n # ns)" using ih one(3) by auto
  qed
qed simp

text \<open>After the second gap read the report has nothing to report.\<close>

lemma filled_nothing_missing:
  assumes gap: "gap_source get 100 newest" and sent: "\<And>n. n \<in> set ns \<Longrightarrow> 1 \<le> n \<and> n \<le> newest" "newest < 10000"
  shows "snd (snd (report ns (snd (fill_from_gap get ns h)))) = []"
proof -
  define low where "low = lowest_missing ns h"
  have zero: "0 \<notin> set ns" using sent(1) by force
  note low = lowest_bounds [OF zero low_def [unfolded lowest_missing_def]]
  show ?thesis
  proof (cases "low = 0")
    case True
    with low show ?thesis by (auto simp: fill_from_gap_def report_def low_def filter_empty_conv)
  next
    case False
    with low have "low \<in> set ns" by auto
    with sent(1) have "low \<le> newest" by blast
    then have le: "low - 1 \<le> newest" "newest < (low - 1) + 100 * 100" using sent(2) by simp_all
    from gap_source.fetched [OF gap le] have
      got: "fetch_gap get (low - 1) = ([Suc (low - 1)..<Suc newest], Complete)" .
    then have "snd (fill_from_gap get ns h) = note_all [Suc (low - 1)..<Suc newest] Gap h"
      using False by (simp add: fill_from_gap_def low_def Let_def)
    moreover have "n \<in> set [Suc (low - 1)..<Suc newest]" if "n \<in> set ns" "hd_seen h n = None" for n
      using that low sent(1) [OF that(1)] by force
    ultimately show ?thesis by (auto simp: report_def filter_empty_conv note_all_seen)
  qed
qed

end
