(* ===== verification/Api_Scenario.thy ===== *)
theory Api_Scenario
  imports Lifecycle Gap_Client Relay_Local
begin

text \<open>
  A node with Ann, Bob and Eve's room, a small signing library that knows Ann's tokens, and the
  requests the examples of the root theory send.
\<close>

definition demo_env :: auth_env where
  "demo_env = \<lparr>ae_jwt_key = ''key'', ae_token_ttl = 15 * minute, ae_dummy_hash = ''none'', ae_app_env = ''local''\<rparr>"

text \<open>The tokens the library can sign: Ann's at the epoch and one minute later.\<close>

definition demo_tokens :: "(claims \<times> string) list" where
  "demo_tokens = [(access_claims demo_env 0 1 ''ann'', ''ann-0''),
     (access_claims demo_env minute 1 ''ann'', ''ann-60'')]"

definition demo_library :: library where
  "demo_library =
     \<lparr>generate = (\<lambda>p. if 72 < length p then None else Some (''h'' @ p)),
      matches = (\<lambda>h p. h = ''h1'' \<and> p = ''tea-time!'' \<or> h = ''h'' @ p),
      sign = (\<lambda>key alg c. if key = ''key'' \<and> alg = hs256 then map_of demo_tokens c else None),
      verify = (\<lambda>key algs req now tok.
        if key = ''key'' \<and> hs256 \<in> set algs
        then (case find (\<lambda>(c, t). t = tok) demo_tokens of
                None \<Rightarrow> None | Some (c, t) \<Rightarrow> if has_expired now c then None else Some c)
        else None)\<rparr>"

lemma demo_claims_differ: "access_claims demo_env 0 1 ''ann'' \<noteq> access_claims demo_env minute 1 ''ann''"
  by (simp add: access_claims_def numeric_date_def demo_env_def)

lemma demo_jwt: "jwt_law demo_library"
  using demo_claims_differ
  by (auto simp: jwt_law_def demo_library_def demo_tokens_def split: if_splits option.splits)

lemma demo_bcrypt: "bcrypt_law demo_library"
  by (simp add: bcrypt_law_def demo_library_def)

definition demo_node :: node where
  "demo_node = new_node \<lparr>rl_auth_rps = 0, rl_auth_burst = 0, rl_api_rps = 0, rl_api_burst = 0\<rparr>
     two_sent new_hub None"

definition demo_outside :: surroundings where
  "demo_outside = \<lparr>x_now = 0, x_drawn_id = ''12345678'', x_drawn_token = None, x_carrier = [],
     x_presence = (\<lambda>_. \<lparr>a_result = Inl GrpcUnavailable, a_at = 0, a_jitter = 0, a_interrupted = False, a_woken = 0\<rparr>),
     x_gone = False, x_coin = False, x_handshake = True, x_socket = 1, x_probe = Inl ''refused'',
     x_check = Inl GrpcUnavailable, x_nats = None, x_cors = None, x_write_panic = None\<rparr>"

text \<open>Somebody without a token asks for the messages of room 1.\<close>

definition anonymous_read :: http_request where
  "anonymous_read = plain_request\<lparr>rq_path := ''/conversations/1/messages'', rq_id_param := ''1''\<rparr>"

lemma split_path:
  "split_on (CHR ''/'') ''/conversations/1/messages'' = [[], ''conversations'', ''1'', ''messages'']"
  by simp

lemma anonymous_route: "find_route anonymous_read = Some (''/conversations/:id/messages'', ListMessages)"
  by (simp add: find_route_def anonymous_read_def plain_request_def route_table_def)

lemma anonymous_refused: "auth_middleware lib env now anonymous_read = Inl (refuse 401 ''Missing token'')"
  by (simp add: auth_middleware_def anonymous_read_def plain_request_def bearer_token_def fields.simps)

text \<open>Eve, who is not in the room, asks for it.\<close>

lemma eve_outside: "outsider (tbl (nd_db demo_node)) (3, ''eve'') anonymous_read"
  by (auto simp: outsider_def demo_node_def new_node_def Let_def two_sent_eq tea_db_def is_member_def
      has_member_def member_row_def)

lemma demo_quiet: "faults (nd_db demo_node) = []" "db_reachable (nd_db demo_node)"
  by (simp_all add: demo_node_def new_node_def Let_def two_reachable) (simp add: two_sent_eq tea_db_def)

section \<open>Ann logs in\<close>

definition drawn :: bytes where
  "drawn = replicate 32 (CHR ''x'')"

definition ann_login :: http_request where
  "ann_login = plain_request\<lparr>rq_method := ''POST'', rq_path := ''/login'',
     rq_body := Some (JObj [(''username'', JStr ''ann''), (''password'', JStr ''tea-time!'')])\<rparr>"

lemma ann_runes: "rune_count ''ann'' = 3" "rune_count ''tea-time!'' = 9"
  by (simp_all add: rune_count_def)

lemma ann_bound: "bind_credentials (rq_body ann_login) = Some \<lparr>cr_username = ''ann'', cr_password = ''tea-time!''\<rparr>"
  by (simp add: ann_login_def plain_request_def bind_credentials_def decode_struct_def validated_def
      runes_within_def ann_runes equal_fold_def to_lower_def lower_char_def)

definition ann_row :: user where
  "ann_row = user_row 0 1 ''ann'' ''h1''"

definition ann_session :: refresh_token where
  "ann_session = token_row 0 1 1 (hash_refresh_token (b64_encode drawn)) refresh_ttl"

definition logged_in :: db where
  "logged_in = two_sent\<lparr>tbl := (tbl two_sent)\<lparr>tokens := [ann_session]\<rparr>,
     seqs := (seqs two_sent)\<lparr>next_token := 2\<rparr>\<rparr>"

lemma drawn_32: "take 32 drawn = drawn" "length drawn = 32"
  by (simp_all add: drawn_def)

lemma ann_found: "get_user_by_username ''ann'' two_sent = (Inr ann_row, two_sent)"
  by (simp add: get_user_by_username_def on_ok_def return_def two_sent_eq tea_db_def first_by_def
      live_users_def tea_users_def user_row_def ann_row_def)

lemma ann_signed: "sign_access_token demo_library demo_env 0 1 ''ann'' = Some ''ann-0''"
  "sign_access_token demo_library demo_env minute 1 ''ann'' = Some ''ann-60''"
  using demo_claims_differ
  by (simp_all add: sign_access_token_def demo_library_def demo_tokens_def demo_env_def)

lemma purge_nothing: "purge_expired_refresh_tokens 0 1 two_sent = (Inr (), two_sent)"
  by (simp add: purge_expired_refresh_tokens_def on_ok_def return_def two_sent_eq tea_db_def)

lemma session_created:
  "create_refresh_token 0 1 (hash_refresh_token (b64_encode drawn)) refresh_ttl two_sent = (Inr ann_session, logged_in)"
  by (simp add: create_refresh_token_def on_ok_def return_def insert_token_def Let_def logged_in_def two_sent_eq
      tea_db_def tea_users_def user_row_def ann_session_def)

lemma ann_logs_in:
  "login_handler demo_library demo_env 0 (Some drawn) ann_login two_sent =
     (with_cookie (set_refresh_cookie demo_env (b64_encode drawn))
        (respond 200 (Token ''ann-0'' (expires_in demo_env))), logged_in)"
proof -
  have row: "u_id ann_row = 1" "u_username ann_row = ''ann''" "u_password_hash ann_row = ''h1''"
    by (simp_all add: ann_row_def user_row_def)
  have right: "matches demo_library ''h1'' ''tea-time!''" by (simp add: demo_library_def)
  show ?thesis
    using ann_bound
    by (simp add: login_handler_def attempt_def ann_found login_as_def row right ann_signed
        issue_refresh_session_def new_refresh_token_def Let_def refresh_token_bytes_def drawn_32 purge_nothing
        session_created reply_def del: One_nat_def)
qed

definition ann_returns :: http_request where
  "ann_returns = plain_request\<lparr>rq_cookie := Some (b64_encode drawn)\<rparr>"

section \<open>Ann says hi\<close>

definition ann_sends :: http_request where
  "ann_sends = plain_request\<lparr>rq_method := ''POST'', rq_path := ''/conversations/1/messages'', rq_id_param := ''1'',
     rq_body := Some (JObj [(''content'', JStr ''hi''), (''client_msg_id'', JStr ''k1'')])\<rparr>"

lemma ann_in_room: "member_only ''1'' 1 room_open = (Inr 1, room_open)"
proof -
  have one: "parse_uint ''1'' = Some 1" using parse_format_uint [of 1] by (simp add: small_numbers)
  have "faults room_open = []" "is_member (tbl room_open) 1 1"
    by (simp_all add: room_open_eq tea_db_def is_member_def has_member_def live_conversations_def tea_def
        room_row_def member_row_def)
  then show ?thesis using one ensure_member_ok [of room_open 1 1]
    by (simp add: member_only_def)
qed

lemma ann_sends_bound:
  "bind_send_message (rq_body ann_sends) = Some \<lparr>sq_content = ''hi'', sq_client_msg_id = ''k1''\<rparr>"
  by (simp add: ann_sends_def plain_request_def bind_send_message_def decode_struct_def validated_def
      runes_within_def rune_count_def equal_fold_def to_lower_def lower_char_def)

lemma hi_created: "create_message 0 1 1 ''ann'' ''hi'' (Some ''k1'') [] room_open = (Inr (hi_message, True), one_sent)"
proof -
  have "message_row 0 1 1 1 (Some ''k1'') 1 ''hi'' = hi_message" by (simp add: hi_message_def)
  then show ?thesis
    by (simp add: one_sent_def room_open_eq tea_db_def tea_def room_row_def send_eval short_key
        tea_users_def user_row_def hi_encoded hi_row_def)
qed

lemma ann_sent:
  "send_message_handler 0 (1, ''ann'') [] ann_sends room_open =
     (respond 201 (MessageBody (sent_dto hi_message ''ann'')), one_sent)"
proof -
  have "rq_id_param ann_sends = ''1''" by (simp add: ann_sends_def)
  then show ?thesis
    using ann_sends_bound ann_in_room hi_created
    by (simp add: send_message_handler_def in_the_room_def attempt_def reply_def del: One_nat_def)
qed

lemma ann_parsed: "parse_access_token demo_library demo_env 0 ''ann-0'' = Some (access_claims demo_env 0 1 ''ann'')"
  using token_life [OF demo_jwt ann_signed(1), of 0] by (simp add: numeric_date_def demo_env_def)

text \<open>The same through the whole chain, on a node whose limiters nobody has used.\<close>

definition ann_posts :: http_request where
  "ann_posts = ann_sends\<lparr>rq_header := (\<lambda>_. ''Bearer ann-0'')\<rparr>"

definition room_node :: node where
  "room_node = demo_node\<lparr>nd_db := room_open\<rparr>"

lemma ann_posts_sends: "send_message_handler now who carrier ann_posts = send_message_handler now who carrier ann_sends"
  by (simp add: ann_posts_def send_message_handler_def in_the_room_def fun_eq_iff)

lemma ann_posts_route: "find_route ann_posts = Some (''/conversations/:id/messages'', SendMessage)"
  by (simp add: find_route_def ann_posts_def ann_sends_def plain_request_def route_table_def)

lemma ann_posts_who: "auth_middleware demo_library demo_env 0 ann_posts = Inr (1, ''ann'')"
  using ann_parsed bearer_prefix [of "''ann-0''"]
  by (simp add: auth_middleware_def ann_posts_def access_claims_def is_space_def)

lemma room_node_passes: "\<exists>l. rate_limit 0 key (nd_api room_node) = (Inr (), l)"
  by (simp add: room_node_def demo_node_def new_node_def Let_def or_defaults_def default_api_rps_def
      default_api_burst_def new_rate_limiter_def rate_limit_def limiter_allow_def limiter_sweep_def refill_def)

lemma ann_posted: "nd_db (snd (serve demo_library demo_env demo_outside ann_posts room_node)) = one_sent"
proof -
  obtain l where l: "rate_limit 0 (user_key 1 (rq_ip ann_posts)) (nd_api room_node) = (Inr (), l)"
    using room_node_passes by blast
  have db: "nd_db (room_node\<lparr>nd_api := l\<rparr>) = room_open" by (simp add: room_node_def)
  have "x_now demo_outside = 0" "x_carrier demo_outside = []" "x_cors demo_outside = None" by (simp_all add: demo_outside_def)
  then show ?thesis
    using l db ann_posts_who
    by (simp add: serve_def Let_def ann_posts_route serve_route_def guard_of_def count_api_def run_route_def
        at_db_def current_user_def ann_posts_sends ann_sent del: One_nat_def)
qed

section \<open>Two callers\<close>

definition two_callers :: "(time \<times> string) list" where
  "two_callers = [(0, ''ip:a''), (0, ''ip:b''), (1, ''ip:a''), (second, ''ip:a'')]"

section \<open>Ann connects, and a node starts\<close>

definition ann_connects :: http_request where
  "ann_connects = plain_request\<lparr>rq_path := ''/ws'',
     rq_query := (\<lambda>k. if k = ''token'' then ''ann-0'' else [])\<rparr>"

definition ann_socket :: socket where
  "ann_socket = \<lparr>sk_user = 1, sk_expires_at = 15 * minute, sk_send = [], sk_closed = False\<rparr>"

lemma ann_connected:
  "ws_handler demo_library demo_env 0 True True 1 ann_connects new_hub =
     (Connected (fresh_conn [Text (hello_frame 1)]), hub_add 1 ann_socket new_hub)"
proof -
  have "ws_access_token ann_connects = Some ''ann-0''"
    by (simp add: ws_access_token_def ann_connects_def plain_request_def bearer_token_def fields.simps)
  moreover have "check_origin ann_connects" by (simp add: check_origin_def ann_connects_def plain_request_def)
  moreover have "cl_expires_at (access_claims demo_env 0 1 ''ann'') = Some (15 * minute)"
    "cl_user_id (access_claims demo_env 0 1 ''ann'') = 1"
    by (simp_all add: access_claims_def numeric_date_def demo_env_def)
  ultimately show ?thesis
    by (simp add: ws_handler_def ann_parsed add_conn_def new_hub_def ann_socket_def del: One_nat_def)
qed

definition demo_app :: app where
  "demo_app = \<lparr>ap_port = 8080, ap_node = demo_node, ap_to = Stream_Publisher, ap_has_broker = True,
     ap_accepting = True, ap_in_flight = 1, ap_tasks = start_background True False, ap_broker_open = True,
     ap_presence_open = False, ap_db_open = True, ap_tracing = True\<rparr>"

lemma demo_started:
  "new_app (\<lambda>v. if v = ''JWT_SECRET'' then ''key'' else []) \<lparr>rl_auth_rps = 0, rl_auth_burst = 0, rl_api_rps = 0, rl_api_burst = 0\<rparr>
     (Inr two_sent) True None = Inr (demo_app\<lparr>ap_in_flight := 0\<rparr>)"
  by (simp add: new_app_def demo_app_def demo_node_def listen_port_def destination_of_def atoi_def default_port_def)

definition one_node :: single_node where
  "one_node = \<lparr>w_db = one_sent, w_lock = None, pushed = [],
     metrics = \<lparr>unread_applied = 0, unread_duplicates = 0\<rparr>\<rparr>"

end
