(* ===== verification/End_To_End.thy ===== *)
theory End_To_End
  imports Relay_Local Ws_Api Rooms_Api
begin

text \<open>
  A message from the request that stores it to the sockets of the room, on one node: the handler of
  \<open>conversations.go\<close>, the relay and its local publisher, \<open>deliverMessage\<close> of \<open>ws.go\<close> and the hub,
  put together. The lemmas follow whom a drain pushes an event to.
\<close>

section \<open>Whom a push is for\<close>

definition ids_in :: "conversation_member list \<Rightarrow> nat \<Rightarrow> nat list" where
  "ids_in ms conv = map cm_user_id (filter (\<lambda>m. cm_conversation_id m = conv) ms)"

text \<open>Every push so far was for the members \<open>ms\<close> of the room of its event.\<close>

definition pushes_fit :: "conversation_member list \<Rightarrow> single_node \<Rightarrow> bool" where
  "pushes_fit ms w \<longleftrightarrow> members (tbl (w_db w)) = ms
     \<and> (\<forall>p \<in> set (pushed w). snd p = ids_in ms (mc_conversation_id (fst p)))"

definition keeps_members :: "(db \<Rightarrow> 'a \<times> db) \<Rightarrow> bool" where
  "keeps_members f \<longleftrightarrow> (\<forall>d r d'. f d = (r, d') \<longrightarrow> members (tbl d') = members (tbl d))"

lemma on_db_fits: "pushes_fit ms w \<Longrightarrow> keeps_members f \<Longrightarrow> on_db f w = (r, w') \<Longrightarrow> pushes_fit ms w'"
  by (auto simp: pushes_fit_def keeps_members_def on_db_eq)

lemma reads_keeps_members: "reads f \<Longrightarrow> keeps_members f"
  by (auto simp: keeps_members_def dest: readsD)

lemma marks_keep_members:
  "keeps_members (mark_outbox_published now ids)" "keeps_members (mark_outbox_failed i reason)"
  unfolding keeps_members_def by (auto dest!: mark_published_effect mark_failed_effect)

lemma fetch_fits:
  "pushes_fit ms w \<Longrightarrow> s_fetch (db_store f c) n w = (r, w') \<Longrightarrow> pushes_fit ms w'"
  using on_db_fits reads_keeps_members outbox_reads(1) by (fastforce simp: db_store_def)

lemma mark_fits:
  "pushes_fit ms w \<Longrightarrow> s_mark_published (db_store f c) now ids w = (r, w') \<Longrightarrow> pushes_fit ms w'"
  using on_db_fits marks_keep_members(1) by (fastforce simp: db_store_def)

lemma note_fits: "pushes_fit ms w \<Longrightarrow> pushes_fit ms (relay_note (db_store f c) i reason w)"
  using on_db_fits [OF _ marks_keep_members(2) surjective_pairing, of ms w i reason]
  by (simp add: relay_note_def db_store_def)

lemma member_ids_exact:
  assumes "list_conversation_member_ids conv d = (Inr us, d')"
  shows "us = ids_in (members (tbl d)) conv"
  using assms unfolding list_conversation_member_ids_def ids_in_def
  by (auto simp: return_def elim!: on_ok_cases dest!: select_Inr)

lemma members_fits:
  assumes "pushes_fit ms w" "s_member_ids (db_store f c) conv w = (r, w')"
  shows "pushes_fit ms w' \<and> (\<forall>us. r = Inr us \<longrightarrow> us = ids_in ms conv)"
proof -
  have run: "on_db (list_conversation_member_ids conv) w = (r, w')"
    using assms(2) by (simp add: db_store_def)
  from on_db_fits [OF assms(1) reads_keeps_members [OF member_ids_reads] run] run
  show ?thesis using assms(1) by (auto simp: on_db_eq pushes_fit_def dest!: member_ids_exact)
qed

lemma publish_fits:
  assumes "pushes_fit ms w" "us = ids_in ms (mc_conversation_id ev)" "node_publish now i ev us w = (r, w')"
  shows "pushes_fit ms w'"
proof -
  have same: "members (tbl d) = members (tbl (w_db w))"
    if "apply_unread now (mc_message_id ev) (mc_conversation_id ev) (mc_sender_id ev) (mc_seq ev) (w_db w) = (x, d)" for x d
    using apply_unread_cases [OF that] by auto
  from assms(3) show ?thesis
  proof (cases rule: node_publish_cases)
    case (failed e d m)
    with same [OF failed(1)] assms(1) show ?thesis by (simp add: pushes_fit_def)
  next
    case (handed_on x d m)
    with same [OF handed_on(1)] assms(1,2) show ?thesis by (auto simp: pushes_fit_def)
  qed
qed

lemma drain_rows_fits:
  "drain_rows now (db_store f c) node_publish rows acc (r, w) = (acc', r', w') \<Longrightarrow> pushes_fit ms w \<Longrightarrow>
     pushes_fit ms w'"
proof (induction rows arbitrary: acc r w)
  case (Cons row rows)
  show ?case
  proof (cases "decode_event (o_payload row)")
    case (Inl err)
    with Cons.IH Cons.prems note_fits show ?thesis by simp
  next
    case (Inr ev)
    obtain res w1 where m: "s_member_ids (db_store f c) (mc_conversation_id ev) w = (res, w1)" by fastforce
    note w1 = members_fits [OF Cons.prems(2) m]
    show ?thesis
    proof (cases res)
      case (Inl e)
      with Cons.prems(1) m w1 \<open>decode_event (o_payload row) = Inr ev\<close> note_fits show ?thesis by auto
    next
      case (Inr us)
      obtain res2 w2 where p: "node_publish now (o_id row) ev us w1 = (res2, w2)" by fastforce
      have w2: "pushes_fit ms w2" using publish_fits [OF _ _ p] w1 Inr by blast
      show ?thesis
        by (cases res2)
          (use Cons.prems(1) Cons.IH m Inr p w2 note_fits \<open>decode_event (o_payload row) = Inr ev\<close> in auto)
    qed
  qed
qed simp

lemma drain_fits:
  assumes "drain now (db_store f c) node_publish (r, w) = (res, r', w')" "pushes_fit ms w"
  shows "pushes_fit ms w'"
proof -
  obtain q w1 where q: "s_fetch (db_store f c) (r_batch_size r) w = (q, w1)" by fastforce
  from fetch_fits [OF assms(2) q] have w1: "pushes_fit ms w1" .
  show ?thesis
  proof (cases q)
    case (Inl e)
    with assms(1) q w1 show ?thesis by (simp add: drain_def)
  next
    case (Inr rows)
    obtain ids r1 w2 where rows: "drain_rows now (db_store f c) node_publish rows [] (r, w1) = (ids, r1, w2)"
      by (metis prod.collapse)
    from drain_rows_fits [OF rows w1] have w2: "pushes_fit ms w2" .
    obtain p w3 where p: "s_mark_published (db_store f c) now ids w2 = (p, w3)" by fastforce
    from mark_fits [OF w2 p] show ?thesis
      using assms(1) q Inr rows p w1 by (auto simp: drain_def Let_def split: if_splits sum.splits)
  qed
qed

lemma drain_times_fits:
  "pushes_fit ms w \<Longrightarrow> pushes_fit ms (snd (drain_times (db_store f c) node_publish k now (r, w)))"
proof (induction k arbitrary: r w)
  case (Suc k)
  obtain res r' w' where d: "drain now (db_store f c) node_publish (r, w) = (res, r', w')"
    by (metis prod.collapse)
  from Suc.IH [OF drain_fits [OF d Suc.prems]] d show ?case by simp
qed simp

text \<open>Drains one after another are a history, so a row that went was pushed.\<close>

lemma drain_times_history:
  "node_history f c node_publish pushed A w \<Longrightarrow>
     node_history f c node_publish pushed A (snd (drain_times (db_store f c) node_publish k now (r, w)))"
proof (induction k arbitrary: r w)
  case (Suc k)
  obtain res r' w' where d: "drain now (db_store f c) node_publish (r, w) = (res, r', w')"
    by (metis prod.collapse)
  from Suc.IH [OF node_history.drained [OF Suc.prems d]] d show ?case by simp
qed simp

lemma drained_is_pushed:
  assumes "db_reachable (w_db w)" "faults (w_db w) = []" "pushed w = []"
    and "length (waiting_rows (tbl (w_db w))) \<le> k * r_batch_size r"
    and "(i, payload) \<in> set (waiting_rows (tbl (w_db w)))" "decode_event payload = Inr ev"
  shows "(ev, ids_in (members (tbl (w_db w))) (mc_conversation_id ev))
    \<in> set (pushed (snd (drain_times (db_store NoFault 0) node_publish k now (r, w))))"
proof -
  let ?A = "db_pending w" and ?w' = "snd (drain_times (db_store NoFault 0) node_publish k now (r, w))"
  have A: "?A = waiting_rows (tbl (w_db w))" by (simp add: db_pending_def)
  have "node_history NoFault 0 node_publish pushed ?A w" by (rule node_history.boot) (use assms in simp_all)
  from single.node_history_safe [OF drain_times_history [OF this]] obtain n where
    n: "n \<le> length ?A" "db_pending ?w' = drop n ?A" "\<forall>p \<in> set (take n ?A). delivered push_key (pushed ?w') p"
    by blast
  have "db_calm w" using assms(1,2) by (simp add: db_calm_def db_good_def db_reachable_ok)
  from calm_single.answers.drains_empty_queue [OF this, of k r now] assms(4) have "db_pending ?w' = []"
    by (simp add: A)
  with n(1,2) have "n = length ?A" by simp
  with n(3) assms(5) have "delivered push_key (pushed ?w') (i, payload)" by (simp add: A)
  with assms(6) obtain us where us: "(ev, us) \<in> set (pushed ?w')"
    by (auto simp: delivered_def push_key_def)
  have "pushes_fit (members (tbl (w_db w))) w" using assms(3) by (simp add: pushes_fit_def)
  from drain_times_fits [OF this] us show ?thesis by (force simp: pushes_fit_def)
qed

section \<open>What a push is to a socket\<close>

lemma ids_in_members:
  assumes "db_ok d"
  shows "distinct (ids_in (members (tbl d)) conv)"
    and "u \<in> set (ids_in (members (tbl d)) conv) \<longleftrightarrow> has_member (tbl d) conv u"
proof -
  let ?ms = "filter (\<lambda>m. cm_conversation_id m = conv) (members (tbl d))"
  have "distinct (map (\<lambda>m. (cm_conversation_id m, cm_user_id m)) ?ms)"
    using assms by (simp add: db_ok_def members_ok_def distinct_map_filter)
  then have "distinct ?ms" "inj_on (\<lambda>m. (cm_conversation_id m, cm_user_id m)) (set ?ms)"
    by (simp_all add: distinct_map)
  then have "inj_on cm_user_id (set ?ms)" by (auto simp: inj_on_def)
  with \<open>distinct ?ms\<close> show "distinct (ids_in (members (tbl d)) conv)" by (simp add: ids_in_def distinct_map)
  show "u \<in> set (ids_in (members (tbl d)) conv) \<longleftrightarrow> has_member (tbl d) conv u"
    by (auto simp: ids_in_def has_member_def list_ex_iff)
qed

lemma frame_of_encoded:
  assumes "encode_event ev = Some j"
  obtains payload where "message_frame ev = Some payload" "payload \<noteq> []"
proof -
  from assms obtain ts where "rfc3339 (mc_created_at ev) = Some ts"
    by (auto simp: encode_event_def split: option.splits)
  then obtain m where "message_json (event_to_message_dto ev) = Some m"
    by (simp add: message_json_def event_to_message_dto_def)
  then have "message_frame ev = Some (json_text (ws_envelope ws_message_event m))"
    by (simp add: message_frame_def)
  moreover have "json_text (ws_envelope ws_message_event m) \<noteq> []"
    unfolding ws_envelope_def by (rule json_text_object)
  ultimately show thesis by (rule that)
qed

lemma push_reaches_sockets:
  assumes "hub_reachable h" "h_broadcast h = []" "\<not> h_done h" "\<not> h_stopped h"
    and "message_frame ev = Some payload" "payload \<noteq> []" "us \<noteq> []" "distinct us"
  shows "\<exists>h'. run_once Take (deliver_message coin ev us h) = Some h'
    \<and> (\<forall>c. h_sock h' c = map_option
         (\<lambda>s. if \<not> sk_closed s \<and> sk_user s \<in> set us then offered payload s else s) (h_sock h c))"
proof -
  let ?h = "deliver_message coin ev us h"
  have q: "?h = h\<lparr>h_broadcast := [\<lparr>fo_user_ids = us, fo_payload = payload\<rparr>]\<rparr>"
    using assms by (simp add: deliver_message_def broadcast_def broadcast_buffer_def)
  have "h\<lparr>h_broadcast := []\<rparr> = h" using assms(2) by simp
  then have turn: "run_once Take ?h = hub_deliver payload us h"
    using assms(4) unfolding q by (simp add: run_once_def)
  have ok: "hub_ok h" using assms(1) by (rule hub_reachable_ok)
  from hub_deliver_ok [OF ok, of payload us] obtain h' where h': "hub_deliver payload us h = Some h'" by blast
  with turn hub_deliver_spec [OF ok assms(8) h'] show ?thesis by auto
qed

end
