(* ===== verification/Json_Read.thy ===== *)
theory Json_Read
  imports Json_Text
begin

text \<open>
  \<open>json.Unmarshal\<close> on text: the scanner that cuts a text into tokens and the state machine with its
  stack of open arrays and objects that makes the tree of them. What \<open>json.Marshal\<close> writes is read
  back as it was (\<open>read_json_text\<close>), whatever the strings hold. Text is well-formed UTF-8.
\<close>

section \<open>Strings\<close>

definition hex_val :: "char \<Rightarrow> nat option" where
  "hex_val c = (let k = of_char c :: nat in
     if 48 \<le> k \<and> k \<le> 57 then Some (k - 48)
     else if 97 \<le> k \<and> k \<le> 102 then Some (k - 87)
     else if 65 \<le> k \<and> k \<le> 70 then Some (k - 55) else None)"

definition hex_quad :: "char \<Rightarrow> char \<Rightarrow> char \<Rightarrow> char \<Rightarrow> nat option" where
  "hex_quad a b c d =
     (case (hex_val a, hex_val b, hex_val c, hex_val d) of
        (Some p, Some q, Some r, Some s) \<Rightarrow> Some (((p * 16 + q) * 16 + r) * 16 + s)
      | _ \<Rightarrow> None)"

text \<open>\<open>utf8.EncodeRune\<close>.\<close>

definition utf8 :: "nat \<Rightarrow> string" where
  "utf8 r =
     (if r < 0x80 then [char_of r]
      else if r < 0x800 then [char_of (0xC0 + r div 64), char_of (0x80 + r mod 64)]
      else if r < 0x10000 then
        [char_of (0xE0 + r div 4096), char_of (0x80 + r div 64 mod 64), char_of (0x80 + r mod 64)]
      else [char_of (0xF0 + r div 262144), char_of (0x80 + r div 4096 mod 64),
            char_of (0x80 + r div 64 mod 64), char_of (0x80 + r mod 64)])"

text \<open>\<open>utf16.DecodeRune\<close> on two halves; a half on its own becomes the replacement character.\<close>

definition surrogate :: "nat \<Rightarrow> bool" where
  "surrogate r \<longleftrightarrow> 0xD800 \<le> r \<and> r < 0xE000"

definition join_surrogates :: "nat \<Rightarrow> nat \<Rightarrow> nat option" where
  "join_surrogates hi lo =
     (if 0xD800 \<le> hi \<and> hi < 0xDC00 \<and> 0xDC00 \<le> lo \<and> lo < 0xE000
      then Some ((hi - 0xD800) * 0x400 + (lo - 0xDC00) + 0x10000) else None)"

definition plain_escape :: "char \<Rightarrow> char option" where
  "plain_escape e =
     (if e = CHR 0x22 \<or> e = CHR 0x5C \<or> e = CHR ''/'' then Some e
      else if e = CHR ''b'' then Some (CHR 0x08) else if e = CHR ''f'' then Some (CHR 0x0C)
      else if e = CHR ''n'' then Some (CHR 0x0A) else if e = CHR ''r'' then Some (CHR 0x0D)
      else if e = CHR ''t'' then Some (CHR 0x09) else None)"

definition low_half :: "string \<Rightarrow> nat option" where
  "low_half s =
     (case s of
        bs # u # a # b # c # d # _ \<Rightarrow> if bs = CHR 0x5C \<and> u = CHR ''u'' then hex_quad a b c d else None
      | _ \<Rightarrow> None)"

text \<open>The text between two quotes, read: \<open>None\<close> at a control character or a bad escape.\<close>

function unescape :: "string \<Rightarrow> string option" where
  "unescape [] = Some []"
| "unescape (x # xs) =
     (if x \<noteq> CHR 0x5C then (if of_char x < (32 :: nat) then None else map_option ((#) x) (unescape xs))
      else case xs of
             [] \<Rightarrow> None
           | e # rest \<Rightarrow>
               if e = CHR ''u'' then
                 (case rest of
                    a # b # c # d # tail \<Rightarrow>
                      (case hex_quad a b c d of
                         None \<Rightarrow> None
                       | Some r \<Rightarrow>
                           if \<not> surrogate r then map_option ((@) (utf8 r)) (unescape tail)
                           else (case Option.bind (low_half tail) (join_surrogates r) of
                                   None \<Rightarrow> map_option ((@) (utf8 0xFFFD)) (unescape tail)
                                 | Some p \<Rightarrow> map_option ((@) (utf8 p)) (unescape (drop 6 tail))))
                  | _ \<Rightarrow> None)
               else (case plain_escape e of
                       None \<Rightarrow> None
                     | Some y \<Rightarrow> map_option ((#) y) (unescape rest)))"
  by pat_completeness auto
termination
  by (relation "measure length") (auto split: if_splits)

declare unescape.simps(2) [simp del]

lemma unescape_plain: "x \<noteq> CHR 0x5C \<Longrightarrow> \<not> of_char x < (32 :: nat) \<Longrightarrow>
    unescape (x # xs) = map_option ((#) x) (unescape xs)"
  by (simp add: unescape.simps(2))

lemma unescape_short: "plain_escape e = Some y \<Longrightarrow> e \<noteq> CHR ''u'' \<Longrightarrow>
    unescape (CHR 0x5C # e # xs) = map_option ((#) y) (unescape xs)"
  by (simp add: unescape.simps(2))

lemma unescape_hex: "hex_quad a b c d = Some r \<Longrightarrow> \<not> surrogate r \<Longrightarrow>
    unescape (CHR 0x5C # CHR ''u'' # a # b # c # d # xs) = map_option ((@) (utf8 r)) (unescape xs)"
  by (simp add: unescape.simps(2))

lemma hex_val_char: "d < 16 \<Longrightarrow> hex_val (hex_char d) = Some d"
  by (auto simp: hex_val_def hex_char_def Let_def)

lemma hex_quad_byte:
  assumes "k < 128"
  shows "hex_quad (CHR ''0'') (CHR ''0'') (hex_char (k div 16)) (hex_char (k mod 16)) = Some k"
proof -
  have "hex_val (CHR ''0'') = Some 0" by code_simp
  moreover have "k div 16 < 16" "k mod 16 < 16" using assms by auto
  ultimately show ?thesis by (simp add: hex_quad_def hex_val_char)
qed

lemma few_chars:
  "char_of (8 :: nat) = CHR 0x08" "char_of (9 :: nat) = CHR 0x09" "char_of (10 :: nat) = CHR 0x0A"
  "char_of (12 :: nat) = CHR 0x0C" "char_of (13 :: nat) = CHR 0x0D" "char_of (0xE2 :: nat) = CHR 0xE2"
  "char_of (0x80 :: nat) = CHR 0x80" "char_of (0xA8 :: nat) = CHR 0xA8" "char_of (0xA9 :: nat) = CHR 0xA9"
  by code_simp+

lemma unescape_escape_char:
  "unescape (escape_char c @ xs) = map_option ((#) c) (unescape xs)"
proof -
  let ?k = "of_char c :: nat"
  have c: "c = char_of ?k" by simp
  show ?thesis
  proof (cases "?k < 32 \<or> c = CHR ''<'' \<or> c = CHR ''>'' \<or> c = CHR ''&''")
    case True
    then have k: "?k < 128" by auto
    show ?thesis
    proof (cases "?k = 8 \<or> ?k = 12 \<or> ?k = 10 \<or> ?k = 13 \<or> ?k = 9")
      case True
      then have "c = char_of (8 :: nat) \<or> c = char_of (12 :: nat) \<or> c = char_of (10 :: nat)
          \<or> c = char_of (13 :: nat) \<or> c = char_of (9 :: nat)"
        using c by metis
      then have "c = CHR 0x08 \<or> c = CHR 0x0C \<or> c = CHR 0x0A \<or> c = CHR 0x0D \<or> c = CHR 0x09"
        by (simp add: few_chars)
      then show ?thesis
        by (elim disjE) (simp_all add: escape_char_def unescape_short plain_escape_def)
    next
      case False
      with True have e: "escape_char c = hex4 ?k" by (auto simp: escape_char_def Let_def)
      have u: "utf8 ?k = [c]" "\<not> surrogate ?k" using k by (simp_all add: utf8_def surrogate_def)
      show ?thesis
        unfolding e hex4_def using unescape_hex [OF hex_quad_byte [OF k] u(2), of xs] u(1)
        by (cases "unescape xs") simp_all
    qed
  next
    case False
    then show ?thesis
      by (cases "c = CHR 0x22 \<or> c = CHR 0x5C")
        (auto simp: escape_char_def Let_def unescape_short plain_escape_def unescape_plain)
  qed
qed

lemma unescape_separator:
  assumes "c = CHR 0xA8 \<or> c = CHR 0xA9"
  shows "unescape (CHR 0x5C # ''u202'' @ [if c = CHR 0xA8 then CHR ''8'' else CHR ''9''] @ xs)
    = map_option ((@) [CHR 0xE2, CHR 0x80, c]) (unescape xs)"
proof -
  have q: "hex_quad (CHR ''2'') (CHR ''0'') (CHR ''2'') (CHR ''8'') = Some 0x2028"
    "hex_quad (CHR ''2'') (CHR ''0'') (CHR ''2'') (CHR ''9'') = Some 0x2029"
    "utf8 0x2028 = [CHR 0xE2, CHR 0x80, CHR 0xA8]" "utf8 0x2029 = [CHR 0xE2, CHR 0x80, CHR 0xA9]"
    "\<not> surrogate 0x2028" "\<not> surrogate 0x2029"
    by (simp_all add: hex_quad_def hex_val_def utf8_def surrogate_def few_chars)
  from assms show ?thesis
  proof
    assume "c = CHR 0xA8"
    then show ?thesis using unescape_hex [OF q(1,5), of xs] by (simp add: q(3))
  next
    assume "c = CHR 0xA9"
    then show ?thesis using unescape_hex [OF q(2,6), of xs] by (simp add: q(4))
  qed
qed

lemma unescape_escape: "unescape (escape s) = Some s"
proof (induction s rule: escape.induct)
  case (2 a b c cs)
  show ?case
  proof (cases "a = CHR 0xE2 \<and> b = CHR 0x80 \<and> (c = CHR 0xA8 \<or> c = CHR 0xA9)")
    case True
    then have "escape (a # b # c # cs)
        = CHR 0x5C # ''u202'' @ [if c = CHR 0xA8 then CHR ''8'' else CHR ''9''] @ escape cs" by simp
    with True 2(1) [OF True] unescape_separator [of c "escape cs"] show ?thesis by simp
  next
    case False
    with 2(2) [OF False] show ?thesis by (auto simp: unescape_escape_char)
  qed
qed (use unescape_escape_char [where xs = "[]"] in \<open>simp_all add: unescape_escape_char\<close>)

section \<open>Tokens\<close>

datatype json_token = T_Punct char | T_Str string | T_Word string

datatype lexing = Base | In_str string | In_esc string | In_word string

definition json_space :: "char \<Rightarrow> bool" where
  "json_space c \<longleftrightarrow> c \<in> {CHR 0x20, CHR 0x09, CHR 0x0A, CHR 0x0D}"

definition json_punct :: "char \<Rightarrow> bool" where
  "json_punct c \<longleftrightarrow> c \<in> {CHR '','', CHR '':'', CHR ''['', CHR '']'', CHR 0x7B, CHR 0x7D}"

text \<open>Literals and numbers are words: whatever stands between white space, quotes and punctuation.\<close>

fun scan_json :: "lexing \<Rightarrow> string \<Rightarrow> json_token list option" where
  "scan_json Base [] = Some []"
| "scan_json (In_word w) [] = Some [T_Word w]"
| "scan_json _ [] = None"
| "scan_json Base (c # cs) =
     (if json_space c then scan_json Base cs
      else if json_punct c then map_option ((#) (T_Punct c)) (scan_json Base cs)
      else if c = CHR 0x22 then scan_json (In_str []) cs
      else scan_json (In_word [c]) cs)"
| "scan_json (In_word w) (c # cs) =
     (if json_space c then map_option ((#) (T_Word w)) (scan_json Base cs)
      else if json_punct c then map_option (\<lambda>ts. T_Word w # T_Punct c # ts) (scan_json Base cs)
      else if c = CHR 0x22 then map_option ((#) (T_Word w)) (scan_json (In_str []) cs)
      else scan_json (In_word (w @ [c])) cs)"
| "scan_json (In_str s) (c # cs) =
     (if c = CHR 0x5C then scan_json (In_esc (s @ [c])) cs
      else if c = CHR 0x22 then
        (case unescape s of None \<Rightarrow> None | Some t \<Rightarrow> map_option ((#) (T_Str t)) (scan_json Base cs))
      else scan_json (In_str (s @ [c])) cs)"
| "scan_json (In_esc s) (c # cs) = scan_json (In_str (s @ [c])) cs"

section \<open>Trees\<close>

text \<open>\<open>-? (0 | [1-9][0-9]*) (. [0-9]+)? ([eE] [+-]? [0-9]+)?\<close>.\<close>

definition is_digit :: "char \<Rightarrow> bool" where
  "is_digit c \<longleftrightarrow> digit_val c \<noteq> None"

definition after_exponent :: "string \<Rightarrow> bool" where
  "after_exponent s =
     (case s of
        [] \<Rightarrow> False
      | c # cs \<Rightarrow> let ds = (if c = CHR ''+'' \<or> c = CHR ''-'' then cs else s) in ds \<noteq> [] \<and> list_all is_digit ds)"

definition exponent_ok :: "string \<Rightarrow> bool" where
  "exponent_ok s = (case s of [] \<Rightarrow> True | c # cs \<Rightarrow> (c = CHR ''e'' \<or> c = CHR ''E'') \<and> after_exponent cs)"

definition fraction_ok :: "string \<Rightarrow> bool" where
  "fraction_ok s =
     (case s of
        [] \<Rightarrow> True
      | c # cs \<Rightarrow>
          if c = CHR ''.'' then takeWhile is_digit cs \<noteq> [] \<and> exponent_ok (dropWhile is_digit cs)
          else exponent_ok s)"

definition valid_number :: "string \<Rightarrow> bool" where
  "valid_number s =
     (let body = (case s of c # cs \<Rightarrow> if c = CHR ''-'' then cs else s | [] \<Rightarrow> []);
          ds = takeWhile is_digit body
      in ds \<noteq> [] \<and> (hd ds = CHR ''0'' \<longrightarrow> length ds = 1) \<and> fraction_ok (dropWhile is_digit body))"

definition word_value :: "string \<Rightarrow> json option" where
  "word_value w =
     (if w = ''null'' then Some JNull else if w = ''true'' then Some (JBool True)
      else if w = ''false'' then Some (JBool False)
      else if valid_number w then Some (JNum w) else None)"

datatype frame = F_Arr "json list" | F_Obj "(string \<times> json) list" | F_Pair "(string \<times> json) list" string

text \<open>What may come next: a value, the close of an empty array or object, a key, a colon, or an end.\<close>

datatype expecting = E_Value | E_First | E_Key | E_First_key | E_Colon | E_After json

definition max_nesting :: nat where "max_nesting = 10000"

definition opened :: "frame \<Rightarrow> frame list \<Rightarrow> expecting \<Rightarrow> (expecting \<times> frame list) option" where
  "opened f stack e = (if length stack < max_nesting then Some (e, f # stack) else None)"

definition start_value :: "json_token \<Rightarrow> frame list \<Rightarrow> (expecting \<times> frame list) option" where
  "start_value tok stack =
     (case tok of
        T_Str s \<Rightarrow> Some (E_After (JStr s), stack)
      | T_Word w \<Rightarrow> map_option (\<lambda>v. (E_After v, stack)) (word_value w)
      | T_Punct c \<Rightarrow>
          if c = CHR ''['' then opened (F_Arr []) stack E_First
          else if c = CHR 0x7B then opened (F_Obj []) stack E_First_key else None)"

definition start_key :: "json_token \<Rightarrow> frame list \<Rightarrow> (expecting \<times> frame list) option" where
  "start_key tok stack =
     (case (tok, stack) of (T_Str k, F_Obj kvs # fs) \<Rightarrow> Some (E_Colon, F_Pair kvs k # fs) | _ \<Rightarrow> None)"

definition close_value :: "json \<Rightarrow> char \<Rightarrow> frame list \<Rightarrow> (expecting \<times> frame list) option" where
  "close_value v c stack =
     (case stack of
        F_Arr vs # fs \<Rightarrow>
          if c = CHR '','' then Some (E_Value, F_Arr (vs @ [v]) # fs)
          else if c = CHR '']'' then Some (E_After (JArr (vs @ [v])), fs) else None
      | F_Pair kvs k # fs \<Rightarrow>
          if c = CHR '','' then Some (E_Key, F_Obj (kvs @ [(k, v)]) # fs)
          else if c = CHR 0x7D then Some (E_After (JObj (kvs @ [(k, v)])), fs) else None
      | _ \<Rightarrow> None)"

definition token_step :: "json_token \<Rightarrow> expecting \<times> frame list \<Rightarrow> (expecting \<times> frame list) option" where
  "token_step tok es =
     (case es of (e, stack) \<Rightarrow>
       (case e of
          E_Value \<Rightarrow> start_value tok stack
        | E_First \<Rightarrow>
            if tok = T_Punct (CHR '']'') then Some (E_After (JArr []), tl stack) else start_value tok stack
        | E_Key \<Rightarrow> start_key tok stack
        | E_First_key \<Rightarrow>
            if tok = T_Punct (CHR 0x7D) then Some (E_After (JObj []), tl stack) else start_key tok stack
        | E_Colon \<Rightarrow> if tok = T_Punct (CHR '':'') then Some (E_Value, stack) else None
        | E_After v \<Rightarrow> (case tok of T_Punct c \<Rightarrow> close_value v c stack | _ \<Rightarrow> None)))"

fun token_run :: "json_token list \<Rightarrow> expecting \<times> frame list \<Rightarrow> json option" where
  "token_run [] (E_After v, []) = Some v"
| "token_run [] _ = None"
| "token_run (t # ts) es = Option.bind (token_step t es) (token_run ts)"

definition read_json :: "bytes \<Rightarrow> json option" where
  "read_json bs = Option.bind (scan_json Base bs) (\<lambda>ts. token_run ts (E_Value, []))"

section \<open>What is written is read back\<close>

definition boundary :: "string \<Rightarrow> bool" where
  "boundary rest \<longleftrightarrow> rest = [] \<or> json_punct (hd rest)"

definition word_char :: "char \<Rightarrow> bool" where
  "word_char c \<longleftrightarrow> \<not> json_space c \<and> \<not> json_punct c \<and> c \<noteq> CHR 0x22"

lemma boundary_simps [simp]: "boundary []" "boundary (c # cs) \<longleftrightarrow> json_punct c"
  by (simp_all add: boundary_def)

lemma punct_simps [simp]: "json_punct (CHR '','')" "json_punct (CHR '':'')" "json_punct (CHR ''['')"
  "json_punct (CHR '']'')" "json_punct (CHR 0x7B)" "json_punct (CHR 0x7D)"
  by (simp_all add: json_punct_def)

lemma punct_not_space [simp]: "json_punct c \<Longrightarrow> \<not> json_space c"
  by (auto simp: json_punct_def json_space_def)

lemma lex_word_more:
  "list_all word_char v \<Longrightarrow> boundary rest \<Longrightarrow>
     scan_json (In_word w) (v @ rest) = map_option ((#) (T_Word (w @ v))) (scan_json Base rest)"
proof (induction v arbitrary: w)
  case Nil
  then show ?case by (cases rest) (auto simp: option.map_comp comp_def)
qed (simp add: word_char_def)

lemma lex_word:
  assumes "list_all word_char w" "w \<noteq> []" "boundary rest"
  shows "scan_json Base (w @ rest) = map_option ((#) (T_Word w)) (scan_json Base rest)"
  using assms lex_word_more [of "tl w" rest "[hd w]"] by (cases w) (auto simp: word_char_def)

definition plain_char :: "char \<Rightarrow> bool" where
  "plain_char c \<longleftrightarrow> c \<noteq> CHR 0x5C \<and> c \<noteq> CHR 0x22"

lemma lex_plain: "list_all plain_char v \<Longrightarrow> scan_json (In_str acc) (v @ xs) = scan_json (In_str (acc @ v)) xs"
  by (induction v arbitrary: acc) (simp_all add: plain_char_def)

lemma hex_char_plain: "d < 16 \<Longrightarrow> plain_char (hex_char d)"
  using hex_val_char [of d] by (auto simp: plain_char_def hex_val_def Let_def)

lemma escape_char_shape:
  "escape_char c = [c] \<and> plain_char c \<or> (\<exists>e v. escape_char c = CHR 0x5C # e # v \<and> list_all plain_char v)"
proof (cases "(of_char c :: nat) < 128")
  case True
  have "list_all plain_char ''00''" by (simp add: plain_char_def)
  with True show ?thesis
    using hex_char_plain [of "of_char c div 16"] hex_char_plain [of "of_char c mod 16"]
    unfolding escape_char_def hex4_def Let_def by (simp add: plain_char_def)
next
  case False
  then have "\<not> (of_char c :: nat) < 32" "c \<noteq> CHR 0x22" "c \<noteq> CHR 0x5C" "c \<noteq> CHR ''<''" "c \<noteq> CHR ''>''" "c \<noteq> CHR ''&''"
    by auto
  with False show ?thesis by (simp add: escape_char_def Let_def plain_char_def)
qed

lemma lex_escape_char: "scan_json (In_str acc) (escape_char c @ xs) = scan_json (In_str (acc @ escape_char c)) xs"
proof -
  from escape_char_shape [of c] consider "escape_char c = [c]" "plain_char c"
    | e v where "escape_char c = CHR 0x5C # e # v" "list_all plain_char v" by blast
  then show ?thesis
  proof cases
    case 1
    then show ?thesis by (simp add: plain_char_def)
  next
    case 2
    then show ?thesis using lex_plain [OF 2(2), of "acc @ [CHR 0x5C, e]" xs] by simp
  qed
qed

lemma lex_escape: "scan_json (In_str acc) (escape s @ xs) = scan_json (In_str (acc @ escape s)) xs"
proof (induction s arbitrary: acc rule: escape.induct)
  case (2 a b c cs)
  then show ?case by (auto simp: lex_escape_char)
qed (simp_all add: lex_escape_char)

lemma lex_quote: "scan_json Base (quote s @ rest) = map_option ((#) (T_Str s)) (scan_json Base rest)"
proof -
  have "\<not> json_space (CHR 0x22)" "\<not> json_punct (CHR 0x22)" by (simp_all add: json_space_def json_punct_def)
  then show ?thesis by (simp add: quote_def lex_escape unescape_escape)
qed

fun sep_tokens :: "json_token list list \<Rightarrow> json_token list" where
  "sep_tokens [] = []"
| "sep_tokens [x] = x"
| "sep_tokens (x # xs) = x @ T_Punct (CHR '','') # sep_tokens xs"

fun json_tokens :: "json \<Rightarrow> json_token list" where
  "json_tokens JNull = [T_Word ''null'']"
| "json_tokens (JBool b) = [T_Word (if b then ''true'' else ''false'')]"
| "json_tokens (JNum lit) = [T_Word lit]"
| "json_tokens (JStr s) = [T_Str s]"
| "json_tokens (JArr js) = T_Punct (CHR ''['') # sep_tokens (map json_tokens js) @ [T_Punct (CHR '']'')]"
| "json_tokens (JObj kvs) = T_Punct (CHR 0x7B)
     # sep_tokens (map (\<lambda>kv. T_Str (fst kv) # T_Punct (CHR '':'') # json_tokens (snd kv)) kvs) @ [T_Punct (CHR 0x7D)]"

text \<open>A document whose numbers are numbers, nested no deeper than the scanner goes.\<close>

fun json_numbers :: "json \<Rightarrow> bool" where
  "json_numbers (JNum lit) = valid_number lit"
| "json_numbers (JArr js) = list_all json_numbers js"
| "json_numbers (JObj kvs) = list_all (\<lambda>kv. json_numbers (snd kv)) kvs"
| "json_numbers _ = True"

fun json_depth :: "json \<Rightarrow> nat" where
  "json_depth (JArr js) = Suc (foldr max (map json_depth js) 0)"
| "json_depth (JObj kvs) = Suc (foldr max (map (\<lambda>kv. json_depth (snd kv)) kvs) 0)"
| "json_depth _ = 0"

lemma lex_commas:
  assumes "\<And>x rest. x \<in> set xs \<Longrightarrow> boundary rest \<Longrightarrow>
      scan_json Base (text x @ rest) = map_option ((@) (toks x)) (scan_json Base rest)"
    and "boundary rest"
  shows "scan_json Base (commas (map text xs) @ rest) = map_option ((@) (sep_tokens (map toks xs))) (scan_json Base rest)"
  using assms
proof (induction xs rule: induct_list012)
  case 1
  then show ?case by (cases "scan_json Base rest") simp_all
next
  case (2 x)
  then show ?case by simp
next
  case (3 x y zs)
  have "scan_json Base (text x @ CHR '','' # commas (map text (y # zs)) @ rest)
      = map_option ((@) (toks x)) (scan_json Base (CHR '','' # commas (map text (y # zs)) @ rest))"
    using 3(3) by simp
  moreover have "scan_json Base (commas (map text (y # zs)) @ rest)
      = map_option ((@) (sep_tokens (map toks (y # zs)))) (scan_json Base rest)"
    using 3 by simp
  ultimately show ?case by (cases "scan_json Base rest") simp_all
qed

lemma digit_word: "is_digit c \<Longrightarrow> word_char c"
  by (auto simp: is_digit_def digit_val_def word_char_def json_space_def json_punct_def Let_def split: if_splits)

lemma sign_word: "word_char (CHR ''-'')" "word_char (CHR ''+'')" "word_char (CHR ''.'')" "word_char (CHR ''e'')"
  "word_char (CHR ''E'')"
  by (simp_all add: word_char_def json_space_def json_punct_def)

lemma digits_word: "list_all is_digit ds \<Longrightarrow> list_all word_char ds"
  by (auto simp: list_all_iff digit_word)

lemma exponent_word: "exponent_ok s \<Longrightarrow> list_all word_char s"
  by (auto simp: exponent_ok_def after_exponent_def Let_def sign_word digits_word digit_word split: list.splits if_splits)

lemma parts_word: "list_all word_char (dropWhile is_digit s) \<Longrightarrow> list_all word_char s"
  by (induction s) (auto simp: digit_word split: if_splits)

lemma fraction_word: "fraction_ok s \<Longrightarrow> list_all word_char s"
  using exponent_word parts_word by (fastforce simp: fraction_ok_def sign_word split: list.splits if_splits)

lemma number_word:
  assumes "valid_number s"
  shows "list_all word_char s \<and> s \<noteq> []"
proof -
  define body where "body = (case s of c # cs \<Rightarrow> if c = CHR ''-'' then cs else s | [] \<Rightarrow> [])"
  from assms have "fraction_ok (dropWhile is_digit body)" "takeWhile is_digit body \<noteq> []"
    by (simp_all add: valid_number_def body_def [symmetric] Let_def)
  then have "list_all word_char body" "body \<noteq> []" using parts_word [OF fraction_word] by auto
  then show ?thesis by (auto simp: body_def sign_word split: list.splits if_splits)
qed

lemma lex_json_text:
  "json_numbers j \<Longrightarrow> boundary rest \<Longrightarrow> scan_json Base (json_text j @ rest) = map_option ((@) (json_tokens j)) (scan_json Base rest)"
proof (induction j arbitrary: rest)
  case JNull
  then show ?case using lex_word [of "''null''" rest]
    by (simp add: word_char_def json_space_def json_punct_def)
next
  case (JBool b)
  then show ?case using lex_word [of "''true''" rest] lex_word [of "''false''" rest]
    by (simp add: word_char_def json_space_def json_punct_def)
next
  case (JNum lit)
  with number_word [of lit] lex_word [of lit rest] show ?case by simp
next
  case (JStr s)
  then show ?case by (simp add: lex_quote)
next
  case (JArr js)
  have "scan_json Base (commas (map json_text js) @ CHR '']'' # rest)
      = map_option ((@) (sep_tokens (map json_tokens js))) (scan_json Base (CHR '']'' # rest))"
    by (rule lex_commas) (use JArr in \<open>auto simp: list_all_iff\<close>)
  then show ?case by (cases "scan_json Base rest") simp_all
next
  case (JObj kvs)
  let ?text = "\<lambda>kv. quote (fst kv) @ '':'' @ json_text (snd kv)"
  let ?toks = "\<lambda>kv. T_Str (fst kv) # T_Punct (CHR '':'') # json_tokens (snd kv)"
  have pair: "scan_json Base (?text kv @ r) = map_option ((@) (?toks kv)) (scan_json Base r)"
    if "kv \<in> set kvs" "boundary r" for kv r
  proof -
    have "scan_json Base (json_text (snd kv) @ r) = map_option ((@) (json_tokens (snd kv))) (scan_json Base r)"
      using JObj that by (cases kv) (fastforce simp: list_all_iff)
    then show ?thesis by (cases "scan_json Base r") (simp_all add: lex_quote)
  qed
  have "scan_json Base (commas (map ?text kvs) @ CHR 0x7D # rest)
      = map_option ((@) (sep_tokens (map ?toks kvs))) (scan_json Base (CHR 0x7D # rest))"
    by (rule lex_commas) (use pair in auto)
  then show ?case by (cases "scan_json Base rest") simp_all
qed

lemma token_run_first:
  "json_numbers j \<Longrightarrow> token_run (json_tokens j @ ts) (E_First, st) = token_run (json_tokens j @ ts) (E_Value, st)"
  by (cases j) (auto simp: token_step_def)

lemma word_value_simps [simp]: "word_value ''null'' = Some JNull" "word_value ''true'' = Some (JBool True)"
  "word_value ''false'' = Some (JBool False)"
  by (simp_all add: word_value_def)

lemma number_value: "valid_number lit \<Longrightarrow> word_value lit = Some (JNum lit)"
proof -
  have "\<not> valid_number ''null''" "\<not> valid_number ''true''" "\<not> valid_number ''false''"
    by (simp_all add: valid_number_def is_digit_def digit_val_def Let_def)
  then show "valid_number lit \<Longrightarrow> word_value lit = Some (JNum lit)" by (auto simp: word_value_def)
qed

lemma run_values:
  assumes "\<And>j fs ts. j \<in> set js \<Longrightarrow> length fs + json_depth j \<le> max_nesting \<Longrightarrow>
      token_run (json_tokens j @ ts) (E_Value, fs) = token_run ts (E_After j, fs)"
    and "js \<noteq> []" and "\<And>j. j \<in> set js \<Longrightarrow> Suc (length fs) + json_depth j \<le> max_nesting"
  shows "token_run (sep_tokens (map json_tokens js) @ T_Punct (CHR '']'') # ts) (E_Value, F_Arr vs # fs)
    = token_run ts (E_After (JArr (vs @ js)), fs)"
  using assms
proof (induction js arbitrary: vs rule: induct_list012)
  case (3 x y zs)
  have "token_run (json_tokens x @ r) (E_Value, F_Arr vs # fs) = token_run r (E_After x, F_Arr vs # fs)" for r
    using 3(3,5) by simp
  with 3 show ?case by (simp add: token_step_def close_value_def)
qed (simp_all add: token_step_def close_value_def)

lemma run_pairs:
  assumes "\<And>kv fs ts. kv \<in> set kvs \<Longrightarrow> length fs + json_depth (snd kv) \<le> max_nesting \<Longrightarrow>
      token_run (json_tokens (snd kv) @ ts) (E_Value, fs) = token_run ts (E_After (snd kv), fs)"
    and "kvs \<noteq> []" and "\<And>kv. kv \<in> set kvs \<Longrightarrow> Suc (length fs) + json_depth (snd kv) \<le> max_nesting"
  shows "token_run (sep_tokens (map (\<lambda>kv. T_Str (fst kv) # T_Punct (CHR '':'') # json_tokens (snd kv)) kvs)
        @ T_Punct (CHR 0x7D) # ts) (E_Key, F_Obj acc # fs)
    = token_run ts (E_After (JObj (acc @ kvs)), fs)"
  using assms
proof (induction kvs arbitrary: acc rule: induct_list012)
  case (2 kv)
  have "token_run (json_tokens (snd kv) @ r) (E_Value, F_Pair acc (fst kv) # fs)
      = token_run r (E_After (snd kv), F_Pair acc (fst kv) # fs)" for r
    using 2(1) [of kv "F_Pair acc (fst kv) # fs"] 2(3) by simp
  then show ?case by (simp add: token_step_def start_key_def close_value_def)
next
  case (3 x y zs)
  have "token_run (json_tokens (snd x) @ r) (E_Value, F_Pair acc (fst x) # fs)
      = token_run r (E_After (snd x), F_Pair acc (fst x) # fs)" for r
    using 3(3) [of x "F_Pair acc (fst x) # fs"] 3(5) [of x] by simp
  with 3 show ?case by (simp add: token_step_def start_key_def close_value_def)
qed simp

lemma foldr_max_le: "x \<in> set xs \<Longrightarrow> f x \<le> foldr max (map f xs) (0 :: nat)"
  by (induction xs) auto

lemma token_run_tokens:
  "json_numbers j \<Longrightarrow> length fs + json_depth j \<le> max_nesting \<Longrightarrow>
     token_run (json_tokens j @ ts) (E_Value, fs) = token_run ts (E_After j, fs)"
proof (induction j arbitrary: fs ts)
  case (JNum lit)
  then show ?case by (simp add: token_step_def start_value_def number_value)
next
  case (JArr js)
  have depth: "Suc (length fs) + json_depth j \<le> max_nesting" if "j \<in> set js" for j
    using JArr.prems(2) foldr_max_le [OF that, of json_depth] by simp
  have step: "token_step (T_Punct (CHR ''['')) (E_Value, fs) = Some (E_First, F_Arr [] # fs)"
    using JArr.prems(2) by (simp add: token_step_def start_value_def opened_def)
  show ?case
  proof (cases js)
    case Nil
    with step show ?thesis by (simp add: token_step_def)
  next
    case (Cons x xs)
    let ?ts = "sep_tokens (map json_tokens js) @ T_Punct (CHR '']'') # ts"
    have "token_run ?ts (E_First, F_Arr [] # fs) = token_run ?ts (E_Value, F_Arr [] # fs)"
      using token_run_first [of x] JArr.prems(1) Cons by (cases xs) simp_all
    also have "\<dots> = token_run ts (E_After (JArr ([] @ js)), fs)"
      by (rule run_values) (use JArr Cons depth in \<open>auto simp: list_all_iff\<close>)
    finally show ?thesis using step by simp
  qed
next
  case (JObj kvs)
  have depth: "Suc (length fs) + json_depth (snd kv) \<le> max_nesting" if "kv \<in> set kvs" for kv
    using JObj.prems(2) foldr_max_le [OF that, of "\<lambda>kv. json_depth (snd kv)"] by simp
  have step: "token_step (T_Punct (CHR 0x7B)) (E_Value, fs) = Some (E_First_key, F_Obj [] # fs)"
    using JObj.prems(2) by (simp add: token_step_def start_value_def opened_def)
  show ?case
  proof (cases kvs)
    case Nil
    with step show ?thesis by (simp add: token_step_def)
  next
    case (Cons x xs)
    let ?ts = "sep_tokens (map (\<lambda>kv. T_Str (fst kv) # T_Punct (CHR '':'') # json_tokens (snd kv)) kvs)
        @ T_Punct (CHR 0x7D) # ts"
    have "token_run ?ts (E_First_key, F_Obj [] # fs) = token_run ?ts (E_Key, F_Obj [] # fs)"
      using Cons by (cases xs) (simp_all add: token_step_def)
    also have "\<dots> = token_run ts (E_After (JObj ([] @ kvs)), fs)"
      by (rule run_pairs) (use JObj Cons depth in \<open>fastforce simp: list_all_iff\<close>)+
    finally show ?thesis using step by simp
  qed
qed (simp_all add: token_step_def start_value_def)

theorem read_json_text:
  assumes "json_numbers j" and "json_depth j \<le> max_nesting"
  shows "read_json (json_text j) = Some j"
  using lex_json_text [OF assms(1), of "[]"] token_run_tokens [OF assms(1), of "[]" "[]"] assms(2)
  by (simp add: read_json_def)

end
