(* ===== verification/Tracing.thy ===== *)
theory Tracing
  imports Go_Time Json_Read Complex_Main "HOL-Library.AList" "HOL-Library.List_Lexorder"
begin

text \<open>
  \<open>internal/tracing\<close> and \<open>internal/logging\<close>: which spans start a trace (\<open>sampler.go\<close>), how a trace
  context is stored and read back (\<open>carrier.go\<close>), how tracing is set up and what a process says of
  itself (\<open>tracing.go\<close>), and the node's name and log handler (\<open>logging.go\<close>). OpenTelemetry is a
  library: a context is any type, the propagator a record of functions, the tracer a function that
  starts the \<open>n\<close>-th span of a process.
\<close>

section \<open>Sampling\<close>

datatype decision = Drop | Record_And_Sample

text \<open>A \<open>float64\<close>, as far as \<open>strconv.ParseFloat\<close> tells without an error.\<close>

datatype go_float = Finite rat | Pos_Inf | Neg_Inf | Not_A_Number

text \<open>\<open>math.Min(1, math.Max(0, f))\<close>: not a number stays what it is.\<close>

definition clamp :: "go_float \<Rightarrow> go_float" where
  "clamp f =
     (case f of
        Finite q \<Rightarrow> Finite (min 1 (max 0 q))
      | Pos_Inf \<Rightarrow> Finite 1
      | Neg_Inf \<Rightarrow> Finite 0
      | Not_A_Number \<Rightarrow> Not_A_Number)"

text \<open>An inner sampler: everything, or the traces whose id falls under a ratio.\<close>

datatype base_sampler = Always_Sample | Trace_Id_Ratio go_float

definition drop_root_spans :: "string list" where
  "drop_root_spans = [''presence.Heartbeat'', ''presence.v1.PresenceService/Heartbeat'']"

text \<open>\<open>parsed\<close> is what \<open>strconv.ParseFloat\<close> makes of the text.\<close>

definition parse_ratio :: "(string \<Rightarrow> go_float option) \<Rightarrow> string \<Rightarrow> go_float option" where
  "parse_ratio parsed s = map_option clamp (parsed s)"

definition base_root_sampler :: "(string \<Rightarrow> go_float option) \<Rightarrow> string \<Rightarrow> base_sampler" where
  "base_root_sampler parsed var =
     (let arg = trim_space var
      in if arg = [] then Always_Sample
         else case parse_ratio parsed arg of None \<Rightarrow> Always_Sample | Some r \<Rightarrow> Trace_Id_Ratio r)"

text \<open>\<open>inner\<close> is the inner sampler's decision for this trace id.\<close>

definition should_sample :: "(base_sampler \<Rightarrow> decision) \<Rightarrow> base_sampler \<Rightarrow> string \<Rightarrow> decision" where
  "should_sample inner base name = (if name \<in> set drop_root_spans then Drop else inner base)"

text \<open>\<open>ParentBased\<close>: a span with a parent does as the parent did.\<close>

definition sampler :: "(base_sampler \<Rightarrow> decision) \<Rightarrow> base_sampler \<Rightarrow> decision option \<Rightarrow> string \<Rightarrow> decision" where
  "sampler inner base parent name =
     (case parent of Some d \<Rightarrow> d | None \<Rightarrow> should_sample inner base name)"

section \<open>Contexts and carriers\<close>

text \<open>
  What the program asks of a context - the ids of its span, zero for none, and whether it is sampled -
  and the \<open>TextMapPropagator\<close>: what it sets on a carrier, and the context it makes of what it gets
  from one, where a missing key reads as the empty string.
\<close>

record 'c propagator =
  pr_trace :: "'c \<Rightarrow> nat"
  pr_span :: "'c \<Rightarrow> nat"
  pr_sampled :: "'c \<Rightarrow> bool"
  pr_inject :: "'c \<Rightarrow> (string \<times> string) list"
  pr_extract :: "'c \<Rightarrow> (string \<Rightarrow> string) \<Rightarrow> 'c"

definition pr_valid :: "('c, 'z) propagator_scheme \<Rightarrow> 'c \<Rightarrow> bool" where
  "pr_valid p ctx \<longleftrightarrow> pr_trace p ctx \<noteq> 0 \<and> pr_span p ctx \<noteq> 0"

text \<open>A \<open>MapCarrier\<close> is a map of strings.\<close>

definition map_carrier :: "(string \<times> string) list \<Rightarrow> (string \<times> string) list" where
  "map_carrier kvs = fold (\<lambda>(k, v). AList.update k v) kvs []"

definition carrier_get :: "(string \<times> string) list \<Rightarrow> string \<Rightarrow> string" where
  "carrier_get m k = (case map_of m k of None \<Rightarrow> [] | Some v \<Rightarrow> v)"

text \<open>\<open>json.Marshal\<close> writes a map in the order of its keys.\<close>

definition map_json :: "(string \<times> string) list \<Rightarrow> json" where
  "map_json m = JObj (map (\<lambda>(k, v). (k, JStr v)) (sort_key fst m))"

definition inject_carrier :: "('c, 'z) propagator_scheme \<Rightarrow> 'c \<Rightarrow> bytes" where
  "inject_carrier p ctx =
     (if \<not> pr_valid p ctx then []
      else let m = map_carrier (pr_inject p ctx)
           in if m = [] then [] else json_text (map_json m))"

text \<open>\<open>json.Unmarshal\<close> into a map of strings; \<open>null\<close> values are empty strings, a later key wins.\<close>

fun string_map :: "(string \<times> json) list \<Rightarrow> (string \<times> string) list \<Rightarrow> (string \<times> string) list option" where
  "string_map [] m = Some m"
| "string_map ((k, v) # kvs) m =
     (case decode_str v [] of None \<Rightarrow> None | Some s \<Rightarrow> string_map kvs (AList.update k s m))"

fun unmarshal_map :: "json \<Rightarrow> (string \<times> string) list option" where
  "unmarshal_map (JObj kvs) = string_map kvs []"
| "unmarshal_map JNull = Some []"
| "unmarshal_map _ = None"

definition extract_carrier :: "('c, 'z) propagator_scheme \<Rightarrow> 'c \<Rightarrow> bytes \<Rightarrow> 'c" where
  "extract_carrier p ctx stored =
     (if stored = [] then ctx
      else case Option.bind (read_json stored) unmarshal_map of
             None \<Rightarrow> ctx
           | Some m \<Rightarrow> pr_extract p ctx (carrier_get m))"

text \<open>\<open>TraceID.String()\<close> and \<open>SpanID.String()\<close>: the bytes in hex, 16 of them and 8.\<close>

fun hex_digits :: "nat \<Rightarrow> nat \<Rightarrow> string" where
  "hex_digits 0 n = []"
| "hex_digits (Suc k) n = hex_digits k (n div 16) @ [hex_char (n mod 16)]"

definition trace_id :: "('c, 'z) propagator_scheme \<Rightarrow> 'c \<Rightarrow> string" where
  "trace_id p ctx = (if pr_trace p ctx = 0 then [] else hex_digits 32 (pr_trace p ctx))"

definition span_id :: "('c, 'z) propagator_scheme \<Rightarrow> 'c \<Rightarrow> string" where
  "span_id p ctx = (if pr_span p ctx = 0 then [] else hex_digits 16 (pr_span p ctx))"

section \<open>Setting up\<close>

definition normalize_endpoint :: "string \<Rightarrow> string" where
  "normalize_endpoint e = (if contains e ''://'' then e else ''http://'' @ e)"

text \<open>
  Starting the \<open>n\<close>-th span of this process below a context, under a name. With no provider installed a
  span is the context it is started from.
\<close>

type_synonym 'c starter = "nat \<Rightarrow> 'c \<Rightarrow> string \<Rightarrow> 'c"

definition no_tracer :: "'c starter" where
  "no_tracer n ctx name = ctx"

datatype setup_note = Tracing_off | No_exporter | Tracing_on

text \<open>
  \<open>Setup\<close>: \<open>exporter\<close> is whether \<open>otlptracegrpc.New\<close> takes the endpoint, \<open>provider\<close> the tracer the SDK makes
  of the sampler and the resource. The result is the tracer, the shutdown - given what the provider's own
  answers - and the line logged.
\<close>

definition tracing_setup ::
  "string \<Rightarrow> (string \<Rightarrow> bool) \<Rightarrow> 'c starter \<Rightarrow> 'c starter \<times> (string option \<Rightarrow> string option) \<times> setup_note" where
  "tracing_setup endpoint exporter provider =
     (if endpoint = [] then (no_tracer, \<lambda>_. None, Tracing_off)
      else if \<not> exporter (normalize_endpoint endpoint) then (no_tracer, \<lambda>_. None, No_exporter)
      else (provider, map_option (\<lambda>e. ''shutdown tracer provider: '' @ e), Tracing_on))"

text \<open>\<open>merge\<close> is \<open>resource.Merge\<close> with the default resource; \<open>host\<close> is what \<open>os.Hostname\<close> answers.\<close>

definition new_resource ::
  "((string \<times> string) list \<Rightarrow> (string \<times> string) list option) \<Rightarrow> string \<Rightarrow> string \<Rightarrow> string option
     \<Rightarrow> (string \<times> string) list" where
  "new_resource merge service node host =
     (let attrs = (''service.name'', service) #
            (if node \<noteq> [] then [(''service.instance.id'', node)]
             else case host of
                    Some h \<Rightarrow> if h \<noteq> [] then [(''service.instance.id'', h)] else []
                  | None \<Rightarrow> [])
      in case merge attrs of None \<Rightarrow> attrs | Some r \<Rightarrow> r)"

text \<open>\<open>host\<close> is what \<open>os.Hostname\<close> answers.\<close>

definition log_node_id :: "string \<Rightarrow> string option \<Rightarrow> string" where
  "log_node_id var host = (if var \<noteq> [] then var else case host of Some h \<Rightarrow> h | None \<Rightarrow> ''unknown'')"

text \<open>\<open>parsed\<close> is what \<open>slog.Level.UnmarshalText\<close> makes of the text; \<open>LevelInfo\<close> is 0.\<close>

definition log_level :: "(string \<Rightarrow> int option) \<Rightarrow> string \<Rightarrow> int" where
  "log_level parsed var = (case parsed var of None \<Rightarrow> 0 | Some l \<Rightarrow> l)"

datatype log_format = Json_lines | Text_lines

record logger =
  lg_format :: log_format
  lg_level :: int
  lg_fields :: "(string \<times> string) list"

definition logging_setup :: "(string \<Rightarrow> int option) \<Rightarrow> (string \<Rightarrow> string) \<Rightarrow> logger" where
  "logging_setup parsed getenv =
     \<lparr>lg_format = (if getenv ''APP_ENV'' = ''local'' then Text_lines else Json_lines),
      lg_level = log_level parsed (getenv ''LOG_LEVEL''),
      lg_fields = (if getenv ''NODE_ID'' \<noteq> [] then [(''node'', getenv ''NODE_ID'')] else [])\<rparr>"

section \<open>What the libraries promise\<close>

text \<open>Two contexts of one span.\<close>

definition same_span :: "('c, 'z) propagator_scheme \<Rightarrow> 'c \<Rightarrow> 'c \<Rightarrow> bool" where
  "same_span p c c' \<longleftrightarrow> pr_trace p c' = pr_trace p c \<and> pr_span p c' = pr_span p c \<and> pr_sampled p c' = pr_sampled p c"

text \<open>Two contexts in one trace, with one decision about keeping it.\<close>

definition in_trace :: "('c, 'z) propagator_scheme \<Rightarrow> 'c \<Rightarrow> 'c \<Rightarrow> bool" where
  "in_trace p c c' \<longleftrightarrow> pr_valid p c' \<and> pr_trace p c' = pr_trace p c \<and> pr_sampled p c' = pr_sampled p c"

text \<open>
  The propagator: what it set for a valid context it reads back anywhere, from whatever carrier gives
  each key its last value; from an empty carrier it reads nothing.
\<close>

definition propagator_law :: "('c, 'z) propagator_scheme \<Rightarrow> bool" where
  "propagator_law p \<longleftrightarrow>
     (\<forall>ctx other. pr_valid p ctx \<longrightarrow>
        pr_inject p ctx \<noteq> [] \<and> same_span p ctx (pr_extract p other (carrier_get (rev (pr_inject p ctx)))))
     \<and> (\<forall>ctx. pr_extract p ctx (\<lambda>_. []) = ctx)"

text \<open>The SDK's tracer: a valid span, in the parent's trace if there is a parent, kept if the sampler says so.\<close>

definition parent_decision :: "('c, 'z) propagator_scheme \<Rightarrow> 'c \<Rightarrow> decision option" where
  "parent_decision p ctx =
     (if pr_valid p ctx then Some (if pr_sampled p ctx then Record_And_Sample else Drop) else None)"

definition sdk_law :: "('c, 'z) propagator_scheme \<Rightarrow> (nat \<Rightarrow> base_sampler \<Rightarrow> decision) \<Rightarrow> base_sampler \<Rightarrow> 'c starter \<Rightarrow> bool" where
  "sdk_law p inner base start \<longleftrightarrow>
     (\<forall>n ctx name. let c = start n ctx name in
        pr_valid p c \<and> (pr_valid p ctx \<longrightarrow> pr_trace p c = pr_trace p ctx)
        \<and> (pr_sampled p c \<longleftrightarrow> sampler (inner (pr_trace p c)) base (parent_decision p ctx) name = Record_And_Sample))"

section \<open>A trace survives the table\<close>

definition keeps_trace :: "('c, 'z) propagator_scheme \<Rightarrow> 'c starter \<Rightarrow> bool" where
  "keeps_trace p start \<longleftrightarrow> (\<forall>n ctx name. pr_valid p ctx \<longrightarrow> in_trace p ctx (start n ctx name))"

lemma keeps_traceD: "keeps_trace p start \<Longrightarrow> pr_valid p ctx \<Longrightarrow> in_trace p ctx (start n ctx name)"
  by (simp add: keeps_trace_def)

lemma same_span_in_trace: "same_span p c c' \<Longrightarrow> pr_valid p c \<Longrightarrow> in_trace p c c'"
  by (simp add: same_span_def in_trace_def pr_valid_def)

lemma in_trace_trans: "in_trace p a b \<Longrightarrow> in_trace p b c \<Longrightarrow> in_trace p a c"
  by (simp add: in_trace_def)

lemma in_trace_valid: "in_trace p a b \<Longrightarrow> pr_valid p b"
  by (simp add: in_trace_def)

text \<open>Whatever the environment says, a span below a span stays in its trace: with tracing off it is passed on.\<close>

lemma setup_keeps_trace:
  assumes "sdk_law p inner base provider"
  shows "keeps_trace p (fst (tracing_setup endpoint exporter provider))"
proof -
  have "keeps_trace p no_tracer" by (simp add: keeps_trace_def no_tracer_def in_trace_def)
  moreover have "in_trace p ctx (provider n ctx name)" if "pr_valid p ctx" for n ctx name
  proof -
    let ?c = "provider n ctx name"
    from assms have "pr_valid p ?c" "pr_valid p ctx \<longrightarrow> pr_trace p ?c = pr_trace p ctx"
      "pr_sampled p ?c \<longleftrightarrow> sampler (inner (pr_trace p ?c)) base (parent_decision p ctx) name = Record_And_Sample"
      unfolding sdk_law_def Let_def by blast+
    with that show ?thesis by (auto simp: in_trace_def sampler_def parent_decision_def)
  qed
  ultimately show ?thesis by (simp add: tracing_setup_def keeps_trace_def)
qed

lemma map_of_fold_update:
  "map_of (fold (\<lambda>(k, v). AList.update k v) kvs m) = map_of m ++ map_of (rev kvs)"
  by (induction kvs arbitrary: m) (auto simp: update_conv' map_add_def fun_eq_iff split: option.splits)

lemma carrier_get_map [simp]: "carrier_get (map_carrier kvs) k = carrier_get (rev kvs) k"
  by (simp add: carrier_get_def map_carrier_def map_of_fold_update)

lemma string_map_strings:
  "string_map (map (\<lambda>(k, v). (k, JStr v)) kvs) m = Some (fold (\<lambda>(k, v). AList.update k v) kvs m)"
  by (induction kvs arbitrary: m) auto

lemma map_carrier_distinct: "distinct (map fst (map_carrier kvs))"
proof -
  have "distinct (map fst m) \<Longrightarrow> distinct (map fst (fold (\<lambda>(k, v). AList.update k v) kvs m))" for m
    by (induction kvs arbitrary: m) (auto simp: distinct_update)
  then show ?thesis by (simp add: map_carrier_def)
qed

lemma carrier_get_sorted:
  assumes "distinct (map fst m)"
  shows "carrier_get (map_carrier (sort_key fst m)) k = carrier_get m k"
proof -
  have "distinct (map fst (rev (sort_key fst m)))" using assms
    by (metis distinct_map distinct_rev distinct_sort rev_map set_sort)
  moreover have "set (rev (sort_key fst m)) = set m" by simp
  ultimately have "map_of (rev (sort_key fst m)) = map_of m" using assms
    by (metis map_of_eqI map_of_is_SomeI map_of_SomeD weak_map_of_SomeI set_map option.exhaust)
  then show ?thesis unfolding carrier_get_map by (simp add: carrier_get_def)
qed

lemma stored_map_read:
  "Option.bind (read_json (json_text (map_json m))) unmarshal_map = Some (map_carrier (sort_key fst m))"
proof -
  let ?kvs = "map (\<lambda>(k, v). (k, JStr v)) (sort_key fst m)"
  have "json_numbers (JObj ?kvs)" by (auto simp: list_all_iff)
  moreover have "foldr max (map (\<lambda>kv. json_depth (snd kv)) (map (\<lambda>(k, v). (k, JStr v)) xs)) 0 = 0" for xs :: "(string \<times> string) list"
    by (induction xs) auto
  then have "json_depth (JObj ?kvs) \<le> max_nesting" by (simp add: max_nesting_def del: map_map)
  ultimately have "read_json (json_text (JObj ?kvs)) = Some (JObj ?kvs)" by (rule read_json_text)
  then show ?thesis by (simp add: map_json_def string_map_strings map_carrier_def del: json_text.simps)
qed

lemma inject_carrier_filled:
  assumes "propagator_law p" "pr_valid p ctx"
  shows "inject_carrier p ctx = json_text (map_json (map_carrier (pr_inject p ctx)))" "inject_carrier p ctx \<noteq> []"
proof -
  from assms have "pr_inject p ctx \<noteq> []" by (auto simp: propagator_law_def)
  then obtain kv where "kv \<in> set (rev (pr_inject p ctx))" by (cases "pr_inject p ctx") auto
  then have "map_of (map_carrier (pr_inject p ctx)) (fst kv) \<noteq> None"
    by (simp add: map_carrier_def map_of_fold_update map_of_eq_None_iff)
  then have "map_carrier (pr_inject p ctx) \<noteq> []" by auto
  with assms(2) show *: "inject_carrier p ctx = json_text (map_json (map_carrier (pr_inject p ctx)))"
    by (simp add: inject_carrier_def Let_def)
  show "inject_carrier p ctx \<noteq> []" unfolding * by (simp add: map_json_def)
qed

lemma carrier_round_trip:
  assumes "propagator_law p" "pr_valid p ctx"
  shows "same_span p ctx (extract_carrier p other (inject_carrier p ctx))"
proof -
  let ?m = "map_carrier (pr_inject p ctx)"
  have "extract_carrier p other (inject_carrier p ctx)
      = pr_extract p other (carrier_get (map_carrier (sort_key fst ?m)))"
    unfolding extract_carrier_def using inject_carrier_filled [OF assms] stored_map_read [of ?m] by simp
  moreover have "carrier_get (map_carrier (sort_key fst ?m)) = carrier_get (rev (pr_inject p ctx))"
    using carrier_get_sorted [OF map_carrier_distinct] by (simp add: fun_eq_iff)
  ultimately show ?thesis using assms unfolding propagator_law_def by metis
qed

lemma no_carrier_no_change: "\<not> pr_valid p ctx \<Longrightarrow> extract_carrier p other (inject_carrier p ctx) = other"
  by (simp add: inject_carrier_def extract_carrier_def)

text \<open>A ratio is between 0 and 1, unless it is not a number: then it is passed on as it is.\<close>

lemma clamp_bounds: "clamp f = Finite q \<Longrightarrow> 0 \<le> q \<and> q \<le> 1"
  by (cases f) (auto simp: clamp_def)

lemma ratio_bounds: "parse_ratio parsed s = Some (Finite q) \<Longrightarrow> 0 \<le> q \<and> q \<le> 1"
  by (auto simp: parse_ratio_def dest: clamp_bounds)

lemma nan_is_no_ratio:
  assumes "parsed ''NaN'' = Some Not_A_Number"
  shows "base_root_sampler parsed ''NaN'' = Trace_Id_Ratio Not_A_Number"
  using assms by (simp add: base_root_sampler_def parse_ratio_def clamp_def trim_space_def is_space_def)

lemma endpoint_has_scheme: "contains (normalize_endpoint e) ''://''"
  by (simp add: normalize_endpoint_def)

end
