(* ===== verification/Presenced.thy ===== *)
theory Presenced
  imports Presence_Client
begin

text \<open>
  The process around the presence service, \<open>cmd/presenced/main.go\<close>: its ports, the watcher that
  keeps the gRPC health status in step with Redis, and the order it stops in.
\<close>

definition presence_port :: int where "presence_port = 9090"
definition presence_metrics_port :: int where "presence_metrics_port = 9091"
definition health_interval :: duration where "health_interval = 5 * second"
definition presence_shutdown_timeout :: duration where "presence_shutdown_timeout = 5 * second"

text \<open>\<open>None\<close>: the process exits.\<close>

definition port_from_env :: "string \<Rightarrow> int \<Rightarrow> int option" where
  "port_from_env raw fallback =
     (if raw = [] then Some fallback
      else case atoi raw of None \<Rightarrow> None | Some p \<Rightarrow> if p \<le> 0 \<or> p > 65535 then None else Some p)"

section \<open>The watcher\<close>

record watcher =
  wt_serving :: bool
  wt_status :: string

definition serving :: string where "serving = ''SERVING''"
definition not_serving :: string where "not_serving = ''NOT_SERVING''"

text \<open>\<open>main\<close> publishes \<open>NOT_SERVING\<close> before the watcher starts.\<close>

definition fresh_watcher :: watcher where
  "fresh_watcher = \<lparr>wt_serving = False, wt_status = not_serving\<rparr>"

definition watch_check :: "bool \<Rightarrow> watcher \<Rightarrow> watcher" where
  "watch_check ok w =
     (if ok \<noteq> wt_serving w
      then \<lparr>wt_serving = ok, wt_status = (if ok then serving else not_serving)\<rparr>
      else w)"

definition watch_store :: "bool list \<Rightarrow> watcher" where
  "watch_store pings = fold watch_check pings fresh_watcher"

section \<open>Stopping\<close>

datatype stop_action = Publish_Not_Serving | Graceful_Stop | Hard_Stop | Stop_Metrics | Close_Store | Flush_Spans

definition stop_presenced :: "bool \<Rightarrow> stop_action list" where
  "stop_presenced in_time =
     [Publish_Not_Serving, Graceful_Stop] @ (if in_time then [] else [Hard_Stop])
       @ [Stop_Metrics, Close_Store, Flush_Spans]"

section \<open>The published status is the last check\<close>

definition watcher_ok :: "watcher \<Rightarrow> bool" where
  "watcher_ok w \<longleftrightarrow> wt_status w = (if wt_serving w then serving else not_serving)"

lemma watch_check_ok: "watcher_ok w \<Longrightarrow> watcher_ok (watch_check ok w) \<and> wt_serving (watch_check ok w) = ok"
  by (auto simp: watcher_ok_def watch_check_def)

lemma watch_last:
  "watcher_ok (watch_store pings) \<and> wt_serving (watch_store pings) = (pings \<noteq> [] \<and> last pings)"
proof (induction pings rule: rev_induct)
  case Nil
  show ?case by (simp add: watch_store_def fresh_watcher_def watcher_ok_def)
next
  case (snoc ok pings)
  then show ?case using watch_check_ok [of "watch_store pings" ok] by (simp add: watch_store_def)
qed

lemma watched_status: "wt_status (watch_store pings) = (if pings \<noteq> [] \<and> last pings then serving else not_serving)"
  using watch_last [of pings] by (simp add: watcher_ok_def)

lemma port_range: "port_from_env raw fallback = Some p \<Longrightarrow> p = fallback \<or> 0 < p \<and> p \<le> 65535"
  by (auto simp: port_from_env_def split: if_splits option.splits)

end
