(* ===== verification/Check_Socket.thy ===== *)
theory Check_Socket
  imports Ws_Api
begin

text \<open>
  The client end of a WebSocket as the check commands under \<open>cmd/\<close> have it: a goroutine reads
  frames into a channel of fixed size, and the run takes from the channel until it has what it
  wants or a timer fires. What each \<open>select\<close> of the run saw is an explicit list of outcomes, so
  every timing is covered.
\<close>

section \<open>Reading a frame\<close>

text \<open>
  The struct \<open>frame\<close> of \<open>read\<close>: \<open>type\<close>, and one field of \<open>data\<close>. A frame that is no JSON or that is
  not \<open>message.new\<close> is skipped.
\<close>

definition frame_struct :: "string \<Rightarrow> (json \<Rightarrow> 'a \<Rightarrow> 'a option) \<Rightarrow> 'a \<Rightarrow> json option \<Rightarrow> (string \<times> 'a) option" where
  "frame_struct key dec zero j = decode_struct
     (\<lambda>(ty, x) (k, v).
        if equal_fold k ''type'' then map_option (\<lambda>ty'. (ty', x)) (decode_str v ty)
        else if equal_fold k ''data'' then
          map_option (Pair ty)
            (decode_struct (\<lambda>x (k, v). if equal_fold k key then dec v x else Some x) x (Some v))
        else Some (ty, x))
     ([], zero) j"

definition wanted_frame :: "(string \<times> 'a) option \<Rightarrow> 'a option" where
  "wanted_frame f = (case f of
     Some (ty, x) \<Rightarrow> if ty = ''message.new'' then Some x else None | None \<Rightarrow> None)"

definition seq_of_frame :: "json option \<Rightarrow> nat option" where
  "seq_of_frame j = wanted_frame (frame_struct ''seq'' decode_uint 0 j)"

definition client_id_of_frame :: "json option \<Rightarrow> string option" where
  "client_id_of_frame j = wanted_frame (frame_struct ''client_msg_id'' decode_str [] j)"

section \<open>The channel between the reader and the run\<close>

record 'a feed =
  fd_buffer :: "'a list"
  fd_closed :: bool

definition fresh_feed :: "'a feed" where "fresh_feed = \<lparr>fd_buffer = [], fd_closed = False\<rparr>"

text \<open>
  What happens at the channel: a frame was read, the read failed and the reader closed the channel
  and returned, or the run is in a \<open>select\<close>, with the timer chosen or not.
\<close>

datatype 'a feed_event = Incoming "'a option" | Broke | Look bool

datatype 'a outcome = Took 'a | Hung_Up | Timed_Out

definition offer_frame :: "nat \<Rightarrow> 'a \<Rightarrow> 'a feed \<Rightarrow> 'a feed" where
  "offer_frame cap x f = (if length (fd_buffer f) < cap then f\<lparr>fd_buffer := fd_buffer f @ [x]\<rparr> else f)"

fun reader_step :: "nat \<Rightarrow> 'a feed \<Rightarrow> 'a feed_event \<Rightarrow> 'a feed" where
  "reader_step cap f (Incoming None) = f"
| "reader_step cap f (Incoming (Some x)) = (if fd_closed f then f else offer_frame cap x f)"
| "reader_step cap f Broke = f\<lparr>fd_closed := True\<rparr>"
| "reader_step cap f (Look fired) = f"

text \<open>A \<open>select\<close> on an empty open channel whose timer has not fired waits on.\<close>

fun looks :: "nat \<Rightarrow> 'a feed \<Rightarrow> 'a feed_event list \<Rightarrow> 'a outcome list" where
  "looks cap f [] = []"
| "looks cap f (Look fired # es) =
     (if fired then Timed_Out # looks cap f es
      else case fd_buffer f of
        x # xs \<Rightarrow> Took x # looks cap (f\<lparr>fd_buffer := xs\<rparr>) es
      | [] \<Rightarrow> if fd_closed f then Hung_Up # looks cap f es else looks cap f es)"
| "looks cap f (e # es) = looks cap (reader_step cap f e) es"

section \<open>Taking from it\<close>

text \<open>
  \<open>collect\<close>: up to \<open>want\<close> values, and one more look when there were that many. The timer always
  fires in the end, so a run out of outcomes is a timeout.
\<close>

fun collect_loop :: "nat \<Rightarrow> 'a outcome list \<Rightarrow> 'a list \<Rightarrow> 'a list \<times> 'a outcome list \<times> bool" where
  "collect_loop 0 ps got = (got, ps, True)"
| "collect_loop (Suc want) [] got = (got, [], False)"
| "collect_loop (Suc want) (p # ps) got =
     (case p of Took x \<Rightarrow> collect_loop want ps (got @ [x]) | _ \<Rightarrow> (got, ps, False))"

fun straggler :: "'a list \<Rightarrow> 'a outcome list \<Rightarrow> 'a list \<times> 'a outcome list" where
  "straggler got [] = (got, [])"
| "straggler got (p # ps) = (case p of Took x \<Rightarrow> (got @ [x], ps) | _ \<Rightarrow> (got, ps))"

definition collect :: "nat \<Rightarrow> 'a outcome list \<Rightarrow> 'a list \<times> 'a outcome list" where
  "collect want ps =
     (case collect_loop want ps [] of
        (got, ps', True) \<Rightarrow> straggler got ps'
      | (got, ps', False) \<Rightarrow> (got, ps'))"

text \<open>\<open>waitFor\<close>: values of an earlier round are skipped.\<close>

fun wait_for :: "'a \<Rightarrow> 'a outcome list \<Rightarrow> bool \<times> 'a outcome list" where
  "wait_for x [] = (False, [])"
| "wait_for x (p # ps) =
     (case p of Took y \<Rightarrow> if y = x then (True, ps) else wait_for x ps | _ \<Rightarrow> (False, ps))"

section \<open>What the server writes is what the client reads\<close>

lemma decode_members_append:
  "decode_members put r (xs @ ys) = (case decode_members put r xs of None \<Rightarrow> None | Some r' \<Rightarrow> decode_members put r' ys)"
  by (induction xs arbitrary: r) (simp_all split: option.split)

lemma keys_apart [simp]:
  "\<not> equal_fold ''data'' ''type''" "equal_fold ''type'' ''type''" "equal_fold ''data'' ''data''"
  by (simp_all add: equal_fold_def to_lower_def lower_char_def)

lemma message_keys [simp]:
  "\<not> equal_fold ''id'' ''seq''" "\<not> equal_fold ''conversation_id'' ''seq''" "\<not> equal_fold ''sender'' ''seq''"
  "\<not> equal_fold ''content'' ''seq''" "\<not> equal_fold ''client_msg_id'' ''seq''" "equal_fold ''seq'' ''seq''"
  "\<not> equal_fold ''created_at'' ''seq''"
  "\<not> equal_fold ''id'' ''client_msg_id''" "\<not> equal_fold ''conversation_id'' ''client_msg_id''"
  "\<not> equal_fold ''sender'' ''client_msg_id''" "\<not> equal_fold ''content'' ''client_msg_id''"
  "equal_fold ''client_msg_id'' ''client_msg_id''" "\<not> equal_fold ''seq'' ''client_msg_id''"
  "\<not> equal_fold ''created_at'' ''client_msg_id''"
  by (simp_all add: equal_fold_def to_lower_def lower_char_def)

lemma pushed_frame_read:
  assumes "message_json m = Some j" "md_seq m < 2 ^ 64"
  shows "seq_of_frame (Some (ws_envelope ws_message_event j)) = Some (md_seq m)"
    and "client_id_of_frame (Some (ws_envelope ws_message_event j)) =
      Some (case md_client_msg_id m of None \<Rightarrow> [] | Some k \<Rightarrow> k)"
  using assms
  by (auto simp: message_json_def seq_of_frame_def client_id_of_frame_def frame_struct_def wanted_frame_def
      ws_envelope_def ws_message_event_def decode_struct_def decode_members_append split: option.splits)

lemma decode_elems_jnum: "(\<And>i. i \<in> set ns \<Longrightarrow> i < 2 ^ 64) \<Longrightarrow> decode_elems (map jnum ns) old = Some ns"
  by (induction ns arbitrary: old) simp_all

lemma hello_skipped: "seq_of_frame (Some (ws_envelope ''connected'' j)) = None"
  by (auto simp: seq_of_frame_def frame_struct_def wanted_frame_def ws_envelope_def decode_struct_def
      split: option.splits json.splits)

section \<open>Nothing is invented, and little is lost\<close>

definition takes :: "'a outcome list \<Rightarrow> 'a list" where
  "takes ps = concat (map (\<lambda>p. case p of Took x \<Rightarrow> [x] | _ \<Rightarrow> []) ps)"

lemma takes_simps [simp]: "takes [] = []" "takes (Took x # ps) = x # takes ps"
  "takes (Hung_Up # ps) = takes ps" "takes (Timed_Out # ps) = takes ps"
  by (simp_all add: takes_def)

definition arrivals :: "'a feed_event list \<Rightarrow> 'a list" where
  "arrivals es = concat (map (\<lambda>e. case e of Incoming (Some x) \<Rightarrow> [x] | _ \<Rightarrow> []) es)"

lemma arrivals_simps [simp]: "arrivals [] = []" "arrivals (Incoming (Some x) # es) = x # arrivals es"
  "arrivals (Incoming None # es) = arrivals es" "arrivals (Broke # es) = arrivals es" "arrivals (Look t # es) = arrivals es"
  by (simp_all add: arrivals_def)

lemma looks_invent_nothing: "set (takes (looks cap f es)) \<subseteq> set (fd_buffer f) \<union> set (arrivals es)"
proof (induction es arbitrary: f)
  case (Cons e es)
  show ?case
  proof (cases e)
    case (Incoming x)
    with Cons [of "reader_step cap f e"] show ?thesis
      by (cases x) (auto simp: offer_frame_def split: if_splits)
  next
    case Broke
    with Cons [of "reader_step cap f e"] show ?thesis by simp
  next
    case (Look fired)
    with Cons [of f] Cons [of "f\<lparr>fd_buffer := tl (fd_buffer f)\<rparr>"] show ?thesis
      by (cases "fd_buffer f") auto
  qed
qed simp

text \<open>Below the size of the channel nothing is dropped: what is taken is what arrived, in order.\<close>

lemma looks_in_order:
  "length (fd_buffer f) + length (arrivals es) \<le> cap \<Longrightarrow> Broke \<notin> set es \<Longrightarrow> \<not> fd_closed f \<Longrightarrow>
     \<exists>rest. fd_buffer f @ arrivals es = takes (looks cap f es) @ rest"
proof (induction es arbitrary: f)
  case (Cons e es)
  show ?case
  proof (cases e)
    case (Incoming x)
    with Cons.IH [of "reader_step cap f e"] Cons.prems show ?thesis
      by (cases x) (auto simp: offer_frame_def)
  next
    case Broke
    with Cons.prems show ?thesis by simp
  next
    case (Look fired)
    with Cons.IH [of f] Cons.IH [of "f\<lparr>fd_buffer := tl (fd_buffer f)\<rparr>"] Cons.prems show ?thesis
      by (cases "fd_buffer f") auto
  qed
qed simp

lemma collect_loop_split:
  "collect_loop want ps got = (res, ps', full) \<Longrightarrow>
     \<exists>new qs. res = got @ new \<and> ps = qs @ ps' \<and> takes qs = new \<and> length new \<le> want \<and> (full \<longrightarrow> length new = want)"
proof (induction want ps got rule: collect_loop.induct)
  case (3 want p ps got)
  show ?case
  proof (cases p)
    case (Took x)
    with 3(2) have "collect_loop want ps (got @ [x]) = (res, ps', full)" by simp
    from 3(1) [OF Took this] obtain new qs where *: "res = (got @ [x]) @ new" "ps = qs @ ps'" "takes qs = new"
      "length new \<le> want" "full \<longrightarrow> length new = want" by blast
    then show ?thesis using Took by (intro exI [of _ "x # new"] exI [of _ "p # qs"]) simp
  qed (use 3(2) in \<open>force intro: exI [of _ "[p]"]\<close>)+
qed auto

lemma collect_split:
  assumes "collect want ps = (got, ps')"
  obtains qs where "ps = qs @ ps'" "takes qs = got" "length got \<le> Suc want"
proof -
  obtain r qs' full where l: "collect_loop want ps [] = (r, qs', full)" by (metis prod.collapse)
  from collect_loop_split [OF l] obtain qs where qs: "ps = qs @ qs'" "takes qs = r" "length r \<le> want" by auto
  have app: "takes (a @ b) = takes a @ takes b" for a b :: "'a outcome list" by (simp add: takes_def)
  show thesis
  proof (cases "full \<and> qs' \<noteq> []")
    case True
    then obtain p rest where p: "qs' = p # rest" by (cases qs') auto
    with True l assms have "(got, ps') = straggler r (p # rest)" by (simp add: collect_def)
    then show thesis using qs p that [of "qs @ [p]"] by (cases p) (auto simp: app)
  next
    case False
    with l assms qs show thesis using that [of qs] by (cases full) (auto simp: collect_def)
  qed
qed

lemma wait_for_took: "fst (wait_for x ps) \<Longrightarrow> x \<in> set (takes ps)"
  by (induction ps) (auto split: outcome.splits if_splits)

end
