(* ===== verification/Outbox_Check.thy ===== *)
theory Outbox_Check
  imports Check_Socket Gap_Client
begin

text \<open>
  The run of \<open>cmd/outboxcheck/main.go\<close>, which decides whether a deployment loses messages while its
  broker is down: four phases of sends, what the watching socket took in each, and the verdict. The
  sends, the outcomes at the socket, the history and the badge are what the deployment answers;
  everything the command makes of them is here. The theorems say what its OK is worth, and what
  its FAIL is not.
\<close>

section \<open>The count\<close>

datatype arrived = Live_Push | Recovered | Live_Again

record tally =
  ty_sent :: "nat list"
  ty_seen :: "(nat \<times> arrived) list"
  ty_duplicates :: nat
  ty_refused :: nat

definition empty_tally :: tally where
  "empty_tally = \<lparr>ty_sent = [], ty_seen = [], ty_duplicates = 0, ty_refused = 0\<rparr>"

definition was_seen :: "tally \<Rightarrow> nat \<Rightarrow> bool" where
  "was_seen t n \<longleftrightarrow> map_of (ty_seen t) n \<noteq> None"

text \<open>The closure \<open>note\<close> of \<open>run\<close>.\<close>

definition tally_note :: "arrived \<Rightarrow> nat \<Rightarrow> tally \<Rightarrow> tally" where
  "tally_note how n t =
     (if was_seen t n then t\<lparr>ty_duplicates := ty_duplicates t + 1\<rparr>
      else t\<lparr>ty_seen := (n, how) # ty_seen t\<rparr>)"

definition tally_all :: "arrived \<Rightarrow> nat list \<Rightarrow> tally \<Rightarrow> tally" where
  "tally_all how ns t = fold (tally_note how) ns t"

definition count_how :: "tally \<Rightarrow> arrived \<Rightarrow> nat" where
  "count_how t how = length (filter (\<lambda>p. snd p = how) (ty_seen t))"

definition count_known :: "nat list \<Rightarrow> nat list \<Rightarrow> nat" where
  "count_known have want = length (filter (\<lambda>n. n \<in> set have) want)"

section \<open>The phases\<close>

type_synonym sends = "(string + nat) list"
type_synonym progress = "tally \<times> nat outcome list"

text \<open>
  Phases 1 and 4: every send must work, and is followed by \<open>collect(1, wait)\<close>, whose result is
  looked at only when it has exactly one element.
\<close>

definition one_live :: "arrived \<Rightarrow> nat \<Rightarrow> progress \<Rightarrow> progress" where
  "one_live how n tp =
     (let t = (fst tp)\<lparr>ty_sent := ty_sent (fst tp) @ [n]\<rparr>
      in case collect 1 (snd tp) of
           ([got], ps) \<Rightarrow> (tally_note how got t, ps)
         | (_, ps) \<Rightarrow> (t, ps))"

fun live_phase :: "arrived \<Rightarrow> sends \<Rightarrow> progress \<Rightarrow> string + progress" where
  "live_phase how [] tp = Inr tp"
| "live_phase how (Inl e # ss) tp = Inl e"
| "live_phase how (Inr n # ss) tp = live_phase how ss (one_live how n tp)"

text \<open>Phase 2: a refused send is counted and the phase goes on; what arrives came over a live broker.\<close>

fun outage_sends :: "sends \<Rightarrow> tally \<Rightarrow> tally" where
  "outage_sends [] t = t"
| "outage_sends (Inl e # ss) t = outage_sends ss (t\<lparr>ty_refused := ty_refused t + 1\<rparr>)"
| "outage_sends (Inr n # ss) t = outage_sends ss (t\<lparr>ty_sent := ty_sent t @ [n]\<rparr>)"

definition accepted :: "sends \<Rightarrow> nat list" where
  "accepted ss = concat (map (\<lambda>s. case s of Inl e \<Rightarrow> [] | Inr n \<Rightarrow> [n]) ss)"

text \<open>\<open>collect\<close> of this command returns at once when nothing is wanted.\<close>

definition collect_some :: "nat \<Rightarrow> 'a outcome list \<Rightarrow> 'a list \<times> 'a outcome list" where
  "collect_some want ps = (if want = 0 then ([], ps) else collect want ps)"

definition outage_phase :: "sends \<Rightarrow> progress \<Rightarrow> progress" where
  "outage_phase ss tp =
     (let t = outage_sends ss (fst tp)
      in case collect_some (length (accepted ss)) (snd tp) of
           (got, ps) \<Rightarrow> (tally_all Live_Push got t, ps))"

text \<open>Phase 3: \<open>rounds\<close> is how often the clock is still before the deadline.\<close>

fun recover_phase :: "nat \<Rightarrow> progress \<Rightarrow> progress" where
  "recover_phase 0 tp = tp"
| "recover_phase (Suc rounds) (t, ps) =
     (if length (ty_seen t) < length (ty_sent t) then
        (case collect_some (length (ty_sent t) - length (ty_seen t)) ps of
           (got, ps') \<Rightarrow> recover_phase rounds (tally_all Recovered got t, ps'))
      else (t, ps))"

section \<open>The verdict\<close>

text \<open>\<open>historySeqs\<close> is the loop of the gap read from the start of the room.\<close>

definition history_seqs :: "(nat \<Rightarrow> seq_page option) \<Rightarrow> string + nat list" where
  "history_seqs get =
     (case gap_loop get 100 0 [] of
        (out, Complete) \<Rightarrow> Inr out
      | (_, Request_Failed) \<Rightarrow> Inl ''read history''
      | (_, Never_Ended) \<Rightarrow> Inl ''history never ended after 100 pages'')"

definition badge_of :: "nat \<Rightarrow> conversation_dto list \<Rightarrow> string + nat" where
  "badge_of room cs =
     (case find (\<lambda>c. cd_id c = room) cs of
        None \<Rightarrow> Inl ''room is not in the conversation list''
      | Some c \<Rightarrow> Inr (cd_unread_count c))"

datatype problem =
    Sends_Refused nat
  | Never_Reached "nat list"
  | Lost_Outright nat nat
  | Miscounted nat nat

definition missing :: "tally \<Rightarrow> nat list" where
  "missing t = filter (\<lambda>n. \<not> was_seen t n) (ty_sent t)"

definition problems :: "tally \<Rightarrow> nat list \<Rightarrow> nat \<Rightarrow> problem list" where
  "problems t hist shown =
     (if ty_refused t > 0 then [Sends_Refused (ty_refused t)] else [])
     @ (if missing t \<noteq> [] then [Never_Reached (missing t)] else [])
     @ (if count_known hist (ty_sent t) \<noteq> length (ty_sent t)
        then [Lost_Outright (count_known hist (ty_sent t)) (length (ty_sent t))] else [])
     @ (if shown \<noteq> length (ty_sent t) then [Miscounted shown (length (ty_sent t))] else [])"

record deployment =
  dp_before :: sends
  dp_during :: sends
  dp_after :: sends
  dp_looks :: "nat outcome list"
  dp_rounds :: nat
  dp_history :: "nat \<Rightarrow> seq_page option"
  dp_badge :: "string + nat"

definition until_recovered :: "deployment \<Rightarrow> string + progress" where
  "until_recovered dp =
     (case live_phase Live_Push (dp_before dp) (empty_tally, dp_looks dp) of
        Inl e \<Rightarrow> Inl e
      | Inr tp \<Rightarrow> Inr (recover_phase (dp_rounds dp) (outage_phase (dp_during dp) tp)))"

definition all_phases :: "deployment \<Rightarrow> string + tally" where
  "all_phases dp =
     (case until_recovered dp of
        Inl e \<Rightarrow> Inl e
      | Inr tp \<Rightarrow> (case live_phase Live_Again (dp_after dp) tp of Inl e \<Rightarrow> Inl e | Inr tp' \<Rightarrow> Inr (fst tp')))"

definition outbox_check :: "deployment \<Rightarrow> string + problem list" where
  "outbox_check dp =
     (case all_phases dp of
        Inl e \<Rightarrow> Inl e
      | Inr t \<Rightarrow>
          (case history_seqs (dp_history dp) of
             Inl e \<Rightarrow> Inl e
           | Inr hist \<Rightarrow>
               (case dp_badge dp of Inl e \<Rightarrow> Inl e | Inr shown \<Rightarrow> Inr (problems t hist shown))))"

section \<open>What the tally holds\<close>

lemma seen_note: "was_seen (tally_note how n t) m \<longleftrightarrow> was_seen t m \<or> m = n"
  by (auto simp: tally_note_def was_seen_def)

lemma seen_all: "was_seen (tally_all how ns t) m \<longleftrightarrow> was_seen t m \<or> m \<in> set ns"
  unfolding tally_all_def by (induction ns arbitrary: t) (auto simp: seen_note)

lemma note_keeps [simp]: "ty_sent (tally_note how n t) = ty_sent t" "ty_refused (tally_note how n t) = ty_refused t"
  by (simp_all add: tally_note_def)

lemma all_keeps [simp]: "ty_sent (tally_all how ns t) = ty_sent t" "ty_refused (tally_all how ns t) = ty_refused t"
  unfolding tally_all_def by (induction ns arbitrary: t) simp_all

lemma sent_update [simp]: "was_seen (t\<lparr>ty_sent := ns\<rparr>) m = was_seen t m" "was_seen (t\<lparr>ty_refused := k\<rparr>) m = was_seen t m"
  by (simp_all add: was_seen_def)

text \<open>
  Between two points of a run: what is new among the seen was taken from the socket, and \<open>ns\<close> and
  \<open>k\<close> were added to the accepted and the refused sends.
\<close>

definition moved :: "nat list \<Rightarrow> nat \<Rightarrow> progress \<Rightarrow> progress \<Rightarrow> bool" where
  "moved ns k tp tp' \<longleftrightarrow> (\<exists>qs. snd tp = qs @ snd tp' \<and> (\<forall>m. was_seen (fst tp') m \<longrightarrow> was_seen (fst tp) m \<or> m \<in> set (takes qs)))
     \<and> ty_sent (fst tp') = ty_sent (fst tp) @ ns \<and> ty_refused (fst tp') = ty_refused (fst tp) + k"

lemma takes_append [simp]: "takes (ps @ qs) = takes ps @ takes qs"
  by (simp add: takes_def)

lemma moved_refl: "moved [] 0 tp tp"
  by (simp add: moved_def)

lemma moved_trans:
  assumes "moved ns k tp tp1" "moved ns' k' tp1 tp2"
  shows "moved (ns @ ns') (k + k') tp tp2"
proof -
  from assms(1) obtain qs where qs: "snd tp = qs @ snd tp1"
    "\<forall>m. was_seen (fst tp1) m \<longrightarrow> was_seen (fst tp) m \<or> m \<in> set (takes qs)" by (auto simp: moved_def)
  from assms(2) obtain qs' where qs': "snd tp1 = qs' @ snd tp2"
    "\<forall>m. was_seen (fst tp2) m \<longrightarrow> was_seen (fst tp1) m \<or> m \<in> set (takes qs')" by (auto simp: moved_def)
  have "snd tp = (qs @ qs') @ snd tp2 \<and> (\<forall>m. was_seen (fst tp2) m \<longrightarrow> was_seen (fst tp) m \<or> m \<in> set (takes (qs @ qs')))"
    using qs qs' by auto
  moreover have "ty_sent (fst tp2) = ty_sent (fst tp) @ ns @ ns'" "ty_refused (fst tp2) = ty_refused (fst tp) + (k + k')"
    using assms by (simp_all add: moved_def)
  ultimately show ?thesis unfolding moved_def by blast
qed

lemma collected_moved:
  assumes "collect want ps = (got, ps')"
  shows "moved [] 0 (t, ps) (tally_all how got t, ps')"
proof -
  from assms obtain qs where "ps = qs @ ps'" "takes qs = got" by (rule collect_split)
  then show ?thesis by (auto simp: moved_def seen_all)
qed

lemma collected_some_moved:
  "collect_some want ps = (got, ps') \<Longrightarrow> moved [] 0 (t, ps) (tally_all how got t, ps')"
  by (auto simp: collect_some_def tally_all_def moved_refl collected_moved [unfolded tally_all_def] split: if_splits)

lemma one_live_moved: "moved [n] 0 tp (one_live how n tp)"
proof -
  obtain t ps where tp: "tp = (t, ps)" by (cases tp)
  obtain got ps' where c: "collect 1 ps = (got, ps')" by fastforce
  from c obtain qs where qs: "ps = qs @ ps'" "takes qs = got" by (rule collect_split)
  show ?thesis
    unfolding tp one_live_def Let_def fst_conv snd_conv c moved_def
    using qs by (cases got rule: list.exhaust; cases "tl got") (auto simp: seen_note intro!: exI [of _ qs])
qed

lemma live_phase_moved:
  "live_phase how ss tp = Inr tp' \<Longrightarrow> moved (accepted ss) 0 tp tp' \<and> length (accepted ss) = length ss"
proof (induction how ss tp rule: live_phase.induct)
  case (3 how n ss tp)
  from moved_trans [OF one_live_moved, of "accepted ss" 0 how n tp tp'] 3 show ?case
    by (simp add: accepted_def)
qed (simp_all add: moved_refl accepted_def)

lemma outage_sends_effect:
  "ty_sent (outage_sends ss t) = ty_sent t @ accepted ss \<and> was_seen (outage_sends ss t) = was_seen t
   \<and> ty_refused (outage_sends ss t) + length (accepted ss) = ty_refused t + length ss"
  by (induction ss t rule: outage_sends.induct) (simp_all add: accepted_def fun_eq_iff)

lemma outage_moved: "moved (accepted ss) (length ss - length (accepted ss)) tp (outage_phase ss tp)"
proof -
  obtain got ps where c: "collect_some (length (accepted ss)) (snd tp) = (got, ps)" by fastforce
  have len: "length (accepted ss) \<le> length ss" by (induction ss) (auto simp: accepted_def split: sum.split)
  from collected_some_moved [OF c, of "outage_sends ss (fst tp)" Live_Push] show ?thesis
    using outage_sends_effect [of ss "fst tp"] len
    by (auto simp: outage_phase_def c Let_def moved_def)
qed

lemma recover_moved: "moved [] 0 tp (recover_phase rounds tp)"
proof (induction rounds tp rule: recover_phase.induct)
  case (2 rounds t ps)
  show ?case
  proof (cases "length (ty_seen t) < length (ty_sent t)")
    case True
    obtain got ps' where c: "collect_some (length (ty_sent t) - length (ty_seen t)) ps = (got, ps')" by fastforce
    from moved_trans [OF collected_some_moved [OF c] 2 [OF True c [symmetric]]] True c show ?thesis by simp
  qed (simp add: moved_refl)
qed (simp add: moved_refl)

lemma all_phases_moved:
  assumes "all_phases dp = Inr t"
  shows "\<exists>ps. moved (accepted (dp_before dp) @ accepted (dp_during dp) @ accepted (dp_after dp))
      (length (dp_during dp) - length (accepted (dp_during dp))) (empty_tally, dp_looks dp) (t, ps)
    \<and> length (accepted (dp_before dp)) = length (dp_before dp) \<and> length (accepted (dp_after dp)) = length (dp_after dp)"
proof -
  from assms obtain tp tp' where
    p1: "live_phase Live_Push (dp_before dp) (empty_tally, dp_looks dp) = Inr tp" and
    p4: "live_phase Live_Again (dp_after dp) (recover_phase (dp_rounds dp) (outage_phase (dp_during dp) tp)) = Inr tp'" and
    t: "t = fst tp'"
    by (auto simp: all_phases_def until_recovered_def split: sum.splits)
  note m1 = live_phase_moved [OF p1] and m4 = live_phase_moved [OF p4]
  from moved_trans [OF moved_trans [OF moved_trans [OF conjunct1 [OF m1] outage_moved] recover_moved] conjunct1 [OF m4]]
  have "moved (accepted (dp_before dp) @ accepted (dp_during dp) @ accepted (dp_after dp))
      (length (dp_during dp) - length (accepted (dp_during dp))) (empty_tally, dp_looks dp) (t, snd tp')"
    by (simp add: t)
  with m1 m4 show ?thesis by blast
qed

lemma all_seen_no_missing: "missing t = [] \<longleftrightarrow> (\<forall>n \<in> set (ty_sent t). was_seen t n)"
  by (auto simp: missing_def filter_empty_conv)

lemma known_all: "count_known have want = length want \<longleftrightarrow> set want \<subseteq> set have"
proof -
  have "count_known have want = length want \<longleftrightarrow> filter (\<lambda>n. n \<in> set have) want = want"
    unfolding count_known_def by (metis filter_id_conv length_filter_less less_irrefl)
  then show ?thesis by (auto simp: filter_id_conv)
qed

lemma problems_empty:
  "problems t hist shown = [] \<longleftrightarrow> ty_refused t = 0 \<and> missing t = [] \<and> set (ty_sent t) \<subseteq> set hist \<and> shown = length (ty_sent t)"
  using known_all [of hist "ty_sent t"] by (auto simp: problems_def)

section \<open>What OK is worth\<close>

lemma outbox_check_Inr:
  assumes "outbox_check dp = Inr pr"
  obtains t hist shown where "all_phases dp = Inr t" "history_seqs (dp_history dp) = Inr hist"
    "dp_badge dp = Inr shown" "pr = problems t hist shown"
  using assms by (auto simp: outbox_check_def split: sum.splits)

definition all_sends :: "deployment \<Rightarrow> sends" where
  "all_sends dp = dp_before dp @ dp_during dp @ dp_after dp"

lemma accepted_append [simp]: "accepted (xs @ ys) = accepted xs @ accepted ys"
  by (simp add: accepted_def)

lemma accepted_length: "length (accepted ss) \<le> length ss"
  by (induction ss) (auto simp: accepted_def split: sum.split)

lemma ok_means:
  assumes "outbox_check dp = Inr []"
  obtains hist where "length (accepted (all_sends dp)) = length (all_sends dp)"
    "set (accepted (all_sends dp)) \<subseteq> set (takes (dp_looks dp))"
    "history_seqs (dp_history dp) = Inr hist" "set (accepted (all_sends dp)) \<subseteq> set hist"
    "dp_badge dp = Inr (length (all_sends dp))"
proof -
  from assms obtain t hist shown where *: "all_phases dp = Inr t" "history_seqs (dp_history dp) = Inr hist"
    "dp_badge dp = Inr shown" "problems t hist shown = []" by (metis outbox_check_Inr)
  from *(4) have ok: "ty_refused t = 0" "\<forall>n \<in> set (ty_sent t). was_seen t n" "set (ty_sent t) \<subseteq> set hist"
    "shown = length (ty_sent t)" by (simp_all add: problems_empty all_seen_no_missing)
  from all_phases_moved [OF *(1)] obtain qs ps where moved: "dp_looks dp = qs @ ps"
      "\<forall>m. was_seen t m \<longrightarrow> m \<in> set (takes qs)" "ty_sent t = accepted (all_sends dp)"
      "ty_refused t = length (dp_during dp) - length (accepted (dp_during dp))"
      "length (accepted (dp_before dp)) = length (dp_before dp)" "length (accepted (dp_after dp)) = length (dp_after dp)"
    by (auto simp: moved_def all_sends_def empty_tally_def was_seen_def)
  have len: "length (accepted (all_sends dp)) = length (all_sends dp)"
    using moved(4-6) ok(1) accepted_length [of "dp_during dp"] by (simp add: all_sends_def)
  show thesis
    by (rule that [OF len _ *(2)]) (use ok moved(1-3) *(3) len in auto)
qed

text \<open>Every failed check names its reason; here, the one for a refused send in the outage.\<close>

lemma refused_is_reported:
  assumes "outbox_check dp = Inr pr" "Inl e \<in> set (dp_during dp)"
  shows "Sends_Refused (length (dp_during dp) - length (accepted (dp_during dp))) \<in> set pr"
proof -
  from assms(1) obtain t hist shown where *: "all_phases dp = Inr t" "pr = problems t hist shown"
    by (metis outbox_check_Inr)
  have "length (accepted ss) < length ss" if "Inl e \<in> set ss" for ss
    using that
  proof (induction ss)
    case (Cons s ss)
    then show ?case using accepted_length [of ss] by (cases s) (auto simp: accepted_def)
  qed simp
  from this [OF assms(2)] all_phases_moved [OF *(1)] show ?thesis
    unfolding *(2) by (auto simp: moved_def empty_tally_def problems_def)
qed

section \<open>What FAIL is not\<close>

text \<open>
  Delivery is at least once, and the command says a second copy is harmless. But when both copies
  of a number come in time after its send, \<open>collect(1, wait)\<close> returns the two of them, and the
  phase looks at a result of one element only: neither is noted.
\<close>

lemma both_copies_dropped:
  "one_live how n (t, Took n # Took n # ps) = (t\<lparr>ty_sent := ty_sent t @ [n]\<rparr>, ps)"
  by (simp add: one_live_def collect_def)

lemma one_copy_noted:
  "one_live how n (t, Took n # Timed_Out # ps) = (tally_note how n (t\<lparr>ty_sent := ty_sent t @ [n]\<rparr>), ps)"
  by (simp add: one_live_def collect_def)

lemma recovered_moved:
  assumes "until_recovered dp = Inr (t, ps)"
  obtains qs where "dp_looks dp = qs @ ps"
proof -
  from assms obtain tp where p1: "live_phase Live_Push (dp_before dp) (empty_tally, dp_looks dp) = Inr tp"
    and rest: "(t, ps) = recover_phase (dp_rounds dp) (outage_phase (dp_during dp) tp)"
    by (auto simp: until_recovered_def split: sum.splits)
  from moved_trans [OF moved_trans [OF conjunct1 [OF live_phase_moved [OF p1]] outage_moved] recover_moved]
  show thesis using that rest by (metis moved_def snd_conv)
qed

lemma twice_is_missing:
  assumes "until_recovered dp = Inr (t, Took n # Took n # ps)" "dp_after dp = [Inr n]" "\<not> was_seen t n"
    and "outbox_check dp = Inr pr"
  shows "n \<in> set (takes (dp_looks dp)) \<and> (\<exists>ns. Never_Reached ns \<in> set pr \<and> n \<in> set ns)"
proof
  from recovered_moved [OF assms(1)] obtain qs where "dp_looks dp = qs @ Took n # Took n # ps" .
  then show "n \<in> set (takes (dp_looks dp))" by simp
  from assms(4) obtain t' hist shown where *: "all_phases dp = Inr t'" "pr = problems t' hist shown"
    by (metis outbox_check_Inr)
  from *(1) assms(1,2) have "t' = t\<lparr>ty_sent := ty_sent t @ [n]\<rparr>"
    by (simp add: all_phases_def both_copies_dropped)
  with assms(3) have "n \<in> set (missing t')" by (simp add: missing_def)
  then show "\<exists>ns. Never_Reached ns \<in> set pr \<and> n \<in> set ns"
    unfolding *(2) by (auto simp: problems_def intro!: exI [of _ "missing t'"])
qed

section \<open>The history route behind it\<close>

context gap_source
begin

text \<open>A hundred pages are enough below ten thousand messages, and not from there on.\<close>

lemma history_read:
  "per = 100 \<Longrightarrow> history_seqs get =
     (if top < 10000 then Inr [1..<Suc top] else Inl ''history never ended after 100 pages'')"
  using fetched [of 0] loop_gives_up [of 0 100 "[]"] by (auto simp: history_seqs_def fetch_gap_def)

end

lemma history_of_room:
  assumes "room_reader d c who"
  shows "history_seqs (ask_page d who rq (c_id c)) =
    (if c_last_seq c < 10000 then Inr [1..<Suc (c_last_seq c)] else Inl ''history never ended after 100 pages'')"
  by (rule gap_source.history_read) (simp_all add: assms room_reader.page_read gap_source.intro)

section \<open>Two runs\<close>

definition bob_reads :: "nat \<Rightarrow> seq_page option" where
  "bob_reads = ask_page two_sent (2, ''bob'') plain_request 1"

definition good_run :: deployment where
  "good_run = \<lparr>dp_before = [Inr 1], dp_during = [], dp_after = [Inr 2],
     dp_looks = [Took 1, Timed_Out, Took 2, Timed_Out], dp_rounds = 3, dp_history = bob_reads, dp_badge = Inr 2\<rparr>"

lemma bob_history: "history_seqs bob_reads = Inr [1, 2]"
proof -
  have "room_reader two_sent (tea 2) (2, ''bob'')"
    by unfold_locales (use two_reachable bob_inside in \<open>simp_all add: tea_def room_row_def\<close>)
  from history_of_room [OF this, of plain_request] show ?thesis
    by (simp add: bob_reads_def tea_def room_row_def upt_rec)
qed

definition doubled_run :: deployment where
  "doubled_run = good_run\<lparr>dp_looks := [Took 1, Timed_Out, Took 2, Took 2]\<rparr>"

lemma good_run_ok: "outbox_check good_run = Inr []"
  unfolding outbox_check_def all_phases_def until_recovered_def good_run_def
  by (simp add: bob_history one_copy_noted outage_phase_def collect_some_def accepted_def tally_all_def tally_note_def
      was_seen_def empty_tally_def problems_def missing_def count_known_def eval_nat_numeral)

lemma doubled_run_recovered:
  "until_recovered doubled_run = Inr (tally_note Live_Push 1 (empty_tally\<lparr>ty_sent := [1]\<rparr>), [Took 2, Took 2])"
  unfolding until_recovered_def doubled_run_def good_run_def
  by (simp add: one_copy_noted outage_phase_def collect_some_def accepted_def tally_all_def tally_note_def
      was_seen_def empty_tally_def eval_nat_numeral)

lemma doubled_run_fails: "outbox_check doubled_run = Inr [Never_Reached [2]]"
  unfolding outbox_check_def all_phases_def doubled_run_recovered
  by (simp add: doubled_run_def good_run_def both_copies_dropped [unfolded One_nat_def] bob_history tally_note_def
      was_seen_def empty_tally_def problems_def missing_def count_known_def)

end
