(* ===== verification/Gap_Run.thy ===== *)
theory Gap_Run
  imports Outbox_Check
begin

text \<open>
  The run of \<open>cmd/gapcheck/main.go\<close>: messages sent to a client that is connected, disconnected, and
  reconnecting, with the gap read in between. The sends, the outcomes at its two sockets and the
  pages of the two gap reads are arguments.
\<close>

fun send_each :: "sends \<Rightarrow> nat list \<Rightarrow> string + nat list" where
  "send_each [] ns = Inr ns"
| "send_each (Inl e # ss) ns = Inl e"
| "send_each (Inr n # ss) ns = send_each ss (ns @ [n])"

record gap_deployment =
  gd_before :: sends
  gd_during :: sends
  gd_late :: sends
  gd_first_socket :: "nat outcome list"
  gd_second_socket :: "nat outcome list"
  gd_want_before :: nat
  gd_want_after :: nat
  gd_gap :: "nat \<Rightarrow> seq_page option"
  gd_last_gap :: "nat \<Rightarrow> seq_page option"

text \<open>Phases 1 and 2: what was sent, what came live, and the number the gap read starts from.\<close>

definition until_reconnect :: "gap_deployment \<Rightarrow> string + nat list \<times> held \<times> nat" where
  "until_reconnect gd =
     (case send_each (gd_before gd) [] of
        Inl e \<Rightarrow> Inl e
      | Inr ns \<Rightarrow>
          (case send_each (gd_during gd) ns of
             Inl e \<Rightarrow> Inl e
           | Inr ns' \<Rightarrow>
               Inr (ns', note_all (fst (collect (gd_want_before gd) (gd_first_socket gd))) Live nothing_held,
                    highest ns)))"

text \<open>
  Phases 3 and 4: the gap read, beside which the late messages are sent, then what the second
  socket collected, and the last gap read.
\<close>

definition gap_check :: "gap_deployment \<Rightarrow> string + nat list \<times> held" where
  "gap_check gd =
     (case until_reconnect gd of
        Inl e \<Rightarrow> Inl e
      | Inr (ns, h, start) \<Rightarrow>
          (case fetch_gap (gd_gap gd) start of
             (got, Complete) \<Rightarrow>
               (case send_each (gd_late gd) ns of
                  Inl e \<Rightarrow> Inl e
                | Inr ns' \<Rightarrow>
                    Inr (ns', snd (fill_from_gap (gd_last_gap gd) ns'
                           (note_all (fst (collect (gd_want_after gd) (gd_second_socket gd))) Live
                              (note_all got Gap h)))))
           | _ \<Rightarrow> Inl ''gap read''))"

lemma send_each_Inr: "send_each ss ns = Inr ns' \<Longrightarrow> ns' = ns @ accepted ss \<and> length (accepted ss) = length ss"
  by (induction ss ns rule: send_each.induct) (simp_all add: accepted_def)

lemma gap_check_Inr:
  assumes "gap_check gd = Inr (ns, h)"
  obtains h0 where "ns = accepted (gd_before gd @ gd_during gd @ gd_late gd)"
    "h = snd (fill_from_gap (gd_last_gap gd) ns h0)"
proof -
  from assms obtain s1 h1 start got where *: "until_reconnect gd = Inr (s1, h1, start)"
    "send_each (gd_late gd) s1 = Inr ns" "h = snd (fill_from_gap (gd_last_gap gd) ns
       (note_all (fst (collect (gd_want_after gd) (gd_second_socket gd))) Live (note_all got Gap h1)))"
    by (auto simp: gap_check_def split: sum.splits prod.splits gap_end.splits)
  from *(1) obtain s0 where "send_each (gd_before gd) [] = Inr s0" "send_each (gd_during gd) s0 = Inr s1"
    by (auto simp: until_reconnect_def split: sum.splits)
  with *(2) have "ns = accepted (gd_before gd @ gd_during gd @ gd_late gd)"
    by (auto dest!: send_each_Inr)
  with *(3) that show thesis by blast
qed

text \<open>
  Whatever the sockets brought, lost or doubled: with the history route behind the last gap read
  the command finds nothing missing, and every message is counted as live or as recovered.
\<close>

lemma report_counts:
  "fst (report ns h) + fst (snd (report ns h)) + length (snd (snd (report ns h))) = length ns"
proof (induction ns)
  case (Cons n ns)
  show ?case using Cons by (cases "hd_seen h n"; cases "the (hd_seen h n)") (auto simp: report_def)
qed (simp add: report_def)

lemma gap_check_nothing_lost:
  assumes "gap_check gd = Inr (ns, h)" and "gap_source (gd_last_gap gd) 100 newest" "newest < 10000"
    and "\<And>n. n \<in> set ns \<Longrightarrow> 1 \<le> n \<and> n \<le> newest"
  shows "snd (snd (report ns h)) = []" "fst (report ns h) + fst (snd (report ns h)) = length ns"
proof -
  from assms(1) obtain h0 where "h = snd (fill_from_gap (gd_last_gap gd) ns h0)"
    by (metis gap_check_Inr)
  with filled_nothing_missing [OF assms(2,4,3)] show *: "snd (snd (report ns h)) = []" by simp
  with report_counts [of ns h] show "fst (report ns h) + fst (snd (report ns h)) = length ns" by simp
qed

text \<open>
  The order of the repair matters: asked for before the second socket is open, with the late
  messages sent after it, the gap read cannot have them. The last gap read repairs that too.
\<close>

definition late_run :: gap_deployment where
  "late_run = \<lparr>gd_before = [Inr 1], gd_during = [], gd_late = [Inr 2], gd_first_socket = [Took 1, Timed_Out],
     gd_second_socket = [Timed_Out], gd_want_before = 1, gd_want_after = 1,
     gd_gap = (\<lambda>_. Some \<lparr>sp_seqs = [], sp_next = None\<rparr>), gd_last_gap = bob_reads\<rparr>"

lemma one_page:
  assumes "get c = Some \<lparr>sp_seqs = ns, sp_next = None\<rparr>"
  shows "fetch_gap get c = (ns, Complete)"
proof -
  have "gap_loop get (Suc k) c [] = (ns, Complete)" for k using assms by simp
  from this [of 99] show ?thesis by (simp add: fetch_gap_def)
qed

lemma late_run_whole: "\<exists>h. gap_check late_run = Inr ([1, 2], h) \<and> report [1, 2] h = (1, 1, [])"
proof -
  let ?h = "\<lparr>hd_seen = [1 \<mapsto> Live], hd_duplicates = 0\<rparr>"
  have "bob_reads 1 = Some \<lparr>sp_seqs = [2], sp_next = None\<rparr>"
    using bob.page_read [of 1] by (simp add: bob_reads_def tea_def room_row_def upt_rec)
  then have gap2: "fetch_gap bob_reads 1 = ([2], Complete)" by (rule one_page)
  have gap1: "fetch_gap (\<lambda>_. Some \<lparr>sp_seqs = [], sp_next = None\<rparr>) 1 = ([], Complete)"
    by (rule one_page) (rule refl)
  have first: "fst (collect 1 [Took 1, Timed_Out]) = [1 :: nat]" "fst (collect 1 [Timed_Out]) = ([] :: nat list)"
    by (simp_all add: collect_def)
  have start: "until_reconnect late_run = Inr ([1], ?h, 1)"
    by (simp add: until_reconnect_def late_run_def first [unfolded One_nat_def] note_all_def note_arrival_def
        nothing_held_def highest_def)
  have low: "lowest_missing [1, 2] ?h = 2" by (simp add: lowest_missing_def pick_lower_def)
  have fill: "snd (fill_from_gap bob_reads [1, 2] ?h) = ?h\<lparr>hd_seen := [1 \<mapsto> Live, 2 \<mapsto> Gap]\<rparr>"
    unfolding fill_from_gap_def low by (simp add: gap2 [unfolded One_nat_def] note_all_def note_arrival_def)
  have "gap_check late_run = Inr ([1, 2], ?h\<lparr>hd_seen := [1 \<mapsto> Live, 2 \<mapsto> Gap]\<rparr>)"
    unfolding gap_check_def start by (simp add: late_run_def gap1 [unfolded One_nat_def] first [unfolded One_nat_def]
        note_all_def fill [unfolded One_nat_def])
  then show ?thesis by (simp add: report_def)
qed

end
