(* ===== verification/Seed.thy ===== *)
theory Seed
  imports Http
begin

text \<open>
  The seeding command, \<open>cmd/seed/main.go\<close>, on the database of the service: users with numbered
  names, and rooms over a sliding window of them, each with a history. It is written to be run
  again: a user or a room that is there is skipped. \<open>Inl\<close> is \<open>log.Fatal\<close>.
\<close>

section \<open>Names\<close>

text \<open>\<open>%s%03d\<close>.\<close>

definition pad3 :: "nat \<Rightarrow> string" where
  "pad3 n = (let s = format_uint n in replicate (3 - length s) (CHR ''0'') @ s)"

definition numbered :: "string \<Rightarrow> nat \<Rightarrow> string" where
  "numbered prefix_text i = prefix_text @ pad3 i"

record room_config =
  rc_count :: nat
  rc_size :: nat
  rc_messages :: nat
  rc_title_prefix :: string
  rc_user_prefix :: string
  rc_user_count :: nat

text \<open>The flags \<open>main\<close> refuses.\<close>

definition seed_flags_ok :: "int \<Rightarrow> string \<Rightarrow> int \<Rightarrow> int \<Rightarrow> int \<Rightarrow> bool" where
  "seed_flags_ok count password rooms per_room written \<longleftrightarrow>
     1 \<le> count \<and> (rooms > 0 \<longrightarrow> 2 \<le> per_room \<and> per_room \<le> count \<and> 0 \<le> written) \<and> 8 \<le> length password"

definition seed_budget :: "int \<Rightarrow> int \<Rightarrow> duration" where
  "seed_budget rooms written =
     2 * minute + (if rooms > 0 then rooms * written * (50 * millisecond) else 0)"

section \<open>Users\<close>

text \<open>The loop over the numbers, with the counts of created and skipped users.\<close>

fun seed_users :: "time \<Rightarrow> string \<Rightarrow> string \<Rightarrow> nat list \<Rightarrow> nat \<times> nat \<Rightarrow> (nat \<times> nat) op" where
  "seed_users now name hash [] n d = (Inr n, d)"
| "seed_users now name hash (i # is) (created, skipped) d =
     (case create_user now (numbered name i) hash d of
        (Inl e, d1) \<Rightarrow>
          if errors_is e ErrUserExists then seed_users now name hash is (created, skipped + 1) d1
          else (Inl e, d1)
      | (Inr _, d1) \<Rightarrow> seed_users now name hash is (created + 1, skipped) d1)"

definition seed_all_users :: "time \<Rightarrow> string \<Rightarrow> string \<Rightarrow> nat \<Rightarrow> (nat \<times> nat) op" where
  "seed_all_users now name hash count = seed_users now name hash [1..<Suc count] (0, 0)"

section \<open>Rooms\<close>

fun load_users :: "string \<Rightarrow> nat list \<Rightarrow> user list \<Rightarrow> user list op" where
  "load_users name [] us d = (Inr us, d)"
| "load_users name (i # is) us d =
     (case get_user_by_username (numbered name i) d of
        (Inl e, d1) \<Rightarrow> (Inl e, d1)
      | (Inr u, d1) \<Rightarrow> load_users name is (us @ [u]) d1)"

definition window :: "user list \<Rightarrow> nat \<Rightarrow> nat \<Rightarrow> user list" where
  "window us i n = map (\<lambda>j. us ! ((i + j) mod length us)) [0..<n]"

definition has_title :: "room list \<Rightarrow> string \<Rightarrow> bool" where
  "has_title rooms title \<longleftrightarrow> list_ex (\<lambda>r. c_title (fst r) = title) rooms"

fun seed_messages :: "time \<Rightarrow> nat \<Rightarrow> string \<Rightarrow> user list \<Rightarrow> nat list \<Rightarrow> unit op" where
  "seed_messages now conv title us [] d = (Inr (), d)"
| "seed_messages now conv title us (n # ns) d =
     (let sender = us ! (n mod length us);
          content = ''seeded message '' @ format_uint n @ '' in '' @ title
      in case create_message now conv (u_id sender) (u_username sender) content None [] d of
           (Inl e, d1) \<Rightarrow> (Inl e, d1)
         | (Inr _, d1) \<Rightarrow> seed_messages now conv title us ns d1)"

definition seed_room :: "time \<Rightarrow> room_config \<Rightarrow> user list \<Rightarrow> nat \<Rightarrow> bool op" where
  "seed_room now cfg us i d =
     (let title = numbered (rc_title_prefix cfg) (i + 1); ms = window us i (rc_size cfg); creator = hd ms
      in case list_conversations_for_user (u_id creator) d of
           (Inl e, d1) \<Rightarrow> (Inl e, d1)
         | (Inr existing, d1) \<Rightarrow>
             if has_title existing title then (Inr False, d1)
             else (case create_conversation now title (u_id creator) (map u_id (tl ms)) d1 of
                     (Inl e, d2) \<Rightarrow> (Inl e, d2)
                   | (Inr conv, d2) \<Rightarrow>
                       (case seed_messages now (c_id (fst conv)) title ms [1..<Suc (rc_messages cfg)] d2 of
                          (Inl e, d3) \<Rightarrow> (Inl e, d3)
                        | (Inr _, d3) \<Rightarrow> (Inr True, d3))))"

text \<open>The loop over the rooms: how many were made, how many were there.\<close>

fun seed_each :: "time \<Rightarrow> room_config \<Rightarrow> user list \<Rightarrow> nat list \<Rightarrow> nat \<times> nat \<Rightarrow> (nat \<times> nat) op" where
  "seed_each now cfg us [] n d = (Inr n, d)"
| "seed_each now cfg us (i # is) (made, skipped) d =
     (case seed_room now cfg us i d of
        (Inl e, d1) \<Rightarrow> (Inl e, d1)
      | (Inr new, d1) \<Rightarrow>
          seed_each now cfg us is (if new then (made + 1, skipped) else (made, skipped + 1)) d1)"

definition seed_rooms :: "time \<Rightarrow> room_config \<Rightarrow> (nat \<times> nat) op" where
  "seed_rooms now cfg d =
     (case load_users (rc_user_prefix cfg) [1..<Suc (rc_user_count cfg)] [] d of
        (Inl e, d1) \<Rightarrow> (Inl e, d1)
      | (Inr us, d1) \<Rightarrow> seed_each now cfg us [0..<rc_count cfg] (0, 0) d1)"

section \<open>Running it again\<close>

text \<open>With a database that answers: a name that is free and fits becomes a user, one that is taken is skipped.\<close>

lemma create_user_ok:
  assumes "faults d = []" "rune_count name \<le> 64"
  shows "create_user now name hash d =
    (if username_taken (tbl d) name
     then (Inl ErrUserExists, d\<lparr>seqs := (seqs d)\<lparr>next_user := next_user (seqs d) + 1\<rparr>\<rparr>)
     else (Inr (user_row now (next_user (seqs d)) name hash),
       d\<lparr>seqs := (seqs d)\<lparr>next_user := next_user (seqs d) + 1\<rparr>,
         tbl := (tbl d)\<lparr>users := users (tbl d) @ [user_row now (next_user (seqs d)) name hash]\<rparr>\<rparr>))"
  using assms by (simp add: create_user_def on_ok_def insert_user_def return_def Let_def)

lemma seed_users_taken:
  assumes "seed_users now name hash is n d = (Inr m, d')" "faults d = []"
    and "\<forall>i \<in> set is. rune_count (numbered name i) \<le> 64"
  shows "faults d' = [] \<and> (\<forall>i \<in> set is. username_taken (tbl d') (numbered name i))
    \<and> (\<forall>u. username_taken (tbl d) u \<longrightarrow> username_taken (tbl d') u)
    \<and> fst m + snd m = fst n + snd n + length is"
  using assms
proof (induction now name hash "is" n d rule: seed_users.induct)
  case (2 now name hash i "is" created skipped d)
  have fits: "rune_count (numbered name i) \<le> 64" using 2(5) by simp
  show ?case
  proof (cases "username_taken (tbl d) (numbered name i)")
    case True
    let ?d = "d\<lparr>seqs := (seqs d)\<lparr>next_user := next_user (seqs d) + 1\<rparr>\<rparr>"
    have c: "create_user now (numbered name i) hash d = (Inl ErrUserExists, ?d)"
      using create_user_ok [OF 2(4) fits] True by simp
    with 2(3) have "seed_users now name hash is (created, skipped + 1) ?d = (Inr m, d')" by simp
    from 2(1) [OF c [symmetric] refl _ this] 2(4,5) c True show ?thesis by auto
  next
    case False
    let ?u = "user_row now (next_user (seqs d)) (numbered name i) hash"
    let ?d = "d\<lparr>seqs := (seqs d)\<lparr>next_user := next_user (seqs d) + 1\<rparr>,
         tbl := (tbl d)\<lparr>users := users (tbl d) @ [?u]\<rparr>\<rparr>"
    have c: "create_user now (numbered name i) hash d = (Inr ?u, ?d)"
      using create_user_ok [OF 2(4) fits] False by simp
    with 2(3) have "seed_users now name hash is (created + 1, skipped) ?d = (Inr m, d')" by simp
    moreover have "username_taken (tbl ?d) u \<longleftrightarrow> username_taken (tbl d) u \<or> u = numbered name i" for u
      by (auto simp: username_taken_def user_row_def)
    ultimately show ?thesis using 2(2) [OF c [symmetric] refl] 2(4,5) by auto
  qed
qed simp

lemma seed_users_again:
  assumes "\<forall>i \<in> set is. username_taken (tbl d) (numbered name i) \<and> rune_count (numbered name i) \<le> 64"
    and "faults d = []"
  shows "\<exists>d'. seed_users now name hash is n d = (Inr (fst n, snd n + length is), d')
    \<and> tbl d' = tbl d \<and> faults d' = []"
  using assms
proof (induction "is" arbitrary: n d)
  case (Cons i "is")
  obtain created skipped where n: "n = (created, skipped)" by fastforce
  let ?d = "d\<lparr>seqs := (seqs d)\<lparr>next_user := next_user (seqs d) + 1\<rparr>\<rparr>"
  have c: "create_user now (numbered name i) hash d = (Inl ErrUserExists, ?d)"
    using create_user_ok Cons.prems by simp
  have "\<forall>i \<in> set is. username_taken (tbl ?d) (numbered name i) \<and> rune_count (numbered name i) \<le> 64"
    "faults ?d = []"
    using Cons.prems by simp_all
  from Cons.IH [OF this, of "(created, skipped + 1)"] show ?case
    by (simp add: n c)
qed simp

end
