(* ===== verification/Ws_Load.thy ===== *)
theory Ws_Load
  imports Check_Socket Seed "HOL-Library.Word"
begin

text \<open>
  The load tool, \<open>cmd/wsload/main.go\<close>: its flags, the users and rooms it works with, how it backs
  off when the server says 429, the sockets it opens, and the numbers it reports. Waits are 64 bit
  words, as \<open>time.Duration\<close> is: a wait is multiplied here, and the factor comes from a header.
\<close>

section \<open>Flags\<close>

record load_config =
  lc_users :: int
  lc_prefix :: string
  lc_slow :: int
  lc_room_size :: int
  lc_messages :: int
  lc_size :: int

definition load_flags :: "load_config \<Rightarrow> string option" where
  "load_flags c =
     (if lc_users c < 1 \<or> lc_room_size c < 2 then Some ''-n must be at least 1 and -room-size at least 2''
      else if lc_slow c > lc_users c then Some ''-slow cannot be larger than -n''
      else if lc_size c < 1 \<or> lc_size c > 4000 then
        Some ''-size must be between 1 and 4000, to match the API's binding rules''
      else None)"

section \<open>Backing off\<close>

type_synonym wait = "64 word"

definition one_second :: wait where "one_second = 1000000000"
definition load_max_attempts :: nat where "load_max_attempts = 8"
definition max_backoff :: wait where "max_backoff = 10 * one_second"

definition load_retry_after :: "string \<Rightarrow> wait" where
  "load_retry_after raw =
     (case atoi raw of
        None \<Rightarrow> one_second
      | Some seconds \<Rightarrow> if seconds < 1 then one_second else word_of_int seconds * one_second)"

definition min_wait :: "wait \<Rightarrow> wait \<Rightarrow> wait" where
  "min_wait a b = (if sint a < sint b then a else b)"

definition backoff :: "wait \<Rightarrow> nat \<Rightarrow> wait" where
  "backoff asked doublings = min_wait (asked * push_bit doublings 1) max_backoff"

text \<open>
  \<open>postJSON\<close>: an answer that is not 429 ends it, and so does the eighth attempt. \<open>jitter\<close> is what
  \<open>rand.Int63n\<close> adds to each wait; the waits are returned with the answer.
\<close>

datatype 'a post_answer = Posted 'a | Too_Many wait | Post_Failed string

fun post_loop :: "(nat \<Rightarrow> 'a post_answer) \<Rightarrow> (nat \<Rightarrow> wait) \<Rightarrow> nat \<Rightarrow> nat \<Rightarrow> wait list \<Rightarrow> 'a post_answer \<times> wait list" where
  "post_loop post jitter 0 try_no waits = (post try_no, waits)"
| "post_loop post jitter (Suc left) try_no waits =
     (case post try_no of
        Too_Many asked \<Rightarrow>
          post_loop post jitter left (try_no + 1) (waits @ [backoff asked (try_no - 1) + jitter try_no])
      | a \<Rightarrow> (a, waits))"

definition post_json :: "(nat \<Rightarrow> 'a post_answer) \<Rightarrow> (nat \<Rightarrow> wait) \<Rightarrow> 'a post_answer \<times> wait list" where
  "post_json post jitter = post_loop post jitter (load_max_attempts - 1) 1 []"

text \<open>
  Dialling: a refusal waits for as long as the header of a 429 asks, doubled with each attempt, or
  for the square of the attempt; there is a wait after the last one too.
\<close>

datatype dialled = Dialled | Answered_429 string | No_Luck

definition dial_wait :: "nat \<Rightarrow> dialled \<Rightarrow> wait" where
  "dial_wait try_no answer =
     (case answer of
        Answered_429 raw \<Rightarrow> backoff (load_retry_after raw) try_no
      | _ \<Rightarrow> word_of_nat (try_no * try_no) * 200000000)"

fun dial_loop :: "(nat \<Rightarrow> dialled) \<Rightarrow> (nat \<Rightarrow> wait) \<Rightarrow> nat \<Rightarrow> nat \<Rightarrow> wait list \<Rightarrow> bool \<times> wait list" where
  "dial_loop dial jitter 0 try_no waits = (False, waits)"
| "dial_loop dial jitter (Suc left) try_no waits =
     (if dial try_no = Dialled then (True, waits)
      else dial_loop dial jitter left (try_no + 1) (waits @ [dial_wait try_no (dial try_no) + jitter try_no]))"

definition dial_socket :: "(nat \<Rightarrow> dialled) \<Rightarrow> (nat \<Rightarrow> wait) \<Rightarrow> bool \<times> wait list" where
  "dial_socket dial jitter = dial_loop dial jitter load_max_attempts 0 []"

lemma sint_fits: "- (2 ^ 63) \<le> x \<Longrightarrow> x < 2 ^ 63 \<Longrightarrow> sint (word_of_int x :: wait) = x"
  by (simp add: sint_sbintrunc' signed_take_bit_int_eq_self)

lemma sint_max_backoff: "sint max_backoff = 10000000000"
  by (simp add: max_backoff_def one_second_def)

lemma backoff_capped: "sint (backoff asked k) \<le> 10000000000"
  using sint_max_backoff by (simp add: backoff_def min_wait_def)

text \<open>Within what a header can sensibly say the words do not wrap.\<close>

lemma retry_after_exact:
  assumes "atoi raw = Some s" "1 \<le> s" "s \<le> 72057594" "k \<le> 7"
  shows "sint (backoff (load_retry_after raw) k) = min (s * 2 ^ k * 1000000000) 10000000000"
proof -
  have k: "(2 :: int) ^ k \<le> 2 ^ 7" using assms(4) by (intro power_increasing) simp_all
  have le: "s * 2 ^ k * 1000000000 \<le> 72057594 * 2 ^ 7 * 1000000000"
    using assms(2,3) k by (intro mult_mono) simp_all
  have low: "- (2 ^ 63) \<le> s * 2 ^ k * 1000000000"
    by (rule order_trans [of _ 0]) (use assms(2) in simp_all)
  have "load_retry_after raw * push_bit k 1 = word_of_int (s * 2 ^ k * 1000000000)"
    using assms(1,2) by (simp add: load_retry_after_def one_second_def push_bit_eq_mult)
  then have "sint (load_retry_after raw * push_bit k 1) = s * 2 ^ k * 1000000000"
    using sint_fits [of "s * 2 ^ k * 1000000000"] le low by simp
  then show ?thesis by (simp add: backoff_def min_wait_def sint_max_backoff)
qed

text \<open>
  Past that they do: a header that asks for 9223372037 seconds, some three hundred years, is waited
  for with a negative duration, that is not at all.
\<close>

lemma huge_header_no_wait: "sint (backoff (load_retry_after ''9223372037'') 0) < 0"
  by (simp add: load_retry_after_def atoi_def digit_val_def one_second_def backoff_def min_wait_def max_backoff_def)

lemma post_loop_waits:
  "post_loop post jitter left try_no waits = (a, ws) \<Longrightarrow>
     \<exists>n new. n \<le> left \<and> a = post (try_no + n) \<and> ws = waits @ new \<and> length new = n
       \<and> (\<forall>i < n. \<exists>asked. post (try_no + i) = Too_Many asked
             \<and> new ! i = backoff asked (try_no + i - 1) + jitter (try_no + i))
       \<and> (n < left \<longrightarrow> (\<forall>asked. a \<noteq> Too_Many asked))"
proof (induction left arbitrary: try_no waits)
  case (Suc left)
  show ?case
  proof (cases "post try_no")
    case (Too_Many asked)
    let ?w = "backoff asked (try_no - 1) + jitter try_no"
    from Too_Many Suc.prems have "post_loop post jitter left (try_no + 1) (waits @ [?w]) = (a, ws)" by simp
    from Suc.IH [OF this] obtain n new where n: "n \<le> left" "a = post (try_no + 1 + n)" "ws = waits @ ?w # new" "length new = n"
      "\<forall>i < n. \<exists>asked. post (try_no + 1 + i) = Too_Many asked \<and> new ! i = backoff asked (try_no + 1 + i - 1) + jitter (try_no + 1 + i)"
      "n < left \<longrightarrow> (\<forall>asked. a \<noteq> Too_Many asked)" by auto
    have "\<exists>asked. post (try_no + i) = Too_Many asked \<and> (?w # new) ! i = backoff asked (try_no + i - 1) + jitter (try_no + i)"
      if "i < Suc n" for i
      using n(5) Too_Many that by (cases i) auto
    with n show ?thesis by (intro exI [of _ "Suc n"] exI [of _ "?w # new"]) auto
  qed (use Suc.prems in \<open>auto intro: exI [of _ 0]\<close>)
qed simp

lemma dial_loop_waits:
  "dial_loop dial jitter left try_no waits = (ok, ws) \<Longrightarrow>
     \<exists>n \<le> left. length ws = length waits + n \<and> (\<forall>i < n. dial (try_no + i) \<noteq> Dialled)
       \<and> (if ok then n < left \<and> dial (try_no + n) = Dialled else n = left)"
proof (induction left arbitrary: try_no waits)
  case (Suc left)
  show ?case
  proof (cases "dial try_no = Dialled")
    case True
    with Suc.prems show ?thesis by (auto intro: exI [of _ 0])
  next
    case False
    with Suc.prems have "dial_loop dial jitter left (try_no + 1)
        (waits @ [dial_wait try_no (dial try_no) + jitter try_no]) = (ok, ws)" by simp
    from Suc.IH [OF this] obtain n where n: "n \<le> left" "length ws = length waits + 1 + n"
      "\<forall>i < n. dial (try_no + 1 + i) \<noteq> Dialled"
      "if ok then n < left \<and> dial (try_no + 1 + n) = Dialled else n = left" by auto
    have "dial (try_no + i) \<noteq> Dialled" if "i < Suc n" for i
      using n(3) False that by (cases i) auto
    with n show ?thesis by (intro exI [of _ "Suc n"]) (auto split: if_splits)
  qed
qed simp

section \<open>Logging in\<close>

text \<open>
  Every user logs in on its own; one that fails is counted, and any failure ends the run. A login
  without a token is a failure.
\<close>

definition login_one :: "string + string \<Rightarrow> string + string" where
  "login_one answer =
     (case answer of Inl e \<Rightarrow> Inl e | Inr tok \<Rightarrow> if tok = [] then Inl ''login returned no token'' else Inr tok)"

definition log_in :: "(string \<Rightarrow> string + string) \<Rightarrow> (string \<Rightarrow> string + nat) \<Rightarrow> string \<Rightarrow> (string \<times> nat) option" where
  "log_in login profile username =
     (case login_one (login username) of
        Inl _ \<Rightarrow> None
      | Inr tok \<Rightarrow> (case profile tok of Inl _ \<Rightarrow> None | Inr i \<Rightarrow> Some (tok, i)))"

definition log_in_all ::
  "(string \<Rightarrow> string + string) \<Rightarrow> (string \<Rightarrow> string + nat) \<Rightarrow> string \<Rightarrow> nat \<Rightarrow> nat + (string \<times> nat) list" where
  "log_in_all login profile name n =
     (let rs = map (\<lambda>i. log_in login profile (numbered name (i + 1))) [0..<n];
          failed = length (filter (\<lambda>r. r = None) rs)
      in if failed > 0 then Inl failed else Inr (map the rs))"

lemma log_in_all_tokens:
  assumes "log_in_all login profile name n = Inr us"
  shows "length us = n" "\<And>i. i < n \<Longrightarrow> fst (us ! i) \<noteq> []
    \<and> login (numbered name (i + 1)) = Inr (fst (us ! i)) \<and> profile (fst (us ! i)) = Inr (snd (us ! i))"
proof -
  let ?rs = "map (\<lambda>i. log_in login profile (numbered name (i + 1))) [0..<n]"
  from assms have us: "us = map the ?rs" and none: "filter (\<lambda>r. r = None) ?rs = []"
    by (auto simp: log_in_all_def Let_def split: if_splits)
  show "length us = n" by (simp add: us)
  fix i assume i: "i < n"
  with none have "log_in login profile (numbered name (i + 1)) \<noteq> None"
    by (auto simp: filter_empty_conv)
  then obtain tok uid where ok: "log_in login profile (numbered name (i + 1)) = Some (tok, uid)" by fastforce
  with i have "us ! i = (tok, uid)" by (simp add: us)
  with ok show "fst (us ! i) \<noteq> [] \<and> login (numbered name (i + 1)) = Inr (fst (us ! i))
      \<and> profile (fst (us ! i)) = Inr (snd (us ! i))"
    by (auto simp: log_in_def login_one_def split: sum.splits if_splits)
qed

section \<open>Rooms\<close>

text \<open>
  \<open>buildRooms\<close>: the spans of users that share a room, the first of each its owner. A last span of
  one user is left out.
\<close>

function room_spans :: "nat \<Rightarrow> nat \<Rightarrow> nat \<Rightarrow> (nat \<times> nat) list" where
  "room_spans per n start =
     (if n \<le> start then []
      else let stop = min (start + per) n
           in if stop - start < 2 then [] else (start, stop) # room_spans per n (start + per))"
  by pat_completeness auto
termination by (relation "measure (\<lambda>(per, n, start). n - start)") (auto simp: min_def split: if_split_asm)

declare room_spans.simps [simp del]

record load_room =
  lr_id :: nat
  lr_owner :: nat
  lr_members :: nat

definition room_request :: "nat list \<Rightarrow> nat \<Rightarrow> nat \<times> nat \<Rightarrow> json" where
  "room_request ids k span = JObj
     [(''member_ids'', JArr (map jnum (take (snd span - Suc (fst span)) (drop (Suc (fst span)) ids)))),
      (''title'', JStr (''load room '' @ format_uint (Suc k)))]"

text \<open>\<open>create\<close> is the server; an error ends the program.\<close>

fun create_rooms ::
  "(nat \<Rightarrow> json \<Rightarrow> string + nat) \<Rightarrow> nat list \<Rightarrow> (nat \<times> nat) list \<Rightarrow> load_room list \<Rightarrow> string + load_room list" where
  "create_rooms create ids [] rooms = Inr rooms"
| "create_rooms create ids ((start, stop) # spans) rooms =
     (case create start (room_request ids (length rooms) (start, stop)) of
        Inl e \<Rightarrow> Inl e
      | Inr i \<Rightarrow> create_rooms create ids spans
          (rooms @ [\<lparr>lr_id = i, lr_owner = start, lr_members = stop - start\<rparr>]))"

definition build_rooms :: "(nat \<Rightarrow> json \<Rightarrow> string + nat) \<Rightarrow> nat list \<Rightarrow> nat \<Rightarrow> string + load_room list" where
  "build_rooms create ids per = create_rooms create ids (room_spans per (length ids) 0) []"

text \<open>The spans lie one behind the other, and leave at most one user without a room.\<close>

fun chained :: "nat \<Rightarrow> nat \<Rightarrow> (nat \<times> nat) list \<Rightarrow> bool" where
  "chained from n [] \<longleftrightarrow> n \<le> Suc from"
| "chained from n ((a, b) # spans) \<longleftrightarrow> a = from \<and> a + 2 \<le> b \<and> b \<le> n \<and> chained b n spans"

lemma spans_chained: "2 \<le> per \<Longrightarrow> chained (min start n) n (room_spans per n start)
    \<and> (\<forall>s \<in> set (room_spans per n start). snd s - fst s \<le> per)"
proof (induction per n start rule: room_spans.induct)
  case (1 per n start)
  show ?case
  proof (cases "n \<le> start \<or> min (start + per) n - start < 2")
    case True
    then have "room_spans per n start = []" by (subst room_spans.simps) (auto simp: Let_def)
    with True 1(2) show ?thesis by (auto simp: min_def split: if_split_asm)
  next
    case False
    with 1(2) have eq: "room_spans per n start = (start, min (start + per) n) # room_spans per n (start + per)"
      by (simp add: room_spans.simps [of per n start] Let_def)
    from False 1(1) [OF _ refl] 1(2) have
      "chained (min (start + per) n) n (room_spans per n (start + per))
       \<and> (\<forall>s \<in> set (room_spans per n (start + per)). snd s - fst s \<le> per)" by simp
    with False 1(2) show ?thesis unfolding eq by (auto simp: min_def)
  qed
qed

lemma create_rooms_sizes:
  "create_rooms create ids spans rooms = Inr out \<Longrightarrow>
     map (\<lambda>r. (lr_owner r, lr_members r)) out
       = map (\<lambda>r. (lr_owner r, lr_members r)) rooms @ map (\<lambda>s. (fst s, snd s - fst s)) spans"
  by (induction create ids spans rooms rule: create_rooms.induct) (auto split: sum.splits)

section \<open>Messages\<close>

definition pad :: "string \<Rightarrow> nat \<Rightarrow> string" where
  "pad start width = (if length start \<ge> width then start else start @ replicate (width - length start) (CHR ''x''))"

definition load_message :: "nat \<Rightarrow> nat \<Rightarrow> nat \<Rightarrow> json" where
  "load_message width room n = JObj
     [(''client_msg_id'', JStr (''load-'' @ format_uint room @ ''-'' @ format_uint n)),
      (''content'', JStr (pad (''load message '' @ format_uint n @ '' '') width))]"

lemma pad_length: "length (pad start width) = max (length start) width"
  by (simp add: pad_def)

lemma pad_nonempty: "start \<noteq> [] \<Longrightarrow> pad start width \<noteq> []"
  by (simp add: pad_def)

section \<open>The server takes what the tool sends\<close>

lemma format_uint_length: "0 < k \<Longrightarrow> n < 10 ^ k \<Longrightarrow> length (format_uint n) \<le> k"
proof (induction k arbitrary: n)
  case (Suc k)
  show ?case
  proof (cases "n < 10")
    case True
    then show ?thesis by (subst format_uint.simps) simp
  next
    case False
    with Suc.prems(2) have "n div 10 < 10 ^ k" "0 < k" by (auto simp: less_mult_imp_div_less intro: gr0I)
    with Suc.IH False show ?thesis by (subst format_uint.simps) simp
  qed
qed simp

definition ascii :: "string \<Rightarrow> bool" where
  "ascii s \<longleftrightarrow> list_all (\<lambda>c. of_char c < (128 :: nat)) s"

lemma ascii_runes: "ascii s \<Longrightarrow> rune_count s = length s"
  unfolding ascii_def rune_count_def by (induction s) auto

lemma ascii_simps [simp]: "ascii []" "ascii (c # s) \<longleftrightarrow> of_char c < (128 :: nat) \<and> ascii s"
  "ascii (s @ t) \<longleftrightarrow> ascii s \<and> ascii t" "ascii (replicate n (CHR ''x''))"
  by (auto simp: ascii_def list_all_iff)

lemma ascii_number [simp]: "ascii (format_uint n)"
  using format_uint_digits by (fastforce simp: ascii_def list_all_iff digit_char_def)

lemma ascii_pad: "ascii start \<Longrightarrow> ascii (pad start width)"
  by (simp add: pad_def)

lemma room_request_accepted:
  assumes "snd span \<le> Suc (fst span) + 50" "k < 10 ^ 20" "\<And>i. i \<in> set ids \<Longrightarrow> 0 < i \<and> i < 2 ^ 64"
  shows "bind_create_conversation (Some (room_request ids k span)) = Some
    \<lparr>cq_title = ''load room '' @ format_uint (Suc k),
     cq_member_ids = take (snd span - Suc (fst span)) (drop (Suc (fst span)) ids)\<rparr>"
proof -
  let ?ns = "take (snd span - Suc (fst span)) (drop (Suc (fst span)) ids)" and ?t = "''load room '' @ format_uint (Suc k)"
  have ns: "0 < i \<and> i < 2 ^ 64" if "i \<in> set ?ns" for i
    using assms(3) that by (blast dest: in_set_takeD in_set_dropD)
  have "length (format_uint (Suc k)) \<le> 21" using assms(2) by (intro format_uint_length) simp_all
  then have "runes_within 1 200 ?t" by (simp add: runes_within_def ascii_runes)
  moreover have "length ?ns \<le> 50" using assms(1) by simp
  moreover have "list_all (\<lambda>i. 0 < i) ?ns" using ns by (simp add: list_all_iff)
  moreover have "decode_ids (JArr (map jnum ?ns)) old = Some ?ns" for old
    using ns decode_elems_jnum [of ?ns old] by simp
  ultimately show ?thesis
    by (simp add: bind_create_conversation_def room_request_def decode_struct_def validated_def
        equal_fold_def to_lower_def lower_char_def del: decode_ids.simps)
qed

lemma load_message_accepted:
  assumes "width \<le> 4000" "room < 2 ^ 64" "n < 2 ^ 64"
  shows "bind_send_message (Some (load_message width room n)) = Some
    \<lparr>sq_content = pad (''load message '' @ format_uint n @ '' '') width,
     sq_client_msg_id = ''load-'' @ format_uint room @ ''-'' @ format_uint n\<rparr>"
proof -
  have len: "length (format_uint m) \<le> 20" if "m < 2 ^ 64" for m
    using that by (intro format_uint_length) simp_all
  let ?c = "pad (''load message '' @ format_uint n @ '' '') width"
  have c: "length ?c \<le> 4000" "?c \<noteq> []" "ascii ?c"
    using assms(1) len [OF assms(3)] by (simp_all add: pad_length pad_nonempty ascii_pad)
  then have "1 \<le> length ?c" by (cases ?c) simp_all
  with c have "runes_within 1 4000 ?c" by (simp add: runes_within_def ascii_runes)
  then show ?thesis
    using len [OF assms(2)] len [OF assms(3)]
    by (simp add: bind_send_message_def load_message_def decode_struct_def validated_def ascii_runes
        equal_fold_def to_lower_def lower_char_def)
qed

section \<open>The fleet\<close>

text \<open>
  \<open>connectAll\<close> after the dials: who is connected, the last \<open>slow\<close> of the users never read, the others
  get a read loop. Users are the positions in the list.
\<close>

record fleet_plan =
  fp_connected :: nat
  fp_slow :: "nat list"
  fp_readers :: "nat list"

definition connect_all :: "int \<Rightarrow> bool list \<Rightarrow> string + fleet_plan" where
  "connect_all slow ok =
     (let up = filter (\<lambda>i. ok ! i) [0..<length ok];
          lazy = (\<lambda>i. int i \<ge> int (length ok) - slow)
      in if up = [] then Inl ''no socket could be opened''
         else Inr \<lparr>fp_connected = length up, fp_slow = filter lazy up, fp_readers = filter (\<lambda>i. \<not> lazy i) up\<rparr>)"

record fleet =
  fl_latencies :: "duration list"
  fl_sent_at :: "string \<rightharpoonup> time"
  fl_closed :: nat
  fl_clean :: nat
  fl_received :: nat
  fl_slow_closed :: nat

definition fresh_fleet :: fleet where
  "fresh_fleet = \<lparr>fl_latencies = [], fl_sent_at = Map.empty, fl_closed = 0, fl_clean = 0, fl_received = 0, fl_slow_closed = 0\<rparr>"

text \<open>
  The steps under the mutex: \<open>sendAll\<close> writes a message down before it is posted; \<open>readLoop\<close> gets a
  frame, or an error that was a goodbye or not; \<open>checkSlow\<close> finds a socket that was hung up on.
\<close>

datatype fleet_event =
    Sending string time
  | Frame_Read "json option" time
  | Read_Failed bool
  | Slow_Closed

fun fleet_step :: "fleet \<Rightarrow> fleet_event \<Rightarrow> fleet" where
  "fleet_step f (Sending key now) = f\<lparr>fl_sent_at := (fl_sent_at f)(key \<mapsto> now)\<rparr>"
| "fleet_step f (Read_Failed goodbye) =
     f\<lparr>fl_closed := fl_closed f + 1, fl_clean := fl_clean f + (if goodbye then 1 else 0)\<rparr>"
| "fleet_step f (Frame_Read raw arrived) =
     (case client_id_of_frame raw of
        None \<Rightarrow> f
      | Some key \<Rightarrow>
          f\<lparr>fl_latencies := (case fl_sent_at f key of
                 None \<Rightarrow> fl_latencies f | Some t \<Rightarrow> fl_latencies f @ [arrived - t]),
             fl_received := fl_received f + 1\<rparr>)"
| "fleet_step f Slow_Closed = f\<lparr>fl_slow_closed := fl_slow_closed f + 1\<rparr>"

definition run_fleet :: "fleet_event list \<Rightarrow> fleet" where
  "run_fleet es = fold (\<lambda>e f. fleet_step f e) es fresh_fleet"

text \<open>\<open>checkSlow\<close> on one socket: what it never read is drained until the read fails; a timeout is not a close.\<close>

datatype slow_read = Drained | Read_Timeout | Other_Error

fun hung_up :: "slow_read list \<Rightarrow> bool" where
  "hung_up [] = False"
| "hung_up (Drained # rs) = hung_up rs"
| "hung_up (Read_Timeout # rs) = False"
| "hung_up (Other_Error # rs) = True"

definition check_slow :: "slow_read list list \<Rightarrow> fleet \<Rightarrow> fleet" where
  "check_slow rss f = fold (\<lambda>rs f. if hung_up rs then fleet_step f Slow_Closed else f) rss f"

section \<open>The report\<close>

text \<open>\<open>percentile\<close> of a sorted slice; \<open>None\<close> would be an index out of range.\<close>

definition percentile :: "duration list \<Rightarrow> nat \<Rightarrow> duration option" where
  "percentile xs p =
     (if xs = [] then Some 0
      else let i = min ((length xs * p + 99) div 100) (length xs)
           in if i = 0 then None else Some (xs ! (i - 1)))"

definition load_figures :: "fleet \<Rightarrow> (nat \<times> duration option list \<times> duration) option" where
  "load_figures f =
     (let xs = sort (fl_latencies f)
      in if xs = [] then None
         else Some (length xs, map (percentile xs) [50, 95, 99], last xs))"

text \<open>
  The nearest-rank percentile: the least sample that at least \<open>p\<close> percent of the samples do not
  exceed.
\<close>

definition up_to :: "duration list \<Rightarrow> duration \<Rightarrow> nat" where
  "up_to xs v = length (filter (\<lambda>x. x \<le> v) xs)"

definition nearest_rank :: "duration list \<Rightarrow> nat \<Rightarrow> duration \<Rightarrow> bool" where
  "nearest_rank xs p v \<longleftrightarrow> v \<in> set xs \<and> p * length xs \<le> 100 * up_to xs v
     \<and> (\<forall>w \<in> set xs. p * length xs \<le> 100 * up_to xs w \<longrightarrow> v \<le> w)"

lemma up_to_sorted:
  assumes "sorted xs" "i < length xs"
  shows "Suc i \<le> up_to xs (xs ! i)" and "w < xs ! i \<Longrightarrow> up_to xs w \<le> i"
proof -
  have split: "up_to xs v = up_to (take k xs) v + up_to (drop k xs) v" for v k
    unfolding up_to_def by (metis append_take_drop_id filter_append length_append)
  have "xs ! j \<le> xs ! i" if "j \<le> i" for j by (rule sorted_nth_mono [OF assms(1) that assms(2)])
  then have "filter (\<lambda>x. x \<le> xs ! i) (take (Suc i) xs) = take (Suc i) xs"
    by (auto simp: filter_id_conv in_set_conv_nth less_Suc_eq_le)
  then have "up_to (take (Suc i) xs) (xs ! i) = Suc i" using assms(2) by (simp add: up_to_def)
  with split [of "xs ! i" "Suc i"] show "Suc i \<le> up_to xs (xs ! i)" by simp
  assume w: "w < xs ! i"
  have "x > w" if "x \<in> set (drop i xs)" for x
  proof -
    from that obtain j where j: "j < length (drop i xs)" "x = drop i xs ! j" by (metis in_set_conv_nth)
    then have "xs ! i \<le> x" using assms sorted_nth_mono [of xs i "i + j"] by (simp add: nth_drop)
    with w show ?thesis by simp
  qed
  then have "filter (\<lambda>x. x \<le> w) (drop i xs) = []" by (force simp: filter_empty_conv)
  then have "up_to (drop i xs) w = 0" by (simp add: up_to_def)
  moreover have "up_to (take i xs) w \<le> i"
    unfolding up_to_def by (rule order_trans [OF length_filter_le]) simp
  ultimately show "up_to xs w \<le> i" using split [of w i] by simp
qed

lemma percentile_nearest_rank:
  assumes "sorted xs" "xs \<noteq> []" "1 \<le> p" "p \<le> 100"
  obtains v where "percentile xs p = Some v" "nearest_rank xs p v"
proof -
  let ?n = "length xs" and ?i = "(length xs * p + 99) div 100"
  have n: "1 \<le> ?n" using assms(2) by (cases xs) simp_all
  have np: "1 \<le> ?n * p" "?n * p \<le> ?n * 100"
    using mult_le_mono [OF n assms(3)] mult_le_mono2 [OF assms(4), of ?n] by (simp_all del: mult_le_cancel1 mult_le_cancel2)
  have rounded: "1 \<le> (m + 99) div 100 \<and> (m + 99) div 100 \<le> k \<and> m \<le> 100 * ((m + 99) div 100)
      \<and> 100 * ((m + 99) div 100 - 1) < m" if "1 \<le> m" "m \<le> k * 100" for m k :: nat
  proof -
    define q where "q = (m + 99) div 100"
    have "100 * q \<le> m + 99" "m + 99 < 100 * q + 100"
      using div_times_less_eq_dividend [of "m + 99" 100] dividend_less_div_times [of 100 "m + 99"] by (simp_all add: q_def)
    with that show ?thesis unfolding q_def [symmetric] by linarith
  qed
  from rounded [OF np] have i: "1 \<le> ?i" "?i \<le> ?n"
    and lo: "?n * p \<le> 100 * ?i" and hi: "100 * (?i - 1) < ?n * p" by blast+
  let ?v = "xs ! (?i - 1)"
  have at: "?i - 1 < ?n" using i by simp
  note rank = up_to_sorted [OF assms(1) at]
  have "percentile xs p = Some ?v" using assms(2) i by (simp add: percentile_def Let_def min_absorb1)
  moreover have "nearest_rank xs p ?v"
    unfolding nearest_rank_def
  proof (intro conjI ballI impI)
    show "?v \<in> set xs" using at by simp
    show "p * ?n \<le> 100 * up_to xs ?v" using lo rank(1) i(1) by (simp add: mult.commute [of p])
    fix w assume "w \<in> set xs" and w: "p * ?n \<le> 100 * up_to xs w"
    show "?v \<le> w"
    proof (rule ccontr)
      assume "\<not> ?v \<le> w"
      with rank(2) [of w] have "100 * up_to xs w \<le> 100 * (?i - 1)" by simp
      with hi w show False by (simp add: mult.commute [of p])
    qed
  qed
  ultimately show thesis by (rule that)
qed

text \<open>What is reported is measured: a sample is a frame that arrived after its message was written down.\<close>

fun message_read :: "fleet_event \<Rightarrow> bool" where
  "message_read (Frame_Read raw t) \<longleftrightarrow> client_id_of_frame raw \<noteq> None"
| "message_read _ \<longleftrightarrow> False"

fun read_ended :: "fleet_event \<Rightarrow> bool" where
  "read_ended (Read_Failed g) \<longleftrightarrow> True"
| "read_ended _ \<longleftrightarrow> False"

lemma fleet_counts:
  "length (fl_latencies (run_fleet es)) \<le> fl_received (run_fleet es) \<and> fl_clean (run_fleet es) \<le> fl_closed (run_fleet es)
   \<and> fl_received (run_fleet es) = length (filter message_read es)
   \<and> fl_closed (run_fleet es) = length (filter read_ended es)"
  unfolding run_fleet_def
proof (induction es rule: rev_induct)
  case (snoc e es)
  then show ?case by (cases e) (auto split: option.split)
qed (simp add: fresh_fleet_def)

lemma everyone_connected:
  assumes "connect_all slow ok = Inr fp"
  shows "fp_connected fp = length (fp_slow fp) + length (fp_readers fp)"
    and "set (fp_slow fp) \<union> set (fp_readers fp) = {i. i < length ok \<and> ok ! i}"
    and "0 \<le> slow \<Longrightarrow> int (length (fp_slow fp)) \<le> slow"
proof -
  let ?up = "filter (\<lambda>i. ok ! i) [0..<length ok]" and ?lazy = "\<lambda>i. int i \<ge> int (length ok) - slow"
  from assms have fp: "fp = \<lparr>fp_connected = length ?up, fp_slow = filter ?lazy ?up, fp_readers = filter (\<lambda>i. \<not> ?lazy i) ?up\<rparr>"
    by (auto simp: connect_all_def Let_def split: if_splits)
  show "fp_connected fp = length (fp_slow fp) + length (fp_readers fp)"
    unfolding fp using sum_length_filter_compl [of ?lazy ?up] by simp
  show "set (fp_slow fp) \<union> set (fp_readers fp) = {i. i < length ok \<and> ok ! i}" unfolding fp by auto
  assume slow: "0 \<le> slow"
  have sub: "set (filter ?lazy ?up) \<subseteq> {nat (int (length ok) - slow)..<length ok}" by auto
  have "length (filter ?lazy ?up) = card (set (filter ?lazy ?up))"
    by (simp only: distinct_card distinct_filter distinct_upt)
  also have "\<dots> \<le> card {nat (int (length ok) - slow)..<length ok}" by (rule card_mono [OF _ sub]) simp
  finally show "int (length (fp_slow fp)) \<le> slow" unfolding fp using slow by simp
qed

end
