(* ===== verification/Cluster_Check.thy ===== *)
theory Cluster_Check
  imports Check_Socket Rooms_Api
begin

text \<open>
  The commands that ask whether two nodes are one cluster: \<open>cmd/splitcheck/main.go\<close> sends on each
  node and waits at a socket on both, \<open>cmd/presencecheck/main.go\<close> asks each node who is online, and
  goes on asking and sending while the presence service is taken away. The answers of the nodes
  and the outcomes at the sockets are arguments; printing is left out.
\<close>

section \<open>Who is online\<close>

text \<open>
  \<open>presence\<close>: the two lists of the answer, and the map made of them. A user the answer does not name
  reads as offline.
\<close>

definition presence_answer :: "json \<Rightarrow> (nat list \<times> nat list) option" where
  "presence_answer j = decode_struct
     (\<lambda>(on, off) (k, v).
        if equal_fold k ''online'' then map_option (\<lambda>ns. (ns, off)) (decode_ids v on)
        else if equal_fold k ''offline'' then map_option (Pair on) (decode_ids v off)
        else Some (on, off))
     ([], []) (Some j)"

definition who_is_online :: "nat list \<times> nat list \<Rightarrow> nat \<rightharpoonup> bool" where
  "who_is_online p = fold (\<lambda>i m. m(i \<mapsto> True)) (fst p) (fold (\<lambda>i m. m(i \<mapsto> False)) (snd p) Map.empty)"

definition says_online :: "(nat \<rightharpoonup> bool) \<Rightarrow> nat \<Rightarrow> bool" where
  "says_online m i = (case m i of None \<Rightarrow> False | Some b \<Rightarrow> b)"

definition ask_presence :: "string + json \<Rightarrow> string + (nat \<rightharpoonup> bool)" where
  "ask_presence answer =
     (case answer of
        Inl e \<Rightarrow> Inl e
      | Inr j \<Rightarrow> (case presence_answer j of None \<Rightarrow> Inl ''decode'' | Some p \<Rightarrow> Inr (who_is_online p)))"

text \<open>\<open>checkPresence\<close>: one node that cannot answer, or does not see both users, is enough.\<close>

definition check_presence :: "nat \<Rightarrow> nat \<Rightarrow> (string + json) list \<Rightarrow> bool" where
  "check_presence a b answers = fold
     (\<lambda>answer shared. case ask_presence answer of
        Inl _ \<Rightarrow> False
      | Inr m \<Rightarrow> if \<not> says_online m a \<or> \<not> says_online m b then False else shared)
     answers True"

section \<open>A message to both sockets\<close>

text \<open>
  \<open>round\<close> of \<open>splitcheck\<close>: every socket is waited for, also after one of them got nothing. What is left
  at the sockets is what the next round finds.
\<close>

fun wait_all :: "string \<Rightarrow> string outcome list list \<Rightarrow> bool \<Rightarrow> bool \<times> string outcome list list" where
  "wait_all key [] all = (all, [])"
| "wait_all key (s # ss) all =
     (let (got, s') = wait_for key s; (all', ss') = wait_all key ss (if got then all else False)
      in (all', s' # ss'))"

definition split_round :: "string + unit \<Rightarrow> string \<Rightarrow> string outcome list list \<Rightarrow> bool \<times> string outcome list list" where
  "split_round send key ss = (case send of Inl _ \<Rightarrow> (False, ss) | Inr _ \<Rightarrow> wait_all key ss True)"

definition split_check ::
  "string + unit \<Rightarrow> string \<Rightarrow> string + unit \<Rightarrow> string \<Rightarrow> string outcome list list \<Rightarrow> bool" where
  "split_check send1 key1 send2 key2 ss =
     (let (ok1, ss1) = split_round send1 key1 ss; (ok2, ss2) = split_round send2 key2 ss1 in ok1 \<and> ok2)"

section \<open>Probing an outage\<close>

record probe =
  pb_presence :: "string + json"
  pb_send :: "string + unit"
  pb_key :: string

record probe_counts =
  pc_sent :: nat
  pc_delivered :: nat
  pc_probes :: nat
  pc_failed :: nat

text \<open>
  \<open>probeDuringOutage\<close>: every probe asks, every fifth sends as well and waits at the first socket. The
  list is as long as the clock lets the loop run.
\<close>

definition probe_once :: "nat \<Rightarrow> probe \<Rightarrow> probe_counts \<times> string outcome list \<Rightarrow> probe_counts \<times> string outcome list" where
  "probe_once i p cs =
     (let c = (fst cs)\<lparr>pc_probes := pc_probes (fst cs) + 1\<rparr>;
          c = (case ask_presence (pb_presence p) of Inl _ \<Rightarrow> c\<lparr>pc_failed := pc_failed c + 1\<rparr> | Inr _ \<Rightarrow> c)
      in if i mod 5 \<noteq> 0 then (c, snd cs)
         else let c = c\<lparr>pc_sent := pc_sent c + 1\<rparr>
              in case pb_send p of
                   Inl _ \<Rightarrow> (c, snd cs)
                 | Inr _ \<Rightarrow>
                     (case wait_for (pb_key p) (snd cs) of
                        (True, s) \<Rightarrow> (c\<lparr>pc_delivered := pc_delivered c + 1\<rparr>, s)
                      | (False, s) \<Rightarrow> (c, s)))"

fun probe_loop :: "nat \<Rightarrow> probe list \<Rightarrow> probe_counts \<times> string outcome list \<Rightarrow> probe_counts \<times> string outcome list" where
  "probe_loop i [] cs = cs"
| "probe_loop i (p # ps) cs = probe_loop (i + 1) ps (probe_once i p cs)"

definition no_counts :: probe_counts where
  "no_counts = \<lparr>pc_sent = 0, pc_delivered = 0, pc_probes = 0, pc_failed = 0\<rparr>"

definition untouched :: "probe_counts \<Rightarrow> bool" where
  "untouched c \<longleftrightarrow> pc_sent c > 0 \<and> pc_delivered c = pc_sent c"

text \<open>\<open>short\<close>: newlines become spaces, and 26 bytes are kept.\<close>

definition short :: "string \<Rightarrow> string" where
  "short why =
     (let s = map (\<lambda>c. if c = CHR 0x0A then CHR '' '' else c) why
      in if length s > 26 then take 26 s else s)"

section \<open>What the answers mean\<close>

lemma online_map: "who_is_online (on, off) i = (if i \<in> set on then Some True else if i \<in> set off then Some False else None)"
proof -
  have fold_upd: "fold (\<lambda>i m. m(i \<mapsto> b)) ns m i = (if i \<in> set ns then Some b else m i)" for ns b and m :: "nat \<rightharpoonup> bool"
    by (induction ns arbitrary: m) auto
  show ?thesis by (simp add: who_is_online_def fold_upd)
qed

lemma presence_keys [simp]: "equal_fold ''online'' ''online''" "\<not> equal_fold ''offline'' ''online''" "equal_fold ''offline'' ''offline''"
  by (simp_all add: equal_fold_def to_lower_def lower_char_def)

text \<open>The client reads out of the handler's answer exactly what the handler knew of the members.\<close>

lemma presence_read:
  assumes "\<And>i. i \<in> set ids \<Longrightarrow> i < 2 ^ 64"
  shows "ask_presence (Inr (presence_json (split_online up ids))) =
    Inr (\<lambda>i. if i \<in> set ids then Some (up i = Some True) else None)"
proof -
  have "decode_elems (map jnum (filter P ids)) old = Some (filter P ids)" for P old
    using assms by (intro decode_elems_jnum) auto
  then have "presence_answer (presence_json (split_online up ids)) =
      Some (pr_online (split_online up ids), pr_offline (split_online up ids))"
    by (simp add: presence_answer_def presence_json_def decode_struct_def split_online_def)
  then show ?thesis by (auto simp: ask_presence_def online_map split_online_def fun_eq_iff)
qed

lemma check_presence_iff:
  "check_presence a b answers \<longleftrightarrow>
     (\<forall>answer \<in> set answers. \<exists>m. ask_presence answer = Inr m \<and> says_online m a \<and> says_online m b)"
proof -
  let ?sees = "\<lambda>answer. \<exists>m. ask_presence answer = Inr m \<and> says_online m a \<and> says_online m b"
  have "fold (\<lambda>answer shared. case ask_presence answer of
        Inl _ \<Rightarrow> False | Inr m \<Rightarrow> if \<not> says_online m a \<or> \<not> says_online m b then False else shared) answers s
      \<longleftrightarrow> s \<and> (\<forall>answer \<in> set answers. ?sees answer)" for s
    by (induction answers arbitrary: s) (auto split: sum.split)
  then show ?thesis by (simp add: check_presence_def)
qed

text \<open>
  \<open>ONE PRESENCE VIEW\<close> is printed exactly when what each node was told of the two members by its
  presence service names both as online.
\<close>

lemma shared_view:
  assumes "a \<in> set ids" "b \<in> set ids" "\<And>i. i \<in> set ids \<Longrightarrow> i < 2 ^ 64"
  shows "check_presence a b (map (\<lambda>up. Inr (presence_json (split_online up ids))) ups) \<longleftrightarrow>
    (\<forall>up \<in> set ups. up a = Some True \<and> up b = Some True)"
  using assms by (auto simp: check_presence_iff presence_read says_online_def)

section \<open>What the verdicts mean\<close>

lemma wait_for_split: "wait_for key ps = (got, ps') \<Longrightarrow> \<exists>qs. ps = qs @ ps' \<and> (got \<longrightarrow> key \<in> set (takes qs))"
proof (induction ps)
  case (Cons p ps)
  show ?case
  proof (cases "\<exists>y. p = Took y \<and> y \<noteq> key")
    case True
    with Cons obtain qs where "ps = qs @ ps'" "got \<longrightarrow> key \<in> set (takes qs)" by auto
    with True show ?thesis by (intro exI [of _ "p # qs"]) auto
  next
    case False
    with Cons.prems show ?thesis by (cases p) (auto intro: exI [of _ "[p]"])
  qed
qed simp

lemma wait_all_split:
  "wait_all key ss all = (ok, ss') \<Longrightarrow>
     length ss' = length ss \<and> (\<forall>i < length ss. \<exists>qs. ss ! i = qs @ ss' ! i \<and> (ok \<longrightarrow> key \<in> set (takes qs))) \<and> (ok \<longrightarrow> all)"
proof (induction key ss all arbitrary: ok ss' rule: wait_all.induct)
  case (2 key s ss all)
  obtain got s' where w: "wait_for key s = (got, s')" by fastforce
  obtain ok' ss2 where rest: "wait_all key ss (if got then all else False) = (ok', ss2)" by fastforce
  from 2(2) w rest have out: "ok = ok'" "ss' = s' # ss2" by (simp_all add: Let_def)
  from 2(1) [OF w [symmetric] refl rest] have ih: "length ss2 = length ss"
    "\<forall>i < length ss. \<exists>qs. ss ! i = qs @ ss2 ! i \<and> (ok' \<longrightarrow> key \<in> set (takes qs))" "ok' \<longrightarrow> got \<and> all"
    by (auto split: if_splits)
  from wait_for_split [OF w] ih(3) have "\<exists>qs. s = qs @ s' \<and> (ok' \<longrightarrow> key \<in> set (takes qs))" by blast
  with ih out show ?case by (auto simp: nth_Cons split: nat.split)
qed simp

text \<open>\<open>BOTH NODES DELIVERED\<close>: each message was taken at each socket.\<close>

lemma split_check_sound:
  assumes "split_check send1 key1 send2 key2 ss" "i < length ss"
  shows "key1 \<in> set (takes (ss ! i)) \<and> key2 \<in> set (takes (ss ! i))"
proof -
  obtain ok1 ss1 where r1: "split_round send1 key1 ss = (ok1, ss1)" by fastforce
  obtain ok2 ss2 where r2: "split_round send2 key2 ss1 = (ok2, ss2)" by fastforce
  from assms(1) r1 r2 have ok: "ok1" "ok2" by (simp_all add: split_check_def)
  then have w1: "wait_all key1 ss True = (True, ss1)" and w2: "wait_all key2 ss1 True = (True, ss2)"
    using r1 r2 by (auto simp: split_round_def split: sum.splits)
  from wait_all_split [OF w1] assms(2) obtain qs where "ss ! i = qs @ ss1 ! i" "key1 \<in> set (takes qs)" "length ss1 = length ss" by auto
  moreover from wait_all_split [OF w2] assms(2) calculation(3) obtain qs2 where "ss1 ! i = qs2 @ ss2 ! i" "key2 \<in> set (takes qs2)" by auto
  ultimately show ?thesis by (auto simp: takes_def)
qed

lemma probe_counts_ok:
  "probe_loop i ps (c, s) = (c', s') \<Longrightarrow> pc_delivered c \<le> pc_sent c \<Longrightarrow> pc_failed c \<le> pc_probes c \<Longrightarrow>
     pc_probes c' = pc_probes c + length ps \<and> pc_failed c' \<le> pc_probes c' \<and> pc_delivered c' \<le> pc_sent c'
     \<and> pc_sent c' = pc_sent c + length (filter (\<lambda>j. j mod 5 = 0) [i..<i + length ps])"
proof (induction ps arbitrary: i c s)
  case (Cons p ps)
  obtain c1 s1 where one: "probe_once i p (c, s) = (c1, s1)" by fastforce
  have c1: "pc_probes c1 = pc_probes c + 1" "pc_failed c1 \<le> pc_probes c1" "pc_delivered c1 \<le> pc_sent c1"
    "pc_sent c1 = pc_sent c + (if i mod 5 = 0 then 1 else 0)"
    using one Cons.prems(2,3)
    by (auto simp: probe_once_def Let_def split: sum.splits if_splits prod.splits bool.splits)
  from Cons.prems(1) one have "probe_loop (i + 1) ps (c1, s1) = (c', s')" by simp
  from Cons.IH [OF this c1(3,2)] c1 show ?case by (simp add: upt_conv_Cons del: upt_Suc)
qed simp

lemma short_fits: "length (short s) \<le> 26"
  by (simp add: short_def Let_def)

end
