(* ===== verification/Trace_Check.thy ===== *)
theory Trace_Check
  imports Check_Socket
begin

text \<open>
  \<open>cmd/tracecheck/main.go\<close>: sends one message under a trace id of its own, asks Jaeger for the trace
  until it is there, and judges whether it followed the message through more than one process.
  Jaeger is an argument: the answers to the polls, one for each time the clock was before the
  deadline.
\<close>

section \<open>The trace id\<close>

definition new_traceparent :: "bytes \<Rightarrow> bytes \<Rightarrow> string \<times> string" where
  "new_traceparent t s = (hex_encode t, ''00-'' @ hex_encode t @ ''-'' @ hex_encode s @ ''-01'')"

definition trace_message_id :: "string \<Rightarrow> string" where
  "trace_message_id trace_id = ''tracecheck-'' @ take 8 trace_id"

section \<open>Jaeger's answer\<close>

record jaeger_span =
  js_operation :: string
  js_start :: int
  js_duration :: int
  js_process :: string

record jaeger_process =
  jp_service :: string
  jp_tags :: "(string \<times> json) list"

record jaeger_trace =
  jt_spans :: "jaeger_span list"
  jt_processes :: "string \<rightharpoonup> jaeger_process"

text \<open>
  \<open>getTrace\<close> on a status and the decoded \<open>data\<close> of the body: a 404 and an empty list are \<open>not yet\<close>.
\<close>

definition get_trace :: "nat \<Rightarrow> jaeger_trace list option \<Rightarrow> string + jaeger_trace option" where
  "get_trace status decoded =
     (if status = 404 then Inr None
      else if status \<ge> 300 then Inl ''status''
      else case decoded of
        None \<Rightarrow> Inl ''decode''
      | Some [] \<Rightarrow> Inr None
      | Some (t # _) \<Rightarrow> Inr (Some t))"

text \<open>\<open>fetchTrace\<close>: polls until the trace is there; the last error is forgotten by a \<open>not yet\<close>.\<close>

datatype fetch_end = Found jaeger_trace nat | Unreadable string | Never_Saw

fun fetch_loop :: "(string + jaeger_trace option) list \<Rightarrow> nat \<Rightarrow> string option \<Rightarrow> fetch_end" where
  "fetch_loop [] k last_err = (case last_err of None \<Rightarrow> Never_Saw | Some e \<Rightarrow> Unreadable e)"
| "fetch_loop (Inl e # polls) k last_err = fetch_loop polls (k + 1) (Some e)"
| "fetch_loop (Inr None # polls) k last_err = fetch_loop polls (k + 1) None"
| "fetch_loop (Inr (Some t) # polls) k last_err = Found t k"

definition fetch_trace :: "(string + jaeger_trace option) list \<Rightarrow> fetch_end" where
  "fetch_trace polls = fetch_loop polls 1 None"

section \<open>Names\<close>

fun first_text_tag :: "string \<Rightarrow> (string \<times> json) list \<Rightarrow> string" where
  "first_text_tag key [] = []"
| "first_text_tag key ((k, v) # tags) =
     (if k = key then (case v of JStr s \<Rightarrow> s | _ \<Rightarrow> first_text_tag key tags) else first_text_tag key tags)"

definition process_tag :: "jaeger_trace \<Rightarrow> string \<Rightarrow> string \<Rightarrow> string" where
  "process_tag t pid key =
     (case jt_processes t pid of None \<Rightarrow> [] | Some p \<Rightarrow> first_text_tag key (jp_tags p))"

definition span_node :: "jaeger_trace \<Rightarrow> jaeger_span \<Rightarrow> string" where
  "span_node t s = process_tag t (js_process s) ''service.instance.id''"

definition trace_names :: "jaeger_trace \<Rightarrow> string list" where
  "trace_names t = map js_operation (jt_spans t)"

definition has_prefix :: "string list \<Rightarrow> string \<Rightarrow> bool" where
  "has_prefix names start = list_ex (\<lambda>n. take (length start) n = start) names"

definition plural :: "int \<Rightarrow> string \<Rightarrow> string \<Rightarrow> string" where
  "plural n one many = (if n = 1 then one else many)"

text \<open>\<open>truncate\<close> cuts bytes; the ellipsis is three of them.\<close>

definition ellipsis :: string where "ellipsis = map char_of [0xE2, 0x80, 0xA6 :: nat]"

definition truncate_text :: "string \<Rightarrow> nat \<Rightarrow> string" where
  "truncate_text s n = (if length s \<le> n then s else take (n - 1) s @ ellipsis)"

section \<open>The verdict\<close>

text \<open>\<open>keys\<close> of the map of nodes: each once, sorted.\<close>

definition trace_nodes :: "jaeger_trace \<Rightarrow> string list" where
  "trace_nodes t = sort (remdups (filter (\<lambda>n. n \<noteq> []) (map (span_node t) (jt_spans t))))"

datatype trace_problem = No_Http_Span | No_Publish_Span | No_Fanout_Span | One_Process "string list"

definition trace_problems :: "jaeger_trace \<Rightarrow> bool \<Rightarrow> trace_problem list" where
  "trace_problems t arrived =
     (if \<not> has_prefix (trace_names t) ''POST /conversations'' then [No_Http_Span] else [])
     @ (if ''outbox.publish'' \<notin> set (trace_names t) then [No_Publish_Span] else [])
     @ (if arrived \<and> ''fanout.deliver'' \<notin> set (trace_names t) then [No_Fanout_Span] else [])
     @ (if length (trace_nodes t) < 2 then [One_Process (trace_nodes t)] else [])"

definition trace_check :: "string \<Rightarrow> string outcome list \<Rightarrow> (string + jaeger_trace option) list \<Rightarrow> fetch_end + trace_problem list" where
  "trace_check key ps polls =
     (case fetch_trace polls of
        Found t k \<Rightarrow> Inr (trace_problems t (fst (wait_for key ps)))
      | e \<Rightarrow> Inl e)"

section \<open>The waterfall\<close>

text \<open>
  \<open>report\<close>: the spans in the order they started, each with its node, its offset from the first one
  and its duration, in microseconds. Spans that started together keep their order here; the code's
  sort leaves it open.
\<close>

definition trace_service :: "jaeger_trace \<Rightarrow> jaeger_span \<Rightarrow> string" where
  "trace_service t s =
     (if span_node t s \<noteq> [] then span_node t s
      else case jt_processes t (js_process s) of None \<Rightarrow> [] | Some p \<Rightarrow> jp_service p)"

definition trace_rows :: "jaeger_trace \<Rightarrow> (string \<times> string \<times> int \<times> int) list" where
  "trace_rows t =
     (let spans = sort_key js_start (jt_spans t)
      in case spans of
           [] \<Rightarrow> []
         | first # _ \<Rightarrow> map (\<lambda>s. (truncate_text (js_operation s) 38, truncate_text (trace_service t s) 12,
                              js_start s - js_start first, js_duration s)) spans)"

section \<open>What PASS means\<close>

lemma traceparent_shape:
  assumes "length t = 16" "length s = 8" "new_traceparent t s = (trace_id, header)"
  shows "length trace_id = 32" "length header = 55" "length (trace_message_id trace_id) = 19"
  using assms by (auto simp: new_traceparent_def hex_encode_length trace_message_id_def)

lemma nodes_iff: "n \<in> set (trace_nodes t) \<longleftrightarrow> n \<noteq> [] \<and> (\<exists>s \<in> set (jt_spans t). span_node t s = n)"
  by (auto simp: trace_nodes_def)

lemma two_nodes: "2 \<le> length (trace_nodes t) \<longleftrightarrow>
    (\<exists>a \<in> set (jt_spans t). \<exists>b \<in> set (jt_spans t). span_node t a \<noteq> [] \<and> span_node t b \<noteq> [] \<and> span_node t a \<noteq> span_node t b)"
proof -
  have two: "2 \<le> length ns \<longleftrightarrow> (\<exists>x \<in> set ns. \<exists>y \<in> set ns. x \<noteq> y)" if "distinct ns" for ns :: "string list"
    using that by (cases ns rule: list.exhaust; cases "tl ns") auto
  have "distinct (trace_nodes t)" by (simp add: trace_nodes_def)
  from two [OF this] show ?thesis unfolding Bex_def nodes_iff by blast
qed

lemma has_prefix_iff: "has_prefix names start \<longleftrightarrow> (\<exists>n \<in> set names. \<exists>rest. n = start @ rest)"
  unfolding has_prefix_def list_ex_iff
  by (metis append_eq_conv_conj append_take_drop_id)

lemma trace_pass:
  "trace_problems t arrived = [] \<longleftrightarrow>
     has_prefix (trace_names t) ''POST /conversations'' \<and> ''outbox.publish'' \<in> set (trace_names t)
     \<and> (arrived \<longrightarrow> ''fanout.deliver'' \<in> set (trace_names t))
     \<and> (\<exists>a \<in> set (jt_spans t). \<exists>b \<in> set (jt_spans t). span_node t a \<noteq> [] \<and> span_node t b \<noteq> [] \<and> span_node t a \<noteq> span_node t b)"
  unfolding two_nodes [symmetric] by (auto simp: trace_problems_def not_less)

lemma fetch_loop_found:
  "fetch_loop polls k e = Found t n \<Longrightarrow>
     k \<le> n \<and> n - k < length polls \<and> polls ! (n - k) = Inr (Some t) \<and> (\<forall>i < n - k. \<forall>t'. polls ! i \<noteq> Inr (Some t'))"
proof (induction polls k e rule: fetch_loop.induct)
  case (1 k e)
  then show ?case by (cases e) simp_all
next
  case (2 err polls k e)
  then have "k + 1 \<le> n" by simp
  then obtain d where n: "n = k + 1 + d" by (metis le_Suc_ex)
  with 2 show ?case by (auto simp: nth_Cons split: nat.split)
next
  case (3 polls k e)
  then have "k + 1 \<le> n" by simp
  then obtain d where n: "n = k + 1 + d" by (metis le_Suc_ex)
  with 3 show ?case by (auto simp: nth_Cons split: nat.split)
qed simp

lemma not_yet_is_not_an_error: "fetch_loop (polls @ [Inr None]) k e \<noteq> Unreadable why"
  by (induction polls k e rule: fetch_loop.induct) simp_all

lemma rows_sorted:
  "sorted (map (\<lambda>r. fst (snd (snd r))) (trace_rows t)) \<and> (\<forall>r \<in> set (trace_rows t). 0 \<le> fst (snd (snd r)))"
proof (cases "sort_key js_start (jt_spans t)")
  case (Cons first rest)
  have "sorted (map js_start (first # rest))" using Cons by (metis sorted_sort_key)
  then show ?thesis
    by (auto simp: trace_rows_def Cons Let_def sorted_map comp_def sorted_wrt_map intro: sorted_wrt_mono_rel)
qed (simp add: trace_rows_def)

end
