(* ===== verification/Metrics_Page.thy ===== *)
theory Metrics_Page
  imports Server_Node Relay Broker Presence_Client Presence_Store Hub
begin

text \<open>
  \<open>internal/metrics\<close>: which numbers a node publishes, under which names, and where each is read when
  Prometheus scrapes. A collector is its kind, its names and its labels; a registered gauge or
  counter comes with the value it reads from the component that keeps it. The registry of the
  Prometheus library is an argument.
\<close>

section \<open>Collectors\<close>

datatype metric_kind = Counts | Gauges | Buckets "rat list"

record metric =
  mt_kind :: metric_kind
  mt_subsystem :: string
  mt_name :: string
  mt_labels :: "string list"

definition metrics_namespace :: string where "metrics_namespace = ''chat''"

definition metric :: "metric_kind \<Rightarrow> string \<Rightarrow> string \<Rightarrow> metric" where
  "metric kind sub name = \<lparr>mt_kind = kind, mt_subsystem = sub, mt_name = name, mt_labels = []\<rparr>"

definition duration_buckets :: "rat list" where
  "duration_buckets = map (\<lambda>n. of_int n / 10000) [10, 25, 50, 100, 250, 500, 1000, 2500, 5000, 10000, 25000, 50000, 100000]"

text \<open>The variables of the package, made and registered when the program starts.\<close>

definition app_metrics :: "metric list" where
  "app_metrics =
     [(metric Counts [] ''http_requests_total'')\<lparr>mt_labels := [''method'', ''route'', ''status'']\<rparr>,
      (metric (Buckets duration_buckets) [] ''http_request_duration_seconds'')\<lparr>mt_labels := [''method'', ''route'']\<rparr>,
      metric Gauges [] ''http_requests_in_flight'',
      metric Counts [] ''messages_stored_total'',
      metric Counts [] ''unread_applied_total'',
      metric Counts [] ''unread_duplicates_total'',
      metric Counts [] ''gap_messages_total'',
      metric (Buckets [0, 1, 5, 10, 50, 100, 500]) [] ''gap_size'',
      (metric Counts [] ''rate_limited_total'')\<lparr>mt_labels := [''scope'']\<rparr>,
      metric Counts [] ''panics_recovered_total'']"

section \<open>What is read from whom\<close>

definition ws_metrics :: "hub \<Rightarrow> (metric \<times> rat) list" where
  "ws_metrics h =
     [(metric Gauges [] ''ws_connections_open'', of_int (h_open h)),
      (metric Counts [] ''ws_frames_sent_total'', of_nat (h_sent h)),
      (metric Counts [] ''ws_clients_dropped_total'', of_nat (h_dropped h)),
      (metric Counts [] ''ws_broadcasts_shed_total'', of_nat (h_shed h)),
      (metric Counts [] ''ws_sockets_expired_total'', of_nat (h_expired h))]"

definition breaker_gauge :: "string \<Rightarrow> rat" where
  "breaker_gauge s = (if s = ''open'' then 1 else if s = ''half-open'' then 1 / 2 else 0)"

definition presence_metrics :: "time \<Rightarrow> presence_client \<Rightarrow> (metric \<times> rat) list" where
  "presence_metrics now c =
     [(metric Counts ''presence'' ''calls_total'', of_nat (p_calls c)),
      (metric Counts ''presence'' ''failures_total'', of_nat (p_failures c)),
      (metric Counts ''presence'' ''retries_total'', of_nat (p_retries c)),
      (metric Counts ''presence'' ''short_circuited_total'', of_nat (p_short_circuited c)),
      (metric Gauges ''presence'' ''breaker_open'', breaker_gauge (state_string now (p_breaker c)))]"

definition presence_store_metrics :: "presence_store \<Rightarrow> (metric \<times> rat) list" where
  "presence_store_metrics st = [(metric Counts ''presence'' ''store_failures_total'', of_nat (store_failures st))]"

definition relay_number :: "(relay \<Rightarrow> rat) \<Rightarrow> relay option \<Rightarrow> rat" where
  "relay_number f r = (case r of None \<Rightarrow> 0 | Some r \<Rightarrow> f r)"

definition outbox_metrics :: "relay option \<Rightarrow> (metric \<times> rat) list" where
  "outbox_metrics r =
     [(metric Gauges ''outbox'' ''lag_seconds'', relay_number (\<lambda>r. of_int (r_lag_millis r) / 1000) r),
      (metric Gauges ''outbox'' ''pending'', relay_number (\<lambda>r. of_nat (r_pending r)) r),
      (metric Gauges ''outbox'' ''relay_leader'', of_nat (is_leader r)),
      (metric Counts ''outbox'' ''published_total'', relay_number (\<lambda>r. of_nat (r_published r)) r),
      (metric Counts ''outbox'' ''publish_failures_total'', relay_number (\<lambda>r. of_nat (r_failed r)) r)]"

definition broker_metrics :: "broker option \<Rightarrow> (metric \<times> rat) list" where
  "broker_metrics b =
     [(metric Counts ''broker'' ''published_total'', of_nat (counter br_published b)),
      (metric Counts ''broker'' ''publish_failures_total'', of_nat (counter br_publish_fails b)),
      (metric Counts ''broker'' ''fanout_received_total'', of_nat (counter br_fanout_recv b)),
      (metric Counts ''broker'' ''unread_handled_total'', of_nat (counter br_unread_done b)),
      (metric Counts ''broker'' ''redelivered_total'', of_nat (counter br_redelivered b)),
      (metric Counts ''broker'' ''dead_lettered_total'', of_nat (counter br_dead_lettered b)),
      (metric Gauges ''broker'' ''consuming'', of_nat (consuming b))]"

record sql_stats = pool_stats +
  ps_max_open :: nat
  ps_waited :: duration

definition db_metrics :: "sql_stats \<Rightarrow> (metric \<times> rat) list" where
  "db_metrics s =
     [(metric Gauges ''db'' ''pool_open_connections'', of_nat (ps_open s)),
      (metric Gauges ''db'' ''pool_in_use'', of_nat (ps_in_use s)),
      (metric Gauges ''db'' ''pool_idle'', of_nat (ps_idle s)),
      (metric Gauges ''db'' ''pool_max_open_connections'', of_nat (ps_max_open s)),
      (metric Counts ''db'' ''pool_waits_total'', of_nat (ps_wait_count s)),
      (metric Counts ''db'' ''pool_wait_seconds_total'', of_int (ps_waited s) / of_int second)]"

section \<open>Registering\<close>

text \<open>\<open>register\<close> takes a collector that is there already for registered and panics on any other error.\<close>

datatype registry_answer = Registered | Already_Registered | Registry_Error

definition register_metric :: "('r \<Rightarrow> metric \<Rightarrow> registry_answer \<times> 'r) \<Rightarrow> metric \<Rightarrow> 'r \<Rightarrow> 'r option" where
  "register_metric reg m r =
     (case reg r m of
        (Registered, r') \<Rightarrow> Some r'
      | (Already_Registered, r') \<Rightarrow> Some r'
      | (Registry_Error, _) \<Rightarrow> None)"

fun register_all :: "('r \<Rightarrow> metric \<Rightarrow> registry_answer \<times> 'r) \<Rightarrow> metric list \<Rightarrow> 'r \<Rightarrow> 'r option" where
  "register_all reg [] r = Some r"
| "register_all reg (m # ms) r =
     (case register_metric reg m r of None \<Rightarrow> None | Some r' \<Rightarrow> register_all reg ms r')"

text \<open>\<open>promauto\<close> panics also on a collector that is there already.\<close>

fun must_register :: "('r \<Rightarrow> metric \<Rightarrow> registry_answer \<times> 'r) \<Rightarrow> metric list \<Rightarrow> 'r \<Rightarrow> 'r option" where
  "must_register reg [] r = Some r"
| "must_register reg (m # ms) r =
     (case reg r m of (Registered, r') \<Rightarrow> must_register reg ms r' | _ \<Rightarrow> None)"

text \<open>What \<open>server.New\<close> registers, in its order: presence and the broker only where there are any.\<close>

definition node_metrics ::
  "time \<Rightarrow> hub \<Rightarrow> sql_stats \<Rightarrow> presence_client option \<Rightarrow> broker option \<Rightarrow> relay \<Rightarrow> (metric \<times> rat) list" where
  "node_metrics now h s c b r =
     ws_metrics h @ db_metrics s
     @ (case c of None \<Rightarrow> [] | Some c \<Rightarrow> presence_metrics now c)
     @ (case b of None \<Rightarrow> [] | Some b \<Rightarrow> broker_metrics (Some b))
     @ outbox_metrics (Some r)"

section \<open>A node can always register\<close>

definition metric_id :: "metric \<Rightarrow> string \<times> string" where
  "metric_id m = (mt_subsystem m, mt_name m)"

lemmas metrics_defs = app_metrics_def ws_metrics_def presence_metrics_def outbox_metrics_def broker_metrics_def db_metrics_def

lemma metric_sel [simp]: "metric_id (metric k s n) = (s, n)" "metric_id (m\<lparr>mt_labels := l\<rparr>) = metric_id m"
  by (simp_all add: metric_id_def metric_def)

lemma names_apart:
  "distinct (map metric_id app_metrics)"
  "distinct (map metric_id (app_metrics @ map fst (node_metrics now h s c b r)))"
  by (cases c; cases b; simp add: metrics_defs node_metrics_def)+

text \<open>
  The registry's documented answer: a name that is new is taken, one that is known is reported. The
  law speaks of what it holds through \<open>names\<close>.
\<close>

definition registry_law :: "('r \<Rightarrow> (string \<times> string) set) \<Rightarrow> ('r \<Rightarrow> metric \<Rightarrow> registry_answer \<times> 'r) \<Rightarrow> bool" where
  "registry_law names reg \<longleftrightarrow> (\<forall>r m.
     if metric_id m \<in> names r then reg r m = (Already_Registered, r)
     else \<exists>r'. reg r m = (Registered, r') \<and> names r' = insert (metric_id m) (names r))"

lemma must_register_fresh:
  "registry_law names reg \<Longrightarrow> distinct (map metric_id ms) \<Longrightarrow> metric_id ` set ms \<inter> names r = {} \<Longrightarrow>
     \<exists>r'. must_register reg ms r = Some r' \<and> names r' = metric_id ` set ms \<union> names r"
proof (induction ms arbitrary: r)
  case (Cons m ms)
  from Cons.prems(1,3) obtain r1 where r1: "reg r m = (Registered, r1)" "names r1 = insert (metric_id m) (names r)"
    unfolding registry_law_def by (metis Int_iff empty_iff image_insert insertI1 list.simps(15))
  from Cons.prems r1(2) have "distinct (map metric_id ms)" "metric_id ` set ms \<inter> names r1 = {}" by auto
  from Cons.IH [OF Cons.prems(1) this] r1 show ?case by auto
qed simp

lemma register_all_total:
  "registry_law names reg \<Longrightarrow> \<exists>r'. register_all reg ms r = Some r' \<and> names r' = metric_id ` set ms \<union> names r"
proof (induction ms arbitrary: r)
  case (Cons m ms)
  have "\<exists>r1. register_metric reg m r = Some r1 \<and> names r1 = insert (metric_id m) (names r)"
  proof (cases "metric_id m \<in> names r")
    case True
    with Cons.prems have "reg r m = (Already_Registered, r)" unfolding registry_law_def by (metis (full_types))
    with True show ?thesis by (auto simp: register_metric_def)
  next
    case False
    with Cons.prems obtain r1 where "reg r m = (Registered, r1)" "names r1 = insert (metric_id m) (names r)"
      unfolding registry_law_def by (metis (full_types))
    then show ?thesis by (auto simp: register_metric_def)
  qed
  then obtain r1 where r1: "register_metric reg m r = Some r1" "names r1 = insert (metric_id m) (names r)" by blast
  from Cons.IH [OF Cons.prems, of r1] r1 show ?case by auto
qed simp

text \<open>
  A program start never panics here, whatever is configured, and a second node in the same process
  registers nothing new.
\<close>

lemma node_registers:
  assumes law: "registry_law names reg" and empty: "names r = {}"
  obtains r1 r2 where "must_register reg app_metrics r = Some r1"
    "register_all reg (map fst (node_metrics now h s c b rl)) r1 = Some r2"
    "\<exists>r3. register_all reg (map fst (node_metrics now' h' s' c b rl')) r2 = Some r3 \<and> names r3 = names r2"
proof -
  from must_register_fresh [OF law names_apart(1), of r] empty obtain r1 where
    r1: "must_register reg app_metrics r = Some r1" by auto
  from register_all_total [OF law] obtain r2 where
    r2: "register_all reg (map fst (node_metrics now h s c b rl)) r1 = Some r2"
      "names r2 = metric_id ` set (map fst (node_metrics now h s c b rl)) \<union> names r1" by blast
  have same: "map fst (node_metrics now' h' s' c b rl') = map fst (node_metrics now h s c b rl)"
    by (cases c; cases b) (simp_all add: metrics_defs node_metrics_def)
  from register_all_total [OF law] obtain r3 where
    "register_all reg (map fst (node_metrics now' h' s' c b rl')) r2 = Some r3"
    "names r3 = metric_id ` set (map fst (node_metrics now h s c b rl)) \<union> names r2" unfolding same by blast
  with r1 r2 that show thesis by auto
qed

section \<open>What the numbers say\<close>

lemma breaker_gauge_values:
  "breaker_gauge (state_string now b) =
     (if b_state b = Open \<and> now - b_opened_at b < b_open_for b then 1
      else if b_state b = Closed then 0 else 1 / 2)"
  by (cases "b_state b") (auto simp: breaker_gauge_def state_string_def breaker_state_string_def)

lemma leader_gauge: "of_nat (is_leader (Some r)) = (if r_leader r then 1 else (0 :: rat))"
  by (simp add: is_leader_def)

text \<open>
  The pool \<open>New\<close> opens holds at most 25 connections, and \<open>Health\<close> speaks of a heavy load above 40:
  that answer is never given.
\<close>

definition max_open_conns :: nat where "max_open_conns = 25"

lemma heavy_load_never_said:
  assumes "ps_open s \<le> max_open_conns"
  shows "pool_message s \<noteq> ''The database is experiencing heavy load.''"
  using assms by (simp add: pool_message_def max_open_conns_def)

end
