(* ===== verification/Chat_Spec.thy ===== *)
theory Chat_Spec
  imports Node_Requests
begin

text \<open>
  What the service promises, without tables, transactions, tokens or HTTP: rooms with people and a
  log that only grows. \<open>chat_of\<close> reads that view off the database, and a node refines it: whatever
  request it serves is one move of the user the request's token names, or none.
\<close>

section \<open>The abstract chat\<close>

record chat_room =
  cr_people :: "nat set"
  cr_log :: "(nat \<times> string \<times> string option) list"

type_synonym chat = "nat \<rightharpoonup> chat_room"

definition posted :: "nat \<Rightarrow> string \<Rightarrow> chat_room \<Rightarrow> bool" where
  "posted uid key r \<longleftrightarrow> (\<exists>content. (uid, content, Some key) \<in> set (cr_log r))"

text \<open>
  A user opens a room with themselves in it, lets somebody into a room they are in, or posts in a room
  they are in - under a key of their own that they have not used there before, or under none.
\<close>

inductive chat_move :: "nat \<Rightarrow> chat \<Rightarrow> chat \<Rightarrow> bool" where
  opens: "s conv = None \<Longrightarrow> uid \<in> people \<Longrightarrow>
    chat_move uid s (s(conv \<mapsto> \<lparr>cr_people = people, cr_log = []\<rparr>))"
| lets_in: "s conv = Some r \<Longrightarrow> uid \<in> cr_people r \<Longrightarrow> v \<notin> cr_people r \<Longrightarrow>
    chat_move uid s (s(conv \<mapsto> r\<lparr>cr_people := insert v (cr_people r)\<rparr>))"
| posts: "s conv = Some r \<Longrightarrow> uid \<in> cr_people r \<Longrightarrow> (\<And>k. key = Some k \<Longrightarrow> \<not> posted uid k r) \<Longrightarrow>
    chat_move uid s (s(conv \<mapsto> r\<lparr>cr_log := cr_log r @ [(uid, content, key)]\<rparr>))"

inductive_cases chat_moveE: "chat_move uid s s'"

text \<open>Whoever moves: rooms stay, nobody leaves, and what was said stays where it was.\<close>

definition grown :: "chat \<Rightarrow> chat \<Rightarrow> bool" where
  "grown s s' \<longleftrightarrow> (\<forall>conv r. s conv = Some r \<longrightarrow>
     (\<exists>r'. s' conv = Some r' \<and> cr_people r \<subseteq> cr_people r' \<and> (\<exists>more. cr_log r' = cr_log r @ more)))"

lemma move_grows: "chat_move uid s s' \<Longrightarrow> grown s s'"
  by (erule chat_moveE) (auto simp: grown_def)

lemma grown_refl: "grown s s"
  by (simp add: grown_def)

lemma grown_trans:
  assumes "grown s s1" "grown s1 s2"
  shows "grown s s2"
  unfolding grown_def
proof (intro allI impI)
  fix conv r assume "s conv = Some r"
  with assms(1) obtain r1 more where r1: "s1 conv = Some r1" "cr_people r \<subseteq> cr_people r1" "cr_log r1 = cr_log r @ more"
    unfolding grown_def by blast
  with assms(2) obtain r2 more2 where "s2 conv = Some r2" "cr_people r1 \<subseteq> cr_people r2" "cr_log r2 = cr_log r1 @ more2"
    unfolding grown_def by blast
  with r1 show "\<exists>r'. s2 conv = Some r' \<and> cr_people r \<subseteq> cr_people r' \<and> (\<exists>more. cr_log r' = cr_log r @ more)"
    by auto
qed

text \<open>Only the mover speaks, and only in a room they are in.\<close>

lemma move_speaks:
  assumes "chat_move uid s s'" "s conv = Some r" "s' conv = Some r'" "cr_log r' \<noteq> cr_log r"
  shows "uid \<in> cr_people r \<and> (\<exists>content key. cr_log r' = cr_log r @ [(uid, content, key)])"
  using assms by (cases rule: chat_moveE) (auto split: if_splits)

section \<open>The view\<close>

definition entry :: "message \<Rightarrow> nat \<times> string \<times> string option" where
  "entry m = (m_sender_id m, m_content m, m_client_msg_id m)"

definition people_of :: "tables \<Rightarrow> nat \<Rightarrow> nat set" where
  "people_of t conv = set (map cm_user_id (filter (\<lambda>m. cm_conversation_id m = conv) (members t)))"

definition chat_of :: "tables \<Rightarrow> chat" where
  "chat_of t conv =
     (if conv \<in> c_id ` set (live_conversations t)
      then Some \<lparr>cr_people = people_of t conv, cr_log = map entry (in_room conv t)\<rparr> else None)"

lemma people_iff: "u \<in> people_of t conv \<longleftrightarrow> has_member t conv u"
  by (auto simp: people_of_def has_member_def list_ex_iff)

lemma chat_of_None: "chat_of t conv = None \<longleftrightarrow> conv \<notin> c_id ` set (live_conversations t)"
  by (simp add: chat_of_def)

lemma member_in_view:
  assumes "is_member t conv u"
  obtains r where "chat_of t conv = Some r" "u \<in> cr_people r" "cr_people r = people_of t conv"
    "cr_log r = map entry (in_room conv t)"
  using assms
  by (intro that [of "\<lparr>cr_people = people_of t conv, cr_log = map entry (in_room conv t)\<rparr>"])
    (auto simp: is_member_def chat_of_def people_iff)

lemma chat_of_fresh: "chat_of (tbl fresh_db) = Map.empty"
  by (auto simp: chat_of_def live_conversations_def fresh_db_def empty_tables_def)

section \<open>What does not show\<close>

definition same_view :: "tables \<Rightarrow> tables \<Rightarrow> bool" where
  "same_view t t' \<longleftrightarrow> conversations t' = conversations t \<and> members t' = members t \<and> messages t' = messages t"

lemma same_viewD: "same_view t t' \<Longrightarrow> chat_of t' = chat_of t"
  by (simp add: same_view_def chat_of_def people_of_def in_room_def live_conversations_def fun_eq_iff)

lemma same_view_refl [simp]: "same_view t t"
  by (simp add: same_view_def)

lemma same_view_trans: "same_view t t1 \<Longrightarrow> same_view t1 t2 \<Longrightarrow> same_view t t2"
  by (simp add: same_view_def)

definition quiet :: "(db \<Rightarrow> 'a \<times> db) \<Rightarrow> bool" where
  "quiet f \<longleftrightarrow> (\<forall>d. same_view (tbl d) (tbl (snd (f d))))"

named_theorems quiet_rules "operations the abstract chat does not see"

lemma quietD: "quiet f \<Longrightarrow> f d = (r, d') \<Longrightarrow> same_view (tbl d) (tbl d')"
  unfolding quiet_def by (metis snd_conv)

lemma quietI: "(\<And>d r d'. f d = (r, d') \<Longrightarrow> same_view (tbl d) (tbl d')) \<Longrightarrow> quiet f"
  unfolding quiet_def by (metis prod.collapse)

lemma quiet_reads: "reads f \<Longrightarrow> quiet f"
  by (rule quietI) (auto dest: readsD)

lemma quiet_attempt [quiet_rules]:
  assumes "quiet f" "\<And>e. quiet (bad e)" "\<And>x. quiet (good x)"
  shows "quiet (attempt f bad good)"
  by (rule quietI, erule attempt_cases) (use assms in \<open>metis quietD same_view_trans\<close>)+

lemma quiet_reply [quiet_rules]: "quiet (reply r)"
  by (intro quiet_reads reads_rules)

lemma quiet_if [quiet_rules]: "quiet f \<Longrightarrow> quiet g \<Longrightarrow> quiet (if b then f else g)"
  by simp

lemma quiet_option [quiet_rules]:
  "quiet f \<Longrightarrow> (\<And>x. quiet (g x)) \<Longrightarrow> quiet (case p of None \<Rightarrow> f | Some x \<Rightarrow> g x)"
  by (cases p) simp_all

lemma quiet_prod [quiet_rules]: "(\<And>x y. quiet (f x y)) \<Longrightarrow> quiet (case p of (x, y) \<Rightarrow> f x y)"
  by (cases p) simp

lemma quiet_ops [quiet_rules]:
  "quiet (create_user now name hash)" "quiet (create_refresh_token now uid hash expires)"
  "quiet (revoke_refresh_token now hash)" "quiet (purge_expired_refresh_tokens now uid)"
  "quiet (mark_conversation_read now conv uid)"
  by (rule quietI, (drule create_user_effect create_token_effect revoke_effect purge_effect mark_read_effect),
      force simp: same_view_def)+

text \<open>The relay, the janitor and the consumer work on other tables altogether.\<close>

lemma background_quiet:
  "quiet (mark_outbox_published now ids)" "quiet (mark_outbox_failed i reason)"
  "quiet (delete_outbox_published_before before)" "quiet (delete_consumed_before before)"
  "quiet (apply_unread now i conv sender n)"
  by (rule quietI, (drule mark_published_effect mark_failed_effect delete_published_effect delete_consumed_effect
        apply_unread_cases), force simp: same_view_def applied_def)+

lemma quiet_room [quiet_rules]:
  assumes "\<And>conv. quiet (go conv)"
  shows "quiet (in_the_room who rq go)"
proof (rule quietI, erule in_the_room_cases)
  fix d r d' assume "member_only (rq_id_param rq) (fst who) d = (Inl r, d')"
  then show "same_view (tbl d) (tbl d')" using readsD [OF member_only_reads] by simp
qed (metis assms quietD)

lemma quiet_queries [quiet_rules]:
  "quiet (get_user_by_username name)" "quiet (get_user_by_id i)" "quiet (get_valid_refresh_token now hash)"
  by (intro quiet_reads reads_rules)+

lemma quiet_handlers:
  "quiet (register_handler lib now rq)" "quiet (login_handler lib env now drawn rq)"
  "quiet (refresh_handler lib env now rq)" "quiet (logout_handler env now rq)"
  "quiet (mark_read_handler now who rq)"
  unfolding register_handler_def login_handler_def login_as_def refresh_handler_def logout_handler_def
    issue_refresh_session_def mark_read_handler_def Let_def
  by (intro quiet_rules)+

lemma quiet_lists:
  "quiet (list_conversations_handler who)" "quiet (list_messages_handler who rq)"
  by (intro quiet_reads room_handlers_read)+

section \<open>What does\<close>

text \<open>The three changes of the tables, seen from the chat.\<close>

lemma view_of_sent:
  assumes "chat_of t conv = Some r" "m_conversation_id m = conv"
  shows "chat_of (sent conv m out t) = (chat_of t)(conv \<mapsto> r\<lparr>cr_log := cr_log r @ [entry m]\<rparr>)"
proof -
  have "map c_id (filter (\<lambda>c. c_deleted_at c = None) (map (bump_seq conv) cs)) =
      map c_id (filter (\<lambda>c. c_deleted_at c = None) cs)" for cs
    by (induction cs) (auto simp: bump_seq_def)
  then have live: "c_id ` set (live_conversations (sent conv m out t)) = c_id ` set (live_conversations t)"
    unfolding live_conversations_def sent_def set_map [symmetric] by simp
  show ?thesis
    using assms unfolding chat_of_def live fun_eq_iff
    by (auto simp: people_of_def in_room_def sent_def split: if_splits)
qed

lemma view_of_member:
  assumes "chat_of t conv = Some r"
  shows "chat_of (t\<lparr>members := members t @ [member_row now i conv u]\<rparr>) =
    (chat_of t)(conv \<mapsto> r\<lparr>cr_people := insert u (cr_people r)\<rparr>)"
  using assms unfolding chat_of_def fun_eq_iff
  by (auto simp: people_of_def in_room_def live_conversations_def member_row_def split: if_splits)

lemma view_of_room:
  assumes "c_deleted_at c = None" "\<And>m. m \<in> set (members t) \<Longrightarrow> cm_conversation_id m \<noteq> c_id c"
    "\<And>m. m \<in> set (messages t) \<Longrightarrow> m_conversation_id m \<noteq> c_id c"
  shows "chat_of (built now c n ids t) = (chat_of t)(c_id c \<mapsto> \<lparr>cr_people = set ids, cr_log = []\<rparr>)"
proof
  fix conv
  have "filter (\<lambda>m. cm_conversation_id m = conv) (members (built now c n ids t)) =
      filter (\<lambda>m. cm_conversation_id m = conv) (members t) @
      (if conv = c_id c then member_rows now n (c_id c) ids else [])"
    by (auto simp: built_def filter_id_conv filter_empty_conv member_rows_conv)
  then have people: "people_of (built now c n ids t) conv =
      people_of t conv \<union> (if conv = c_id c then set ids else {})"
    by (simp add: people_of_def)
      (metis member_rows_users set_map)
  have none: "people_of t (c_id c) = {}" "in_room (c_id c) t = []"
    using assms(2,3) by (auto simp: people_of_def in_room_def filter_empty_conv)
  have rest: "in_room conv (built now c n ids t) = in_room conv t"
    "c_id ` set (live_conversations (built now c n ids t)) = insert (c_id c) (c_id ` set (live_conversations t))"
    using assms(1) by (auto simp: in_room_def built_def live_conversations_def)
  show "chat_of (built now c n ids t) conv = ((chat_of t)(c_id c \<mapsto> \<lparr>cr_people = set ids, cr_log = []\<rparr>)) conv"
    unfolding chat_of_def rest people by (cases "conv = c_id c") (simp_all add: none)
qed

lemma new_room_empty:
  assumes "db_ok d"
  shows "chat_of (tbl d) (next_conversation (seqs d)) = None"
    and "m \<in> set (members (tbl d)) \<Longrightarrow> cm_conversation_id m \<noteq> next_conversation (seqs d)"
    and "msg \<in> set (messages (tbl d)) \<Longrightarrow> m_conversation_id msg \<noteq> next_conversation (seqs d)"
proof -
  have old: "c_id c < next_conversation (seqs d)" if "c \<in> set (conversations (tbl d))" for c
    using assms that by (auto simp: db_ok_def rooms_ok_def)
  show "chat_of (tbl d) (next_conversation (seqs d)) = None"
    using old by (force simp: chat_of_def live_conversations_def)
  show "cm_conversation_id m \<noteq> next_conversation (seqs d)" if "m \<in> set (members (tbl d))"
    using assms that old by (force simp: db_ok_def members_ok_def)
  show "m_conversation_id msg \<noteq> next_conversation (seqs d)" if "msg \<in> set (messages (tbl d))"
    using assms that old by (force simp: db_ok_def messages_ok_def)
qed

definition moves :: "nat \<Rightarrow> tables \<Rightarrow> tables \<Rightarrow> bool" where
  "moves uid t t' \<longleftrightarrow> chat_of t' = chat_of t \<or> chat_move uid (chat_of t) (chat_of t')"

lemma quiet_moves: "same_view t t' \<Longrightarrow> moves uid t t'"
  by (simp add: moves_def same_viewD)

lemma create_conversation_moves:
  assumes "db_ok d" "create_conversation now title creator ids d = (r, d')"
  shows "moves creator (tbl d) (tbl d')"
  using assms(2)
proof (cases rule: create_conversation_cases)
  case unchanged
  then show ?thesis by (simp add: quiet_moves)
next
  case (everything us c)
  note fresh = new_room_empty [OF assms(1)]
  have c: "c_id c = next_conversation (seqs d)" "c_deleted_at c = None" using everything(2) by (simp_all add: room_row_def)
  have view: "chat_of (tbl d') = (chat_of (tbl d))(c_id c \<mapsto> \<lparr>cr_people = set us, cr_log = []\<rparr>)"
    unfolding everything(7) by (rule view_of_room) (use c fresh in auto)
  have "creator \<in> set us" using everything(1) by (simp add: keep_first_hd)
  then show ?thesis unfolding moves_def view using fresh(1) by (auto simp: c intro: chat_move.opens)
qed

lemma add_member_moves:
  assumes "is_member (tbl d) conv uid" "add_member now conv v d = (r, d')"
  shows "moves uid (tbl d) (tbl d')"
  using assms(2)
proof (cases rule: add_member_cases)
  case unchanged
  then show ?thesis by (simp add: quiet_moves)
next
  case added
  from assms(1) obtain r where r: "chat_of (tbl d) conv = Some r" "uid \<in> cr_people r" "cr_people r = people_of (tbl d) conv"
    by (rule member_in_view)
  have "v \<notin> cr_people r" using added(1) r(3) by (simp add: members_fit_def people_iff)
  from chat_move.lets_in [where s = "chat_of (tbl d)", OF r(1,2) this]
  show ?thesis unfolding moves_def added(2) view_of_member [OF r(1)] by (rule disjI2)
qed

lemma create_message_moves:
  assumes "is_member (tbl d) conv uid" "create_message now conv uid name content key carrier d = (r, d')"
  shows "moves uid (tbl d) (tbl d')"
  using assms(2)
proof (cases rule: create_message_cases)
  case unchanged
  then show ?thesis by (simp add: quiet_moves)
next
  case (everything m out)
  from assms(1) obtain r where r: "chat_of (tbl d) conv = Some r" "uid \<in> cr_people r" "cr_log r = map entry (in_room conv (tbl d))"
    by (rule member_in_view)
  from everything(1) have m: "m_conversation_id m = conv" "entry m = (uid, content, key)" "\<not> key_used (tbl d) conv uid key"
    by (auto simp: send_rows_def message_row_def entry_def)
  have "\<not> posted uid k r" if "key = Some k" for k
    using m(3) that unfolding posted_def r(3)
    by (auto simp: key_used_def list_ex_iff in_room_def entry_def)
  from chat_move.posts [where s = "chat_of (tbl d)", OF r(1,2) this]
  show ?thesis unfolding moves_def everything(2) view_of_sent [OF r(1) m(1)] m(2) by (rule disjI2)
qed

section \<open>Handlers, routes, requests\<close>

lemma moves_same_start: "same_view t t1 \<Longrightarrow> moves uid t1 t2 \<Longrightarrow> moves uid t t2"
  by (auto simp: moves_def dest: same_viewD)

lemma room_handler_moves:
  assumes "in_the_room who rq go d = (r, d')"
    and "\<And>conv d1. is_member (tbl d1) conv (fst who) \<Longrightarrow> go conv d1 = (r, d') \<Longrightarrow> moves (fst who) (tbl d1) (tbl d')"
  shows "moves (fst who) (tbl d) (tbl d')"
  using assms(1)
proof (cases rule: in_the_room_cases)
  case out
  then show ?thesis using readsD [OF member_only_reads out] by (simp add: quiet_moves)
next
  case (inside conv d1)
  from member_only_Inr [OF inside(1)] inside(2) have "is_member (tbl d1) conv (fst who)" by simp
  from assms(2) [OF this inside(3)] inside(2) show ?thesis by simp
qed

lemma attempt_moves:
  assumes "attempt f bad good d = (r, d')" "\<And>e. quiet (bad e)" "\<And>x. quiet (good x)"
    "\<And>x d1. f d = (x, d1) \<Longrightarrow> moves uid (tbl d) (tbl d1)"
  shows "moves uid (tbl d) (tbl d')"
proof -
  have after: "moves uid (tbl d) (tbl d')" if "f d = (x, d1)" "same_view (tbl d1) (tbl d')" for x d1
    using assms(4) [OF that(1)] same_viewD [OF that(2)] by (simp add: moves_def)
  from assms(1) show ?thesis
  proof (cases rule: attempt_cases)
    case (err e d1)
    show ?thesis by (rule after [OF err(1) quietD [OF assms(2) err(2)]])
  next
    case (ok x d1)
    show ?thesis by (rule after [OF ok(1) quietD [OF assms(3) ok(2)]])
  qed
qed

lemma send_moves:
  assumes "send_message_handler now who carrier rq d = (r, d')"
  shows "moves (fst who) (tbl d) (tbl d')"
  using assms unfolding send_message_handler_def
proof (rule room_handler_moves)
  fix conv d1 assume inside: "is_member (tbl d1) conv (fst who)"
    and go: "(case bind_send_message (rq_body rq) of None \<Rightarrow> reply (refuse 400 ''Invalid input'')
       | Some c \<Rightarrow> let key = if sq_client_msg_id c \<noteq> [] then Some (sq_client_msg_id c) else None
            in attempt (create_message now conv (fst who) (snd who) (sq_content c) key carrier)
                 (\<lambda>_. reply (refuse 500 ''Could not send message''))
                 (\<lambda>(m, created). reply (respond (if created then 201 else 200)
                    (MessageBody (sent_dto m (snd who)))))) d1 = (r, d')"
  show "moves (fst who) (tbl d1) (tbl d')"
  proof (cases "bind_send_message (rq_body rq)")
    case None
    with go show ?thesis by (simp add: reply_def moves_def)
  next
    case (Some c)
    from go [unfolded Some option.case Let_def] show ?thesis
      by (rule attempt_moves) (intro quiet_rules, intro quiet_rules, rule create_message_moves [OF inside])
  qed
qed

lemma add_moves:
  assumes "add_member_handler now who rq d = (r, d')"
  shows "moves (fst who) (tbl d) (tbl d')"
  using assms unfolding add_member_handler_def
proof (rule room_handler_moves)
  let ?add = "\<lambda>conv v. attempt (add_member now conv v)
                (\<lambda>e. if errors_is e ErrAlreadyMember then reply (refuse 409 ''User is already a member'')
                     else reply (refuse 500 ''Could not add member''))
                (\<lambda>(m, u). reply (respond 201 (UserBody (to_user_dto u))))"
  fix conv d1 assume inside: "is_member (tbl d1) conv (fst who)"
    and go: "(case bind_add_member (rq_body rq) of None \<Rightarrow> reply (refuse 400 ''Invalid input'')
       | Some uid \<Rightarrow> attempt (get_user_by_id uid)
             (\<lambda>e. if errors_is e ErrUserNotFound then reply (refuse 404 ''User not found'')
                  else reply (refuse 500 ''Could not look up user''))
             (\<lambda>_. ?add conv uid)) d1 = (r, d')"
  show "moves (fst who) (tbl d1) (tbl d')"
  proof (cases "bind_add_member (rq_body rq)")
    case None
    with go show ?thesis by (simp add: reply_def moves_def)
  next
    case (Some v)
    from go [unfolded Some option.case] show ?thesis
    proof (cases rule: attempt_cases)
      case (err e d2)
      with quietD [OF quiet_queries(2) err(1)] show ?thesis
        by (auto simp: reply_def intro: quiet_moves split: if_splits)
    next
      case (ok u d2)
      have "reads (get_user_by_id v)" by (intro reads_rules)
      from readsD [OF this ok(1)] have same: "tbl d2 = tbl d1" .
      with inside have there: "is_member (tbl d2) conv (fst who)" by simp
      from ok(2) have "moves (fst who) (tbl d2) (tbl d')"
        by (rule attempt_moves) (intro quiet_rules, intro quiet_rules, rule add_member_moves [OF there])
      with same show ?thesis by simp
    qed
  qed
qed

lemma create_moves:
  assumes "db_ok d" "create_conversation_handler now who rq d = (r, d')"
  shows "moves (fst who) (tbl d) (tbl d')"
proof (cases "bind_create_conversation (rq_body rq)")
  case None
  with assms(2) show ?thesis by (simp add: create_conversation_handler_def reply_def moves_def)
next
  case (Some c)
  from assms(2) [unfolded create_conversation_handler_def Some option.case] show ?thesis
    by (rule attempt_moves) (intro quiet_rules, intro quiet_rules, rule create_conversation_moves [OF assms(1)])
qed

text \<open>Presence reads the room's members.\<close>

lemma presence_view:
  assumes "presence_handler lookup c who rq d = (r, d')"
  shows "tbl d' = tbl d"
proof -
  have two: "reads (member_only (rq_id_param rq) (fst who))" "reads (list_conversation_member_ids conv)" for conv
    by (intro reads_rules)+
  show ?thesis
    using assms unfolding presence_handler_def
    by (auto dest!: readsD [OF two(1)] readsD [OF two(2)] split: prod.splits sum.splits)
qed

text \<open>The routes that change what the chat shows; every one of them is behind a token.\<close>

definition speaking :: "route list" where
  "speaking = [CreateConversation, AddMember, SendMessage]"

lemma at_db_view: "quiet f \<Longrightarrow> at_db f nd = (s, nd') \<Longrightarrow> same_view (tbl (nd_db nd)) (tbl (nd_db nd'))"
  by (auto simp: at_db_def dest: quietD split: prod.splits)

lemma run_route_quiet:
  assumes "run_route lib env x rq who r nd = (s, nd')" "r \<notin> set speaking"
  shows "same_view (tbl (nd_db nd)) (tbl (nd_db nd'))"
proof -
  note at = at_db_view [OF quiet_handlers(1)] at_db_view [OF quiet_handlers(2)] at_db_view [OF quiet_handlers(3)]
    at_db_view [OF quiet_handlers(4)] at_db_view [OF quiet_handlers(5)] at_db_view [OF quiet_lists(1)]
    at_db_view [OF quiet_lists(2)]
  show ?thesis
    using assms by (cases r) (auto simp: run_route_def Let_def speaking_def dest: at presence_view split: prod.splits)
qed

lemma at_db_moves:
  assumes "\<And>r d'. f (nd_db nd) = (r, d') \<Longrightarrow> moves uid (tbl (nd_db nd)) (tbl d')" "at_db f nd = (s, nd')"
  shows "moves uid (tbl (nd_db nd)) (tbl (nd_db nd'))"
  using assms by (auto simp: at_db_def split: prod.splits)

lemma run_route_moves:
  assumes "run_route lib env x rq who r nd = (s, nd')" "db_ok (nd_db nd)"
  shows "moves (fst who) (tbl (nd_db nd)) (tbl (nd_db nd'))"
proof (cases "r \<in> set speaking")
  case False
  from run_route_quiet [OF assms(1) this] show ?thesis by (rule quiet_moves)
next
  case True
  then consider "r = CreateConversation" | "r = AddMember" | "r = SendMessage"
    by (auto simp: speaking_def)
  then show ?thesis
  proof cases
    case 1
    with assms(1) have "at_db (create_conversation_handler (x_now x) who rq) nd = (s, nd')" by (simp add: run_route_def Let_def)
    from at_db_moves [OF create_moves [OF assms(2)] this] show ?thesis .
  next
    case 2
    with assms(1) have "at_db (add_member_handler (x_now x) who rq) nd = (s, nd')" by (simp add: run_route_def Let_def)
    from at_db_moves [OF add_moves this] show ?thesis .
  next
    case 3
    with assms(1) have "at_db (send_message_handler (x_now x) who (x_carrier x) rq) nd = (s, nd')" by (simp add: run_route_def Let_def)
    from at_db_moves [OF send_moves this] show ?thesis .
  qed
qed

lemma speaking_guarded: "r \<in> set speaking \<Longrightarrow> guard_of r = Authenticated"
  by (auto simp: speaking_def guard_of_def)

lemma unguarded_quiet:
  assumes "guard_of r \<noteq> Authenticated" "run_route lib env x rq who r nd = (s, nd')"
  shows "same_view (tbl (nd_db nd)) (tbl (nd_db nd'))"
  by (rule run_route_quiet [OF assms(2)]) (use assms(1) speaking_guarded in blast)

text \<open>The limiters ahead of a handler keep the database.\<close>

lemma counted_view:
  assumes "count_auth now key go nd = (s, nd') \<or> count_api now key go nd = (s, nd')"
  obtains "nd_db nd' = nd_db nd" | nd1 where "nd_db nd1 = nd_db nd" "go nd1 = (s, nd')"
proof -
  have "nd_db nd' = nd_db nd \<or> (\<exists>nd1. nd_db nd1 = nd_db nd \<and> go nd1 = (s, nd'))"
    using assms by (fastforce simp: count_auth_def count_api_def split: prod.splits sum.splits)
  with that show ?thesis by blast
qed

text \<open>One request is one move of the user its token names, or nothing the chat shows.\<close>

definition one_move :: "library \<Rightarrow> auth_env \<Rightarrow> surroundings \<Rightarrow> http_request \<Rightarrow> chat \<Rightarrow> chat \<Rightarrow> bool" where
  "one_move lib env x rq s s' \<longleftrightarrow> s' = s \<or>
     (\<exists>who. auth_middleware lib env (x_now x) rq = Inr who \<and> chat_move (fst who) s s')"

lemma quiet_one_move: "same_view t t' \<Longrightarrow> one_move lib env x rq (chat_of t) (chat_of t')"
  by (simp add: one_move_def same_viewD)

lemma serve_route_refines:
  assumes "serve_route lib env x rq r nd = (s, nd')" "db_ok (nd_db nd)"
  shows "one_move lib env x rq (chat_of (tbl (nd_db nd))) (chat_of (tbl (nd_db nd')))"
proof (cases "guard_of r")
  case Unguarded
  then have "run_route lib env x rq (current_user None) r nd = (fst s, nd')"
    using assms(1) by (auto simp: serve_route_def Let_def split: prod.splits)
  from unguarded_quiet [OF _ this] Unguarded show ?thesis by (simp add: quiet_one_move)
next
  case AuthByIp
  then have "count_auth (x_now x) (ip_key (rq_ip rq)) (run_route lib env x rq (current_user None) r) nd = (fst s, nd')"
    using assms(1) by (auto simp: serve_route_def Let_def split: prod.splits)
  from counted_view [OF disjI1, OF this] show ?thesis
  proof cases
    case (2 nd1)
    from unguarded_quiet [OF _ 2(2)] AuthByIp 2(1) show ?thesis by (simp add: quiet_one_move)
  qed (simp add: one_move_def)
next
  case ApiByIp
  then have "count_api (x_now x) (ip_key (rq_ip rq)) (run_route lib env x rq (current_user None) r) nd = (fst s, nd')"
    using assms(1) by (auto simp: serve_route_def Let_def split: prod.splits)
  from counted_view [OF disjI2, OF this] show ?thesis
  proof cases
    case (2 nd1)
    from unguarded_quiet [OF _ 2(2)] ApiByIp 2(1) show ?thesis by (simp add: quiet_one_move)
  qed (simp add: one_move_def)
next
  case Authenticated
  show ?thesis
  proof (cases "auth_middleware lib env (x_now x) rq")
    case (Inl refusal)
    with unauthenticated_untouched [OF Authenticated Inl] assms(1) show ?thesis by (simp add: one_move_def)
  next
    case (Inr who)
    with Authenticated assms(1)
    have "count_api (x_now x) (user_key (fst who) (rq_ip rq)) (run_route lib env x rq (current_user (Some who)) r) nd = (fst s, nd')"
      by (auto simp: serve_route_def Let_def split: prod.splits)
    from counted_view [OF disjI2, OF this] show ?thesis
    proof cases
      case (2 nd1)
      have "current_user (Some who) = who" by (simp add: current_user_def)
      with run_route_moves [OF 2(2)] 2(1) assms(2) Inr show ?thesis by (auto simp: one_move_def moves_def)
    qed (simp add: one_move_def)
  qed
qed

lemma serve_moves:
  assumes "serve lib env x rq nd = (ex, nd')" "db_ok (nd_db nd)"
  shows "one_move lib env x rq (chat_of (tbl (nd_db nd))) (chat_of (tbl (nd_db nd')))"
proof -
  have route: "one_move lib env x rq (chat_of (tbl (nd_db nd))) (chat_of (tbl (nd_db (snd (serve_route lib env x rq r nd)))))" for r
    by (rule serve_route_refines [OF _ assms(2)]) (rule prod.collapse [symmetric])
  then show ?thesis
    using assms(1) by (auto simp: serve_def Let_def one_move_def split: option.splits)
qed

section \<open>A node's whole day\<close>

text \<open>Requests one after the other, each with its own surroundings.\<close>

fun serve_all :: "library \<Rightarrow> auth_env \<Rightarrow> (surroundings \<times> http_request) list \<Rightarrow> node \<Rightarrow> exchange list \<times> node" where
  "serve_all lib env [] nd = ([], nd)"
| "serve_all lib env ((x, rq) # rest) nd =
     (case serve lib env x rq nd of (ex, nd1) \<Rightarrow>
        case serve_all lib env rest nd1 of (exs, nd2) \<Rightarrow> (ex # exs, nd2))"

inductive moves_of :: "library \<Rightarrow> auth_env \<Rightarrow> (surroundings \<times> http_request) list \<Rightarrow> chat \<Rightarrow> chat \<Rightarrow> bool"
  for lib env where
  none: "moves_of lib env [] s s"
| then_one: "one_move lib env x rq s s1 \<Longrightarrow> moves_of lib env rest s1 s2 \<Longrightarrow> moves_of lib env ((x, rq) # rest) s s2"

lemma serve_all_refines:
  assumes "serve_all lib env rqs nd = (exs, nd')" "db_reachable (nd_db nd)"
  shows "moves_of lib env rqs (chat_of (tbl (nd_db nd))) (chat_of (tbl (nd_db nd')))"
  using assms
proof (induction rqs arbitrary: nd exs)
  case Nil
  then show ?case by (simp add: moves_of.none)
next
  case (Cons q rest)
  obtain x rq where q: "q = (x, rq)" by force
  obtain ex nd1 where one: "serve lib env x rq nd = (ex, nd1)" by force
  obtain exs1 nd2 where rest: "serve_all lib env rest nd1 = (exs1, nd2)" by force
  with one q Cons.prems(1) have same: "nd2 = nd'" by simp
  have "db_reachable (nd_db nd1)"
    using serve_evolves [OF one] Cons.prems(2) by (auto simp: node_evolves_def intro: run_reachable)
  from Cons.IH [OF rest [unfolded same] this] serve_moves [OF one db_reachable_ok [OF Cons.prems(2)]] q
  show ?case by (auto intro: moves_of.then_one)
qed

lemma moves_of_grow: "moves_of lib env rqs s s' \<Longrightarrow> grown s s'"
proof (induction rule: moves_of.induct)
  case (none s)
  show ?case by (rule grown_refl)
next
  case (then_one x rq s s1 rest s2)
  from then_one(1) have "grown s s1" by (auto simp: one_move_def intro: move_grows grown_refl)
  from grown_trans [OF this then_one(3)] show ?case .
qed

text \<open>Nobody's words are put into another's mouth: who is new in a log held a token when it was said.\<close>

definition log_at :: "chat \<Rightarrow> nat \<Rightarrow> (nat \<times> string \<times> string option) list" where
  "log_at s conv = (case s conv of None \<Rightarrow> [] | Some r \<Rightarrow> cr_log r)"

lemma move_speaker: "chat_move uid s s' \<Longrightarrow> e \<in> set (log_at s' conv) \<Longrightarrow> e \<in> set (log_at s conv) \<or> fst e = uid"
  by (erule chat_moveE) (auto simp: log_at_def split: if_splits option.splits)

lemma moves_of_speaker:
  assumes "moves_of lib env rqs s s'" "e \<in> set (log_at s' conv)" "e \<notin> set (log_at s conv)"
  shows "\<exists>(x, rq) \<in> set rqs. \<exists>name. auth_middleware lib env (x_now x) rq = Inr (fst e, name)"
  using assms
proof (induction rule: moves_of.induct)
  case (then_one x rq s s1 rest s2)
  show ?case
  proof (cases "e \<in> set (log_at s1 conv)")
    case True
    with then_one.prems(2) have "s1 \<noteq> s" by auto
    with then_one.hyps(1) obtain who where who: "auth_middleware lib env (x_now x) rq = Inr who" "chat_move (fst who) s s1"
      by (auto simp: one_move_def)
    from move_speaker [OF who(2) True] then_one.prems(2) have "fst e = fst who" by blast
    with who(1) have "auth_middleware lib env (x_now x) rq = Inr (fst e, snd who)" by simp
    then show ?thesis by (intro bexI [of _ "(x, rq)"]) auto
  qed (use then_one.IH then_one.prems in auto)
qed simp

lemma serve_all_evolves: "serve_all lib env rqs nd = (exs, nd') \<Longrightarrow> service_step\<^sup>*\<^sup>* (nd_db nd) (nd_db nd')"
proof (induction rqs arbitrary: nd exs)
  case (Cons q rest)
  then show ?case
    by (cases q) (fastforce simp: node_evolves_def dest: serve_evolves intro: rtranclp_trans split: prod.splits)
qed simp

text \<open>And underneath, the database moves by its own operations.\<close>

lemma requests_keep_the_database:
  assumes "db_reachable (nd_db nd)" and "serve_all lib env rqs nd = (exs, nd')"
  shows "db_reachable (nd_db nd')
    \<and> (\<exists>rows. waiting_rows (tbl (nd_db nd')) = waiting_rows (tbl (nd_db nd)) @ rows)"
  using run_reachable [OF serve_all_evolves [OF assms(2)] assms(1)] run_waiting [OF serve_all_evolves [OF assms(2)]]
  by blast

end
