(* ===== verification/Valid_Requests.thy ===== *)
theory Valid_Requests
  imports Chat_Spec
begin

text \<open>
  The other half of what the handlers do: on a database that answers, a valid request is not
  refused. A login with the right password gets its token, a room of existing users is made, a
  message of a member is taken - and the chat of the abstract specification moves accordingly.
\<close>

section \<open>Login\<close>

lemma user_found:
  assumes "db_ok d" "faults d = []" "u \<in> set (users (tbl d))"
  shows "get_user_by_username (u_username u) d = (Inr u, d)"
proof -
  have "first_by u_id (\<lambda>v. u_username v = u_username u) (live_users (tbl d)) = Inr u"
  proof (rule first_by_only [where P = "\<lambda>v. u_username v = u_username u"])
    show "u \<in> set (live_users (tbl d))"
      using assms(1,3) by (simp add: live_users_def db_ok_def accounts_ok_def)
    show "\<forall>v \<in> set (live_users (tbl d)). u_username v = u_username u \<longrightarrow> v = u"
      using assms(1,3) by (auto simp: live_users_def db_ok_def accounts_ok_def dest: inj_onD [OF distinct_map [THEN iffD1, THEN conjunct2]])
  qed simp
  then show ?thesis using assms(2) by (simp add: get_user_by_username_def on_ok_def return_def)
qed

text \<open>A token nobody has yet can be stored, whatever was purged before.\<close>

lemma session_started:
  assumes "faults d = []" "uid \<in> u_id ` set (users (tbl d))"
    and "hash \<notin> rt_token_hash ` set (tokens (tbl d))"
  shows "\<exists>k d'. create_refresh_token now uid hash expires d = (Inr k, d') \<and> faults d' = []
    \<and> same_view (tbl d) (tbl d') \<and> users (tbl d') = users (tbl d) \<and> seqs d' = (seqs d)\<lparr>next_token := next_token (seqs d) + 1\<rparr>
    \<and> rt_token_hash ` set (tokens (tbl d')) = insert hash (rt_token_hash ` set (tokens (tbl d)))"
  using assms by (simp add: create_refresh_token_def on_ok_def return_def insert_token_def Let_def same_view_def token_row_def)

lemma login_accepted:
  assumes ok: "db_ok d" "faults d = []" and u: "u \<in> set (users (tbl d))"
    and c: "bind_credentials (rq_body rq) = Some c" "cr_username c = u_username u"
      "matches lib (u_password_hash u) (cr_password c)"
    and tok: "sign_access_token lib env now (u_id u) (u_username u) = Some tok"
    and new: "hash_refresh_token (b64_encode (take 32 raw)) \<notin> rt_token_hash ` set (tokens (tbl d))"
  shows "\<exists>ck d'. login_handler lib env now (Some raw) rq d = (with_cookie ck (respond 200 (Token tok (expires_in env))), d')
    \<and> faults d' = [] \<and> same_view (tbl d) (tbl d') \<and> users (tbl d') = users (tbl d)
    \<and> seqs d' = (seqs d)\<lparr>next_token := next_token (seqs d) + 1\<rparr>
    \<and> rt_token_hash ` set (tokens (tbl d')) \<subseteq> insert (hash_refresh_token (b64_encode (take 32 raw))) (rt_token_hash ` set (tokens (tbl d)))"
proof -
  let ?hash = "hash_refresh_token (b64_encode (take 32 raw))"
  let ?d1 = "d\<lparr>tbl := (tbl d)\<lparr>tokens := filter (\<lambda>r. \<not> dead_token now (u_id u) r) (tokens (tbl d))\<rparr>\<rparr>"
  have purged: "purge_expired_refresh_tokens now (u_id u) d = (Inr (), ?d1)"
    using ok(2) by (simp add: purge_expired_refresh_tokens_def on_ok_def return_def)
  have "?hash \<notin> rt_token_hash ` set (tokens (tbl ?d1))" using new by auto
  from session_started [OF _ _ this, of "u_id u" now "now + refresh_ttl"] ok(2) u obtain k d' where
    k: "create_refresh_token now (u_id u) ?hash (now + refresh_ttl) ?d1 = (Inr k, d')" "faults d' = []"
      "same_view (tbl ?d1) (tbl d')" "users (tbl d') = users (tbl d)"
      "seqs d' = (seqs d)\<lparr>next_token := next_token (seqs d) + 1\<rparr>"
      "rt_token_hash ` set (tokens (tbl d')) = insert ?hash (rt_token_hash ` set (tokens (tbl ?d1)))"
    by auto
  have "login_handler lib env now (Some raw) rq d =
      (with_cookie (set_refresh_cookie env (b64_encode (take 32 raw))) (respond 200 (Token tok (expires_in env))), d')"
    using c tok k(1) purged user_found [OF ok u]
    by (simp add: login_handler_def attempt_def login_as_def issue_refresh_session_def new_refresh_token_def
        refresh_token_bytes_def Let_def reply_def)
  moreover have "rt_token_hash ` set (tokens (tbl d')) \<subseteq> insert ?hash (rt_token_hash ` set (tokens (tbl d)))"
    unfolding k(6) by auto
  ultimately show ?thesis using k(2-5) by (intro exI conjI) (assumption | simp add: same_view_def)+
qed

section \<open>A room\<close>

lemma users_counted:
  assumes "db_ok d" "distinct ids" "set ids \<subseteq> u_id ` set (users (tbl d))"
  shows "all_live (tbl d) ids"
proof -
  let ?us = "filter (\<lambda>u. u_id u \<in> set ids) (users (tbl d))"
  have live: "live_users (tbl d) = users (tbl d)"
    using assms(1) by (simp add: live_users_def db_ok_def accounts_ok_def filter_id_conv)
  have "distinct (map u_id ?us)" using assms(1) by (simp add: db_ok_def accounts_ok_def distinct_map_filter)
  then have "length ?us = card (set (map u_id ?us))" by (metis distinct_card length_map)
  also have "set (map u_id ?us) = set ids" using assms(3) by auto
  finally show ?thesis using assms(2) by (simp add: all_live_def live distinct_card)
qed

lemma room_built:
  fixes now :: time and creator :: nat
  assumes ok: "db_ok d" "faults d = []" and title: "rune_count title \<le> 200"
    and ids: "distinct ids" "set ids \<subseteq> u_id ` set (users (tbl d))" "ids \<noteq> []"
  defines "c \<equiv> room_row now (next_conversation (seqs d)) title creator"
  shows "\<exists>d'. build_room now title creator ids d = (Inr c, d') \<and> faults d' = []
    \<and> tbl d' = built now c (next_member (seqs d)) ids (tbl d)"
proof -
  have c: "c_id c = next_conversation (seqs d)" by (simp add: c_def room_row_def)
  let ?d1 = "d\<lparr>seqs := (seqs d)\<lparr>next_conversation := next_conversation (seqs d) + 1\<rparr>,
    tbl := (tbl d)\<lparr>conversations := conversations (tbl d) @ [c]\<rparr>\<rparr>"
  have count: "count_users ids d = (Inr (length ids), d)"
    using users_counted [OF ok(1) ids(1,2)] ok(2) by (simp add: count_users_def all_live_def)
  have insert: "insert_conversation now title creator d = (Inr c, ?d1)"
    using ok(2) title by (simp add: insert_conversation_def Let_def c_def room_row_def)
  have "\<not> has_member (tbl ?d1) (c_id c) u" for u
    using new_room_empty(2) [OF ok(1)] by (auto simp: has_member_def list_ex_iff c)
  then have fit: "members_fit (tbl ?d1) (c_id c) ids" using ids by (simp add: members_fit_def)
  let ?d2 = "?d1\<lparr>tbl := (tbl ?d1)\<lparr>members := members (tbl ?d1) @ member_rows now (next_member (seqs ?d1)) (c_id c) ids\<rparr>,
      seqs := (seqs ?d1)\<lparr>next_member := next_member (seqs ?d1) + length ids\<rparr>\<rparr>"
  have "put_members now (c_id c) ids ?d1 = (Inr (), ?d2)"
    unfolding put_members_Inr using fit by blast
  then have put: "insert_members now (c_id c) ids ?d1 = (Inr (), ?d2)"
    using ok(2) by (simp add: insert_members_def)
  have "build_room now title creator ids d = (Inr c, ?d2)"
    using count insert put by (simp add: build_room_def on_ok_def return_def)
  then show ?thesis using ok(2) by (intro exI conjI) (assumption, simp_all add: built_def)
qed

text \<open>The room is read back with its members.\<close>

lemma room_reloaded:
  assumes "faults d = []" "c \<in> set (conversations (tbl d))" "c_deleted_at c = None"
    and "distinct (map c_id (conversations (tbl d)))"
  shows "\<exists>ms. reload_room (c_id c) d = (Inr (c, ms), d)"
proof -
  have "first_by c_id (\<lambda>x. c_id x = c_id c) (live_conversations (tbl d)) = Inr c"
  proof (rule first_by_only [where P = "\<lambda>x. c_id x = c_id c"])
    show "\<forall>x \<in> set (live_conversations (tbl d)). c_id x = c_id c \<longrightarrow> x = c"
      using assms(2,4) by (auto simp: live_conversations_def dest: inj_onD [OF distinct_map [THEN iffD1, THEN conjunct2]])
  qed (use assms(2,3) in \<open>simp_all add: live_conversations_def\<close>)
  then show ?thesis
    using assms(1) by (simp add: reload_room_def on_ok_def preload_members_def return_def with_members_def)
qed

lemma room_created:
  assumes ok: "db_ok d" "faults d = []"
    and c: "bind_create_conversation (rq_body rq) = Some c"
    and us: "fst who \<in> u_id ` set (users (tbl d))" "set (cq_member_ids c) \<subseteq> u_id ` set (users (tbl d))"
  shows "\<exists>dto d'. create_conversation_handler now who rq d = (respond 201 (Room dto), d')
    \<and> cd_id dto = next_conversation (seqs d) \<and> cd_created_at dto = now \<and> faults d' = [] \<and> users (tbl d') = users (tbl d)
    \<and> chat_of (tbl d') = (chat_of (tbl d))(cd_id dto \<mapsto>
          \<lparr>cr_people = insert (fst who) (set (cq_member_ids c)), cr_log = []\<rparr>)"
proof -
  let ?ids = "keep_first [fst who] (cq_member_ids c)"
  let ?c = "room_row now (next_conversation (seqs d)) (cq_title c) (fst who)"
  have c': "c_id ?c = next_conversation (seqs d)" "c_deleted_at ?c = None" by (simp_all add: room_row_def)
  have "?ids \<noteq> []" using keep_first_set [of "[fst who]" "cq_member_ids c"] by (metis empty_iff list.set(1) list.set_intros(1) UnI1)
  from room_built [OF ok bound_conversation(2) [OF c] _ _ this, where now = now and creator = "fst who"] us obtain d' where
    d': "build_room now (cq_title c) (fst who) ?ids d = (Inr ?c, d')" "faults d' = []"
      "tbl d' = built now ?c (next_member (seqs d)) ?ids (tbl d)"
    by auto
  have "transaction (build_room now (cq_title c) (fst who) ?ids) d = (Inr ?c, d')"
    using d' by (simp add: transaction_ok [OF ok(2)])
  moreover have "distinct (map c_id (conversations (tbl d')))"
    using ok(1) by (force simp: d'(3) built_def room_row_def db_ok_def rooms_ok_def)
  with room_reloaded [of d' ?c] d'(2) c' obtain ms where "reload_room (c_id ?c) d' = (Inr (?c, ms), d')"
    by (auto simp: d'(3) built_def)
  ultimately have made: "create_conversation now (cq_title c) (fst who) (cq_member_ids c) d = (Inr (?c, ms), d')"
    by (simp add: create_conversation_def Let_def)
  have view: "chat_of (tbl d') = (chat_of (tbl d))(c_id ?c \<mapsto> \<lparr>cr_people = set ?ids, cr_log = []\<rparr>)"
    unfolding d'(3) by (rule view_of_room) (use c' new_room_empty [OF ok(1)] in auto)
  show ?thesis
    by (rule exI [of _ "to_conversation_dto (?c, ms)"], rule exI [of _ d'])
      (use c made d'(2,3) view c' in \<open>simp add: create_conversation_handler_def attempt_def reply_def to_conversation_dto_def built_def room_row_def\<close>)
qed

section \<open>A message\<close>

lemma find_only:
  assumes "x \<in> set xs" "P x" "\<And>y. y \<in> set xs \<Longrightarrow> P y \<Longrightarrow> y = x"
  shows "find P xs = Some x"
proof (cases "find P xs")
  case None
  with assms(1,2) show ?thesis by (auto simp: find_None_iff)
next
  case (Some y)
  with assms(3) find_Some_set [OF Some] show ?thesis by blast
qed

lemma message_taken:
  assumes ok: "db_ok d" "faults d = []" and inside: "is_member (tbl d) conv sender"
    and key: "\<not> key_used (tbl d) conv sender key" "\<And>k. key = Some k \<Longrightarrow> rune_count k \<le> 64"
    and year: "rfc3339 now \<noteq> None"
  shows "\<exists>m out d'. create_message now conv sender name content key carrier d = (Inr (m, True), d')
    \<and> send_rows now conv sender name content key carrier (tbl d) (seqs d) m out
    \<and> tbl d' = sent conv m out (tbl d) \<and> faults d' = []"
proof -
  from inside obtain c where c: "c \<in> set (conversations (tbl d))" "c_id c = conv" "c_deleted_at c = None"
    by (auto simp: is_member_def live_conversations_def)
  have only: "x = c" if "x \<in> set (conversations (tbl d))" "c_id x = conv" for x
    using ok(1) c that by (auto simp: db_ok_def rooms_ok_def dest: inj_onD [OF distinct_map [THEN iffD1, THEN conjunct2]])
  have "find (\<lambda>c. c_id c = conv \<and> c_deleted_at c = None) (conversations (tbl d)) = Some c"
  proof (rule find_only [OF c(1)])
    show "c_id c = conv \<and> c_deleted_at c = None" using c(2,3) by blast
  qed (use only in blast)
  note found = this
  let ?m = "message_row now (next_message (seqs d)) conv sender key (c_last_seq c + 1) content"
  obtain payload where payload: "encode_event (event_of ?m name) = Some payload"
    using year by (auto simp: encode_event_def event_of_def message_row_def)
  let ?out = "waiting_row now (next_outbox (seqs d)) topic_message_created payload (json_or_nil carrier)"
  have seq: "\<not> seq_used (tbl d) conv (c_last_seq c + 1)"
  proof -
    have "map m_seq (in_room conv (tbl d)) = [1..<Suc (c_last_seq c)]"
      using ok(1) c by (auto simp: db_ok_def numbers_ok_def)
    then have seqs: "set (map m_seq (in_room conv (tbl d))) = {1..<Suc (c_last_seq c)}" by (simp only: set_upt)
    have "m_seq x < Suc (c_last_seq c)" if "x \<in> set (in_room conv (tbl d))" for x
    proof -
      from that have "m_seq x \<in> set (map m_seq (in_room conv (tbl d)))" by simp
      then show ?thesis unfolding seqs by simp
    qed
    then show ?thesis by (fastforce simp: seq_used_def list_ex_iff in_room_def)
  qed
  have sender: "sender \<in> u_id ` set (users (tbl d))"
    using inside ok(1) by (auto simp: is_member_def has_member_def list_ex_iff db_ok_def members_ok_def)
  have rows: "send_rows now conv sender name content key carrier (tbl d) (seqs d) ?m ?out"
    using found payload sender key by (auto simp: send_rows_def)
  let ?d' = "d\<lparr>tbl := sent conv ?m ?out (tbl d),
    seqs := (seqs d)\<lparr>next_message := next_message (seqs d) + 1, next_outbox := next_outbox (seqs d) + 1\<rparr>\<rparr>"
  have ids: "conv \<in> c_id ` set (map (bump_seq conv) (conversations (tbl d)))"
    by (rule rev_image_eqI [of "bump_seq conv c"]) (use c in \<open>simp_all add: bump_seq_def\<close>)
  have "send_tx now conv sender name content key carrier d = (Inr ?m, ?d')"
    using ok(2) found payload seq sender key ids
    by (auto simp: send_tx_def on_ok_def allocate_seq_def insert_message_def insert_outbox_def Let_def return_def
        sent_def key_used_def seq_used_def split: option.split)
  then have "create_message now conv sender name content key carrier d = (Inr (?m, True), ?d')"
    using ok(2) by (simp add: create_message_def transaction_ok)
  with rows ok(2) show ?thesis by (intro exI conjI) (assumption | simp)+
qed

definition key_of :: "send_message_request \<Rightarrow> string option" where
  "key_of c = (if sq_client_msg_id c \<noteq> [] then Some (sq_client_msg_id c) else None)"

lemma message_accepted:
  assumes ok: "db_ok d" "faults d = []" and inside: "is_member (tbl d) conv (fst who)"
    and path: "parse_uint (rq_id_param rq) = Some conv"
    and c: "bind_send_message (rq_body rq) = Some c" "\<not> key_used (tbl d) conv (fst who) (key_of c)"
    and year: "rfc3339 now \<noteq> None"
  shows "\<exists>m d' r. send_message_handler now who carrier rq d = (respond 201 (MessageBody (sent_dto m (snd who))), d')
    \<and> faults d' = [] \<and> users (tbl d') = users (tbl d) \<and> chat_of (tbl d) conv = Some r
    \<and> m_seq m = Suc (length (cr_log r)) \<and> rfc3339 (m_created_at m) \<noteq> None
    \<and> chat_of (tbl d') = (chat_of (tbl d))(conv \<mapsto> r\<lparr>cr_log := cr_log r @ [(fst who, sq_content c, key_of c)]\<rparr>)"
proof -
  have short: "key_of c = Some k \<Longrightarrow> rune_count k \<le> 64" for k
    using bound_message(3) [OF c(1)] by (auto simp: key_of_def split: if_splits)
  from message_taken [OF ok inside c(2) short year, of "snd who" "sq_content c" carrier] obtain m out d' where
    m: "create_message now conv (fst who) (snd who) (sq_content c) (key_of c) carrier d = (Inr (m, True), d')"
      "send_rows now conv (fst who) (snd who) (sq_content c) (key_of c) carrier (tbl d) (seqs d) m out"
      "tbl d' = sent conv m out (tbl d)" "faults d' = []"
    by blast
  from inside ok(1) have pos: "0 < conv"
    by (auto simp: is_member_def live_conversations_def db_ok_def rooms_ok_def)
  have gate: "member_only (rq_id_param rq) (fst who) d = (Inr conv, d)"
    using path pos inside ensure_member_ok [OF ok(2)] by (simp add: member_only_def)
  have run: "send_message_handler now who carrier rq d = (respond 201 (MessageBody (sent_dto m (snd who))), d')"
    using gate c(1) m(1) by (simp add: send_message_handler_def in_the_room_def attempt_def reply_def key_of_def)
  from inside obtain r where r: "chat_of (tbl d) conv = Some r" "cr_log r = map entry (in_room conv (tbl d))"
    by (rule member_in_view)
  from m(2) obtain cv where cv: "find (\<lambda>c. c_id c = conv \<and> c_deleted_at c = None) (conversations (tbl d)) = Some cv"
    "m = message_row now (next_message (seqs d)) conv (fst who) (key_of c) (c_last_seq cv + 1) (sq_content c)"
    by (auto simp: send_rows_def)
  from find_Some_set [OF cv(1)] ok(1) have "map m_seq (in_room conv (tbl d)) = [1..<Suc (c_last_seq cv)]"
    by (auto simp: db_ok_def numbers_ok_def)
  then have "length (in_room conv (tbl d)) = c_last_seq cv" by (metis diff_Suc_1 length_map length_upt)
  moreover have "entry m = (fst who, sq_content c, key_of c)" "m_conversation_id m = conv" "m_seq m = c_last_seq cv + 1"
      "m_created_at m = now"
    by (simp_all add: cv(2) message_row_def entry_def)
  ultimately show ?thesis
    using run m(3,4) r year view_of_sent [OF r(1), of m out] by (intro exI conjI) (assumption | simp add: sent_def)+
qed

end
