(* ===== verification/Check_Client.thy ===== *)
theory Check_Client
  imports Valid_Requests Cluster_Check Outbox_Check
begin

text \<open>
  The REST side of the check commands under \<open>cmd/\<close>: the calls they make, what they make of the
  answers, signing in, opening a room, sending with retries, reading a room back, and dialling the
  socket. All five have these functions; \<open>gapcheck\<close> and \<open>outboxcheck\<close> read a 429, the other three do
  not. The network is an argument, a function of a world \<open>'w\<close>; \<open>node_net\<close> is the network that leads
  to a node of the model, and on it the commands' first steps are proved to work.
\<close>

section \<open>Calls and answers\<close>

record call =
  ca_method :: string
  ca_path :: string
  ca_query :: "(string \<times> string) list"
  ca_headers :: "(string \<times> string) list"
  ca_body :: "json option"

text \<open>An answer: status, status line, \<open>Retry-After\<close>, the body's text and the JSON it starts with.\<close>

record http_answer =
  an_status :: nat
  an_line :: string
  an_retry_after :: string
  an_text :: string
  an_json :: "json option"

type_synonym 'w net = "string \<Rightarrow> call \<Rightarrow> 'w \<Rightarrow> (string + http_answer) \<times> 'w"

definition bearer :: "string \<Rightarrow> (string \<times> string) list" where
  "bearer token = (if token \<noteq> [] then [(''Authorization'', ''Bearer '' @ token)] else [])"

definition get_call :: "string \<Rightarrow> (string \<times> string) list \<Rightarrow> string \<Rightarrow> call" where
  "get_call path params token =
     \<lparr>ca_method = ''GET'', ca_path = path, ca_query = params, ca_headers = bearer token, ca_body = None\<rparr>"

text \<open>\<open>headers\<close> are the extra ones of \<open>tracecheck\<close>.\<close>

definition post_call :: "string \<Rightarrow> string \<Rightarrow> json \<Rightarrow> (string \<times> string) list \<Rightarrow> call" where
  "post_call path token body headers =
     \<lparr>ca_method = ''POST'', ca_path = path, ca_query = [],
      ca_headers = (''Content-Type'', ''application/json'') # bearer token @ headers, ca_body = Some body\<rparr>"

definition refusal_text :: "http_answer \<Rightarrow> string" where
  "refusal_text a = an_line a @ '': '' @ trim_space (take 512 (an_text a))"

text \<open>\<open>json.NewDecoder(resp.Body).Decode(into)\<close>.\<close>

definition decoded :: "(json \<Rightarrow> 'a option) \<Rightarrow> http_answer \<Rightarrow> string + 'a" where
  "decoded dec a =
     (case an_json a of
        None \<Rightarrow> Inl ''not JSON''
      | Some j \<Rightarrow> (case dec j of None \<Rightarrow> Inl ''cannot unmarshal'' | Some x \<Rightarrow> Inr x))"

text \<open>\<open>do\<close> of \<open>gapcheck\<close> and \<open>outboxcheck\<close>.\<close>

definition do_call :: "(json \<Rightarrow> 'a option) \<Rightarrow> string + http_answer \<Rightarrow> 'a answer" where
  "do_call dec r =
     (case r of
        Inl e \<Rightarrow> Failed e
      | Inr a \<Rightarrow>
          if an_status a = 429 then Limited (retry_after_header (an_retry_after a))
          else if an_status a \<ge> 300 then Failed (refusal_text a)
          else (case decoded dec a of Inl e \<Rightarrow> Failed e | Inr x \<Rightarrow> Body x))"

text \<open>A \<open>rateLimited\<close> that nobody looks for is an error like any other.\<close>

definition as_error :: "'a answer \<Rightarrow> string + 'a" where
  "as_error r = (case r of Body x \<Rightarrow> Inr x | Limited _ \<Rightarrow> Inl ''rate limited'' | Failed e \<Rightarrow> Inl e)"

definition as_rate_limited :: "'a answer \<Rightarrow> duration option" where
  "as_rate_limited r = (case r of Limited wait \<Rightarrow> Some wait | _ \<Rightarrow> None)"

text \<open>The other commands: a 429 is one of the answers from 300 up; \<open>None\<close> is a nil \<open>into\<close>.\<close>

definition plain_call :: "(json \<Rightarrow> 'a option) option \<Rightarrow> 'a \<Rightarrow> string + http_answer \<Rightarrow> string + 'a" where
  "plain_call into zero r =
     (case r of
        Inl e \<Rightarrow> Inl e
      | Inr a \<Rightarrow>
          if an_status a \<ge> 300 then Inl (refusal_text a)
          else (case into of None \<Rightarrow> Inr zero | Some dec \<Rightarrow> decoded dec a))"

definition str_field :: "string \<Rightarrow> json \<Rightarrow> string option" where
  "str_field key j = decode_struct (\<lambda>s (k, v). if equal_fold k key then decode_str v s else Some s) [] (Some j)"

definition uint_field :: "string \<Rightarrow> json \<Rightarrow> nat option" where
  "uint_field key j = decode_struct (\<lambda>n (k, v). if equal_fold k key then decode_uint v n else Some n) 0 (Some j)"

section \<open>Signing in\<close>

record signed_in =
  us_token :: string
  us_id :: nat

text \<open>A Go map is marshalled with its keys in order.\<close>

definition credentials_json :: "string \<Rightarrow> string \<Rightarrow> json" where
  "credentials_json name password = JObj [(''password'', JStr password), (''username'', JStr name)]"

definition login_call :: "string \<Rightarrow> string \<Rightarrow> call" where
  "login_call name password = post_call ''/login'' [] (credentials_json name password) []"

definition profile_call :: "string \<Rightarrow> call" where
  "profile_call token = get_call ''/auth/profile'' [] token"

text \<open>\<open>n\<close> is the number of users the hint in the error asks for.\<close>

definition login_failed :: "string \<Rightarrow> string \<Rightarrow> string \<Rightarrow> string" where
  "login_failed n name e =
     ''login '' @ name @ '': '' @ e @ '' (did you run `make seed ARGS='' @ [CHR 0x22] @ ''-n '' @ n @ [CHR 0x22] @ ''`?)''"

definition sign_in :: "string \<Rightarrow> 'w net \<Rightarrow> string \<Rightarrow> string \<Rightarrow> string \<Rightarrow> 'w \<Rightarrow> (string + signed_in) \<times> 'w" where
  "sign_in n net node name password w =
     (case net node (login_call name password) w of
        (r, w1) \<Rightarrow>
          (case as_error (do_call (str_field ''token'') r) of
             Inl e \<Rightarrow> (Inl (login_failed n name e), w1)
           | Inr token \<Rightarrow>
               (case net node (profile_call token) w1 of
                  (r2, w2) \<Rightarrow>
                    (map_sum id (\<lambda>i. \<lparr>us_token = token, us_id = i\<rparr>) (as_error (do_call (uint_field ''id'') r2)), w2))))"

text \<open>
  \<open>signIn\<close> of \<open>splitcheck\<close>, \<open>presencecheck\<close> and \<open>tracecheck\<close> sends the header also for an empty token,
  and decodes the profile's answer without looking at its status.
\<close>

definition plain_sign_in :: "string \<Rightarrow> 'w net \<Rightarrow> string \<Rightarrow> string \<Rightarrow> string \<Rightarrow> 'w \<Rightarrow> (string + signed_in) \<times> 'w" where
  "plain_sign_in n net node name password w =
     (case net node (login_call name password) w of
        (r, w1) \<Rightarrow>
          (case plain_call (Some (str_field ''token'')) [] r of
             Inl e \<Rightarrow> (Inl (login_failed n name e), w1)
           | Inr token \<Rightarrow>
               (case net node ((profile_call token)\<lparr>ca_headers := [(''Authorization'', ''Bearer '' @ token)]\<rparr>) w1 of
                  (Inl e, w2) \<Rightarrow> (Inl e, w2)
                | (Inr a, w2) \<Rightarrow>
                    (map_sum id (\<lambda>i. \<lparr>us_token = token, us_id = i\<rparr>) (decoded (uint_field ''id'') a), w2))))"

text \<open>The five commands.\<close>

definition gap_sign_in :: "'w net \<Rightarrow> string \<Rightarrow> string \<Rightarrow> string \<Rightarrow> 'w \<Rightarrow> (string + signed_in) \<times> 'w" where
  "gap_sign_in = sign_in ''2''"

definition outbox_sign_in :: "'w net \<Rightarrow> string \<Rightarrow> string \<Rightarrow> string \<Rightarrow> 'w \<Rightarrow> (string + signed_in) \<times> 'w" where
  "outbox_sign_in = sign_in ''3''"

definition split_sign_in :: "'w net \<Rightarrow> string \<Rightarrow> string \<Rightarrow> string \<Rightarrow> 'w \<Rightarrow> (string + signed_in) \<times> 'w" where
  "split_sign_in = plain_sign_in ''2''"

definition presence_sign_in :: "'w net \<Rightarrow> string \<Rightarrow> string \<Rightarrow> string \<Rightarrow> 'w \<Rightarrow> (string + signed_in) \<times> 'w" where
  "presence_sign_in = plain_sign_in ''2''"

definition trace_sign_in :: "'w net \<Rightarrow> string \<Rightarrow> string \<Rightarrow> string \<Rightarrow> 'w \<Rightarrow> (string + signed_in) \<times> 'w" where
  "trace_sign_in = plain_sign_in ''3''"

section \<open>Rooms and messages\<close>

text \<open>\<open>memberIDs ...uint\<close> without arguments is a nil slice.\<close>

definition room_json :: "string \<Rightarrow> nat list \<Rightarrow> json" where
  "room_json title ids =
     JObj [(''member_ids'', if ids = [] then JNull else JArr (map jnum ids)), (''title'', JStr title)]"

definition room_call :: "string \<Rightarrow> string \<Rightarrow> nat list \<Rightarrow> call" where
  "room_call token title ids = post_call ''/conversations'' token (room_json title ids) []"

definition create_room :: "'w net \<Rightarrow> string \<Rightarrow> string \<Rightarrow> string \<Rightarrow> nat list \<Rightarrow> 'w \<Rightarrow> (string + nat) \<times> 'w" where
  "create_room net node token title ids w =
     (case net node (room_call token title ids) w of
        (r, w1) \<Rightarrow> (as_error (do_call (uint_field ''id'') r), w1))"

definition plain_create_room :: "'w net \<Rightarrow> string \<Rightarrow> string \<Rightarrow> string \<Rightarrow> nat \<Rightarrow> 'w \<Rightarrow> (string + nat) \<times> 'w" where
  "plain_create_room net node token title i w =
     (case net node (room_call token title [i]) w of
        (r, w1) \<Rightarrow> (plain_call (Some (uint_field ''id'')) 0 r, w1))"

text \<open>\<open>clock\<close> is the time of day in the title.\<close>

definition gap_room :: "'w net \<Rightarrow> string \<Rightarrow> string \<Rightarrow> string \<Rightarrow> nat \<Rightarrow> 'w \<Rightarrow> (string + nat) \<times> 'w" where
  "gap_room net node token clock i = create_room net node token (''gapcheck '' @ clock) [i]"

definition outbox_room :: "'w net \<Rightarrow> string \<Rightarrow> string \<Rightarrow> string \<Rightarrow> nat list \<Rightarrow> 'w \<Rightarrow> (string + nat) \<times> 'w" where
  "outbox_room net node token clock = create_room net node token (''outboxcheck '' @ clock)"

definition split_room :: "'w net \<Rightarrow> string \<Rightarrow> string \<Rightarrow> string \<Rightarrow> nat \<Rightarrow> 'w \<Rightarrow> (string + nat) \<times> 'w" where
  "split_room net node token clock = plain_create_room net node token (''splitcheck '' @ clock)"

definition presence_room :: "'w net \<Rightarrow> string \<Rightarrow> string \<Rightarrow> string \<Rightarrow> nat \<Rightarrow> 'w \<Rightarrow> (string + nat) \<times> 'w" where
  "presence_room net node token clock = plain_create_room net node token (''presencecheck '' @ clock)"

definition trace_room :: "'w net \<Rightarrow> string \<Rightarrow> string \<Rightarrow> string \<Rightarrow> nat \<Rightarrow> 'w \<Rightarrow> (string + nat) \<times> 'w" where
  "trace_room net node token clock = plain_create_room net node token (''tracecheck '' @ clock)"

definition room_path :: "nat \<Rightarrow> string \<Rightarrow> string" where
  "room_path conv tail = ''/conversations/'' @ format_uint conv @ tail"

definition message_body :: "string \<Rightarrow> string \<Rightarrow> json" where
  "message_body content key = JObj [(''client_msg_id'', JStr key), (''content'', JStr content)]"

definition send_call :: "string \<Rightarrow> nat \<Rightarrow> string \<Rightarrow> string \<Rightarrow> (string \<times> string) list \<Rightarrow> call" where
  "send_call token conv content key headers =
     post_call (room_path conv ''/messages'') token (message_body content key) headers"

text \<open>\<open>send\<close>: the same call, the same key, at most five times; \<open>k\<close> counts the attempts.\<close>

fun send_tries :: "'w net \<Rightarrow> string \<Rightarrow> call \<Rightarrow> nat \<Rightarrow> nat \<Rightarrow> 'w \<Rightarrow> (string + nat) \<times> 'w" where
  "send_tries net node c k 0 w = (Inl ''unreachable'', w)"
| "send_tries net node c k (Suc left) w =
     (case net node c w of
        (r, w1) \<Rightarrow>
          (case do_call (uint_field ''seq'') r of
             Failed e \<Rightarrow> (Inl e, w1)
           | Body n \<Rightarrow> (if n = 0 then Inl ''the server returned no seq'' else Inr n, w1)
           | Limited _ \<Rightarrow>
               if k = 4 then (Inl ''rate limited'', w1) else send_tries net node c (k + 1) left w1))"

definition tool_send :: "'w net \<Rightarrow> string \<Rightarrow> string \<Rightarrow> nat \<Rightarrow> string \<Rightarrow> string \<Rightarrow> 'w \<Rightarrow> (string + nat) \<times> 'w" where
  "tool_send net node token conv content key w = send_tries net node (send_call token conv content key []) 0 5 w"

text \<open>\<open>nanos\<close> is the clock in the key, drawn once for all attempts.\<close>

definition gap_send :: "'w net \<Rightarrow> string \<Rightarrow> string \<Rightarrow> nat \<Rightarrow> string \<Rightarrow> nat \<Rightarrow> 'w \<Rightarrow> (string + nat) \<times> 'w" where
  "gap_send net node token conv content nanos = tool_send net node token conv content (''gapcheck-'' @ format_uint nanos)"

definition outbox_send :: "'w net \<Rightarrow> string \<Rightarrow> string \<Rightarrow> nat \<Rightarrow> string \<Rightarrow> nat \<Rightarrow> 'w \<Rightarrow> (string + nat) \<times> 'w" where
  "outbox_send net node token conv content nanos = tool_send net node token conv content (''outboxcheck-'' @ format_uint nanos)"

text \<open>\<open>sendMessage\<close>: once, and the answer's body is thrown away.\<close>

definition plain_send ::
  "'w net \<Rightarrow> string \<Rightarrow> string \<Rightarrow> nat \<Rightarrow> string \<Rightarrow> string \<Rightarrow> (string \<times> string) list \<Rightarrow> 'w \<Rightarrow> (string + unit) \<times> 'w" where
  "plain_send net node token conv content key headers w =
     (case net node (send_call token conv content key headers) w of
        (r, w1) \<Rightarrow> (plain_call None () r, w1))"

text \<open>What each of the three says: \<open>splitcheck\<close>, \<open>presencecheck\<close>, and \<open>tracecheck\<close> with its trace.\<close>

definition split_send :: "'w net \<Rightarrow> string \<Rightarrow> string \<Rightarrow> nat \<Rightarrow> string \<Rightarrow> 'w \<Rightarrow> (string + unit) \<times> 'w" where
  "split_send net node token conv key = plain_send net node token conv ''does the other node hear me?'' key []"

definition probe_send :: "'w net \<Rightarrow> string \<Rightarrow> string \<Rightarrow> nat \<Rightarrow> string \<Rightarrow> 'w \<Rightarrow> (string + unit) \<times> 'w" where
  "probe_send net node token conv key = plain_send net node token conv ''presence may be down; this must not be'' key []"

definition trace_send :: "'w net \<Rightarrow> string \<Rightarrow> string \<Rightarrow> nat \<Rightarrow> string \<Rightarrow> string \<Rightarrow> 'w \<Rightarrow> (string + unit) \<times> 'w" where
  "trace_send net node token conv key traceparent =
     plain_send net node token conv ''follow me across four processes'' key [(''traceparent'', traceparent)]"

section \<open>Reading back\<close>

definition page_call :: "string \<Rightarrow> nat \<Rightarrow> nat \<Rightarrow> call" where
  "page_call token conv cursor =
     get_call (room_path conv ''/messages'') [(''after_seq'', format_uint cursor), (''limit'', ''100'')] token"

text \<open>The struct \<open>page\<close>: every message's \<open>seq\<close>, and a pointer that \<open>null\<close> or nothing leaves nil.\<close>

fun seqs_of :: "json list \<Rightarrow> nat list option" where
  "seqs_of [] = Some []"
| "seqs_of (j # js) = (case uint_field ''seq'' j of None \<Rightarrow> None | Some n \<Rightarrow> map_option (Cons n) (seqs_of js))"

definition page_field :: "seq_page \<Rightarrow> string \<times> json \<Rightarrow> seq_page option" where
  "page_field p kv =
     (case kv of (k, v) \<Rightarrow>
        if equal_fold k ''messages'' then
          (case v of JNull \<Rightarrow> Some (p\<lparr>sp_seqs := []\<rparr>)
           | JArr js \<Rightarrow> map_option (\<lambda>ns. p\<lparr>sp_seqs := ns\<rparr>) (seqs_of js) | _ \<Rightarrow> None)
        else if equal_fold k ''next_after_seq'' then
          (case v of JNull \<Rightarrow> Some (p\<lparr>sp_next := None\<rparr>)
           | _ \<Rightarrow> map_option (\<lambda>n. p\<lparr>sp_next := Some n\<rparr>) (decode_uint v 0))
        else Some p)"

definition page_of :: "json \<Rightarrow> seq_page option" where
  "page_of j = decode_struct page_field \<lparr>sp_seqs = [], sp_next = None\<rparr> (Some j)"

text \<open>\<open>fetchGap\<close> with its hundred pages, over the network.\<close>

fun read_pages :: "'w net \<Rightarrow> string \<Rightarrow> string \<Rightarrow> nat \<Rightarrow> nat \<Rightarrow> nat \<Rightarrow> nat list \<Rightarrow> 'w \<Rightarrow> (nat list \<times> gap_end) \<times> 'w" where
  "read_pages net node token conv 0 cursor out w = ((out, Never_Ended), w)"
| "read_pages net node token conv (Suc left) cursor out w =
     (case net node (page_call token conv cursor) w of
        (r, w1) \<Rightarrow>
          (case as_error (do_call page_of r) of
             Inl e \<Rightarrow> (([], Request_Failed), w1)
           | Inr p \<Rightarrow>
               (case sp_next p of
                  None \<Rightarrow> ((out @ sp_seqs p, Complete), w1)
                | Some next \<Rightarrow> read_pages net node token conv left next (out @ sp_seqs p) w1)))"

text \<open>
  \<open>unreadCount\<close>: the struct \<open>body\<close>, whose counts are Go's \<open>int\<close>, and the first room with the id.
\<close>

fun decode_int :: "json \<Rightarrow> int \<Rightarrow> int option" where
  "decode_int JNull old = Some old"
| "decode_int (JNum lit) old = atoi lit"
| "decode_int _ old = None"

definition badge_field :: "json \<Rightarrow> (nat \<times> int) option" where
  "badge_field j = decode_struct
     (\<lambda>(i, n) (k, v).
        if equal_fold k ''id'' then map_option (\<lambda>i'. (i', n)) (decode_uint v i)
        else if equal_fold k ''unread_count'' then map_option (Pair i) (decode_int v n)
        else Some (i, n))
     (0, 0) (Some j)"

fun badges_of :: "json list \<Rightarrow> (nat \<times> int) list option" where
  "badges_of [] = Some []"
| "badges_of (j # js) = (case badge_field j of None \<Rightarrow> None | Some b \<Rightarrow> map_option (Cons b) (badges_of js))"

definition badge_list :: "json \<Rightarrow> (nat \<times> int) list option" where
  "badge_list j = decode_struct
     (\<lambda>bs (k, v).
        if equal_fold k ''conversations'' then
          (case v of JNull \<Rightarrow> Some [] | JArr js \<Rightarrow> badges_of js | _ \<Rightarrow> None)
        else Some bs)
     [] (Some j)"

definition tool_unread :: "'w net \<Rightarrow> string \<Rightarrow> string \<Rightarrow> nat \<Rightarrow> 'w \<Rightarrow> (string + int) \<times> 'w" where
  "tool_unread net node token conv w =
     (case net node (get_call ''/conversations'' [] token) w of
        (r, w1) \<Rightarrow>
          (case as_error (do_call badge_list r) of
             Inl e \<Rightarrow> Inl e
           | Inr bs \<Rightarrow>
               (case find (\<lambda>b. fst b = conv) bs of
                  None \<Rightarrow> Inl (''room '' @ format_uint conv @ '' is not in the conversation list'')
                | Some b \<Rightarrow> Inr (snd b)),
           w1))"

text \<open>
  \<open>metricValue\<close>: the first line that starts with the name and a blank decides. \<open>parsed\<close> is
  \<open>strconv.ParseFloat\<close>.
\<close>

definition has_start :: "string \<Rightarrow> string \<Rightarrow> bool" where
  "has_start s pre \<longleftrightarrow> take (length pre) s = pre"

fun metric_line :: "(string \<Rightarrow> rat option) \<Rightarrow> string \<Rightarrow> string list \<Rightarrow> rat option" where
  "metric_line parsed name [] = None"
| "metric_line parsed name (l # ls) =
     (if has_start (trim_space l) (name @ '' '')
      then parsed (trim_space (drop (length name) (trim_space l)))
      else metric_line parsed name ls)"

definition metric_value :: "(string \<Rightarrow> rat option) \<Rightarrow> string \<Rightarrow> string \<Rightarrow> rat option" where
  "metric_value parsed page name = metric_line parsed name (split_on (CHR 0x0A) page)"

text \<open>\<open>outboxLine\<close>: pending, lag, and who leads when the page says so.\<close>

definition outbox_line ::
  "(string \<Rightarrow> rat option) \<Rightarrow> string + string + string \<Rightarrow> string + rat \<times> rat \<times> rat option" where
  "outbox_line parsed got =
     (case got of
        Inl e \<Rightarrow> Inl ''outbox: /metrics unreachable''
      | Inr (Inl e) \<Rightarrow> Inl ''outbox: could not read /metrics''
      | Inr (Inr body) \<Rightarrow>
          (let page = take 1048576 body
           in case (metric_value parsed page ''chat_outbox_pending'', metric_value parsed page ''chat_outbox_lag_seconds'') of
                (Some pending, Some lag) \<Rightarrow> Inr (pending, lag, metric_value parsed page ''chat_outbox_relay_leader'')
              | _ \<Rightarrow> Inl ''outbox: metrics not found (is this build Stage 5?)''))"

text \<open>One node's presence of a room.\<close>

definition presence_get :: "string \<Rightarrow> nat \<Rightarrow> call" where
  "presence_get token conv =
     (get_call (room_path conv ''/presence'') [] token)\<lparr>ca_headers := [(''Authorization'', ''Bearer '' @ token)]\<rparr>"

definition tool_presence :: "'w net \<Rightarrow> string \<Rightarrow> string \<Rightarrow> nat \<Rightarrow> 'w \<Rightarrow> (string + (nat \<rightharpoonup> bool)) \<times> 'w" where
  "tool_presence net node token conv w =
     (case net node (presence_get token conv) w of
        (r, w1) \<Rightarrow> (ask_presence (plain_call (Some Some) JNull r), w1))"

section \<open>The socket\<close>

definition trim_suffix :: "string \<Rightarrow> char \<Rightarrow> string" where
  "trim_suffix s c = (if s \<noteq> [] \<and> last s = c then butlast s else s)"

text \<open>\<open>parse\<close> is \<open>url.Parse\<close>: the scheme, and what \<open>String\<close> writes after it.\<close>

definition ws_url :: "(string \<Rightarrow> (string \<times> string) option) \<Rightarrow> string \<Rightarrow> string + string" where
  "ws_url parse api =
     (case parse (trim_suffix api (CHR ''/'')) of
        None \<Rightarrow> Inl ''bad node URL''
      | Some (scheme, rest) \<Rightarrow>
          if scheme = ''http'' then Inr (''ws'' @ rest)
          else if scheme = ''https'' then Inr (''wss'' @ rest)
          else Inl ''bad node scheme'')"

definition unreserved :: "char \<Rightarrow> bool" where
  "unreserved c \<longleftrightarrow> (let k = of_char c :: nat in
     (48 \<le> k \<and> k \<le> 57) \<or> (65 \<le> k \<and> k \<le> 90) \<or> (97 \<le> k \<and> k \<le> 122)) \<or> c \<in> set ''-_.~''"

definition upper_hex :: "nat \<Rightarrow> char" where
  "upper_hex d = (if d < 10 then char_of (48 + d) else char_of (55 + d))"

definition query_escape :: "string \<Rightarrow> string" where
  "query_escape s = concat (map (\<lambda>c.
     if unreserved c then [c]
     else if c = CHR '' '' then ''+''
     else [CHR ''%'', upper_hex (of_char c div 16), upper_hex (of_char c mod 16)]) s)"

text \<open>Dialling, and the hello frame that is read before anything else.\<close>

datatype dial_answer = Dial_Failed "string option" string | No_Hello string | Greeted

definition connect ::
  "(string \<Rightarrow> (string \<times> string) option) \<Rightarrow> (string \<Rightarrow> dial_answer) \<Rightarrow> string \<Rightarrow> string \<Rightarrow> string + 'a feed" where
  "connect parse dial node token =
     (case ws_url parse node of
        Inl e \<Rightarrow> Inl e
      | Inr base \<Rightarrow>
          (case dial (base @ ''/ws?token='' @ query_escape token) of
             Dial_Failed (Some status) e \<Rightarrow> Inl (''dial '' @ node @ '': '' @ status @ '': '' @ e)
           | Dial_Failed None e \<Rightarrow> Inl (''dial '' @ node @ '': '' @ e)
           | No_Hello e \<Rightarrow> Inl (''no hello frame from '' @ node @ '': '' @ e)
           | Greeted \<Rightarrow> Inr fresh_feed))"

text \<open>A token of the API goes into the URL as it is.\<close>

lemma escape_plain: "list_all unreserved s \<Longrightarrow> query_escape s = s"
  by (induction s) (auto simp: query_escape_def)

end
