(* ===== verification/Check_Run.thy ===== *)
theory Check_Run
  imports Check_Client
begin

text \<open>
  The check commands against a node of the model. \<open>node_net\<close> is the network that leads to one node:
  a call becomes the request the node serves, in the surroundings that are next, and what it serves
  becomes the answer. On a node that is well the commands' first steps succeed, and the room they
  work in is the one they mean.
\<close>

section \<open>A node as a network\<close>

text \<open>What gin finds for \<open>:id\<close>.\<close>

definition path_id :: "string \<Rightarrow> string" where
  "path_id path = (case split_on (CHR ''/'') path of _ # _ # i # _ \<Rightarrow> i | _ \<Rightarrow> [])"

definition looked_up :: "(string \<times> string) list \<Rightarrow> string \<Rightarrow> string" where
  "looked_up kvs k = (case map_of kvs k of None \<Rightarrow> [] | Some v \<Rightarrow> v)"

definition request_of :: "string \<Rightarrow> call \<Rightarrow> http_request" where
  "request_of ip c =
     \<lparr>rq_method = ca_method c, rq_path = ca_path c, rq_id_param = path_id (ca_path c),
      rq_query = looked_up (ca_query c), rq_header = looked_up (ca_headers c), rq_cookie = None,
      rq_body = ca_body c, rq_ip = ip\<rparr>"

text \<open>\<open>line\<close> is the status line of a status. A connection without an answer is an error.\<close>

definition answer_of :: "(nat \<Rightarrow> string) \<Rightarrow> served \<Rightarrow> string + http_answer" where
  "answer_of line s =
     (case s of
        Responded r \<Rightarrow> Inr
          \<lparr>an_status = rs_status r, an_line = line (rs_status r),
           an_retry_after = looked_up (rs_headers r) ''Retry-After'',
           an_text = (case render (rs_body r) of None \<Rightarrow> [] | Some j \<Rightarrow> json_text j),
           an_json = render (rs_body r)\<rparr>
      | _ \<Rightarrow> Inl ''EOF'')"

type_synonym site = "surroundings list \<times> node"

fun node_net :: "(nat \<Rightarrow> string) \<Rightarrow> library \<Rightarrow> auth_env \<Rightarrow> string \<Rightarrow> site net" where
  "node_net line lib env ip url c ([], nd) = (Inl ''connection refused'', ([], nd))"
| "node_net line lib env ip url c (x # xs, nd) =
     (case serve lib env x (request_of ip c) nd of
        (ex, nd') \<Rightarrow> (answer_of line (ex_served ex), (xs, nd')))"

section \<open>The first steps of a run\<close>

text \<open>\<open>if err != nil { return fmt.Errorf("what: %w", err) }\<close>, for steps that use the network.\<close>

definition tool_step ::
  "string \<Rightarrow> ('w \<Rightarrow> (string + 'a) \<times> 'w) \<Rightarrow> ('a \<Rightarrow> 'w \<Rightarrow> (string + 'b) \<times> 'w) \<Rightarrow> 'w \<Rightarrow> (string + 'b) \<times> 'w" where
  "tool_step what m k w = (case m w of (Inl e, w1) \<Rightarrow> (Inl (what @ e), w1) | (Inr x, w1) \<Rightarrow> k x w1)"

definition tool_done :: "'a \<Rightarrow> 'w \<Rightarrow> (string + 'a) \<times> 'w" where
  "tool_done x w = (Inr x, w)"

text \<open>\<open>run\<close> of \<open>gapcheck\<close> before it sends: two users on one node and their room.\<close>

definition gap_setup ::
  "'w net \<Rightarrow> string \<Rightarrow> string \<Rightarrow> string \<Rightarrow> string \<Rightarrow> string \<Rightarrow> 'w \<Rightarrow> (string + signed_in \<times> signed_in \<times> nat) \<times> 'w" where
  "gap_setup net node user_a user_b password clock =
     tool_step ''user A: '' (gap_sign_in net node user_a password) (\<lambda>a.
     tool_step ''user B: '' (gap_sign_in net node user_b password) (\<lambda>b.
     tool_step ''create room: '' (gap_room net node (us_token a) clock (us_id b)) (\<lambda>conv.
     tool_done (a, b, conv))))"

text \<open>
  \<open>outboxcheck\<close>: three users, the third one only counted for, and a socket of the second. Dialling is
  not a step of the network here: \<open>dial\<close> gives its outcome.
\<close>

definition outbox_setup ::
  "(string \<Rightarrow> (string \<times> string) option) \<Rightarrow> (string \<Rightarrow> dial_answer) \<Rightarrow> 'w net \<Rightarrow> string \<Rightarrow> string \<Rightarrow> string \<Rightarrow> string
     \<Rightarrow> string \<Rightarrow> string \<Rightarrow> 'w \<Rightarrow> (string + signed_in \<times> signed_in \<times> signed_in \<times> nat \<times> nat feed) \<times> 'w" where
  "outbox_setup parse dial net node user_a user_b user_c password clock =
     tool_step ''user A: '' (outbox_sign_in net node user_a password) (\<lambda>a.
     tool_step ''user B: '' (outbox_sign_in net node user_b password) (\<lambda>b.
     tool_step ''user C: '' (outbox_sign_in net node user_c password) (\<lambda>c.
     tool_step ''create room: '' (outbox_room net node (us_token a) clock [us_id b, us_id c]) (\<lambda>conv.
     tool_step ''connect B: '' (Pair (connect parse dial node (us_token b))) (\<lambda>sock.
     tool_done (a, b, c, conv, sock))))))"

text \<open>\<open>splitcheck\<close> and \<open>presencecheck\<close>: each user on a node of their own, with a socket there.\<close>

definition split_setup ::
  "(string \<Rightarrow> (string \<times> string) option) \<Rightarrow> (string \<Rightarrow> dial_answer) \<Rightarrow> 'w net \<Rightarrow> string \<Rightarrow> string \<Rightarrow> string \<Rightarrow> string
     \<Rightarrow> string \<Rightarrow> string \<Rightarrow> 'w \<Rightarrow> (string + signed_in \<times> signed_in \<times> nat \<times> string feed \<times> string feed) \<times> 'w" where
  "split_setup parse dial net node_a node_b user_a user_b password clock =
     tool_step ''user A: '' (split_sign_in net node_a user_a password) (\<lambda>a.
     tool_step ''user B: '' (split_sign_in net node_b user_b password) (\<lambda>b.
     tool_step ''create room: '' (split_room net node_a (us_token a) clock (us_id b)) (\<lambda>conv.
     tool_step ''socket A: '' (Pair (connect parse dial node_a (us_token a))) (\<lambda>sa.
     tool_step ''socket B: '' (Pair (connect parse dial node_b (us_token b))) (\<lambda>sb.
     tool_done (a, b, conv, sa, sb))))))"

definition presence_setup ::
  "(string \<Rightarrow> (string \<times> string) option) \<Rightarrow> (string \<Rightarrow> dial_answer) \<Rightarrow> 'w net \<Rightarrow> string \<Rightarrow> string \<Rightarrow> string \<Rightarrow> string
     \<Rightarrow> string \<Rightarrow> string \<Rightarrow> 'w \<Rightarrow> (string + signed_in \<times> signed_in \<times> nat \<times> string feed \<times> string feed) \<times> 'w" where
  "presence_setup parse dial net node_a node_b user_a user_b password clock =
     tool_step ''user A: '' (presence_sign_in net node_a user_a password) (\<lambda>a.
     tool_step ''user B: '' (presence_sign_in net node_b user_b password) (\<lambda>b.
     tool_step ''create room: '' (presence_room net node_a (us_token a) clock (us_id b)) (\<lambda>conv.
     tool_step ''socket A: '' (Pair (connect parse dial node_a (us_token a))) (\<lambda>sa.
     tool_step ''socket B: '' (Pair (connect parse dial node_b (us_token b))) (\<lambda>sb.
     tool_done (a, b, conv, sa, sb))))))"

text \<open>\<open>tracecheck\<close>: the receiver's socket is on the other node; the login's errors are passed on as they are.\<close>

definition trace_setup ::
  "(string \<Rightarrow> (string \<times> string) option) \<Rightarrow> (string \<Rightarrow> dial_answer) \<Rightarrow> 'w net \<Rightarrow> string \<Rightarrow> string \<Rightarrow> string \<Rightarrow> string
     \<Rightarrow> string \<Rightarrow> string \<Rightarrow> 'w \<Rightarrow> (string + signed_in \<times> nat \<times> string feed) \<times> 'w" where
  "trace_setup parse dial net node_a node_b user_a user_b password clock =
     tool_step [] (trace_sign_in net node_a user_a password) (\<lambda>sender.
     tool_step [] (trace_sign_in net node_b user_b password) (\<lambda>receiver.
     tool_step ''create room: '' (trace_room net node_a (us_token sender) clock (us_id receiver)) (\<lambda>conv.
     tool_step ''connect the receiver: '' (Pair (connect parse dial node_b (us_token receiver))) (\<lambda>sock.
     tool_done (sender, conv, sock)))))"

section \<open>What the client writes is what the server binds\<close>

lemma body_keys [simp]:
  "\<not> equal_fold ''password'' ''username''" "equal_fold ''username'' ''username''" "equal_fold ''password'' ''password''"
  "\<not> equal_fold ''member_ids'' ''title''" "equal_fold ''title'' ''title''" "equal_fold ''member_ids'' ''member_ids''"
  "\<not> equal_fold ''client_msg_id'' ''content''" "equal_fold ''content'' ''content''"
  "\<not> equal_fold ''expires_in'' ''token''" "equal_fold ''token'' ''token''" "\<not> equal_fold ''user'' ''id''"
  "equal_fold ''id'' ''id''"
  by (simp_all add: equal_fold_def to_lower_def lower_char_def)

lemma credentials_bound:
  "runes_within 3 64 name \<Longrightarrow> runes_within 8 72 password \<Longrightarrow>
     bind_credentials (Some (credentials_json name password)) = Some \<lparr>cr_username = name, cr_password = password\<rparr>"
  by (simp add: bind_credentials_def credentials_json_def decode_struct_def validated_def)

lemma room_bound:
  assumes "runes_within 1 200 title" "0 < i" "i < 2 ^ 64"
  shows "bind_create_conversation (Some (room_json title [i])) = Some \<lparr>cq_title = title, cq_member_ids = [i]\<rparr>"
  using assms by (simp add: bind_create_conversation_def room_json_def decode_struct_def validated_def)

lemma message_bound:
  "runes_within 1 4000 content \<Longrightarrow> rune_count key \<le> 64 \<Longrightarrow>
     bind_send_message (Some (message_body content key)) = Some \<lparr>sq_content = content, sq_client_msg_id = key\<rparr>"
  by (simp add: bind_send_message_def message_body_def decode_struct_def validated_def)

section \<open>The way of a call to its handler\<close>

lemma split_plain: "c \<notin> set xs \<Longrightarrow> split_on c xs = [xs]"
  by (induction xs) auto

lemma split_at: "c \<notin> set xs \<Longrightarrow> split_on c (xs @ c # ys) = xs # split_on c ys"
  by (induction xs) auto

lemma no_slash: "CHR ''/'' \<notin> set (format_uint n)"
proof
  assume "CHR ''/'' \<in> set (format_uint n)"
  then obtain d where d: "d < 10" "CHR ''/'' = digit_char d" using format_uint_digits by blast
  then have "of_char (CHR ''/'') = (48 + d :: nat)" by (simp add: digit_char_of)
  then show False by simp
qed

lemma room_path_split: "split_on (CHR ''/'') (room_path conv ''/messages'') = [[], ''conversations'', format_uint conv, ''messages'']"
  using split_at [OF no_slash, of conv "''messages''"] by (simp add: room_path_def)

lemma find_routes:
  "find_route (request_of ip (login_call name password)) = Some (''/login'', Login)"
  "find_route (request_of ip (profile_call token)) = Some (''/auth/profile'', ProfilePage)"
  "find_route (request_of ip (room_call token title ids)) = Some (''/conversations'', CreateConversation)"
  "find_route (request_of ip (send_call token conv content key headers)) = Some (''/conversations/:id/messages'', SendMessage)"
  using room_path_split [of conv]
  by (simp_all add: find_route_def request_of_def login_call_def profile_call_def room_call_def send_call_def
      post_call_def get_call_def route_table_def)

lemma request_fields:
  "rq_body (request_of ip c) = ca_body c" "rq_ip (request_of ip c) = ip"
  "rq_id_param (request_of ip (send_call token conv content key headers)) = format_uint conv"
  using room_path_split [of conv] by (simp_all add: request_of_def path_id_def send_call_def post_call_def)

lemma request_bearer:
  assumes "token \<noteq> []"
  shows "rq_header (request_of ip (profile_call token)) ''Authorization'' = ''Bearer '' @ token"
    "rq_header (request_of ip (room_call token title ids)) ''Authorization'' = ''Bearer '' @ token"
    "rq_header (request_of ip (send_call token conv content key headers)) ''Authorization'' = ''Bearer '' @ token"
  using assms
  by (simp_all add: request_of_def profile_call_def room_call_def send_call_def get_call_def post_call_def bearer_def looked_up_def)

section \<open>Allowances\<close>

text \<open>From \<open>start\<close> on this caller can make \<open>n\<close> more requests, at whatever pace.\<close>

definition passes :: "nat \<Rightarrow> time \<Rightarrow> rate_limiter \<Rightarrow> string \<Rightarrow> bool" where
  "passes n start l key \<longleftrightarrow> distinct (map fst (lim_buckets l)) \<and> 0 < lim_rate l
     \<and> (\<forall>t \<ge> start. of_nat n \<le> allowance t l key)"

lemma passes_later: "passes n start l key \<Longrightarrow> start \<le> now \<Longrightarrow> passes n now l key"
  by (auto simp: passes_def)

lemma pass_one:
  assumes "passes (Suc n) start l key" "start \<le> now"
  shows "\<exists>l'. rate_limit now key l = (Inr (), l') \<and> passes n now l' key
    \<and> (\<forall>m k. k \<noteq> key \<longrightarrow> passes m start l k \<longrightarrow> passes m now l' k)"
proof -
  obtain ok wait l' where run: "limiter_allow now key l = ((ok, wait), l')" by (metis surj_pair)
  from assms have l: "distinct (map fst (lim_buckets l))" "0 < lim_rate l" and enough: "of_nat n + 1 \<le> allowance now l key"
    by (auto simp: passes_def)
  note spec = allow_spec [OF run l]
  have ok: "ok" using spec enough by simp
  have burst: "allowance now l key \<le> lim_burst l" by (simp add: allowance_def split: option.split)
  have "of_nat n \<le> allowance t l' key" if "now \<le> t" for t
    using spec ok enough burst refill_nonneg [of "lim_rate l" "t - now"] l(2) that by simp
  with spec l have "passes n now l' key" by (simp add: passes_def)
  moreover have "passes m now l' k" if "k \<noteq> key" "passes m start l k" for m k
    using spec that assms(2) l by (auto simp: passes_def)
  moreover have "rate_limit now key l = (Inr (), l')" using run ok by (simp add: rate_limit_def)
  ultimately show ?thesis by blast
qed

lemma user_keys_differ: "i \<noteq> j \<Longrightarrow> i \<noteq> 0 \<Longrightarrow> j \<noteq> 0 \<Longrightarrow> user_key i ip \<noteq> user_key j ip"
  by (auto simp: user_key_def dest: format_uint_inj)

section \<open>One request on a node\<close>

definition calm :: "surroundings \<Rightarrow> bool" where
  "calm x \<longleftrightarrow> x_cors x = None \<and> x_write_panic x = None \<and> rfc3339 (x_now x) \<noteq> None"

lemma calm_recovery: "calm x \<Longrightarrow> after_recovery x (Responded r) = Responded r"
  by (simp add: calm_def after_recovery_def panicked_def)

lemma served_login:
  assumes "calm x" "find_route rq = Some (t, Login)" "rate_limit (x_now x) (ip_key (rq_ip rq)) (nd_auth nd) = (Inr (), l)"
    and "login_handler lib env (x_now x) (x_drawn_token x) rq (nd_db nd) = (r, d')"
  shows "\<exists>ex. serve lib env x rq nd = (ex, nd\<lparr>nd_auth := l, nd_db := d'\<rparr>) \<and> ex_served ex = Responded r"
  using assms calm_recovery [OF assms(1), of r]
  by (simp add: serve_def Let_def calm_def serve_route_def guard_of_def count_auth_def run_route_def at_db_def)

lemma served_to_user:
  assumes "calm x" "find_route rq = Some (t, rt)" "guard_of rt = Authenticated"
    and "auth_middleware lib env (x_now x) rq = Inr who"
    and "rate_limit (x_now x) (user_key (fst who) (rq_ip rq)) (nd_api nd) = (Inr (), l)"
    and "run_route lib env x rq who rt (nd\<lparr>nd_api := l\<rparr>) = (Responded r, nd')"
  shows "\<exists>ex. serve lib env x rq nd = (ex, nd') \<and> ex_served ex = Responded r"
  using assms calm_recovery [OF assms(1), of r]
  by (simp add: serve_def Let_def calm_def serve_route_def count_api_def current_user_def)

text \<open>A token the node signed lets its user in until it runs out.\<close>

definition good_token :: "library \<Rightarrow> auth_env \<Rightarrow> time \<Rightarrow> user \<Rightarrow> string \<Rightarrow> bool" where
  "good_token lib env signed_at u tok \<longleftrightarrow> sign_access_token lib env signed_at (u_id u) (u_username u) = Some tok
     \<and> tok \<noteq> [] \<and> (\<forall>c \<in> set tok. \<not> is_space c)"

lemma let_in:
  assumes "jwt_law lib" "good_token lib env signed_at u tok" "now < numeric_date (signed_at + ae_token_ttl env)"
    and "rq_header rq ''Authorization'' = ''Bearer '' @ tok"
  shows "auth_middleware lib env now rq = Inr (u_id u, u_username u)"
  using assms token_life [OF assms(1), of env signed_at "u_id u" "u_username u" tok now] bearer_prefix [of tok]
  by (auto simp: good_token_def auth_middleware_def access_claims_def)

section \<open>Signing in\<close>

lemma node_net_served:
  assumes "serve lib env x (request_of ip c) nd = (ex, nd')" "ex_served ex = Responded r"
  shows "node_net line lib env ip url c (x # xs, nd) = (answer_of line (Responded r), (xs, nd'))"
  using assms by simp

lemma token_answer:
  "as_error (do_call (str_field ''token'') (answer_of line (Responded (with_cookie ck (respond 200 (Token tok secs)))))) = Inr tok"
  by (simp add: answer_of_def with_cookie_def render_def do_call_def as_error_def decoded_def str_field_def decode_struct_def)

lemma profile_answer:
  "i < 2 ^ 64 \<Longrightarrow> as_error (do_call (uint_field ''id'') (answer_of line (Responded (profile_handler (i, name))))) = Inr i"
  by (simp add: answer_of_def profile_handler_def render_def do_call_def as_error_def decoded_def uint_field_def decode_struct_def)

text \<open>A node that is well, and a user of it whose password and name the forms take.\<close>

definition well :: "node \<Rightarrow> bool" where
  "well nd \<longleftrightarrow> db_reachable (nd_db nd) \<and> faults (nd_db nd) = []"

definition enrolled :: "library \<Rightarrow> string \<Rightarrow> node \<Rightarrow> user \<Rightarrow> bool" where
  "enrolled lib password nd u \<longleftrightarrow> u \<in> set (users (tbl (nd_db nd))) \<and> runes_within 3 64 (u_username u)
     \<and> matches lib (u_password_hash u) password \<and> 0 < u_id u \<and> u_id u < 2 ^ 64"

lemma sign_in_works:
  assumes laws: "jwt_law lib" and nd: "well nd" and u: "enrolled lib password nd u" "runes_within 8 72 password"
    and xs: "calm x1" "calm x2" "x_now x1 \<le> x_now x2"
    and raw: "x_drawn_token x1 = Some raw"
      "hash_refresh_token (b64_encode (take 32 raw)) \<notin> rt_token_hash ` set (tokens (tbl (nd_db nd)))"
    and tok: "good_token lib env (x_now x1) u tok" "x_now x2 < numeric_date (x_now x1 + ae_token_ttl env)"
    and auth: "passes (Suc k) start (nd_auth nd) (ip_key ip)" and api: "passes (Suc j) start (nd_api nd) (user_key (u_id u) ip)"
    and start: "start \<le> x_now x1"
  shows "\<exists>nd'. sign_in n (node_net line lib env ip) url (u_username u) password (x1 # x2 # xs, nd)
      = (Inr \<lparr>us_token = tok, us_id = u_id u\<rparr>, (xs, nd'))
    \<and> well nd' \<and> same_view (tbl (nd_db nd)) (tbl (nd_db nd')) \<and> users (tbl (nd_db nd')) = users (tbl (nd_db nd))
    \<and> next_conversation (seqs (nd_db nd')) = next_conversation (seqs (nd_db nd))
    \<and> rt_token_hash ` set (tokens (tbl (nd_db nd')))
        \<subseteq> insert (hash_refresh_token (b64_encode (take 32 raw))) (rt_token_hash ` set (tokens (tbl (nd_db nd))))
    \<and> passes k (x_now x1) (nd_auth nd') (ip_key ip) \<and> passes j (x_now x2) (nd_api nd') (user_key (u_id u) ip)
    \<and> (\<forall>m i. i \<noteq> user_key (u_id u) ip \<longrightarrow> passes m start (nd_api nd) i \<longrightarrow> passes m (x_now x2) (nd_api nd') i)"
proof -
  let ?rq1 = "request_of ip (login_call (u_username u) password)" and ?rq2 = "request_of ip (profile_call tok)"
  from nd have ok: "db_ok (nd_db nd)" "faults (nd_db nd) = []" by (simp_all add: well_def db_reachable_ok)
  have u': "u \<in> set (users (tbl (nd_db nd)))" "runes_within 3 64 (u_username u)" "matches lib (u_password_hash u) password"
    "u_id u < 2 ^ 64" using u(1) by (simp_all add: enrolled_def)
  have bound: "bind_credentials (rq_body ?rq1) = Some \<lparr>cr_username = u_username u, cr_password = password\<rparr>"
    using credentials_bound [OF u'(2) u(2)] by (simp add: request_fields login_call_def post_call_def)
  from login_accepted [OF ok u'(1) bound _ _ _ raw(2), of lib env "x_now x1" tok] u'(3) tok(1) obtain ck d' where
    login: "login_handler lib env (x_now x1) (x_drawn_token x1) ?rq1 (nd_db nd) = (with_cookie ck (respond 200 (Token tok (expires_in env))), d')"
      "faults d' = []" "same_view (tbl (nd_db nd)) (tbl d')" "users (tbl d') = users (tbl (nd_db nd))"
      "seqs d' = (seqs (nd_db nd))\<lparr>next_token := next_token (seqs (nd_db nd)) + 1\<rparr>"
      "rt_token_hash ` set (tokens (tbl d')) \<subseteq> insert (hash_refresh_token (b64_encode (take 32 raw))) (rt_token_hash ` set (tokens (tbl (nd_db nd))))"
    by (auto simp: good_token_def raw(1))
  from pass_one [OF auth start] obtain la where la: "rate_limit (x_now x1) (ip_key ip) (nd_auth nd) = (Inr (), la)"
      "passes k (x_now x1) la (ip_key ip)" by blast
  let ?nd1 = "nd\<lparr>nd_auth := la, nd_db := d'\<rparr>"
  from served_login [OF xs(1) find_routes(1) _ login(1)] la(1) obtain ex1 where
    ex1: "serve lib env x1 ?rq1 nd = (ex1, ?nd1)" "ex_served ex1 = Responded (with_cookie ck (respond 200 (Token tok (expires_in env))))"
    by (auto simp: request_fields)
  have later: "start \<le> x_now x2" using start xs(3) by simp
  from pass_one [OF api later] obtain lb where lb: "rate_limit (x_now x2) (user_key (u_id u) ip) (nd_api nd) = (Inr (), lb)"
      "passes j (x_now x2) lb (user_key (u_id u) ip)"
      "\<forall>m i. i \<noteq> user_key (u_id u) ip \<longrightarrow> passes m start (nd_api nd) i \<longrightarrow> passes m (x_now x2) lb i" by blast
  let ?nd2 = "?nd1\<lparr>nd_api := lb\<rparr>"
  have nonempty: "tok \<noteq> []" using tok(1) by (simp add: good_token_def)
  have "run_route lib env x2 ?rq2 (u_id u, u_username u) ProfilePage ?nd2 = (Responded (profile_handler (u_id u, u_username u)), ?nd2)"
    by (simp add: run_route_def Let_def)
  from served_to_user [OF xs(2) find_routes(2) _ let_in [OF laws tok request_bearer(1) [OF nonempty]] _ this] lb(1) obtain ex2 where
    ex2: "serve lib env x2 ?rq2 ?nd1 = (ex2, ?nd2)" "ex_served ex2 = Responded (profile_handler (u_id u, u_username u))"
    by (auto simp: request_fields guard_of_def)
  have run: "sign_in n (node_net line lib env ip) url (u_username u) password (x1 # x2 # xs, nd)
      = (Inr \<lparr>us_token = tok, us_id = u_id u\<rparr>, (xs, ?nd2))"
    unfolding sign_in_def node_net_served [OF ex1] prod.case token_answer sum.case node_net_served [OF ex2]
      profile_answer [OF u'(4)] by simp
  have "db_reachable d'"
    using serve_evolves [OF ex1(1)] nd run_reachable by (auto simp: node_evolves_def well_def)
  with login(2) have "well ?nd2" by (simp add: well_def)
  with run login la lb show ?thesis by (intro exI [of _ ?nd2]) simp
qed

section \<open>The room and the first message\<close>

lemma room_keys [simp]:
  "\<not> equal_fold ''title'' ''id''" "\<not> equal_fold ''created_by_id'' ''id''" "\<not> equal_fold ''created_at'' ''id''"
  "\<not> equal_fold ''members'' ''id''" "\<not> equal_fold ''unread_count'' ''id''"
  by (simp_all add: equal_fold_def to_lower_def lower_char_def)

lemma room_answer:
  assumes "rfc3339 (cd_created_at c) \<noteq> None" "cd_id c < 2 ^ 64"
  shows "as_error (do_call (uint_field ''id'') (answer_of line (Responded (respond 201 (Room c))))) = Inr (cd_id c)"
  using assms
  by (auto simp: answer_of_def render_def conversation_json_def do_call_def as_error_def decoded_def uint_field_def decode_struct_def)

lemma seq_answer:
  assumes "rfc3339 (m_created_at m) \<noteq> None" "m_seq m < 2 ^ 64"
  shows "do_call (uint_field ''seq'') (answer_of line (Responded (respond 201 (MessageBody (sent_dto m name))))) = Body (m_seq m)"
  using assms
  by (auto simp: answer_of_def render_def message_json_def do_call_def decoded_def uint_field_def decode_struct_def
      sent_dto_def to_message_dto_def Let_def decode_members_append split: option.split)

lemma create_room_works:
  assumes laws: "jwt_law lib" and nd: "well nd" and a: "a \<in> set (users (tbl (nd_db nd)))"
    and i: "i \<in> u_id ` set (users (tbl (nd_db nd)))" "0 < i" "i < 2 ^ 64"
    and x: "calm x" and title: "runes_within 1 200 title" and width: "next_conversation (seqs (nd_db nd)) < 2 ^ 64"
    and tok: "good_token lib env signed_at a tok" "x_now x < numeric_date (signed_at + ae_token_ttl env)"
    and api: "passes (Suc k) start (nd_api nd) (user_key (u_id a) ip)" "start \<le> x_now x"
  shows "\<exists>nd'. create_room (node_net line lib env ip) url tok title [i] (x # xs, nd)
      = (Inr (next_conversation (seqs (nd_db nd))), (xs, nd'))
    \<and> well nd' \<and> passes k (x_now x) (nd_api nd') (user_key (u_id a) ip)
    \<and> chat_of (tbl (nd_db nd')) = (chat_of (tbl (nd_db nd)))(next_conversation (seqs (nd_db nd)) \<mapsto>
          \<lparr>cr_people = {u_id a, i}, cr_log = []\<rparr>)"
proof -
  let ?rq = "request_of ip (room_call tok title [i])" and ?who = "(u_id a, u_username a)"
  from nd have ok: "db_ok (nd_db nd)" "faults (nd_db nd) = []" by (simp_all add: well_def db_reachable_ok)
  have bound: "bind_create_conversation (rq_body ?rq) = Some \<lparr>cq_title = title, cq_member_ids = [i]\<rparr>"
    using room_bound [OF title i(2,3)] by (simp add: request_fields room_call_def post_call_def)
  from room_created [OF ok bound, of ?who "x_now x"] a i(1) obtain c d' where
    made: "create_conversation_handler (x_now x) ?who ?rq (nd_db nd) = (respond 201 (Room c), d')"
      "cd_id c = next_conversation (seqs (nd_db nd))" "faults d' = []" "cd_created_at c = x_now x"
      "chat_of (tbl d') = (chat_of (tbl (nd_db nd)))(cd_id c \<mapsto> \<lparr>cr_people = {u_id a, i}, cr_log = []\<rparr>)"
    by auto
  from pass_one [OF api] obtain l where l: "rate_limit (x_now x) (user_key (u_id a) ip) (nd_api nd) = (Inr (), l)"
      "passes k (x_now x) l (user_key (u_id a) ip)" by blast
  let ?nd = "nd\<lparr>nd_api := l, nd_db := d'\<rparr>"
  have nonempty: "tok \<noteq> []" using tok(1) by (simp add: good_token_def)
  have "run_route lib env x ?rq ?who CreateConversation (nd\<lparr>nd_api := l\<rparr>) = (Responded (respond 201 (Room c)), ?nd)"
    using made(1) by (simp add: run_route_def Let_def at_db_def)
  from served_to_user [OF x find_routes(3) _ let_in [OF laws tok request_bearer(2) [OF nonempty]] _ this] l(1) obtain ex where
    ex: "serve lib env x ?rq nd = (ex, ?nd)" "ex_served ex = Responded (respond 201 (Room c))"
    by (auto simp: request_fields guard_of_def)
  have "rfc3339 (cd_created_at c) \<noteq> None" using x made(4) by (simp add: calm_def)
  from room_answer [OF this] made(2) width
  have run: "create_room (node_net line lib env ip) url tok title [i] (x # xs, nd) = (Inr (cd_id c), (xs, ?nd))"
    unfolding create_room_def node_net_served [OF ex] by simp
  have "db_reachable d'"
    using serve_evolves [OF ex(1)] nd run_reachable by (auto simp: node_evolves_def well_def)
  with run made l(2) show ?thesis by (intro exI [of _ ?nd]) (simp add: well_def)
qed

lemma tool_send_works:
  assumes laws: "jwt_law lib" and nd: "well nd" and x: "calm x"
    and room: "chat_of (tbl (nd_db nd)) conv = Some r" "u_id a \<in> cr_people r" "conv < 2 ^ 64" "length (cr_log r) < 2 ^ 64 - 1"
    and body: "runes_within 1 4000 content" "rune_count key \<le> 64" "key \<noteq> []" "\<not> posted (u_id a) key r"
    and tok: "good_token lib env signed_at a tok" "x_now x < numeric_date (signed_at + ae_token_ttl env)"
    and api: "passes (Suc k) start (nd_api nd) (user_key (u_id a) ip)" "start \<le> x_now x"
  shows "\<exists>nd'. tool_send (node_net line lib env ip) url tok conv content key (x # xs, nd)
      = (Inr (Suc (length (cr_log r))), (xs, nd'))
    \<and> well nd' \<and> passes k (x_now x) (nd_api nd') (user_key (u_id a) ip)
    \<and> chat_of (tbl (nd_db nd')) = (chat_of (tbl (nd_db nd)))(conv \<mapsto> r\<lparr>cr_log := cr_log r @ [(u_id a, content, Some key)]\<rparr>)"
proof -
  let ?rq = "request_of ip (send_call tok conv content key [])" and ?who = "(u_id a, u_username a)"
  from nd have ok: "db_ok (nd_db nd)" "faults (nd_db nd) = []" by (simp_all add: well_def db_reachable_ok)
  have view: "conv \<in> c_id ` set (live_conversations (tbl (nd_db nd)))"
    "r = \<lparr>cr_people = people_of (tbl (nd_db nd)) conv, cr_log = map entry (in_room conv (tbl (nd_db nd)))\<rparr>"
    using room(1) by (simp_all add: chat_of_def split: if_splits)
  then have inside: "is_member (tbl (nd_db nd)) conv (fst ?who)" using room(2) by (simp add: is_member_def people_iff)
  have bound: "bind_send_message (rq_body ?rq) = Some \<lparr>sq_content = content, sq_client_msg_id = key\<rparr>"
    using message_bound [OF body(1,2)] by (simp add: request_fields send_call_def post_call_def)
  have key: "key_of \<lparr>sq_content = content, sq_client_msg_id = key\<rparr> = Some key" using body(3) by (simp add: key_of_def)
  have unused: "\<not> key_used (tbl (nd_db nd)) conv (fst ?who) (Some key)"
    using body(4) by (force simp: view(2) posted_def key_used_def list_ex_iff in_room_def entry_def)
  have path: "parse_uint (rq_id_param ?rq) = Some conv" using parse_format_uint [OF room(3)] by (simp add: request_fields)
  have year: "rfc3339 (x_now x) \<noteq> None" using x by (simp add: calm_def)
  from message_accepted [OF ok inside path bound _ year, of "x_carrier x"] unused room(1) obtain m d' where
    taken: "send_message_handler (x_now x) ?who (x_carrier x) ?rq (nd_db nd) = (respond 201 (MessageBody (sent_dto m (u_username a))), d')"
      "faults d' = []" "m_seq m = Suc (length (cr_log r))" "rfc3339 (m_created_at m) \<noteq> None"
      "chat_of (tbl d') = (chat_of (tbl (nd_db nd)))(conv \<mapsto> r\<lparr>cr_log := cr_log r @ [(u_id a, content, Some key)]\<rparr>)"
    by (auto simp: key)
  from pass_one [OF api] obtain l where l: "rate_limit (x_now x) (user_key (u_id a) ip) (nd_api nd) = (Inr (), l)"
      "passes k (x_now x) l (user_key (u_id a) ip)" by blast
  let ?nd = "nd\<lparr>nd_api := l, nd_db := d'\<rparr>"
  have nonempty: "tok \<noteq> []" using tok(1) by (simp add: good_token_def)
  have "run_route lib env x ?rq ?who SendMessage (nd\<lparr>nd_api := l\<rparr>)
      = (Responded (respond 201 (MessageBody (sent_dto m (u_username a)))), ?nd)"
    using taken(1) by (simp add: run_route_def Let_def at_db_def)
  from served_to_user [OF x find_routes(4) _ let_in [OF laws tok request_bearer(3) [OF nonempty]] _ this] l(1) obtain ex where
    ex: "serve lib env x ?rq nd = (ex, ?nd)" "ex_served ex = Responded (respond 201 (MessageBody (sent_dto m (u_username a))))"
    by (auto simp: request_fields guard_of_def)
  have "m_seq m < 2 ^ 64" using room(4) taken(3) by simp
  from seq_answer [OF taken(4) this] taken(3)
  have run: "tool_send (node_net line lib env ip) url tok conv content key (x # xs, nd) = (Inr (Suc (length (cr_log r))), (xs, ?nd))"
    unfolding tool_send_def by (simp add: numeral_eq_Suc node_net_served [OF ex] del: node_net.simps)
  have "db_reachable d'"
    using serve_evolves [OF ex(1)] nd run_reachable by (auto simp: node_evolves_def well_def)
  with run taken l(2) show ?thesis by (intro exI [of _ ?nd]) (simp add: well_def)
qed

section \<open>The whole beginning\<close>

lemma numeric_date_mono: "s \<le> t \<Longrightarrow> numeric_date s \<le> numeric_date t"
  by (simp add: numeric_date_def zdiv_mono1)

text \<open>Both users sign in, on one node and from one address, and the first opens the room.\<close>

lemma gap_setup_works:
  assumes laws: "jwt_law lib" and nd: "well nd" and us: "enrolled lib password nd a" "enrolled lib password nd b" "u_id a \<noteq> u_id b"
    and pw: "runes_within 8 72 password" and title: "runes_within 1 200 (''gapcheck '' @ clock)"
    and width: "next_conversation (seqs (nd_db nd)) < 2 ^ 64"
    and calm: "calm x1" "calm x2" "calm x3" "calm x4" "calm x5"
    and times: "x_now x1 \<le> x_now x2" "x_now x2 \<le> x_now x3" "x_now x3 \<le> x_now x4" "x_now x4 \<le> x_now x5"
    and raw: "x_drawn_token x1 = Some raw1" "x_drawn_token x3 = Some raw3"
      "hash_refresh_token (b64_encode (take 32 raw1)) \<notin> rt_token_hash ` set (tokens (tbl (nd_db nd)))"
      "hash_refresh_token (b64_encode (take 32 raw3)) \<notin>
         insert (hash_refresh_token (b64_encode (take 32 raw1))) (rt_token_hash ` set (tokens (tbl (nd_db nd))))"
    and tok: "good_token lib env (x_now x1) a ta" "good_token lib env (x_now x3) b tb"
      "x_now x5 < numeric_date (x_now x1 + ae_token_ttl env)"
    and limits: "passes 2 (x_now x1) (nd_auth nd) (ip_key ip)" "passes (Suc (Suc k)) (x_now x1) (nd_api nd) (user_key (u_id a) ip)"
      "passes 1 (x_now x1) (nd_api nd) (user_key (u_id b) ip)"
  shows "\<exists>nd'. gap_setup (node_net line lib env ip) url (u_username a) (u_username b) password clock (x1 # x2 # x3 # x4 # x5 # xs, nd)
      = (Inr (\<lparr>us_token = ta, us_id = u_id a\<rparr>, \<lparr>us_token = tb, us_id = u_id b\<rparr>, next_conversation (seqs (nd_db nd))), (xs, nd'))
    \<and> well nd' \<and> passes k (x_now x5) (nd_api nd') (user_key (u_id a) ip)
    \<and> chat_of (tbl (nd_db nd')) = (chat_of (tbl (nd_db nd)))(next_conversation (seqs (nd_db nd)) \<mapsto>
          \<lparr>cr_people = {u_id a, u_id b}, cr_log = []\<rparr>)"
proof -
  let ?net = "node_net line lib env ip"
  have keys: "user_key (u_id b) ip \<noteq> user_key (u_id a) ip"
    using us by (intro user_keys_differ) (auto simp: enrolled_def)
  have alive: "x_now x2 < numeric_date (x_now x1 + ae_token_ttl env)" using tok(3) times by simp
  have two: "passes (Suc 1) (x_now x1) (nd_auth nd) (ip_key ip)" using limits(1) by (simp add: numeral_2_eq_2)
  from sign_in_works [OF laws nd us(1) pw calm(1,2) times(1) raw(1,3) tok(1) alive two limits(2) order_refl, of "''2''" line url "x3 # x4 # x5 # xs"]
  obtain nd1 where first: "gap_sign_in ?net url (u_username a) password (x1 # x2 # x3 # x4 # x5 # xs, nd)
      = (Inr \<lparr>us_token = ta, us_id = u_id a\<rparr>, (x3 # x4 # x5 # xs, nd1))"
    and nd1: "well nd1" "same_view (tbl (nd_db nd)) (tbl (nd_db nd1))" "users (tbl (nd_db nd1)) = users (tbl (nd_db nd))"
      "next_conversation (seqs (nd_db nd1)) = next_conversation (seqs (nd_db nd))"
      "rt_token_hash ` set (tokens (tbl (nd_db nd1)))
        \<subseteq> insert (hash_refresh_token (b64_encode (take 32 raw1))) (rt_token_hash ` set (tokens (tbl (nd_db nd))))"
      "passes 1 (x_now x1) (nd_auth nd1) (ip_key ip)" "passes (Suc k) (x_now x2) (nd_api nd1) (user_key (u_id a) ip)"
      "passes 1 (x_now x2) (nd_api nd1) (user_key (u_id b) ip)"
    using keys limits(3) by (auto simp: gap_sign_in_def)
  have b1: "enrolled lib password nd1 b" using us(2) nd1(3) by (simp add: enrolled_def)
  have fresh: "hash_refresh_token (b64_encode (take 32 raw3)) \<notin> rt_token_hash ` set (tokens (tbl (nd_db nd1)))"
    using raw(4) nd1(5) by blast
  have "numeric_date (x_now x1 + ae_token_ttl env) \<le> numeric_date (x_now x3 + ae_token_ttl env)"
    using times by (intro numeric_date_mono) simp
  then have alive3: "x_now x4 < numeric_date (x_now x3 + ae_token_ttl env)" using tok(3) times by simp
  have auth1: "passes (Suc 0) (x_now x2) (nd_auth nd1) (ip_key ip)" using passes_later [OF nd1(6) times(1)] by simp
  have api1: "passes (Suc 0) (x_now x2) (nd_api nd1) (user_key (u_id b) ip)" using nd1(8) by simp
  from sign_in_works [OF laws nd1(1) b1 pw calm(3,4) times(3) raw(2) fresh tok(2) alive3 auth1 api1 times(2), of "''2''" line url "x5 # xs"]
  obtain nd2 where second: "gap_sign_in ?net url (u_username b) password (x3 # x4 # x5 # xs, nd1)
      = (Inr \<lparr>us_token = tb, us_id = u_id b\<rparr>, (x5 # xs, nd2))"
    and nd2: "well nd2" "same_view (tbl (nd_db nd1)) (tbl (nd_db nd2))" "users (tbl (nd_db nd2)) = users (tbl (nd_db nd1))"
      "next_conversation (seqs (nd_db nd2)) = next_conversation (seqs (nd_db nd1))"
      "passes (Suc k) (x_now x4) (nd_api nd2) (user_key (u_id a) ip)"
    using keys [symmetric] nd1(7) by (auto simp: gap_sign_in_def)
  have a2: "a \<in> set (users (tbl (nd_db nd2)))" "u_id b \<in> u_id ` set (users (tbl (nd_db nd2)))" "0 < u_id b" "u_id b < 2 ^ 64"
    using us nd1(3) nd2(3) by (auto simp: enrolled_def)
  have width2: "next_conversation (seqs (nd_db nd2)) < 2 ^ 64" using width nd1(4) nd2(4) by simp
  from create_room_works [OF laws nd2(1) a2 calm(5) title width2 tok(1,3) nd2(5) times(4), of line url xs]
  obtain nd3 where third: "gap_room ?net url ta clock (u_id b) (x5 # xs, nd2) = (Inr (next_conversation (seqs (nd_db nd))), (xs, nd3))"
    and nd3: "well nd3" "passes k (x_now x5) (nd_api nd3) (user_key (u_id a) ip)"
      "chat_of (tbl (nd_db nd3)) = (chat_of (tbl (nd_db nd2)))(next_conversation (seqs (nd_db nd)) \<mapsto>
          \<lparr>cr_people = {u_id a, u_id b}, cr_log = []\<rparr>)"
    using nd1(4) nd2(4) by (auto simp: gap_room_def)
  have "chat_of (tbl (nd_db nd2)) = chat_of (tbl (nd_db nd))" using same_viewD [OF nd1(2)] same_viewD [OF nd2(2)] by simp
  with first second third nd3 show ?thesis
    by (intro exI [of _ nd3]) (simp add: gap_setup_def tool_step_def tool_done_def)
qed

section \<open>What the plain functions overlook\<close>

text \<open>
  \<open>splitcheck\<close>, \<open>presencecheck\<close> and \<open>tracecheck\<close> do not look at the status of the profile's answer: a
  refusal, a 429 say, reads as user 0; the room that user is to be in is then refused. The commands
  with \<open>do\<close> stop at the refusal.
\<close>

definition refusing :: "http_answer \<Rightarrow> bool" where
  "refusing a \<longleftrightarrow> 300 \<le> an_status a \<and> (\<exists>why. an_json a = Some (JObj [(''error'', JStr why)]))"

lemma error_key [simp]: "\<not> equal_fold ''error'' ''id''"
  by (simp add: equal_fold_def to_lower_def lower_char_def)

lemma refused_profile_is_user_zero:
  assumes "net node (login_call name password) w = (r, w1)" "plain_call (Some (str_field ''token'')) [] r = Inr tok" "tok \<noteq> []"
    and "net node (profile_call tok) w1 = (Inr a, w2)" "refusing a"
  shows "plain_sign_in n net node name password w = (Inr \<lparr>us_token = tok, us_id = 0\<rparr>, w2)"
    and "bind_create_conversation (Some (room_json title [0])) = None"
proof -
  have same: "(profile_call tok)\<lparr>ca_headers := [(''Authorization'', ''Bearer '' @ tok)]\<rparr> = profile_call tok"
    using assms(3) by (simp add: profile_call_def get_call_def bearer_def)
  have "decoded (uint_field ''id'') a = Inr 0"
    using assms(5) by (auto simp: refusing_def decoded_def uint_field_def decode_struct_def)
  then show "plain_sign_in n net node name password w = (Inr \<lparr>us_token = tok, us_id = 0\<rparr>, w2)"
    unfolding plain_sign_in_def assms(1) prod.case assms(2) sum.case same assms(4) by simp
  show "bind_create_conversation (Some (room_json title [0])) = None"
    by (simp add: bind_create_conversation_def room_json_def decode_struct_def validated_def)
qed

lemma refused_profile_is_an_error:
  assumes "refusing a" shows "\<exists>e. as_error (do_call (uint_field ''id'') (Inr a)) = Inl e"
  using assms by (auto simp: refusing_def do_call_def as_error_def)

section \<open>The loops over the network\<close>

text \<open>\<open>send\<close> over the network is \<open>client_send\<close> on the answers it got.\<close>

lemma send_loop_local: "(\<And>i. k \<le> i \<Longrightarrow> post i = post' i) \<Longrightarrow> send_loop post k left = send_loop post' k left"
  by (induction left arbitrary: k) (auto split: answer.split)

lemma send_tries_loop: "\<exists>post. fst (send_tries net node c k left w) = send_loop post k left"
proof (induction left arbitrary: k w)
  case (Suc left)
  obtain r w1 where r: "net node c w = (r, w1)" by fastforce
  from Suc.IH [of "k + 1" w1] obtain post where post: "fst (send_tries net node c (k + 1) left w1) = send_loop post (k + 1) left" by blast
  have "send_loop (post(k := x)) (k + 1) left = send_loop post (k + 1) left" for x by (rule send_loop_local) simp
  with r post have "fst (send_tries net node c k (Suc left) w) = send_loop (post(k := do_call (uint_field ''seq'') r)) k (Suc left)"
    by (simp split: answer.split)
  then show ?case by blast
qed simp

text \<open>Reading over a network that answers by the cursor alone is the gap loop.\<close>

lemma read_pages_loop:
  assumes "\<And>cursor w. \<exists>r w'. net node (page_call token conv cursor) w = (r, w')
      \<and> as_error (do_call page_of r) = (case get cursor of None \<Rightarrow> Inl (why cursor) | Some p \<Rightarrow> Inr p)"
  shows "fst (read_pages net node token conv left cursor out w) = gap_loop get left cursor out"
proof (induction left arbitrary: cursor out w)
  case (Suc left)
  from assms [of cursor w] obtain r w' where "net node (page_call token conv cursor) w = (r, w')"
    "as_error (do_call page_of r) = (case get cursor of None \<Rightarrow> Inl (why cursor) | Some p \<Rightarrow> Inr p)" by blast
  with Suc.IH show ?case by (simp split: option.split)
qed simp

text \<open>The step an error of a run names.\<close>

lemma setup_error_source:
  assumes "tool_step what m k w = (Inl e, w')"
  obtains (here) e1 where "m w = (Inl e1, w')" "e = what @ e1"
  | (later) x w1 where "m w = (Inr x, w1)" "k x w1 = (Inl e, w')"
  using assms by (cases "m w"; cases "fst (m w)") (auto simp: tool_step_def)

section \<open>The outbox gauges off a metrics page\<close>

lemma trim_plain: "s \<noteq> [] \<Longrightarrow> \<not> is_space (hd s) \<Longrightarrow> \<not> is_space (last s) \<Longrightarrow> trim_space s = s"
  by (cases s rule: rev_cases) (auto simp: trim_space_def dropWhile_append dropWhile_eq_self_iff hd_append split: if_splits)

text \<open>A gauge printed as a line of the page is read back, when no earlier line starts with its name.\<close>

lemma metric_read:
  assumes "\<forall>l \<in> set before. \<not> has_start (trim_space l) (name @ '' '')" "name \<noteq> []" "\<not> is_space (hd name)"
    and "v \<noteq> []" "\<not> is_space (hd v)" "\<not> is_space (last v)"
  shows "metric_line parsed name (before @ (name @ '' '' @ v) # rest) = parsed v"
proof -
  have "trim_space (name @ '' '' @ v) = name @ '' '' @ v" using assms by (intro trim_plain) simp_all
  moreover have "trim_space (CHR '' '' # v) = v"
    using trim_plain [OF assms(4-6)] by (simp add: trim_space_def is_space_def)
  ultimately have "metric_line parsed name ((name @ '' '' @ v) # rest) = parsed v"
    by (simp add: has_start_def)
  with assms(1) show ?thesis by (induction before) simp_all
qed

end
