(* ===== verification/Spans.thy ===== *)
theory Spans
  imports Tracing Broker_Delivery Server_Node
begin

text \<open>
  Spans: what one holds, the request's span (\<open>internal/server/trace.go\<close>), the publish's
  (\<open>internal/outbox/trace.go\<close>) and the carrier of a message on the broker
  (\<open>internal/broker/trace.go\<close>). A span is what was said of it; a process's spans are listed in the
  order they were started, and the length of the list numbers the next.
\<close>

section \<open>A span\<close>

datatype attr = A_int int | A_str string | A_bool bool

datatype span_kind = Internal | Server | Producer | Consumer

record 'c span =
  sp_name :: string
  sp_kind :: span_kind
  sp_parent :: 'c
  sp_ctx :: 'c
  sp_attrs :: "(string \<times> attr) list"
  sp_events :: "(string \<times> (string \<times> attr) list) list"
  sp_recorded :: "string list"
  sp_error :: "string option"
  sp_ended :: bool

definition start_span ::
  "'c starter \<Rightarrow> 'c span list \<Rightarrow> 'c \<Rightarrow> string \<Rightarrow> span_kind \<Rightarrow> (string \<times> attr) list \<Rightarrow> 'c span" where
  "start_span start spans ctx name kind attrs =
     \<lparr>sp_name = name, sp_kind = kind, sp_parent = ctx, sp_ctx = start (length spans) ctx name,
      sp_attrs = attrs, sp_events = [], sp_recorded = [], sp_error = None, sp_ended = False\<rparr>"

definition set_attributes :: "(string \<times> attr) list \<Rightarrow> 'c span \<Rightarrow> 'c span" where
  "set_attributes kvs s = s\<lparr>sp_attrs := sp_attrs s @ kvs\<rparr>"

definition add_event :: "string \<Rightarrow> (string \<times> attr) list \<Rightarrow> 'c span \<Rightarrow> 'c span" where
  "add_event name kvs s = s\<lparr>sp_events := sp_events s @ [(name, kvs)]\<rparr>"

definition record_error :: "string \<Rightarrow> 'c span \<Rightarrow> 'c span" where
  "record_error err s = s\<lparr>sp_recorded := sp_recorded s @ [err]\<rparr>"

definition set_failed :: "string \<Rightarrow> 'c span \<Rightarrow> 'c span" where
  "set_failed why s = s\<lparr>sp_error := Some why\<rparr>"

definition end_span :: "'c span \<Rightarrow> 'c span" where
  "end_span s = s\<lparr>sp_ended := True\<rparr>"

lemmas span_defs = start_span_def set_attributes_def add_event_def record_error_def set_failed_def end_span_def

definition has_event :: "string \<Rightarrow> 'c span \<Rightarrow> bool" where
  "has_event name s \<longleftrightarrow> name \<in> fst ` set (sp_events s)"

text \<open>\<open>int64(n)\<close> of an unsigned number.\<close>

definition int64 :: "nat \<Rightarrow> int" where
  "int64 n = (int n + 2 ^ 63) mod 2 ^ 64 - 2 ^ 63"

section \<open>The request\<close>

definition service_name :: "string \<Rightarrow> string" where
  "service_name var = (if var \<noteq> [] then var else ''chat-api'')"

text \<open>
  \<open>traceRequests\<close>: the middleware of \<open>otelgin\<close>, given the service's name, continues the trace of the
  request's headers with a span named after the route, unless the filter turns the request away.
  \<open>gin\<close> is what the middleware makes of the service, the request and the route: a name and attributes.
\<close>

definition request_span ::
  "'c propagator \<Rightarrow> 'c starter \<Rightarrow> (string \<Rightarrow> http_request \<Rightarrow> string \<Rightarrow> string \<times> (string \<times> attr) list)
     \<Rightarrow> string \<Rightarrow> string \<Rightarrow> http_request \<Rightarrow> 'c \<Rightarrow> 'c span list \<Rightarrow> 'c \<times> 'c span list" where
  "request_span p start gin var full_path rq ctx spans =
     (if \<not> trace_requests rq then (ctx, spans)
      else case gin (service_name var) rq full_path of (name, attrs) \<Rightarrow>
             let s = start_span start spans (pr_extract p ctx (rq_header rq)) name Server attrs
             in (sp_ctx s, spans @ [s]))"

text \<open>The fields that join an access line to its trace.\<close>

definition trace_attrs :: "'c propagator \<Rightarrow> 'c \<Rightarrow> (string \<times> string) list" where
  "trace_attrs p ctx =
     (if trace_id p ctx = [] then [] else [(''trace_id'', trace_id p ctx), (''span_id'', span_id p ctx)])"

section \<open>The publish\<close>

definition start_publish_span ::
  "'c propagator \<Rightarrow> 'c starter \<Rightarrow> 'c span list \<Rightarrow> 'c \<Rightarrow> time \<Rightarrow> outbox_row \<Rightarrow> message_created \<Rightarrow> 'c span" where
  "start_publish_span p start spans ctx now row ev =
     start_span start spans
       (extract_carrier p ctx (case o_trace_context row of None \<Rightarrow> [] | Some c \<Rightarrow> c))
       ''outbox.publish'' Producer
       [(''outbox.id'', A_int (int64 (o_id row))),
        (''outbox.attempts'', A_int (int (o_attempts row))),
        (''outbox.queued_ms'', A_int (whole millisecond (now - o_created_at row))),
        (''message.id'', A_int (int64 (mc_message_id ev))),
        (''conversation.id'', A_int (int64 (mc_conversation_id ev))),
        (''message.seq'', A_int (int64 (mc_seq ev)))]"

definition end_span_ok :: "nat \<Rightarrow> 'c span \<Rightarrow> 'c span" where
  "end_span_ok n s = end_span (set_attributes [(''message.recipients'', A_int (int n))] s)"

definition end_span_err :: "string \<Rightarrow> 'c span \<Rightarrow> 'c span" where
  "end_span_err err s = end_span (set_failed err (record_error err s))"

section \<open>Headers on the broker\<close>

text \<open>A \<open>nats.Header\<close>: lists of values under keys whose case counts.\<close>

type_synonym headers = "(string \<times> string list) list"

definition header_get :: "headers \<Rightarrow> string \<Rightarrow> string" where
  "header_get h k = (case map_of h k of Some (v # vs) \<Rightarrow> v | _ \<Rightarrow> [])"

definition header_set :: "string \<Rightarrow> string \<Rightarrow> headers \<Rightarrow> headers" where
  "header_set k v h = AList.update k [v] h"

definition header_keys :: "headers \<Rightarrow> string list" where
  "header_keys h = map fst h"

definition inject_trace :: "'c propagator \<Rightarrow> 'c \<Rightarrow> headers \<Rightarrow> headers" where
  "inject_trace p ctx h = fold (\<lambda>(k, v). header_set k v) (pr_inject p ctx) h"

definition extract_trace :: "'c propagator \<Rightarrow> 'c \<Rightarrow> headers \<Rightarrow> 'c" where
  "extract_trace p ctx h = (if h = [] then ctx else pr_extract p ctx (header_get h))"

lemma map_of_inject:
  "map_of (inject_trace p ctx h) = map_of h ++ (map_option (\<lambda>v. [v]) \<circ> map_of (rev (pr_inject p ctx)))"
proof -
  have "map_of (fold (\<lambda>(k, v). header_set k v) kvs h) = map_of h ++ (map_option (\<lambda>v. [v]) \<circ> map_of (rev kvs))" for kvs
    by (induction kvs arbitrary: h) (auto simp: header_set_def update_conv' map_add_def fun_eq_iff split: option.splits)
  then show ?thesis by (simp add: inject_trace_def)
qed

lemma header_get_inject: "header_get (inject_trace p ctx []) = carrier_get (rev (pr_inject p ctx))"
  by (auto simp: header_get_def carrier_get_def map_of_inject fun_eq_iff split: option.splits)

text \<open>A trace crosses the broker.\<close>

lemma header_round_trip:
  assumes "propagator_law p" "pr_valid p ctx"
  shows "same_span p ctx (extract_trace p other (inject_trace p ctx []))"
proof -
  from assms have f: "pr_inject p ctx \<noteq> []" "same_span p ctx (pr_extract p other (carrier_get (rev (pr_inject p ctx))))"
    by (auto simp: propagator_law_def)
  then obtain kv where "kv \<in> set (rev (pr_inject p ctx))" by (cases "pr_inject p ctx") auto
  then have "map_of (inject_trace p ctx []) (fst kv) \<noteq> None"
    by (simp add: map_of_inject map_of_eq_None_iff)
  then have "inject_trace p ctx [] \<noteq> []" by auto
  with f(2) show ?thesis by (simp add: extract_trace_def header_get_inject)
qed

lemma no_header_no_change: "extract_trace p ctx [] = ctx"
  by (simp add: extract_trace_def)

end
