(* ===== verification/Traced_Relay.thy ===== *)
theory Traced_Relay
  imports Spans
begin

text \<open>
  The relay with its spans: \<open>Drain\<close> of \<open>internal/outbox/relay.go\<close> as it runs, each row's publish below
  the request that wrote the row. The locale \<open>traced_relay\<close> relates a store and a publisher that see
  contexts and headers to those of the theory \<open>Relay\<close>: a drain with spans does to the rest what a drain
  without them does, and every header it puts on the stream carries the span of its row.
\<close>

section \<open>A drain with spans\<close>

type_synonym ('c, 'w) traced_publisher = "'c \<Rightarrow> 'w publisher"

definition row_carrier :: "outbox_row \<Rightarrow> bytes" where
  "row_carrier row = (case o_trace_context row of None \<Rightarrow> [] | Some c \<Rightarrow> c)"

fun traced_drain_rows ::
  "'c propagator \<Rightarrow> 'c starter \<Rightarrow> 'c \<Rightarrow> time \<Rightarrow> 'w store \<Rightarrow> ('c, 'w) traced_publisher \<Rightarrow> outbox_row list
     \<Rightarrow> nat list \<Rightarrow> relay \<times> 'w \<Rightarrow> 'c span list \<Rightarrow> (nat list \<times> relay \<times> 'w) \<times> 'c span list" where
  "traced_drain_rows p start ctx now st pub [] acc (r, w) spans = ((acc, r, w), spans)"
| "traced_drain_rows p start ctx now st pub (row # rows) acc (r, w) spans =
     (case decode_event (o_payload row) of
        Inl err \<Rightarrow>
          traced_drain_rows p start ctx now st pub rows (acc @ [o_id row])
            (r, relay_note st (o_id row) (''undecodable payload: '' @ err) w) spans
      | Inr ev \<Rightarrow>
          let s = start_publish_span p start spans ctx now row ev in
          (case s_member_ids st (mc_conversation_id ev) w of
             (Inl e, w1) \<Rightarrow>
               ((acc, r, relay_note st (o_id row) (''list members: '' @ error_text e) w1),
                spans @ [end_span_err (error_text e) s])
           | (Inr ids, w1) \<Rightarrow>
               (case pub (sp_ctx s) now (o_id row) ev ids w1 of
                  (Inl err, w2) \<Rightarrow>
                    ((acc, r\<lparr>r_failed := r_failed r + 1\<rparr>, relay_note st (o_id row) err w2),
                     spans @ [end_span_err err s])
                | (Inr _, w2) \<Rightarrow>
                    traced_drain_rows p start ctx now st pub rows (acc @ [o_id row]) (r, w2)
                      (spans @ [end_span_ok (length ids) s]))))"

definition traced_drain ::
  "'c propagator \<Rightarrow> 'c starter \<Rightarrow> 'c \<Rightarrow> time \<Rightarrow> 'w store \<Rightarrow> ('c, 'w) traced_publisher \<Rightarrow> relay \<times> 'w
     \<Rightarrow> 'c span list \<Rightarrow> ((batch \<times> db_error option) \<times> relay \<times> 'w) \<times> 'c span list" where
  "traced_drain p start ctx now st pub rw spans =
     (case rw of (r, w) \<Rightarrow>
       (case s_fetch st (r_batch_size r) w of
          (Inl e, w1) \<Rightarrow> (((\<lparr>fetched = 0, published = 0\<rparr>, Some e), r, w1), spans)
        | (Inr rows, w1) \<Rightarrow>
            if rows = [] then (((\<lparr>fetched = 0, published = 0\<rparr>, None), r, w1), spans)
            else
              (case traced_drain_rows p start ctx now st pub rows [] (r, w1) spans of
                 ((done_ids, r1, w2), spans') \<Rightarrow>
                let batch = \<lparr>fetched = length rows, published = length done_ids\<rparr> in
                (case s_mark_published st now done_ids w2 of
                   (Inl e, w3) \<Rightarrow> (((batch, Some e), r1, w3), spans')
                 | (Inr _, w3) \<Rightarrow>
                     (((batch, None), r1\<lparr>r_published := r_published r1 + length done_ids\<rparr>, w3), spans')))))"

section \<open>What it does to the rest, and to the headers\<close>

text \<open>An operation of the world with contexts does, seen through \<open>strip\<close>, what the plain one does.\<close>

definition strips :: "('v \<Rightarrow> 'w) \<Rightarrow> ('v \<Rightarrow> 'a \<times> 'v) \<Rightarrow> ('w \<Rightarrow> 'a \<times> 'w) \<Rightarrow> bool" where
  "strips strip f g \<longleftrightarrow> (\<forall>v. g (strip v) = map_prod id strip (f v))"

lemma stripsD: "strips strip f g \<Longrightarrow> f v = (a, v') \<Longrightarrow> g (strip v) = (a, strip v')"
  by (simp add: strips_def)

text \<open>The headers put on the stream come from the publishes of these rows, below these parents.\<close>

definition row_span :: "'c propagator \<Rightarrow> 'c starter \<Rightarrow> 'c \<Rightarrow> outbox_row \<Rightarrow> 'c span \<Rightarrow> bool" where
  "row_span p start ctx row s \<longleftrightarrow> sp_name s = ''outbox.publish'' \<and> sp_kind s = Producer \<and> sp_ended s
     \<and> sp_parent s = extract_carrier p ctx (row_carrier row)
     \<and> (\<exists>k. sp_ctx s = start k (sp_parent s) ''outbox.publish'')"

definition headed_by :: "'c propagator \<Rightarrow> 'c starter \<Rightarrow> 'c \<Rightarrow> outbox_row list \<Rightarrow> 'c span list \<Rightarrow> string \<times> headers \<Rightarrow> bool" where
  "headed_by p start ctx rows ss e \<longleftrightarrow>
     (\<exists>row \<in> set rows. \<exists>s \<in> set ss. row_span p start ctx row s
        \<and> e = (msg_id (o_id row), inject_trace p (sp_ctx s) []))"

lemma headed_by_mono:
  "headed_by p start ctx rows ss e \<Longrightarrow> set rows \<subseteq> set rows' \<Longrightarrow> set ss \<subseteq> set ss' \<Longrightarrow> headed_by p start ctx rows' ss' e"
  unfolding headed_by_def by blast

lemma publish_span_of_row:
  "row_span p start ctx row (end_span_ok n (start_publish_span p start spans ctx now row ev))"
  "row_span p start ctx row (end_span_err err (start_publish_span p start spans ctx now row ev))"
  by (auto simp: row_span_def end_span_ok_def end_span_err_def start_publish_span_def span_defs row_carrier_def)

lemma ended_ctx [simp]: "sp_ctx (end_span_ok n s) = sp_ctx s" "sp_ctx (end_span_err err s) = sp_ctx s"
  "sp_parent (end_span_ok n s) = sp_parent s" "sp_parent (end_span_err err s) = sp_parent s"
  "sp_error (end_span_ok n s) = sp_error s" "sp_error (end_span_err err s) = Some err"
  by (simp_all add: end_span_ok_def end_span_err_def span_defs)

lemma publish_span_fresh [simp]: "sp_error (start_publish_span p start spans ctx now row ev) = None"
  by (simp add: start_publish_span_def span_defs)

locale traced_relay =
  fixes p :: "'c propagator" and strip :: "'v \<Rightarrow> 'w" and st :: "'v store" and plain :: "'w store"
    and pub :: "('c, 'v) traced_publisher" and plain_pub :: "'w publisher"
    and heads :: "'v \<Rightarrow> (string \<times> headers) list"
  assumes fetch: "strips strip (s_fetch st n) (s_fetch plain n)"
    and member_ids: "strips strip (s_member_ids st c) (s_member_ids plain c)"
    and mark_failed: "strips strip (s_mark_failed st i reason) (s_mark_failed plain i reason)"
    and mark_published: "strips strip (s_mark_published st now is) (s_mark_published plain now is)"
    and publish: "strips strip (pub ctx now i ev us) (plain_pub now i ev us)"
    and fetch_heads: "heads (snd (s_fetch st n v)) = heads v"
    and member_heads: "heads (snd (s_member_ids st c v)) = heads v"
    and failed_heads: "heads (snd (s_mark_failed st i reason v)) = heads v"
    and published_heads: "heads (snd (s_mark_published st now is v)) = heads v"
    and publish_heads: "heads (snd (pub ctx now i ev us v)) = heads v
      \<or> heads (snd (pub ctx now i ev us v)) = heads v @ [(msg_id i, inject_trace p ctx [])]"
begin

lemma note_strip: "relay_note plain i reason (strip v) = strip (relay_note st i reason v)"
  unfolding relay_note_def using mark_failed [of i reason]
  by (simp add: strips_def)

lemma note_heads: "heads (relay_note st i reason v) = heads v"
  by (simp add: relay_note_def failed_heads)

lemma drain_rows_strip:
  "traced_drain_rows p start ctx now st pub rows acc (r, v) spans = ((acc', r', v'), spans') \<Longrightarrow>
     drain_rows now plain plain_pub rows acc (r, strip v) = (acc', r', strip v')"
proof (induction rows arbitrary: acc r v spans)
  case (Cons row rows)
  show ?case
  proof (cases "decode_event (o_payload row)")
    case (Inl err)
    with Cons show ?thesis by (simp add: note_strip)
  next
    case (Inr ev)
    obtain ms v1 where m: "s_member_ids st (mc_conversation_id ev) v = (ms, v1)" by fastforce
    note m' = stripsD [OF member_ids m]
    show ?thesis
    proof (cases ms)
      case (Inl e)
      with Cons.prems Inr m m' show ?thesis by (auto simp: Let_def note_strip)
    next
      case (Inr us)
      let ?s = "start_publish_span p start spans ctx now row ev"
      obtain a v2 where q: "pub (sp_ctx ?s) now (o_id row) ev us v1 = (a, v2)" by fastforce
      note q' = stripsD [OF publish q]
      show ?thesis
        using Cons.prems \<open>decode_event (o_payload row) = Inr ev\<close> m m' Inr q q' Cons.IH
        by (cases a) (auto simp: Let_def note_strip)
    qed
  qed
qed simp

lemma drain_strip:
  assumes "traced_drain p start ctx now st pub (r, v) spans = ((result, r', v'), spans')"
  shows "drain now plain plain_pub (r, strip v) = (result, r', strip v')"
proof -
  obtain f v1 where f: "s_fetch st (r_batch_size r) v = (f, v1)" by fastforce
  note f' = stripsD [OF fetch f]
  show ?thesis
  proof (cases f)
    case (Inl e)
    with assms f f' show ?thesis by (auto simp: traced_drain_def drain_def)
  next
    case (Inr rows)
    obtain ids r1 v2 ss where d: "traced_drain_rows p start ctx now st pub rows [] (r, v1) spans = ((ids, r1, v2), ss)"
      by (metis prod_cases3 surj_pair)
    note d' = drain_rows_strip [OF d]
    obtain m v3 where m: "s_mark_published st now ids v2 = (m, v3)" by fastforce
    note m' = stripsD [OF mark_published m]
    from assms f f' Inr d d' m m' show ?thesis
      by (cases m) (auto simp: traced_drain_def drain_def Let_def split: if_splits)
  qed
qed

text \<open>Spans are only added, each a publish of one of the rows, and only the last can have failed.\<close>

lemma drain_rows_spans:
  "traced_drain_rows p start ctx now st pub rows acc (r, v) spans = ((acc', r', v'), spans') \<Longrightarrow>
     \<exists>ss es. spans' = spans @ ss \<and> (\<forall>s \<in> set ss. \<exists>row \<in> set rows. row_span p start ctx row s)
       \<and> (\<forall>s \<in> set (butlast ss). sp_error s = None) \<and> length ss \<le> length rows
       \<and> heads v' = heads v @ es \<and> (\<forall>e \<in> set es. headed_by p start ctx rows ss e)"
proof (induction rows arbitrary: acc r v spans)
  case Nil
  then show ?case by simp
next
  case (Cons row rows)
  show ?case
  proof (cases "decode_event (o_payload row)")
    case (Inl err)
    with Cons.prems have "traced_drain_rows p start ctx now st pub rows (acc @ [o_id row])
        (r, relay_note st (o_id row) (''undecodable payload: '' @ err) v) spans = ((acc', r', v'), spans')"
      by simp
    from Cons.IH [OF this] show ?thesis unfolding note_heads
      by (elim exE conjE) (intro exI conjI, assumption, auto intro: headed_by_mono)
  next
    case (Inr ev)
    let ?s = "start_publish_span p start spans ctx now row ev"
    obtain ms v1 where m: "s_member_ids st (mc_conversation_id ev) v = (ms, v1)" by fastforce
    have h1: "heads v1 = heads v" using member_heads [of "mc_conversation_id ev" v] m by simp
    show ?thesis
    proof (cases ms)
      case (Inl e)
      with Cons.prems Inr m have "spans' = spans @ [end_span_err (error_text e) ?s]" "heads v' = heads v"
        by (auto simp: Let_def note_heads h1)
      then show ?thesis using publish_span_of_row(2) by (intro exI [of _ "[end_span_err (error_text e) ?s]"] exI [of _ "[]"]) auto
    next
      case (Inr us)
      obtain a v2 where q: "pub (sp_ctx ?s) now (o_id row) ev us v1 = (a, v2)" by fastforce
      from publish_heads [of "sp_ctx ?s" now "o_id row" ev us v1] q h1
      obtain e2 where e2: "heads v2 = heads v @ e2" "set e2 \<subseteq> {(msg_id (o_id row), inject_trace p (sp_ctx ?s) [])}"
        by (metis append_Nil2 empty_set empty_subsetI list.simps(15) order_refl snd_conv)
      show ?thesis
      proof (cases a)
        case (Inl err)
        let ?e = "end_span_err err ?s"
        from Cons.prems \<open>decode_event (o_payload row) = Inr ev\<close> m Inr q Inl
        have "spans' = spans @ [?e]" "heads v' = heads v @ e2" using e2(1) by (auto simp: Let_def note_heads)
        moreover have "\<forall>x \<in> set e2. headed_by p start ctx (row # rows) [?e] x"
          using e2(2) publish_span_of_row(2) by (fastforce simp: headed_by_def)
        ultimately show ?thesis using publish_span_of_row(2) by (intro exI [of _ "[?e]"] exI [of _ e2]) auto
      next
        case (Inr u)
        let ?e = "end_span_ok (length us) ?s"
        from Cons.prems \<open>decode_event (o_payload row) = Inr ev\<close> m \<open>ms = Inr us\<close> q Inr
        have "traced_drain_rows p start ctx now st pub rows (acc @ [o_id row]) (r, v2) (spans @ [?e]) = ((acc', r', v'), spans')"
          by (simp add: Let_def)
        from Cons.IH [OF this] obtain ss es where ih: "spans' = spans @ ?e # ss"
          "\<forall>s \<in> set ss. \<exists>row \<in> set rows. row_span p start ctx row s" "\<forall>s \<in> set (butlast ss). sp_error s = None"
          "length ss \<le> length rows" "heads v' = heads v2 @ es" "\<forall>e \<in> set es. headed_by p start ctx rows ss e"
          by auto
        have "\<forall>x \<in> set e2. headed_by p start ctx (row # rows) (?e # ss) x"
          using e2(2) publish_span_of_row(1) by (fastforce simp: headed_by_def)
        moreover have "\<forall>x \<in> set es. headed_by p start ctx (row # rows) (?e # ss) x"
          using ih(6) by (auto intro: headed_by_mono)
        ultimately show ?thesis using ih publish_span_of_row(1) e2(1)
          by (intro exI [of _ "?e # ss"] exI [of _ "e2 @ es"]) auto
      qed
    qed
  qed
qed

lemma drain_spans:
  assumes "traced_drain p start ctx now st pub (r, v) spans = ((result, r', v'), spans')"
  shows "\<exists>ss. spans' = spans @ ss \<and> length ss \<le> fetched (fst result) \<and> (\<forall>s \<in> set ss. sp_ended s)
    \<and> (\<forall>s \<in> set (butlast ss). sp_error s = None)"
proof -
  obtain f v1 where f: "s_fetch st (r_batch_size r) v = (f, v1)" by fastforce
  show ?thesis
  proof (cases "\<exists>row rows. f = Inr (row # rows)")
    case False
    then have "f = Inr [] \<or> (\<exists>e. f = Inl e)" by (metis list.exhaust sum.exhaust)
    with assms f show ?thesis by (auto simp: traced_drain_def)
  next
    case True
    then obtain rows where Inr: "f = Inr rows" "rows \<noteq> []" by blast
    obtain ids r1 v2 ss where d: "traced_drain_rows p start ctx now st pub rows [] (r, v1) spans = ((ids, r1, v2), ss)"
      by (metis prod_cases3 surj_pair)
    obtain m v3 where m: "s_mark_published st now ids v2 = (m, v3)" by fastforce
    from assms f Inr d m have "spans' = ss" "fetched (fst result) = length rows"
      by (cases m; auto simp: traced_drain_def Let_def)+
    with drain_rows_spans [OF d] show ?thesis by (auto simp: row_span_def)
  qed
qed

lemma drain_heads:
  assumes "traced_drain p start ctx now st pub (r, v) spans = ((result, r', v'), spans')"
    and "e \<in> set (heads v')" and "e \<notin> set (heads v)"
  shows "\<exists>rows ss. fst (s_fetch st (r_batch_size r) v) = Inr rows \<and> spans' = spans @ ss \<and> headed_by p start ctx rows ss e"
proof -
  obtain f v1 where f: "s_fetch st (r_batch_size r) v = (f, v1)" by fastforce
  then have h1: "heads v1 = heads v" using fetch_heads [of "r_batch_size r" v] by simp
  show ?thesis
  proof (cases f)
    case (Inl e)
    with assms f h1 show ?thesis by (auto simp: traced_drain_def)
  next
    case (Inr rows)
    obtain ids r1 v2 ss where d: "traced_drain_rows p start ctx now st pub rows [] (r, v1) spans = ((ids, r1, v2), ss)"
      by (metis prod_cases3 surj_pair)
    obtain m v3 where m: "s_mark_published st now ids v2 = (m, v3)" by fastforce
    then have h3: "heads v3 = heads v2" using published_heads [of now ids v2] by simp
    have "rows \<noteq> []" using assms f Inr h1 by (auto simp: traced_drain_def)
    with assms(1) f Inr d m have "heads v' = heads v2" "spans' = ss" using h3
      by (cases m; auto simp: traced_drain_def Let_def)+
    with drain_rows_spans [OF d] assms(2,3) f Inr h1 show ?thesis by auto
  qed
qed

end

end
