(* ===== verification/Traced_Broker.thy ===== *)
theory Traced_Broker
  imports Traced_Relay
begin

text \<open>
  The broker with its spans: the headers of a publish, the two consumers of
  \<open>internal/broker/consume.go\<close> below the publish, and a message's whole life on the shared consumer, one
  span for each time it is handed out.
\<close>

section \<open>Publishing with headers\<close>

type_synonym 's headed_publish = "headers \<Rightarrow> 's js_publish"

definition traced_publish ::
  "'c propagator \<Rightarrow> 's headed_publish \<Rightarrow> ('c, 's bus_world) traced_publisher" where
  "traced_publish p js ctx = bus_publish (js (inject_trace p ctx []))"

definition strip_bus :: "('s \<Rightarrow> 't) \<Rightarrow> 's bus_world \<Rightarrow> 't bus_world" where
  "strip_bus f w = \<lparr>w_db = w_db w, w_lock = w_lock w, bus_broker = bus_broker w, bus_stream = f (bus_stream w)\<rparr>"

lemma strip_bus_simps [simp]: "w_db (strip_bus f w) = w_db w" "bus_broker (strip_bus f w) = bus_broker w"
  "bus_stream (strip_bus f w) = f (bus_stream w)" "w_lock (strip_bus f w) = w_lock w"
  by (simp_all add: strip_bus_def)

lemma on_db_strip: "strips (strip_bus f) (on_db g) (on_db g)"
  by (auto simp: strips_def on_db_def strip_bus_def split: prod.splits)

lemma on_db_stream [simp]: "bus_stream (snd (on_db g w)) = bus_stream w"
  by (simp add: on_db_def split: prod.splits)

text \<open>A stream that keeps headers beside what it stores, and otherwise is one that does not.\<close>

locale headed_stream =
  fixes js :: "'s headed_publish" and plain :: "'t js_publish" and f :: "'s \<Rightarrow> 't"
    and heads :: "'s \<Rightarrow> (string \<times> headers) list"
  assumes headless: "strips f (js h now subject data mid) (plain now subject data mid)"
    and kept: "heads (snd (js h now subject data mid s)) = heads s
      \<or> heads (snd (js h now subject data mid s)) = heads s @ [(mid, h)]"
begin

lemma publish_strip: "strips (strip_bus f) (traced_publish p js ctx now i ev us) (bus_publish plain now i ev us)"
  unfolding strips_def
proof
  fix w :: "'s bus_world"
  let ?h = "inject_trace p ctx []" and ?b = "bus_broker w"
  show "bus_publish plain now i ev us (strip_bus f w) = map_prod id (strip_bus f) (traced_publish p js ctx now i ev us w)"
  proof (cases "encode_envelope \<lparr>env_event = ev, env_user_ids = us, env_from = br_node_id ?b\<rparr>")
    case None
    then show ?thesis by (simp add: traced_publish_def bus_publish_def broker_publish_def strip_bus_def)
  next
    case (Some data)
    obtain a s where q: "js ?h now (message_subject (mc_conversation_id ev)) data (msg_id i) (bus_stream w) = (a, s)"
      by fastforce
    note q' = stripsD [OF headless q]
    show ?thesis
      using Some q q' by (cases a) (simp_all add: traced_publish_def bus_publish_def broker_publish_def strip_bus_def)
  qed
qed

lemma publish_heads:
  "heads (bus_stream (snd (traced_publish p js ctx now i ev us w))) = heads (bus_stream w)
   \<or> heads (bus_stream (snd (traced_publish p js ctx now i ev us w))) = heads (bus_stream w) @ [(msg_id i, inject_trace p ctx [])]"
proof (cases "encode_envelope \<lparr>env_event = ev, env_user_ids = us, env_from = br_node_id (bus_broker w)\<rparr>")
  case None
  then show ?thesis by (simp add: traced_publish_def bus_publish_def broker_publish_def)
next
  case (Some data)
  let ?h = "inject_trace p ctx []"
  obtain a s where q: "js ?h now (message_subject (mc_conversation_id ev)) data (msg_id i) (bus_stream w) = (a, s)"
    by fastforce
  with kept [of ?h now "message_subject (mc_conversation_id ev)" data "msg_id i" "bus_stream w"] Some show ?thesis
    by (cases a) (auto simp: traced_publish_def bus_publish_def broker_publish_def)
qed

end

sublocale headed_stream \<subseteq> bus: traced_relay p "strip_bus f" "db_store fault conn" "db_store fault conn"
    "traced_publish p js" "bus_publish plain" "\<lambda>w. heads (bus_stream w)" for p fault conn
  by unfold_locales (simp_all add: db_store_def on_db_strip publish_strip publish_heads)

text \<open>The stream of the theory \<open>Broker_Delivery\<close>, with headers.\<close>

record headed_window = window_stream +
  stream_heads :: "(string \<times> headers) list"

definition headed_window_publish :: "headed_window headed_publish" where
  "headed_window_publish h now subject data mid s =
     (case window_publish now subject data mid (window_stream.truncate s) of
        (r, s') \<Rightarrow>
          (r, window_stream.extend s' \<lparr>stream_heads = stream_heads s @
                (if length (stream_entries s') > length (stream_entries s) then [(mid, h)] else [])\<rparr>))"

interpretation headed: headed_stream headed_window_publish window_publish window_stream.truncate stream_heads
proof
  fix h now subject data mid
  show "strips window_stream.truncate (headed_window_publish h now subject data mid) (window_publish now subject data mid)"
    by (auto simp: strips_def headed_window_publish_def window_stream.defs split: prod.splits)
  fix s
  show "stream_heads (snd (headed_window_publish h now subject data mid s)) = stream_heads s
      \<or> stream_heads (snd (headed_window_publish h now subject data mid s)) = stream_heads s @ [(mid, h)]"
    by (auto simp: headed_window_publish_def window_stream.defs split: prod.splits)
qed

section \<open>The consumers\<close>

text \<open>A message as it arrives: its headers and its bytes. The words of \<open>encoding/json\<close>'s error are its own.\<close>

definition traced_fanout ::
  "'c propagator \<Rightarrow> 'c starter \<Rightarrow> 'c \<Rightarrow> 'w deliver_func \<Rightarrow> headers \<times> wire \<Rightarrow> broker \<times> 'w \<Rightarrow> 'c span list
     \<Rightarrow> (broker \<times> 'w) \<times> 'c span list" where
  "traced_fanout p start ctx deliver msg bw spans =
     (case (msg, bw) of ((hdrs, data), (b, w)) \<Rightarrow>
       let s = start_span start spans (extract_trace p ctx hdrs) ''fanout.deliver'' Consumer [] in
       (case decode_envelope data of
          None \<Rightarrow> ((b, w), spans @ [end_span (set_failed ''decode envelope'' (record_error [] s))])
        | Some env \<Rightarrow>
            ((b\<lparr>br_fanout_recv := br_fanout_recv b + 1\<rparr>, deliver (env_event env) (env_user_ids env) w),
             spans @ [end_span (set_attributes
               [(''message.id'', A_int (int64 (mc_message_id (env_event env)))),
                (''conversation.id'', A_int (int64 (mc_conversation_id (env_event env)))),
                (''message.seq'', A_int (int64 (mc_seq (env_event env)))),
                (''message.published_by'', A_str (env_from env)),
                (''message.delivered_by'', A_str (br_node_id b)),
                (''message.recipients'', A_int (int (length (env_user_ids env))))] s)])))"

definition traced_dead_letter ::
  "'w dlq_publish \<Rightarrow> time \<Rightarrow> nat \<Rightarrow> string \<Rightarrow> wire \<Rightarrow> broker \<times> 'w \<Rightarrow> 'c span \<Rightarrow> (verdict \<times> broker \<times> 'w) \<times> 'c span" where
  "traced_dead_letter dlq now tries reason data bw s =
     (dead_letter dlq now tries reason data bw,
      set_failed (''dead lettered: '' @ reason)
        (add_event ''dead_letter'' [(''reason'', A_str reason), (''messaging.destination'', A_str dead_subject)] s))"

definition traced_unread ::
  "'c propagator \<Rightarrow> 'c starter \<Rightarrow> 'c \<Rightarrow> 'w apply_func \<Rightarrow> 'w dlq_publish \<Rightarrow> time \<Rightarrow> bool \<Rightarrow> nat option
     \<Rightarrow> headers \<times> wire \<Rightarrow> broker \<times> 'w \<Rightarrow> 'c span list \<Rightarrow> (verdict \<times> broker \<times> 'w) \<times> 'c span" where
  "traced_unread p start ctx work dlq now ack_ok meta msg bw spans =
     (case (msg, bw) of ((hdrs, data), (b, w)) \<Rightarrow>
       let s = start_span start spans (extract_trace p ctx hdrs) ''unread.apply'' Consumer
                 [(''messaging.consumer.group'', A_str unread_durable)];
           run = (case meta of
             None \<Rightarrow> ((Term, b, w), s)
           | Some tries \<Rightarrow>
               let s1 = set_attributes [(''messaging.nats.delivered'', A_int (int64 tries))] s;
                   b1 = (if tries > 1 then b\<lparr>br_redelivered := br_redelivered b + 1\<rparr> else b);
                   s2 = (if tries > 1 then add_event ''redelivered'' [] s1 else s1)
               in case decode_envelope data of
                    None \<Rightarrow> traced_dead_letter dlq now tries ''decode envelope: '' data (b1, w) s2
                  | Some env \<Rightarrow>
                      let s3 = set_attributes
                            [(''message.id'', A_int (int64 (mc_message_id (env_event env)))),
                             (''conversation.id'', A_int (int64 (mc_conversation_id (env_event env))))] s2
                      in (case work now (env_event env) w of
                            (Inl err, w1) \<Rightarrow>
                              let s4 = set_failed ''apply unread'' (record_error err s3) in
                              if tries \<ge> max_deliver then traced_dead_letter dlq now tries err data (b1, w1) s4
                              else ((Nak (int tries * second), b1, w1), add_event ''nak'' [] s4)
                          | (Inr _, w1) \<Rightarrow>
                              (if ack_ok then (Acked, b1\<lparr>br_unread_done := br_unread_done b1 + 1\<rparr>, w1)
                               else (AckLost, b1, w1), s3)))
       in (fst run, end_span (snd run)))"

text \<open>One time a message is handed out, with the node's tracer, its context and the spans it has started.\<close>

record 'c traced_attempt = attempt_env +
  at_tracer :: "'c starter"
  at_ctx :: 'c
  at_started :: "'c span list"

fun traced_consume ::
  "'c propagator \<Rightarrow> headers \<times> wire \<Rightarrow> nat \<Rightarrow> 'c traced_attempt list \<Rightarrow> broker \<times> consumer_world
     \<Rightarrow> (fate \<times> broker \<times> consumer_world) \<times> 'c span list" where
  "traced_consume p msg n [] bw =
     ((if n \<ge> cc_max_deliver unread_consumer_config then Abandoned else In_flight, bw), [])"
| "traced_consume p msg n (a # as) bw =
     (if n \<ge> cc_max_deliver unread_consumer_config then ((Abandoned, bw), [])
      else case bw of (b, w) \<Rightarrow>
        (case traced_unread p (at_tracer a) (at_ctx a) consumer_apply (dlq_store (at_dlq a)) (at_time a) (at_ack a)
                (Some (n + 1)) msg (b, w\<lparr>cw_db := (cw_db w)\<lparr>faults := at_faults a\<rparr>\<rparr>) (at_started a) of
           ((v, bw'), s) \<Rightarrow>
             (case v of
                Acked \<Rightarrow> ((Finished, bw'), [s])
              | Term \<Rightarrow> ((Dead_lettered, bw'), [s])
              | _ \<Rightarrow> map_prod id ((#) s) (traced_consume p msg (n + 1) as bw'))))"

section \<open>Spans change nothing\<close>

lemma traced_fanout_plain: "fst (traced_fanout p start ctx deliver (hdrs, data) bw spans) = handle_fanout deliver data bw"
  by (cases bw) (simp add: traced_fanout_def handle_fanout_def Let_def split: option.splits)

lemma traced_unread_plain:
  "fst (traced_unread p start ctx work dlq now ack_ok meta (hdrs, data) bw spans)
     = handle_unread work dlq now ack_ok meta data bw"
  by (cases bw)
    (simp add: traced_unread_def handle_unread_def traced_dead_letter_def Let_def split: option.splits prod.splits sum.splits)

lemma traced_consume_plain:
  "fst (traced_consume p (hdrs, data) n as bw) = consume_message data n (map attempt_env.truncate as) bw"
proof (induction as arbitrary: n bw)
  case (Cons a as)
  obtain b w where bw: "bw = (b, w)" by fastforce
  let ?run = "traced_unread p (at_tracer a) (at_ctx a) consumer_apply (dlq_store (at_dlq a)) (at_time a) (at_ack a)
                (Some (n + 1)) (hdrs, data) (b, w\<lparr>cw_db := (cw_db w)\<lparr>faults := at_faults a\<rparr>\<rparr>) (at_started a)"
  obtain v bw' s where run: "?run = ((v, bw'), s)" by (metis surj_pair)
  with traced_unread_plain [of p "at_tracer a" "at_ctx a"]
  have "handle_unread consumer_apply (dlq_store (at_dlq a)) (at_time a) (at_ack a) (Some (n + 1)) data
      (b, w\<lparr>cw_db := (cw_db w)\<lparr>faults := at_faults a\<rparr>\<rparr>) = (v, bw')" by (metis fst_conv)
  with run Cons.IH show ?case by (cases v) (simp_all add: bw attempt_env.defs)
qed simp

section \<open>Spans tell what happened\<close>

definition delivered_attr :: "nat \<Rightarrow> string \<times> attr" where
  "delivered_attr n = (''messaging.nats.delivered'', A_int (int64 n))"

lemma unread_span:
  assumes "traced_unread p start ctx work dlq now ack_ok (Some n) (hdrs, data) bw spans = ((v, bw'), s)"
  shows "sp_name s = ''unread.apply'' \<and> sp_ended s \<and> sp_parent s = extract_trace p ctx hdrs
    \<and> sp_ctx s = start (length spans) (sp_parent s) ''unread.apply''
    \<and> delivered_attr n \<in> set (sp_attrs s) \<and> (has_event ''redelivered'' s \<longleftrightarrow> n > 1)
    \<and> (v \<in> {Acked, AckLost} \<longleftrightarrow> sp_error s = None) \<and> (v = Term \<longrightarrow> has_event ''dead_letter'' s)
    \<and> (has_event ''nak'' s \<longrightarrow> (\<exists>d. v = Nak d))"
  using assms
  by (cases bw)
    (auto simp: traced_unread_def traced_dead_letter_def dead_letter_def Let_def span_defs has_event_def delivered_attr_def
      split: option.splits prod.splits sum.splits if_splits bool.splits)

lemma fanout_span:
  assumes "traced_fanout p start ctx deliver (hdrs, data) bw spans = (bw', spans')"
  shows "\<exists>s. spans' = spans @ [s] \<and> sp_ended s \<and> sp_parent s = extract_trace p ctx hdrs
    \<and> sp_ctx s = start (length spans) (sp_parent s) ''fanout.deliver''
    \<and> (sp_error s = None \<longleftrightarrow> decode_envelope data \<noteq> None)"
  using assms
  by (cases bw) (auto simp: traced_fanout_def Let_def span_defs split: option.splits)

text \<open>
  A message handed out so many times drew so many spans, the \<open>k\<close>-th saying so, and the last of them
  healthy when the work was done and acknowledged, and marked when the message was given up.
\<close>

lemma consume_spans:
  "traced_consume p (hdrs, data) n as bw = ((fate, bw'), ss) \<Longrightarrow>
     length ss \<le> cc_max_deliver unread_consumer_config - n
     \<and> (\<forall>i < length ss. delivered_attr (n + i + 1) \<in> set (sp_attrs (ss ! i))
          \<and> (has_event ''redelivered'' (ss ! i) \<longleftrightarrow> n + i > 0)
          \<and> sp_ended (ss ! i) \<and> sp_parent (ss ! i) = extract_trace p (at_ctx (as ! i)) hdrs
          \<and> sp_ctx (ss ! i) = at_tracer (as ! i) (length (at_started (as ! i))) (sp_parent (ss ! i)) ''unread.apply'')
     \<and> (fate = Finished \<longrightarrow> ss \<noteq> [] \<and> sp_error (last ss) = None)
     \<and> (fate = Dead_lettered \<longrightarrow> ss \<noteq> [] \<and> has_event ''dead_letter'' (last ss) \<and> sp_error (last ss) \<noteq> None)
     \<and> length ss \<le> length as"
proof (induction as arbitrary: n bw ss)
  case Nil
  then show ?case by (auto split: if_splits)
next
  case (Cons a as)
  show ?case
  proof (cases "n \<ge> cc_max_deliver unread_consumer_config")
    case True
    with Cons.prems show ?thesis by auto
  next
    case False
    obtain b w where bw: "bw = (b, w)" by fastforce
    let ?run = "traced_unread p (at_tracer a) (at_ctx a) consumer_apply (dlq_store (at_dlq a)) (at_time a) (at_ack a)
                (Some (n + 1)) (hdrs, data) (b, w\<lparr>cw_db := (cw_db w)\<lparr>faults := at_faults a\<rparr>\<rparr>) (at_started a)"
    obtain v bw1 s where run: "?run = ((v, bw1), s)" by (metis surj_pair)
    note s = unread_span [OF run]
    show ?thesis
    proof (cases "v = Acked \<or> v = Term")
      case True
      with Cons.prems False run bw have "ss = [s]" "fate = (if v = Acked then Finished else Dead_lettered)" by auto
      with s False True show ?thesis by auto
    next
      case again: False
      then obtain ss' where rest: "traced_consume p (hdrs, data) (n + 1) as bw1 = ((fate, bw'), ss')" "ss = s # ss'"
        using Cons.prems False run bw by (cases v) (auto simp: map_prod_def split: prod.splits)
      note ih = Cons.IH [OF rest(1)]
      have "\<forall>i < length ss. delivered_attr (n + i + 1) \<in> set (sp_attrs (ss ! i))
          \<and> (has_event ''redelivered'' (ss ! i) \<longleftrightarrow> n + i > 0)
          \<and> sp_ended (ss ! i) \<and> sp_parent (ss ! i) = extract_trace p (at_ctx ((a # as) ! i)) hdrs
          \<and> sp_ctx (ss ! i) = at_tracer ((a # as) ! i) (length (at_started ((a # as) ! i))) (sp_parent (ss ! i)) ''unread.apply''"
      proof (intro allI impI)
        fix i assume "i < length ss"
        with ih s show "delivered_attr (n + i + 1) \<in> set (sp_attrs (ss ! i))
          \<and> (has_event ''redelivered'' (ss ! i) \<longleftrightarrow> n + i > 0)
          \<and> sp_ended (ss ! i) \<and> sp_parent (ss ! i) = extract_trace p (at_ctx ((a # as) ! i)) hdrs
          \<and> sp_ctx (ss ! i) = at_tracer ((a # as) ! i) (length (at_started ((a # as) ! i))) (sp_parent (ss ! i)) ''unread.apply''"
          by (cases i) (auto simp: rest(2))
      qed
      with ih False show ?thesis by (auto simp: rest(2))
    qed
  qed
qed

text \<open>
  The span says \<open>dead lettered\<close> before the copy is written. When the copy fails, it says so of a message
  that is not in the dead-letter queue and comes back.
\<close>

lemma failed_copy_reads_as_dead:
  assumes "decode_envelope data = None" "\<And>x. dlq x w = (False, w)"
  shows "\<exists>b' s. traced_unread p start ctx work dlq now ack_ok (Some n) (hdrs, data) (b, w) spans = ((Nak ack_wait, b', w), s)
    \<and> br_dead_lettered b' = br_dead_lettered b
    \<and> has_event ''dead_letter'' s \<and> sp_error s = Some (''dead lettered: '' @ ''decode envelope: '')"
  using assms
  by (auto simp: traced_unread_def traced_dead_letter_def dead_letter_def Let_def span_defs has_event_def)

section \<open>One trace\<close>

text \<open>Whatever reads the headers of a publish starts its span in the publish's trace, directly below it.\<close>

lemma consumer_in_trace:
  assumes "propagator_law p" "keeps_trace p start" "pr_valid p c"
    and "parent = extract_trace p other (inject_trace p c [])"
  shows "same_span p c parent \<and> in_trace p c (start k parent name)"
proof -
  have s: "same_span p c parent" using header_round_trip [OF assms(1,3)] assms(4) by simp
  from same_span_in_trace [OF this assms(3)] have t: "in_trace p c parent" .
  from keeps_traceD [OF assms(2) in_trace_valid [OF t]] t s show ?thesis
    by (blast intro: in_trace_trans)
qed

text \<open>The publish of a row is below the request that wrote it.\<close>

lemma publish_in_trace:
  assumes "propagator_law p" "keeps_trace p start" "pr_valid p c"
    and "o_trace_context row = json_or_nil (inject_carrier p c)" and "row_span p start ctx row s"
  shows "same_span p c (sp_parent s) \<and> in_trace p c (sp_ctx s)"
proof -
  have "row_carrier row = inject_carrier p c"
    using inject_carrier_filled(2) [OF assms(1,3)] by (simp add: row_carrier_def assms(4) json_or_nil_def)
  with assms(5) have s: "sp_parent s = extract_carrier p ctx (inject_carrier p c)"
    "\<exists>k. sp_ctx s = start k (sp_parent s) ''outbox.publish''"
    unfolding row_span_def by (simp, blast)
  from carrier_round_trip [OF assms(1,3), of ctx] have same: "same_span p c (sp_parent s)" by (simp add: s(1))
  from same_span_in_trace [OF this assms(3)] have t: "in_trace p c (sp_parent s)" .
  from s(2) keeps_traceD [OF assms(2) in_trace_valid [OF t]] in_trace_trans [OF t] same show ?thesis by metis
qed

end
