(* ===== verification/Traced_Calls.thy ===== *)
theory Traced_Calls
  imports Spans Presence_Client
begin

text \<open>
  The span around one logical presence call, \<open>call\<close> and \<open>markFailed\<close> of \<open>internal/presence/client.go\<close>:
  the loop of the theory \<open>Presence_Client\<close> once more, with what it says of itself. \<open>words\<close> is
  \<open>err.Error()\<close>.
\<close>

definition mark_failed :: "(presence_error \<Rightarrow> string) \<Rightarrow> grpc_code \<Rightarrow> 'c span \<Rightarrow> 'c span" where
  "mark_failed words code s =
     set_attributes [(''presence.answered'', A_bool (answered code))]
       (set_failed (words (Status code)) (record_error (words (Status code)) s))"

function traced_attempts ::
  "(presence_error \<Rightarrow> string) \<Rightarrow> (nat \<Rightarrow> 'r rpc_attempt) \<Rightarrow> time \<Rightarrow> bool \<Rightarrow> nat \<Rightarrow> duration
     \<Rightarrow> presence_client \<Rightarrow> 'c span \<Rightarrow> ((presence_error + 'r) \<times> presence_client) \<times> 'c span" where
  "traced_attempts words env deadline parent_done k backoff c s =
     (let a = env k in
      case a_result a of
        Inr x \<Rightarrow> ((Inr x, record_success c), s)
      | Inl code \<Rightarrow>
          if answered code then ((Inl (Status code), record_success c), mark_failed words code s)
          else if \<not> retryable code \<or> k \<ge> max_attempts
            then ((Inl (Status code), record_failure parent_done (a_at a) c), mark_failed words code s)
          else
            let wait = a_jitter a mod backoff in
            if deadline - a_at a \<le> wait
              then ((Inl (Status code), record_failure parent_done (a_at a) c), mark_failed words code s)
            else if a_interrupted a
              then ((Inl (Status code), record_failure parent_done (a_woken a) c), mark_failed words code s)
            else traced_attempts words env deadline parent_done (k + 1) (backoff * 2)
                   (c\<lparr>p_retries := p_retries c + 1\<rparr>)
                   (add_event ''retry'' [(''attempt'', A_int (int (k + 1))),
                                         (''waited_ms'', A_int (whole millisecond wait))] s))"
  by pat_completeness auto
termination
  by (relation "measure (\<lambda>(words, env, deadline, pd, k, backoff, c, s). max_attempts - k)") auto

declare traced_attempts.simps [simp del]

definition traced_call ::
  "'c starter \<Rightarrow> (presence_error \<Rightarrow> string) \<Rightarrow> 'c \<Rightarrow> string \<Rightarrow> time \<Rightarrow> time option \<Rightarrow> duration
     \<Rightarrow> (nat \<Rightarrow> 'r rpc_attempt) \<Rightarrow> bool \<Rightarrow> presence_client \<Rightarrow> 'c span list
     \<Rightarrow> ((presence_error + 'r) \<times> presence_client) \<times> 'c span" where
  "traced_call start words ctx op_name now parent_deadline timeout env parent_done c spans =
     (let s = start_span start spans ctx op_name Internal [];
          run = (case allow now (p_breaker c) of
            (False, b) \<Rightarrow> ((Inl CircuitOpen,
                c\<lparr>p_breaker := b, p_short_circuited := p_short_circuited c + 1\<rparr>),
                set_failed (words CircuitOpen) (add_event ''short_circuited'' [] s))
          | (True, b) \<Rightarrow>
              let deadline = (case parent_deadline of None \<Rightarrow> now + timeout
                              | Some d \<Rightarrow> min d (now + timeout))
              in traced_attempts words env deadline parent_done 1 initial_backoff
                   (c\<lparr>p_breaker := b, p_calls := p_calls c + 1\<rparr>) s)
      in (fst run, end_span (snd run)))"

section \<open>What the span tells\<close>

definition events_named :: "string \<Rightarrow> 'c span \<Rightarrow> nat" where
  "events_named name s = length (filter (\<lambda>e. fst e = name) (sp_events s))"

text \<open>The span of a call that came back: failed or not, who answered, and every retry.\<close>

definition call_told :: "(presence_error + 'r) \<Rightarrow> nat \<Rightarrow> 'c span \<Rightarrow> 'c span \<Rightarrow> bool" where
  "call_told res retries s0 s \<longleftrightarrow> sp_ctx s = sp_ctx s0 \<and> sp_name s = sp_name s0 \<and> sp_parent s = sp_parent s0
     \<and> events_named ''retry'' s = events_named ''retry'' s0 + retries
     \<and> (has_event ''short_circuited'' s \<longleftrightarrow> has_event ''short_circuited'' s0)
     \<and> (case res of
          Inr _ \<Rightarrow> sp_error s = sp_error s0 \<and> sp_attrs s = sp_attrs s0
        | Inl CircuitOpen \<Rightarrow> False
        | Inl (Status code) \<Rightarrow> sp_error s \<noteq> None
            \<and> sp_attrs s = sp_attrs s0 @ [(''presence.answered'', A_bool (answered code))])"

lemma told_marked: "call_told (Inl (Status code)) 0 s (mark_failed words code s)"
  by (simp add: call_told_def mark_failed_def span_defs events_named_def has_event_def)

lemma told_fine: "call_told (Inr x) 0 s s"
  by (simp add: call_told_def)

lemma told_retry: "call_told res n (add_event ''retry'' kvs s) s' \<Longrightarrow> call_told res (Suc n) s s'"
  by (auto simp: call_told_def span_defs events_named_def has_event_def split: sum.splits presence_error.splits)

lemma traced_attempts_tell:
  "traced_attempts words env deadline parent_done k backoff c s = ((res, c'), s') \<Longrightarrow>
     attempt_loop env deadline parent_done k backoff c = (res, c')
     \<and> p_retries c \<le> p_retries c' \<and> call_told res (p_retries c' - p_retries c) s s'"
proof (induction words env deadline parent_done k backoff c s rule: traced_attempts.induct)
  case (1 words env deadline parent_done k backoff c s)
  note run = 1(2) [unfolded traced_attempts.simps [of words env deadline parent_done k backoff c s]]
  show ?case
  proof (cases "a_result (env k)")
    case (Inr x)
    with run show ?thesis
      by (auto simp: attempt_loop.simps [of env deadline parent_done k backoff c] Let_def record_success_def told_fine)
  next
    case (Inl code)
    let ?wait = "a_jitter (env k) mod backoff"
    show ?thesis
    proof (cases "\<not> answered code \<and> retryable code \<and> k < max_attempts
        \<and> \<not> deadline - a_at (env k) \<le> ?wait \<and> \<not> a_interrupted (env k)")
      case True
      let ?c = "c\<lparr>p_retries := p_retries c + 1\<rparr>"
      let ?s = "add_event ''retry'' [(''attempt'', A_int (int (k + 1))), (''waited_ms'', A_int (whole millisecond ?wait))] s"
      from run True Inl have again: "traced_attempts words env deadline parent_done (k + 1) (backoff * 2) ?c ?s = ((res, c'), s')"
        by (auto simp: Let_def)
      from True have first: "\<not> (\<not> retryable code \<or> max_attempts \<le> k)" "\<not> answered code"
        "\<not> deadline - a_at (env k) \<le> ?wait" "\<not> a_interrupted (env k)" by auto
      from 1(1) [OF refl Inl first(2,1) refl first(3,4) again]
      have ih: "attempt_loop env deadline parent_done (k + 1) (backoff * 2) ?c = (res, c')"
        "p_retries ?c \<le> p_retries c'" "call_told res (p_retries c' - p_retries ?c) ?s s'" by auto
      have "attempt_loop env deadline parent_done k backoff c = (res, c')"
        using ih(1) True Inl by (auto simp: attempt_loop.simps [of env deadline parent_done k backoff c] Let_def)
      moreover have "call_told res (p_retries c' - p_retries c) s s'"
        using told_retry [OF ih(3)] ih(2) by (simp add: Suc_diff_Suc)
      ultimately show ?thesis using ih(2) by simp
    next
      case False
      with run Inl have "res = Inl (Status code)" "s' = mark_failed words code s"
        "attempt_loop env deadline parent_done k backoff c = (res, c')" "p_retries c' = p_retries c"
        by (auto simp: attempt_loop.simps [of env deadline parent_done k backoff c] Let_def record_success_def
            record_failure_def split: if_splits)
      with told_marked [of code s words] show ?thesis by simp
    qed
  qed
qed

text \<open>
  The span of a call does not change it, is red exactly when the call failed, says whether the service
  answered exactly when one was asked, and holds one event for each retry.
\<close>

theorem call_span_tells:
  assumes "traced_call start words ctx op_name now pd timeout env gone c spans = ((res, c'), s)"
  shows "presence_call now pd timeout env gone c = (res, c')
    \<and> sp_name s = op_name \<and> sp_parent s = ctx \<and> sp_ctx s = start (length spans) ctx op_name \<and> sp_ended s
    \<and> (sp_error s = None \<longleftrightarrow> (\<exists>x. res = Inr x))
    \<and> (has_event ''short_circuited'' s \<longleftrightarrow> res = Inl CircuitOpen)
    \<and> (\<forall>b. (''presence.answered'', A_bool b) \<in> set (sp_attrs s) \<longleftrightarrow> (\<exists>code. res = Inl (Status code) \<and> b = answered code))
    \<and> p_retries c' = p_retries c + events_named ''retry'' s"
proof (cases "allow now (p_breaker c)")
  case (Pair ok b)
  let ?s0 = "start_span start spans ctx op_name Internal []"
  show ?thesis
  proof (cases ok)
    case False
    with Pair assms show ?thesis
      by (auto simp: traced_call_def presence_call_def Let_def span_defs has_event_def events_named_def)
  next
    case True
    let ?c = "c\<lparr>p_breaker := b, p_calls := p_calls c + 1\<rparr>"
    let ?d = "case pd of None \<Rightarrow> now + timeout | Some d \<Rightarrow> min d (now + timeout)"
    obtain s1 where run: "traced_attempts words env ?d gone 1 initial_backoff ?c ?s0 = ((res, c'), s1)" "s = end_span s1"
      using assms Pair True by (cases "traced_attempts words env ?d gone 1 initial_backoff ?c ?s0")
        (auto simp: traced_call_def Let_def)
    from traced_attempts_tell [OF run(1)]
    have t: "attempt_loop env ?d gone 1 initial_backoff ?c = (res, c')" "p_retries c \<le> p_retries c'"
      "call_told res (p_retries c' - p_retries c) ?s0 s1" by auto
    from t(1) Pair True have "presence_call now pd timeout env gone c = (res, c')"
      by (simp add: presence_call_def)
    with t(2,3) run(2) show ?thesis
      by (auto simp: call_told_def span_defs has_event_def events_named_def split: sum.splits presence_error.splits)
  qed
qed

text \<open>
  A heartbeat starts on a timer, with nothing above it: with the sampler of this program its span, and
  so everything below it, is not kept. A call on behalf of a kept request is kept.
\<close>

lemma heartbeat_not_kept:
  assumes "sdk_law p inner base start" and "\<not> pr_valid p ctx"
  shows "\<not> pr_sampled p (start n ctx ''presence.Heartbeat'')"
proof -
  let ?c = "start n ctx ''presence.Heartbeat''"
  from assms(1) have "pr_sampled p ?c \<longleftrightarrow>
      sampler (inner (pr_trace p ?c)) base (parent_decision p ctx) ''presence.Heartbeat'' = Record_And_Sample"
    unfolding sdk_law_def Let_def by blast
  with assms(2) show ?thesis
    by (simp add: sampler_def parent_decision_def should_sample_def drop_root_spans_def)
qed

end
