(* ===== verification/W3c_Trace.thy ===== *)
theory W3c_Trace
  imports Spans
begin

text \<open>
  The \<open>traceparent\<close> header of the W3C recommendation, as a propagator, and a tracer beside it: an
  instance of everything the theorems about traces ask of the libraries.
\<close>

record trace_context =
  tc_trace :: "128 word"
  tc_span :: "64 word"
  tc_flag :: bool

fun hex_number :: "string \<Rightarrow> nat" where
  "hex_number s = foldl (\<lambda>n c. n * 16 + (case hex_val c of None \<Rightarrow> 0 | Some d \<Rightarrow> d)) 0 s"

lemma hex_digits_length [simp]: "length (hex_digits k n) = k"
  by (induction k arbitrary: n) auto

lemma hex_number_digits: "hex_number (hex_digits k n) = n mod 16 ^ k"
proof (induction k arbitrary: n)
  case (Suc k)
  have "n mod 16 ^ Suc k = n div 16 mod 16 ^ k * 16 + n mod 16"
    by (metis mod_mult2_eq add.commute mult.commute power_Suc)
  with Suc show ?case by (simp add: hex_val_char)
qed simp

definition traceparent :: "trace_context \<Rightarrow> string" where
  "traceparent c = ''00-'' @ hex_digits 32 (unat (tc_trace c)) @ ''-'' @ hex_digits 16 (unat (tc_span c))
     @ (if tc_flag c then ''-01'' else ''-00'')"

definition read_traceparent :: "string \<Rightarrow> trace_context option" where
  "read_traceparent s =
     (if length s \<noteq> 55 then None
      else Some \<lparr>tc_trace = of_nat (hex_number (take 32 (drop 3 s))),
                 tc_span = of_nat (hex_number (take 16 (drop 36 s))), tc_flag = drop 52 s = ''-01''\<rparr>)"

definition w3c :: "trace_context propagator" where
  "w3c = \<lparr>pr_trace = \<lambda>c. unat (tc_trace c), pr_span = \<lambda>c. unat (tc_span c), pr_sampled = tc_flag,
     pr_inject = (\<lambda>c. if tc_trace c = 0 \<or> tc_span c = 0 then [] else [(''traceparent'', traceparent c)]),
     pr_extract = (\<lambda>c get. case read_traceparent (get ''traceparent'') of None \<Rightarrow> c | Some c' \<Rightarrow> c')\<rparr>"

lemma read_back: "read_traceparent (traceparent c) = Some c"
proof -
  have "unat (tc_trace c) < 2 ^ LENGTH(128)" "unat (tc_span c) < 2 ^ LENGTH(64)" by (rule unsigned_less)+
  then have bounds: "unat (tc_trace c) mod 16 ^ 32 = unat (tc_trace c)" "unat (tc_span c) mod 16 ^ 16 = unat (tc_span c)"
    by simp_all
  have "hex_number (hex_digits 32 (unat (tc_trace c))) = unat (tc_trace c)"
    "hex_number (hex_digits 16 (unat (tc_span c))) = unat (tc_span c)"
    by (simp_all only: hex_number_digits bounds)
  then show ?thesis by (simp add: read_traceparent_def traceparent_def del: hex_number.simps)
qed

lemma w3c_law: "propagator_law w3c"
proof -
  have "read_traceparent [] = None" by (simp add: read_traceparent_def)
  then show ?thesis
    by (auto simp: propagator_law_def w3c_def pr_valid_def same_span_def carrier_get_def read_back)
qed

text \<open>A tracer whose \<open>n\<close>-th span is number \<open>n + 1\<close>, and which keeps every trace but those of heartbeats.\<close>

definition count_up :: "nat \<Rightarrow> 'a::len word" where
  "count_up n = (if (of_nat (Suc n) :: 'a word) = 0 then 1 else of_nat (Suc n))"

definition counting_tracer :: "trace_context starter" where
  "counting_tracer n c name =
     (if tc_trace c \<noteq> 0 \<and> tc_span c \<noteq> 0 then c\<lparr>tc_span := count_up n\<rparr>
      else \<lparr>tc_trace = count_up n, tc_span = count_up n, tc_flag = name \<notin> set drop_root_spans\<rparr>)"

lemma count_up_nonzero: "count_up n \<noteq> 0"
  by (simp add: count_up_def)

lemma counting_law: "sdk_law w3c (\<lambda>_ _. Record_And_Sample) Always_Sample counting_tracer"
  by (auto simp: count_up_nonzero sdk_law_def w3c_def counting_tracer_def pr_valid_def parent_decision_def sampler_def
      should_sample_def Let_def unat_eq_zero)

end
