(* ===== verification/Trace_Path.thy ===== *)
theory Trace_Path
  imports Traced_Broker Traced_Calls W3c_Trace Api_Scenario Delivery_Scenario
begin

text \<open>
  The path of one message through four processes, as its trace sees it: the request, the publish, and
  the two consumers. The second half is the run of \<open>Scenario\<close> with a request that brings a trace.
\<close>

section \<open>From the row to the consumers\<close>

text \<open>A span in the trace of \<open>c\<close>, directly below \<open>parent\<close>.\<close>

definition joins :: "'c propagator \<Rightarrow> 'c \<Rightarrow> 'c \<Rightarrow> 'c span \<Rightarrow> bool" where
  "joins p c parent s \<longleftrightarrow> same_span p parent (sp_parent s) \<and> in_trace p c (sp_ctx s)"

lemma joins_trans: "in_trace p b c \<Longrightarrow> joins p c parent s \<Longrightarrow> joins p b parent s"
  by (auto simp: joins_def intro: in_trace_trans)

text \<open>
  A row that carries the request's context is published in the request's trace, directly below the
  request, and so is what is read off its headers on any node.
\<close>

lemma row_published_in_trace:
  assumes "propagator_law p" "keeps_trace p start" "pr_valid p c" "db_reachable (w_db w)"
    and "row \<in> set (outbox (tbl (w_db w)))" "o_trace_context row = json_or_nil (inject_carrier p c)"
    and "traced_drain p start ctx now (db_store fault conn) (traced_publish p headed_window_publish) (r, w) spans
      = ((result, r', w'), spans')"
    and "(msg_id (o_id row), h) \<in> set (stream_heads (bus_stream w'))"
    and "(msg_id (o_id row), h) \<notin> set (stream_heads (bus_stream w))"
  shows "\<exists>pub \<in> set spans'. joins p c c pub \<and> h = inject_trace p (sp_ctx pub) []"
proof -
  have ok: "db_ok (w_db w)" using assms(4) by (rule db_reachable_ok)
  from headed.bus.drain_heads [OF assms(7,8,9)] obtain rows ss where
    rows: "fst (s_fetch (db_store fault conn) (r_batch_size r) w) = Inr rows" "spans' = spans @ ss"
    "headed_by p start ctx rows ss (msg_id (o_id row), h)" by blast
  from rows(3) obtain row' s where row': "row' \<in> set rows" "s \<in> set ss" "row_span p start ctx row' s"
    "o_id row' = o_id row" "h = inject_trace p (sp_ctx s) []" by (auto simp: headed_by_def msg_id_inj)
  from rows(1) obtain d' where "fetch_outbox (r_batch_size r) (w_db w) = (Inr rows, d')"
    by (auto simp: db_store_def on_db_def split: prod.splits)
  from fetch_exact [OF ok this] row'(1) have "row' \<in> set (outbox (tbl (w_db w)))"
    by (auto dest: in_set_takeD)
  moreover have "distinct (map o_id (outbox (tbl (w_db w))))"
    using ok by (simp add: db_ok_def outbox_ok_def sorted_wrt_less_distinct)
  ultimately have "row' = row" using row'(4) assms(5) by (metis distinct_map inj_onD)
  with publish_in_trace [OF assms(1-3,6), of ctx s] row' rows(2) show ?thesis by (auto simp: joins_def)
qed

lemma fanout_in_trace:
  assumes "propagator_law p" "keeps_trace p start" "pr_valid p c"
  shows "joins p c c (last (snd (traced_fanout p start other deliver (inject_trace p c [], data) bw spans)))"
proof -
  obtain bw' spans' where run: "traced_fanout p start other deliver (inject_trace p c [], data) bw spans = (bw', spans')"
    by fastforce
  from fanout_span [OF run] obtain s where "spans' = spans @ [s]" "sp_parent s = extract_trace p other (inject_trace p c [])"
    "sp_ctx s = start (length spans) (sp_parent s) ''fanout.deliver''" by blast
  with consumer_in_trace [OF assms] run show ?thesis by (simp add: joins_def)
qed

lemma unread_in_trace:
  assumes "propagator_law p" "keeps_trace p start" "pr_valid p c"
  shows "joins p c c (snd (traced_unread p start other work dlq now ack_ok (Some n) (inject_trace p c [], data) bw spans))"
proof -
  obtain v bw' s where run:
    "traced_unread p start other work dlq now ack_ok (Some n) (inject_trace p c [], data) bw spans = ((v, bw'), s)"
    by (metis surj_pair)
  from unread_span [OF run] have "sp_parent s = extract_trace p other (inject_trace p c [])"
    "sp_ctx s = start (length spans) (sp_parent s) ''unread.apply''" by auto
  with consumer_in_trace [OF assms] run show ?thesis by (simp add: joins_def)
qed

text \<open>A request that brings a trace goes on in it.\<close>

lemma request_in_trace:
  assumes "keeps_trace p start" "request_span p start gin var full_path rq ctx spans = (c, spans')"
    and "trace_requests rq" "pr_valid p (pr_extract p ctx (rq_header rq))"
  shows "in_trace p (pr_extract p ctx (rq_header rq)) c"
  using assms(2,3) keeps_traceD [OF assms(1,4)]
  by (auto simp: request_span_def start_span_def Let_def split: prod.splits)

section \<open>Ann says hi, traced\<close>

definition hi_context :: trace_context where
  "hi_context = \<lparr>tc_trace = 0xABC, tc_span = 7, tc_flag = True\<rparr>"

definition hi_carrier :: bytes where
  "hi_carrier = inject_carrier w3c (counting_tracer 0 hi_context ''POST'')"

definition traced_row :: outbox_row where
  "traced_row = hi_row\<lparr>o_trace_context := Some hi_carrier\<rparr>"

definition traced_db :: db where
  "traced_db = tea_db 1 [hi_message] [traced_row]"

lemma hi_valid: "pr_valid w3c (counting_tracer 0 hi_context ''POST'')" "pr_valid w3c hi_context"
  by (simp_all add: pr_valid_def w3c_def counting_tracer_def hi_context_def count_up_def)

lemma hi_carrier_filled: "hi_carrier \<noteq> []"
  unfolding hi_carrier_def using w3c_law hi_valid(1) by (rule inject_carrier_filled)

lemma traced_created:
  "create_message 0 1 1 ''ann'' ''hi'' (Some ''k1'') hi_carrier room_open = (Inr (hi_message, True), traced_db)"
proof -
  have "message_row 0 1 1 1 (Some ''k1'') 1 ''hi'' = hi_message" by (simp add: hi_message_def)
  then show ?thesis using hi_carrier_filled
    by (simp add: traced_db_def room_open_eq tea_db_def tea_def room_row_def send_eval short_key
        tea_users_def user_row_def hi_encoded hi_row_def traced_row_def waiting_row_def)
qed

lemma traced_sent:
  "send_message_handler 0 (1, ''ann'') hi_carrier ann_sends room_open =
     (respond 201 (MessageBody (sent_dto hi_message ''ann'')), traced_db)"
proof -
  have "rq_id_param ann_sends = ''1''" by (simp add: ann_sends_def)
  then show ?thesis
    using ann_sends_bound ann_in_room traced_created
    by (simp add: send_message_handler_def in_the_room_def attempt_def reply_def del: One_nat_def)
qed

lemma traced_reachable: "db_reachable traced_db"
proof -
  have "db_step room_open traced_db"
    by (rule db_step.service, rule service_step.create_message, rule traced_created)
  then show ?thesis by (rule db_reachable.step [OF room_reachable])
qed

definition traced_bus :: "headed_window bus_world" where
  "traced_bus = \<lparr>w_db = traced_db, w_lock = None, bus_broker = new_broker ''node-1'',
     bus_stream = \<lparr>stream_entries = [], stream_faults = [], stream_heads = []\<rparr>\<rparr>"

definition hi_publish :: trace_context where
  "hi_publish = counting_tracer 0 (extract_carrier w3c hi_context hi_carrier) ''outbox.publish''"

lemma traced_fetched: "fetch_outbox 100 traced_db = (Inr [traced_row], traced_db)"
  by (simp add: fetch_outbox_def on_ok_def return_def traced_db_def tea_db_def traced_row_def hi_row_def waiting_row_def waiting_def)

lemma traced_members: "list_conversation_member_ids 1 traced_db = (Inr [1, 2], traced_db)"
  by (simp add: list_conversation_member_ids_def on_ok_def return_def traced_db_def tea_db_def member_row_def)

definition published_bus :: "headed_window bus_world" where
  "published_bus = traced_bus\<lparr>bus_broker := (new_broker ''node-1'')\<lparr>br_published := 1\<rparr>,
     bus_stream := \<lparr>stream_entries = [(5, msg_id 1, message_subject 1, hi_wire)], stream_faults = [],
       stream_heads = [(msg_id 1, inject_trace w3c hi_publish [])]\<rparr>\<rparr>"

lemma hi_published:
  "traced_publish w3c headed_window_publish hi_publish 5 1 (event_of hi_message ''ann'') [1, 2] traced_bus
     = (Inr (), published_bus)"
proof -
  have "encode_envelope \<lparr>env_event = event_of hi_message ''ann'', env_user_ids = [1, 2], env_from = ''node-1''\<rparr> = Some hi_wire"
    using hi_wire_encoded by (simp add: hi_envelope_def)
  moreover have "mc_conversation_id (event_of hi_message ''ann'') = 1"
    by (simp add: event_of_def hi_message_def message_row_def)
  ultimately show ?thesis
    by (simp add: traced_publish_def bus_publish_def broker_publish_def traced_bus_def published_bus_def new_broker_def
        headed_window_publish_def window_publish_def window_store_def window_stream.defs)
qed

lemma traced_drained:
  "\<exists>res rl' w' ss'. traced_drain w3c counting_tracer hi_context 5 (db_store NoFault 0)
       (traced_publish w3c headed_window_publish) (tea_relay, traced_bus) [] = ((res, rl', w'), ss')
     \<and> stream_heads (bus_stream w') = [(msg_id 1, inject_trace w3c hi_publish [])]"
proof -
  let ?st = "db_store NoFault 0 :: headed_window bus_world store"
  have fetch: "s_fetch ?st 100 traced_bus = (Inr [traced_row], traced_bus)"
    by (simp add: db_store_def on_db_def traced_bus_def traced_fetched)
  have row: "o_payload traced_row = hi_payload" "o_id traced_row = 1" "row_carrier traced_row = hi_carrier"
    by (simp_all add: traced_row_def hi_row_def waiting_row_def row_carrier_def)
  have members: "s_member_ids ?st 1 traced_bus = (Inr [1, 2], traced_bus)"
    by (simp add: db_store_def on_db_def traced_bus_def traced_members del: One_nat_def)
  have conv: "mc_conversation_id (event_of hi_message ''ann'') = 1"
    by (simp add: event_of_def hi_message_def message_row_def)
  let ?s = "start_publish_span w3c counting_tracer [] hi_context 5 traced_row (event_of hi_message ''ann'')"
  have ctx: "sp_ctx ?s = hi_publish"
    using row(3) by (simp add: start_publish_span_def start_span_def hi_publish_def row_carrier_def)
  have rows: "traced_drain_rows w3c counting_tracer hi_context 5 ?st (traced_publish w3c headed_window_publish)
      [traced_row] [] (tea_relay, traced_bus) [] = (([1], tea_relay, published_bus), [end_span_ok (Suc (Suc 0)) ?s])"
    by (simp add: row hi_decoded Let_def conv members ctx hi_published del: One_nat_def)
  obtain m w3 where mark: "s_mark_published ?st 5 [1] published_bus = (m, w3)" by fastforce
  then have "bus_stream w3 = bus_stream published_bus" by (auto simp: db_store_def on_db_def split: prod.splits)
  then have heads: "stream_heads (bus_stream w3) = [(msg_id 1, inject_trace w3c hi_publish [])]"
    by (simp add: published_bus_def)
  show ?thesis
    by (cases m) (simp_all add: traced_drain_def tea_batch fetch rows mark heads Let_def
        del: One_nat_def traced_drain_rows.simps)
qed

text \<open>The request that brings the trace.\<close>

definition no_context :: trace_context where
  "no_context = \<lparr>tc_trace = 0, tc_span = 0, tc_flag = False\<rparr>"

definition ann_traced :: http_request where
  "ann_traced = ann_sends\<lparr>rq_header := (\<lambda>k. if k = ''traceparent'' then traceparent hi_context else [])\<rparr>"

definition named_post :: "string \<Rightarrow> http_request \<Rightarrow> string \<Rightarrow> string \<times> (string \<times> attr) list" where
  "named_post service rq path = (''POST'', [])"

lemma ann_traced_context: "pr_extract w3c no_context (rq_header ann_traced) = hi_context" "trace_requests ann_traced"
  by (simp_all add: w3c_def ann_traced_def read_back trace_requests_def not_traced_def quiet_when_healthy_def ann_sends_def)

lemma ann_traced_span:
  "\<exists>ss. request_span w3c counting_tracer named_post [] path ann_traced no_context [] = (counting_tracer 0 hi_context ''POST'', ss)"
  by (simp add: request_span_def ann_traced_context named_post_def start_span_def Let_def)

lemma ann_traced_sent:
  "send_message_handler 0 (1, ''ann'') (inject_carrier w3c (counting_tracer 0 hi_context ''POST'')) ann_traced room_open
     = (respond 201 (MessageBody (sent_dto hi_message ''ann'')), traced_db)"
proof -
  have "send_message_handler now who carrier ann_traced = send_message_handler now who carrier ann_sends" for now who carrier
    by (simp add: ann_traced_def send_message_handler_def in_the_room_def fun_eq_iff)
  with traced_sent show ?thesis by (simp add: hi_carrier_def)
qed

end
