(* ===== verification/Db_Rollback.thy ===== *)
theory Db_Rollback
  imports Db_System
begin

text \<open>
  What is left of a database after its migrations: what a legacy database hands on to version 6, that
  an interrupted run can be finished by a later one, and what rolling back and coming up again keeps.
\<close>

section \<open>What is handed on\<close>

text \<open>The people, rooms (id, title, creator), seats (room, user) and lines (id, room, sender, text) of a database.\<close>

fun people :: "schema \<Rightarrow> user list" where
  "people (V0 None) = []"
| "people (V0 (Some s)) = s1_users s"
| "people (V1 s) = s1_users s"
| "people (V2 s) = s2_users s"
| "people (V3 s) = s2_users s"
| "people (V4 s) = s4_users s"
| "people (V5 s) = s4_users s"
| "people (V6 t q) = users t"

definition old_line :: "old_room \<Rightarrow> nat \<times> string \<times> nat" where
  "old_line r = (or_id r, case or_title r of None \<Rightarrow> [] | Some s \<Rightarrow> s, or_user_id r)"

fun rooms_held :: "schema \<Rightarrow> (nat \<times> string \<times> nat) list" where
  "rooms_held (V0 None) = []"
| "rooms_held (V0 (Some s)) = map old_line (s1_rooms s)"
| "rooms_held (V1 s) = map old_line (s1_rooms s)"
| "rooms_held (V2 s) = map (\<lambda>r. (pr_id r, pr_title r, pr_created_by_id r)) (s2_rooms s)"
| "rooms_held (V3 s) = map (\<lambda>r. (pr_id r, pr_title r, pr_created_by_id r)) (s2_rooms s)"
| "rooms_held (V4 s) = map (\<lambda>c. (c_id c, c_title c, c_created_by_id c)) (s4_rooms s)"
| "rooms_held (V5 s) = map (\<lambda>c. (c_id c, c_title c, c_created_by_id c)) (s4_rooms s)"
| "rooms_held (V6 t q) = map (\<lambda>c. (c_id c, c_title c, c_created_by_id c)) (conversations t)"

fun seats :: "schema \<Rightarrow> (nat \<times> nat) list" where
  "seats (V0 None) = []"
| "seats (V0 (Some s)) = map (\<lambda>r. (or_id r, or_user_id r)) (s1_rooms s)"
| "seats (V1 s) = map (\<lambda>r. (or_id r, or_user_id r)) (s1_rooms s)"
| "seats (V2 s) = map (\<lambda>m. (cm_conversation_id m, cm_user_id m)) (s2_members s)"
| "seats (V3 s) = map (\<lambda>m. (cm_conversation_id m, cm_user_id m)) (s2_members s)"
| "seats (V4 s) = map (\<lambda>m. (cm_conversation_id m, cm_user_id m)) (s4_members s)"
| "seats (V5 s) = map (\<lambda>m. (cm_conversation_id m, cm_user_id m)) (s4_members s)"
| "seats (V6 t q) = map (\<lambda>m. (cm_conversation_id m, cm_user_id m)) (members t)"

fun texts :: "schema \<Rightarrow> (nat \<times> nat \<times> string) list" where
  "texts (V0 None) = []"
| "texts (V0 (Some s)) = map (\<lambda>m. (om_id m, om_conversation_id m, om_content m)) (s1_messages s)"
| "texts (V1 s) = map (\<lambda>m. (om_id m, om_conversation_id m, om_content m)) (s1_messages s)"
| "texts (V2 s) = map (\<lambda>m. (pm_id m, pm_conversation_id m, pm_content m)) (s2_messages s)"
| "texts (V3 s) = map (\<lambda>m. (pm_id m, pm_conversation_id m, pm_content m)) (s2_messages s)"
| "texts (V4 s) = map (\<lambda>m. (m_id m, m_conversation_id m, m_content m)) (s4_messages s)"
| "texts (V5 s) = map (\<lambda>m. (m_id m, m_conversation_id m, m_content m)) (s4_messages s)"
| "texts (V6 t q) = map (\<lambda>m. (m_id m, m_conversation_id m, m_content m)) (messages t)"

definition same_content :: "schema \<Rightarrow> schema \<Rightarrow> bool" where
  "same_content s s' \<longleftrightarrow> people s' = people s \<and> rooms_held s' = rooms_held s \<and> seats s' = seats s \<and> texts s' = texts s"

lemma seats_of_owners: "map (\<lambda>m. (cm_conversation_id m, cm_user_id m)) (owner_members now rooms)
    = map (\<lambda>r. (or_id r, or_user_id r)) rooms"
proof -
  have "zip (map cm_conversation_id (owner_members now rooms)) (map cm_user_id (owner_members now rooms))
      = zip (map or_id rooms) (map or_user_id rooms)" by (simp only: owner_members_rooms)
  then show ?thesis by (simp add: zip_map_map zip_same_conv_map o_def)
qed

lemma step_up_content: "step_up now s = Inr s' \<Longrightarrow> same_content s s'"
  by (cases "(now, s)" rule: step_up.cases)
    (auto simp: same_content_def up1_def up2_def up3_def up4_def up5_def up6_def Let_def schema2.defs schema4.defs
      seats_of_owners room_of_old_def old_line_def counted_room_def numbered_def o_def map_sum_def
      split: option.splits if_splits sum.splits)

lemma steps_up_content: "same_content s (snd (steps_up now n s))"
proof (induction n arbitrary: s)
  case (Suc n)
  show ?case
  proof (cases "step_up now s")
    case (Inr s')
    with Suc [of s'] step_up_content [OF Inr] show ?thesis by (simp add: same_content_def)
  qed (simp add: same_content_def)
qed (simp add: same_content_def)

section \<open>A run that was interrupted is finished by the next\<close>

text \<open>Only the second migration looks at the clock.\<close>

lemma step_up_clock: "(\<And>v. s \<noteq> V1 v) \<Longrightarrow> step_up now s = step_up later s"
  by (cases s) auto

lemma all_up_clock: "2 \<le> schema_version s \<Longrightarrow> all_up now s = all_up later s"
proof (induction "latest - schema_version s" arbitrary: s)
  case 0
  then show ?case by (simp add: all_up_def)
next
  case (Suc n)
  then have less: "schema_version s < latest" by simp
  have same: "step_up now s = step_up later s" using Suc(3) by (intro step_up_clock) auto
  show ?case
  proof (cases "step_up later s")
    case (Inr s')
    have v: "schema_version s' = Suc (schema_version s)" by (rule step_up_version [OF Inr less])
    with Suc(2) have "n = latest - schema_version s'" by simp
    from Suc(1) [OF this] v Suc(3) Inr same show ?thesis by (simp add: all_up_step [OF less])
  qed (simp add: all_up_step [OF less] same)
qed

lemma all_up_again:
  "n \<le> latest - schema_version s \<Longrightarrow>
     \<exists>at. all_up later (snd (steps_up now n s)) = all_up at s"
proof (induction n arbitrary: s)
  case (Suc n)
  then have less: "schema_version s < latest" by simp
  show ?case
  proof (cases "step_up now s")
    case (Inr s')
    have v: "schema_version s' = Suc (schema_version s)" by (rule step_up_version [OF Inr less])
    with Suc(2) have "n \<le> latest - schema_version s'" by simp
    from Suc(1) [OF this] obtain at where at: "all_up later (snd (steps_up now n s')) = all_up at s'" by blast
    show ?thesis
    proof (cases "\<exists>w. s = V1 w")
      case True
      with v have "all_up at s' = all_up now s'" by (intro all_up_clock) auto
      with at Inr show ?thesis by (intro exI [of _ now]) (simp add: all_up_step [OF less])
    next
      case False
      with Inr have "step_up at s = Inr s'" using step_up_clock [of s at now] by simp
      with at Inr show ?thesis by (intro exI [of _ at]) (simp add: all_up_step [OF less])
    qed
  qed auto
qed auto

lemma all_up_None: "all_up now s = (None, s') \<Longrightarrow> schema_version s \<le> latest \<Longrightarrow> schema_version s' = latest"
proof (induction "latest - schema_version s" arbitrary: s)
  case 0
  then show ?case by (simp add: all_up_def)
next
  case (Suc n)
  then have less: "schema_version s < latest" by simp
  with Suc(3) obtain s2 where up: "step_up now s = Inr s2" "all_up now s2 = (None, s')"
    by (auto simp: all_up_step split: sum.splits)
  have v: "schema_version s2 = Suc (schema_version s)" by (rule step_up_version [OF up(1) less])
  with Suc(2) have "n = latest - schema_version s2" by simp
  from Suc(1) [OF this up(2)] v less show ?case by simp
qed

lemma schema_version_6: "schema_version s = latest \<Longrightarrow> \<exists>t q. s = V6 t q"
  by (cases s) (simp_all add: latest_def)

lemma schema_version_le [simp]: "schema_version s \<le> latest"
  by (cases s) (simp_all add: latest_def)

section \<open>Back and forward again\<close>

text \<open>The backfill finds the numbers the messages already had, and the counters.\<close>

lemma numbers_found_again:
  assumes "db_ok d"
  shows "map (numbered (map unnumbered (messages (tbl d)))) (map unnumbered (messages (tbl d))) = messages (tbl d)"
    and "map (counted_room (messages (tbl d))) (map uncounted_room (conversations (tbl d))) = conversations (tbl d)"
    and "sorted_wrt (<) (map pm_id (map unnumbered (messages (tbl d))))"
proof -
  let ?ms = "messages (tbl d)" and ?ps = "map unnumbered (messages (tbl d))"
  have ids: "pm_id (unnumbered m) = m_id m" "pm_conversation_id (unnumbered m) = m_conversation_id m" for m
    by (simp_all add: unnumbered_def)
  show sorted: "sorted_wrt (<) (map pm_id ?ps)" using assms by (simp add: db_ok_def messages_ok_def ids o_def)
  have room: "map (\<lambda>m. row_number ?ps (unnumbered m)) (in_room c (tbl d)) = [1..<Suc (length (in_room c (tbl d)))]" for c
    using row_numbers [OF sorted, of c] by (simp add: filter_map o_def ids in_room_def)
  have "numbered ?ps (unnumbered m) = m" if m: "m \<in> set ?ms" for m
  proof -
    from m assms obtain c where c: "c \<in> set (conversations (tbl d))" "c_id c = m_conversation_id m"
      by (auto simp: db_ok_def messages_ok_def)
    with in_room_numbers [OF assms c(1)]
    have n: "map m_seq (in_room (m_conversation_id m) (tbl d)) = [1..<Suc (c_last_seq c)]" by simp
    from arg_cong [OF this, of length] have "c_last_seq c = length (in_room (m_conversation_id m) (tbl d))" by simp
    with n room have "map m_seq (in_room (m_conversation_id m) (tbl d))
        = map (\<lambda>m. row_number ?ps (unnumbered m)) (in_room (m_conversation_id m) (tbl d))" by metis
    with m have "m_seq m = row_number ?ps (unnumbered m)" by (simp add: in_room_def)
    then show ?thesis by (simp add: numbered_def unnumbered_def)
  qed
  then show "map (numbered ?ps) ?ps = ?ms" by (simp add: map_idI)
  have "counted_room ?ms (uncounted_room c) = c" if "c \<in> set (conversations (tbl d))" for c
    using highest_of_numbers [OF in_room_numbers [OF assms that, unfolded in_room_def]]
    by (simp add: counted_room_def uncounted_room_def)
  then show "map (counted_room ?ms) (map uncounted_room (conversations (tbl d))) = conversations (tbl d)"
    by (simp add: map_idI)
qed

lemma up4_down4:
  assumes "db_ok d" and "s4_rooms s = conversations (tbl d)" and "s4_messages s = messages (tbl d)"
  shows "up4 (down4 s) = Inr s"
  using numbers_found_again [OF assms(1)] numbers_distinct [OF numbers_found_again(3) [OF assms(1)]]
  by (simp add: up4_def down4_def Let_def assms(2,3) del: map_map)

definition forget_delivery :: "tables \<Rightarrow> tables" where
  "forget_delivery t = t\<lparr>outbox := [], consumed := [], unread := []\<rparr>"

lemma back_1: "all_up now ((step_down ^^ 1) (V6 t q))
    = (None, V6 (t\<lparr>outbox := map (\<lambda>w. w\<lparr>o_trace_context := None\<rparr>) (outbox t)\<rparr>) q)"
  by (simp add: all_up_step latest_def down6_def up6_def with_trace_def without_trace_def o_def)

lemma back_2: "all_up now ((step_down ^^ 2) (V6 t q)) = (None, V6 (forget_delivery t) (q\<lparr>next_outbox := 1\<rparr>))"
  by (simp add: numeral_2_eq_2 all_up_step latest_def down6_def up6_def down5_def up5_def schema4.defs forget_delivery_def)

lemma back_3:
  assumes "db_ok d"
  shows "all_up now ((step_down ^^ 3) (V6 (tbl d) (seqs d))) = (None, V6 (forget_delivery (tbl d)) ((seqs d)\<lparr>next_outbox := 1\<rparr>))"
proof -
  let ?s = "down5 (down6 (tbl d) (seqs d))"
  have "up4 (down4 ?s) = Inr ?s" using assms by (intro up4_down4) (simp_all add: down5_def down6_def schema4.defs)
  then have "all_up now (V3 (down4 ?s)) = all_up now (V4 ?s)" by (simp add: all_up_step [of "V3 _"] latest_def)
  with back_2 [of now "tbl d" "seqs d"] show ?thesis by (simp add: numeral_3_eq_3 numeral_2_eq_2)
qed

lemma back_4:
  assumes "db_ok d"
  shows "all_up now ((step_down ^^ 4) (V6 (tbl d) (seqs d)))
    = (None, V6 ((forget_delivery (tbl d))\<lparr>tokens := []\<rparr>) ((seqs d)\<lparr>next_outbox := 1, next_token := 1\<rparr>))"
proof -
  let ?s = "down5 (down6 (tbl d) (seqs d))"
  let ?old = "?s\<lparr>s4_tokens := [], s4_next_token := 1\<rparr>"
  have "up3 (down3 (down4 ?s)) = down4 ?old" by (simp add: up3_def down3_def down4_def schema2.defs)
  moreover have "up4 (down4 ?old) = Inr ?old" using assms by (intro up4_down4) (simp_all add: down5_def down6_def schema4.defs)
  ultimately have "all_up now (V2 (down3 (down4 ?s))) = all_up now (V4 ?old)"
    by (simp add: all_up_step [of "V2 _"] all_up_step [of "V3 _"] latest_def)
  also have "all_up now (V4 ?old)
      = (None, V6 ((forget_delivery (tbl d))\<lparr>tokens := []\<rparr>) ((seqs d)\<lparr>next_outbox := 1, next_token := 1\<rparr>))"
    by (simp add: all_up_step latest_def down6_def down5_def up5_def up6_def schema4.defs forget_delivery_def)
  finally show ?thesis by (simp add: eval_nat_numeral)
qed

text \<open>Past the members there is a way forward only for rooms nobody has written in.\<close>

lemma back_5:
  assumes "db_ok d" and "(step_down ^^ 5) (V6 (tbl d) (seqs d)) = s"
  shows "messages (tbl d) \<noteq> [] \<Longrightarrow> steps_up now n s = (if n = 0 then None else Some Null_Value, s) \<and> schema_version s = 1"
    and "messages (tbl d) = [] \<Longrightarrow> \<exists>ms q. map (\<lambda>m. (cm_conversation_id m, cm_user_id m)) ms
          = map (\<lambda>c. (c_id c, c_created_by_id c)) (conversations (tbl d))
        \<and> all_up now s = (None, V6 ((forget_delivery (tbl d))\<lparr>tokens := [], members := ms\<rparr>) q)"
proof -
  let ?s1 = "down2 (down3 (down4 (down5 (down6 (tbl d) (seqs d)))))"
  have s: "s = V1 ?s1" using assms(2) by (simp add: eval_nat_numeral)
  have rooms: "s1_rooms ?s1 = map (old_of_room \<circ> uncounted_room) (conversations (tbl d))"
    by (simp add: down2_def down3_def down4_def down5_def down6_def schema2.defs schema4.defs)
  have texts: "s1_messages ?s1 = map (old_of_message \<circ> unnumbered) (messages (tbl d))"
    by (simp add: down2_def down3_def down4_def down5_def down6_def schema2.defs schema4.defs)
  have "distinct (map or_id (s1_rooms ?s1))" using assms(1)
    by (simp add: rooms db_ok_def rooms_ok_def o_def old_of_room_def uncounted_room_def)
  note owners = owners_distinct [OF this, of now]
  show "messages (tbl d) \<noteq> [] \<Longrightarrow> steps_up now n s = (if n = 0 then None else Some Null_Value, s) \<and> schema_version s = 1"
    using owners texts by (cases n) (simp_all add: s up2_def Let_def)
  assume none: "messages (tbl d) = []"
  let ?ms = "owner_members now (s1_rooms ?s1)"
  have zero: "c_last_seq c = 0" if "c \<in> set (conversations (tbl d))" for c
    using arg_cong [OF in_room_numbers [OF assms(1) that], of length] none by (simp add: in_room_def del: upt_Suc)
  have "counted_room [] (room_of_old (old_of_room (uncounted_room c))) = c" if "c \<in> set (conversations (tbl d))" for c
    using zero [OF that] by (simp add: counted_room_def room_of_old_def old_of_room_def uncounted_room_def highest_seq_def)
  then have again: "map (counted_room []) (map room_of_old (s1_rooms ?s1)) = conversations (tbl d)"
    by (simp add: rooms map_idI)
  have us: "s1_users ?s1 = users (tbl d)"
    by (simp add: down2_def down3_def down4_def down5_def down6_def schema2.defs schema4.defs)
  obtain q where "all_up now s = (None, V6 ((forget_delivery (tbl d))\<lparr>tokens := [], members := ?ms\<rparr>) q)"
    using owners texts none again us
    by (simp add: s all_up_step latest_def up2_def up3_def up4_def up5_def up6_def Let_def schema2.defs schema4.defs
        forget_delivery_def)
  moreover have "map (\<lambda>m. (cm_conversation_id m, cm_user_id m)) ?ms
      = map (\<lambda>c. (c_id c, c_created_by_id c)) (conversations (tbl d))"
    by (simp add: seats_of_owners rooms old_of_room_def uncounted_room_def)
  ultimately show "\<exists>ms q. map (\<lambda>m. (cm_conversation_id m, cm_user_id m)) ms
          = map (\<lambda>c. (c_id c, c_created_by_id c)) (conversations (tbl d))
        \<and> all_up now s = (None, V6 ((forget_delivery (tbl d))\<lparr>tokens := [], members := ms\<rparr>) q)" by blast
qed

end
