(* ===== verification/Migrate_Command.thy ===== *)
theory Migrate_Command
  imports Db_Rollback
begin

text \<open>
  Opening the database (\<open>New\<close> of \<open>internal/database/database.go\<close>), migrating it
  (\<open>internal/database/migrate.go\<close>) and the command \<open>cmd/migrate\<close>. Goose is a library: a provider is a
  record of the four calls the program makes, on whatever state it keeps; \<open>goose_law\<close> is what it
  promises on the schemas of the theory \<open>Db_Migrations\<close>.
\<close>

section \<open>Opening\<close>

text \<open>The six variables are read when the process starts; nothing in them is escaped.\<close>

definition conn_string :: "(string \<Rightarrow> string) \<Rightarrow> string" where
  "conn_string getenv = ''postgres://'' @ getenv ''BLUEPRINT_DB_USERNAME'' @ '':'' @ getenv ''BLUEPRINT_DB_PASSWORD''
     @ ''@'' @ getenv ''BLUEPRINT_DB_HOST'' @ '':'' @ getenv ''BLUEPRINT_DB_PORT'' @ ''/''
     @ getenv ''BLUEPRINT_DB_DATABASE'' @ ''?sslmode=disable&search_path='' @ getenv ''BLUEPRINT_DB_SCHEMA''"

datatype sql_log = Every_Statement | Warnings_Only

definition db_log_level :: "(string \<Rightarrow> string) \<Rightarrow> sql_log" where
  "db_log_level getenv = (if getenv ''APP_ENV'' = ''local'' then Every_Statement else Warnings_Only)"

record pool_limits =
  pl_max_open :: nat
  pl_max_idle :: nat
  pl_lifetime :: duration

definition pool_limits_set :: pool_limits where
  "pool_limits_set = \<lparr>pl_max_open = 25, pl_max_idle = 5, pl_lifetime = 30 * minute\<rparr>"

text \<open>
  \<open>New\<close>: the instance there is, or a new one that is kept. \<open>opener\<close> is \<open>gorm.Open\<close>, \<open>handle\<close> is \<open>db.DB()\<close>;
  an error of either is fatal.
\<close>

definition database_new ::
  "(string \<Rightarrow> sql_log \<Rightarrow> string + 'g) \<Rightarrow> ('g \<Rightarrow> string + 'h) \<Rightarrow> (string \<Rightarrow> string) \<Rightarrow> ('g \<times> pool_limits) option
     \<Rightarrow> (string + 'g \<times> pool_limits) \<times> ('g \<times> pool_limits) option" where
  "database_new opener handle getenv kept =
     (case kept of
        Some i \<Rightarrow> (Inr i, kept)
      | None \<Rightarrow>
          (case opener (conn_string getenv) (db_log_level getenv) of
             Inl e \<Rightarrow> (Inl e, None)
           | Inr g \<Rightarrow>
               (case handle g of
                  Inl e \<Rightarrow> (Inl e, None)
                | Inr h \<Rightarrow> (Inr (g, pool_limits_set), Some (g, pool_limits_set)))))"

text \<open>\<open>PoolStats\<close> and \<open>Close\<close>: an unusable handle reads as zeros, and is an error to close.\<close>

definition read_pool :: "(string + 'h) \<Rightarrow> ('h \<Rightarrow> 'p) \<Rightarrow> 'p \<Rightarrow> 'p" where
  "read_pool handle stats zero = (case handle of Inl e \<Rightarrow> zero | Inr h \<Rightarrow> stats h)"

definition database_close :: "(string + 'h) \<Rightarrow> ('h \<Rightarrow> string option) \<Rightarrow> string option" where
  "database_close handle close = (case handle of Inl e \<Rightarrow> Some e | Inr h \<Rightarrow> close h)"

section \<open>Migrating\<close>

text \<open>The embedded files, the \<open>n\<close>-th of which is version \<open>n\<close>.\<close>

definition migration_files :: "string list" where
  "migration_files = [''00001_init.sql'', ''00002_rooms_and_members.sql'', ''00003_refresh_tokens.sql'',
     ''00004_message_seq.sql'', ''00005_outbox_and_unread.sql'', ''00006_outbox_trace.sql'']"

record status_row =
  sr_path :: string
  sr_state :: string
  sr_applied_at :: time

text \<open>What ran is a path and how long it took, as text.\<close>

record 's goose =
  gs_up :: "'s \<Rightarrow> (string + (string \<times> string) list) \<times> 's"
  gs_down :: "'s \<Rightarrow> (string + string \<times> string) \<times> 's"
  gs_status :: "'s \<Rightarrow> (string + status_row list) \<times> 's"
  gs_version :: "'s \<Rightarrow> (string + int) \<times> 's"

text \<open>What the libraries answer: the handle, a ping, the embedded directory, the locker, and goose.\<close>

record ('h, 'f, 'l, 's) parts =
  gp_handle :: "string + 'h"
  gp_ping :: "'h \<Rightarrow> string option"
  gp_sub :: "string + 'f"
  gp_locker :: "string + 'l"
  gp_make :: "'h \<Rightarrow> 'f \<Rightarrow> 'l \<Rightarrow> string + 's goose"

definition new_provider :: "('h, 'f, 'l, 's) parts \<Rightarrow> string + 's goose" where
  "new_provider p =
     (case gp_handle p of
        Inl e \<Rightarrow> Inl (''get sql db: '' @ e)
      | Inr h \<Rightarrow>
          (case gp_sub p of
             Inl e \<Rightarrow> Inl (''open migrations dir: '' @ e)
           | Inr f \<Rightarrow>
               (case gp_locker p of
                  Inl e \<Rightarrow> Inl (''build migration locker: '' @ e)
                | Inr l \<Rightarrow>
                    (case gp_make p h f l of
                       Inl e \<Rightarrow> Inl (''build migration provider: '' @ e)
                     | Inr g \<Rightarrow> Inr g))))"

text \<open>\<open>Migrate\<close>: an error, or the lines it logs.\<close>

definition migrate :: "('h, 'f, 'l, 's) parts \<Rightarrow> 's \<Rightarrow> (string + string list) \<times> 's" where
  "migrate p s =
     (case gp_handle p of
        Inl e \<Rightarrow> (Inl (''get sql db: '' @ e), s)
      | Inr h \<Rightarrow>
          (case gp_ping p h of
             Some e \<Rightarrow> (Inl (''ping database: '' @ e), s)
           | None \<Rightarrow>
               (case new_provider p of
                  Inl e \<Rightarrow> (Inl e, s)
                | Inr g \<Rightarrow>
                    (case gs_up g s of
                       (Inl e, s') \<Rightarrow> (Inl (''run migrations: '' @ e), s')
                     | (Inr rs, s') \<Rightarrow>
                         (Inr (map (\<lambda>(path, took). ''migration applied: '' @ path @ '' ('' @ took @ '')'') rs), s')))))"

text \<open>\<open>NewMigrator\<close>: \<open>New\<close> always gives the Postgres service.\<close>

definition new_migrator :: "(string + ('h, 'f, 'l, 's) parts) \<Rightarrow> string + 's goose" where
  "new_migrator service =
     (case service of
        Inl _ \<Rightarrow> Inl ''database.New() did not return the Postgres service''
      | Inr p \<Rightarrow> new_provider p)"

section \<open>The command\<close>

text \<open>\<open>%-36s\<close> pads on the right, counting runes.\<close>

definition pad_right :: "nat \<Rightarrow> string \<Rightarrow> string" where
  "pad_right n s = s @ replicate (n - rune_count s) (CHR '' '')"

definition status_line :: "string \<Rightarrow> string \<Rightarrow> string \<Rightarrow> string" where
  "status_line a b c = pad_right 36 a @ '' '' @ pad_right 9 b @ '' '' @ c"

text \<open>Each answers an error or the lines it prints; \<open>text\<close> writes an instant as RFC 3339 in the local zone.\<close>

definition migrate_status :: "(time \<Rightarrow> string) \<Rightarrow> 's goose \<Rightarrow> 's \<Rightarrow> (string + string list) \<times> 's" where
  "migrate_status text_of g s =
     (case gs_status g s of
        (Inl e, s') \<Rightarrow> (Inl e, s')
      | (Inr rows, s') \<Rightarrow>
          (Inr (status_line ''MIGRATION'' ''STATE'' ''APPLIED AT''
             # map (\<lambda>r. status_line (sr_path r) (sr_state r)
                 (if sr_applied_at r = zero_time then ''-'' else text_of (sr_applied_at r))) rows), s'))"

definition migrate_version :: "'s goose \<Rightarrow> 's \<Rightarrow> (string + string list) \<times> 's" where
  "migrate_version g s =
     (case gs_version g s of
        (Inl e, s') \<Rightarrow> (Inl e, s')
      | (Inr v, s') \<Rightarrow> (Inr [''database is at version '' @ format_int v], s'))"

definition migrate_up :: "'s goose \<Rightarrow> 's \<Rightarrow> (string + string list) \<times> 's" where
  "migrate_up g s =
     (case gs_up g s of
        (Inl e, s') \<Rightarrow> (Inl e, s')
      | (Inr rs, s') \<Rightarrow>
          (Inr (if rs = [] then [''nothing to do, the database is already up to date'']
                else map (\<lambda>(path, took). ''applied '' @ path @ '' in '' @ took) rs), s'))"

definition migrate_down :: "'s goose \<Rightarrow> 's \<Rightarrow> (string + string list) \<times> 's" where
  "migrate_down g s =
     (case gs_down g s of
        (Inl e, s') \<Rightarrow> (Inl e, s')
      | (Inr (path, took), s') \<Rightarrow> (Inr [''rolled back '' @ path @ '' in '' @ took], s'))"

record ended =
  e_code :: nat
  e_out :: "string list"
  e_err :: "string list"

text \<open>\<open>main\<close>, given the first argument and what \<open>NewMigrator\<close> answers: the process's exit code and output.\<close>

definition migrate_main :: "(time \<Rightarrow> string) \<Rightarrow> (string + 's goose) \<Rightarrow> string \<Rightarrow> 's \<Rightarrow> ended \<times> 's" where
  "migrate_main text_of provider arg s =
     (let command = (if arg = [] then ''status'' else arg) in
      case provider of
        Inl e \<Rightarrow> (\<lparr>e_code = 1, e_out = [], e_err = [''could not open the database: '' @ e]\<rparr>, s)
      | Inr g \<Rightarrow>
          if command \<notin> {''status'', ''version'', ''up'', ''down''}
          then (\<lparr>e_code = 2, e_out = [], e_err = [''usage: migrate [status|version|up|down]'']\<rparr>, s)
          else
            (case (if command = ''status'' then migrate_status text_of g s
                   else if command = ''version'' then migrate_version g s
                   else if command = ''up'' then migrate_up g s
                   else migrate_down g s) of
               (Inl e, s') \<Rightarrow> (\<lparr>e_code = 1, e_out = [], e_err = [command @ '': '' @ e]\<rparr>, s')
             | (Inr ls, s') \<Rightarrow> (\<lparr>e_code = 0, e_out = ls, e_err = []\<rparr>, s')))"

text \<open>One command after another, with the code each ended with.\<close>

fun run_commands :: "(time \<Rightarrow> string) \<Rightarrow> 's goose \<Rightarrow> string list \<Rightarrow> 's \<Rightarrow> nat list \<times> 's" where
  "run_commands text_of g [] s = ([], s)"
| "run_commands text_of g (arg # args) s =
     (case migrate_main text_of (Inr g) arg s of
        (e, s') \<Rightarrow> map_prod (Cons (e_code e)) id (run_commands text_of g args s'))"

section \<open>What goose promises\<close>

text \<open>
  \<open>Up\<close> applies what is pending in order, each in a transaction, and stops at an error; \<open>Down\<close> undoes one
  version, and may have done so when its answer is lost; the other two look only. \<open>now\<close> is the clock of Postgres.
\<close>

definition goose_law :: "time \<Rightarrow> schema goose \<Rightarrow> bool" where
  "goose_law now g \<longleftrightarrow> (\<forall>s.
     (case gs_up g s of
        (Inr rs, s') \<Rightarrow> all_up now s = (None, s') \<and> map fst rs = drop (schema_version s) migration_files
      | (Inl e, s') \<Rightarrow> \<exists>n \<le> latest - schema_version s. s' = snd (steps_up now n s))
     \<and> (case gs_down g s of
          (Inr r, s') \<Rightarrow> 0 < schema_version s \<and> s' = step_down s \<and> fst r = migration_files ! (schema_version s - 1)
        | (Inl e, s') \<Rightarrow> s' = s \<or> s' = step_down s)
     \<and> snd (gs_status g s) = s \<and> snd (gs_version g s) = s
     \<and> (\<forall>v. fst (gs_version g s) = Inr v \<longrightarrow> v = int (schema_version s)))"

definition parts_law :: "time \<Rightarrow> ('h, 'f, 'l, schema) parts \<Rightarrow> bool" where
  "parts_law now p \<longleftrightarrow> (\<forall>g. new_provider p = Inr g \<longrightarrow> goose_law now g)"

lemma goose_up:
  assumes "goose_law now g" "gs_up g s = (r, s')"
  shows "case r of
      Inr rs \<Rightarrow> all_up now s = (None, s') \<and> map fst rs = drop (schema_version s) migration_files
    | Inl e \<Rightarrow> \<exists>n \<le> latest - schema_version s. s' = snd (steps_up now n s)"
  using spec [OF assms(1) [unfolded goose_law_def], of s] assms(2) by (cases r) simp_all

lemma goose_down:
  assumes "goose_law now g" "gs_down g s = (Inr r, s')"
  shows "0 < schema_version s" "s' = step_down s"
  using spec [OF assms(1) [unfolded goose_law_def], of s] assms(2) by simp_all

lemma run_commands_append:
  "run_commands text_of g (as @ bs) s
     = (case run_commands text_of g as s of (cs, s') \<Rightarrow> map_prod (\<lambda>ds. cs @ ds) id (run_commands text_of g bs s'))"
  by (induction as arbitrary: s) (simp_all add: map_prod_def split: prod.splits)

text \<open>\<open>Migrate\<close> gets some number of migrations done; when it reports no error, all that were pending.\<close>

lemma migrate_effect:
  assumes "parts_law now p" "migrate p s = (r, s')"
  shows "case r of
      Inl e \<Rightarrow> \<exists>n \<le> latest - schema_version s. s' = snd (steps_up now n s)
    | Inr ls \<Rightarrow> all_up now s = (None, s') \<and> length ls = latest - schema_version s"
proof -
  have none: "\<exists>n \<le> latest - schema_version s. s = snd (steps_up now n s)" by (rule exI [of _ 0]) simp
  show ?thesis
  proof (cases "gp_handle p")
    case (Inr h)
    show ?thesis
    proof (cases "gp_ping p h = None \<and> (\<exists>g. new_provider p = Inr g)")
      case True
      then obtain g where g: "new_provider p = Inr g" by blast
      with assms(1) have law: "goose_law now g" by (simp add: parts_law_def)
      obtain a s'' where up: "gs_up g s = (a, s'')" by fastforce
      have len: "length (drop (schema_version s) migration_files) = latest - schema_version s"
        by (simp add: migration_files_def latest_def)
      from goose_up [OF law up] True g up assms(2) Inr len show ?thesis
        by (cases a) (auto simp: migrate_def dest: arg_cong [of _ _ length])
    next
      case False
      with Inr assms(2) none show ?thesis
        by (auto simp: migrate_def split: option.splits sum.splits)
    qed
  qed (use assms(2) none in \<open>auto simp: migrate_def\<close>)
qed

lemma migrate_partial: "parts_law now p \<Longrightarrow> migrate p s = (r, s') \<Longrightarrow> \<exists>n \<le> latest - schema_version s. s' = snd (steps_up now n s)"
  using migrate_effect [of now p s r s'] by (cases r) (auto simp: all_up_def intro!: exI [of _ "latest - schema_version s"])

text \<open>However often it was interrupted, a run that succeeds ends where one run would have.\<close>

lemma migrate_again:
  assumes "parts_law t1 p1" "parts_law t2 p2" "migrate p1 s = (r, s1)" "migrate p2 s1 = (Inr ls, s')"
  obtains at t q where "all_up at s = (None, s')" "s' = V6 t q"
proof -
  from migrate_partial [OF assms(1,3)] obtain n where n: "n \<le> latest - schema_version s" "s1 = snd (steps_up t1 n s)" by blast
  from migrate_effect [OF assms(2,4)] have "all_up t2 s1 = (None, s')" by simp
  with all_up_again [OF n(1), of t2 t1] n(2) obtain at where at: "all_up at s = (None, s')" by metis
  from schema_version_6 [OF all_up_None [OF at]] that [OF at] show thesis by auto
qed

text \<open>A run of the command that ends well has done what its argument says.\<close>

lemma command_down: "goose_law now g \<Longrightarrow> migrate_main text_of (Inr g) ''down'' s = (e, s') \<Longrightarrow> e_code e = 0
    \<Longrightarrow> 0 < schema_version s \<and> s' = step_down s"
  by (auto simp: migrate_main_def migrate_down_def dest: goose_down split: prod.splits sum.splits)

lemma command_up:
  assumes "goose_law now g" "migrate_main text_of (Inr g) ''up'' s = (e, s')"
  shows "e_code e = 0 \<and> all_up now s = (None, s')
    \<or> e_code e = 1 \<and> (\<exists>n \<le> latest - schema_version s. s' = snd (steps_up now n s))"
proof -
  obtain a s'' where up: "gs_up g s = (a, s'')" by fastforce
  with goose_up [OF assms(1) up] assms(2) show ?thesis
    by (cases a) (auto simp: migrate_main_def migrate_up_def)
qed

lemma step_down_version: "schema_version (step_down s) = schema_version s - 1"
  by (cases s) simp_all

lemma commands_down:
  "goose_law now g \<Longrightarrow> run_commands text_of g (replicate k ''down'') s = (replicate k 0, s')
     \<Longrightarrow> k \<le> schema_version s \<and> s' = (step_down ^^ k) s"
proof (induction k arbitrary: s)
  case (Suc k)
  obtain e s1 where e: "migrate_main text_of (Inr g) ''down'' s = (e, s1)" by fastforce
  obtain cs s2 where cs: "run_commands text_of g (replicate k ''down'') s1 = (cs, s2)" by fastforce
  from Suc(3) e cs have z: "e_code e = 0" "cs = replicate k 0" "s2 = s'" by simp_all
  from command_down [OF Suc(2) e z(1)] Suc(1) [OF Suc(2), of s1] cs z show ?case
    by (auto simp: step_down_version funpow_swap1)
qed simp

lemma run_commands_length: "run_commands text_of g args s = (cs, s') \<Longrightarrow> length cs = length args"
  by (induction args arbitrary: s cs) (auto split: prod.splits simp: map_prod_def)

lemma downs_then_up:
  assumes "goose_law now g"
    and "run_commands text_of g (replicate k ''down'' @ [''up'']) s = (replicate k 0 @ [code], s')"
  shows "k \<le> schema_version s
    \<and> (code = 0 \<and> all_up now ((step_down ^^ k) s) = (None, s')
       \<or> code = 1 \<and> (\<exists>n \<le> latest - schema_version ((step_down ^^ k) s). s' = snd (steps_up now n ((step_down ^^ k) s))))"
proof -
  obtain cs s1 where down: "run_commands text_of g (replicate k ''down'') s = (cs, s1)" by fastforce
  obtain e s2 where up: "migrate_main text_of (Inr g) ''up'' s1 = (e, s2)" by fastforce
  from assms(2) down up have "cs @ [e_code e] = replicate k 0 @ [code]" "s2 = s'"
    by (simp_all add: run_commands_append)
  then have cs: "cs = replicate k 0" "e_code e = code" "s2 = s'" by simp_all
  from commands_down [OF assms(1)] down cs have "k \<le> schema_version s" "s1 = (step_down ^^ k) s" by simp_all
  with command_up [OF assms(1) up] cs show ?thesis by simp
qed

section \<open>What adoption gives\<close>

lemma delivery_starts_empty:
  "all_up now s = (None, V6 t q) \<Longrightarrow> schema_version s \<le> 4 \<Longrightarrow> outbox t = [] \<and> consumed t = [] \<and> unread t = []"
proof (induction "4 - schema_version s" arbitrary: s)
  case 0
  then obtain v where "s = V4 v" by (cases s) auto
  with 0 show ?case by (auto simp: all_up_step latest_def up5_def up6_def schema4.defs)
next
  case (Suc n)
  then have less: "schema_version s < latest" by (simp add: latest_def)
  with Suc(3) obtain s2 where up: "step_up now s = Inr s2" "all_up now s2 = (None, V6 t q)"
    by (auto simp: all_up_step split: sum.splits)
  from step_up_version [OF up(1) less] Suc(2) have "n = 4 - schema_version s2" "schema_version s2 \<le> 4" by simp_all
  with Suc(1) up(2) show ?case by simp
qed

lemma legacy_version: "legacy s \<Longrightarrow> schema_version s \<le> 4"
  by (cases s) (simp_all add: legacy_def)

lemma room_counts:
  assumes "db_ok d" "c \<in> set (conversations (tbl d))"
  shows "c_last_seq c = length (in_room (c_id c) (tbl d)) \<and> map m_seq (in_room (c_id c) (tbl d)) = [1..<Suc (c_last_seq c)]"
proof -
  note n = in_room_numbers [OF assms]
  have "length (map m_seq (in_room (c_id c) (tbl d))) = length [1..<Suc (c_last_seq c)]" by (simp only: n)
  then have "c_last_seq c = length (in_room (c_id c) (tbl d))" by (simp del: upt_Suc)
  with n show ?thesis by blast
qed

lemma no_way_from_written_rooms: "all_up now (V1 s) = (None, s') \<Longrightarrow> s1_messages s = []"
  by (auto simp: all_up_step latest_def up2_def Let_def split: if_splits)

section \<open>A goose that always answers\<close>

definition serial_goose :: "time \<Rightarrow> schema goose" where
  "serial_goose now = \<lparr>
     gs_up = \<lambda>s. (case all_up now s of
         (None, s') \<Rightarrow> (Inr (map (\<lambda>f. (f, ''1ms'')) (drop (schema_version s) migration_files)), s')
       | (Some e, s') \<Rightarrow> (Inl ''refused'', s')),
     gs_down = \<lambda>s. (if schema_version s = 0 then (Inl ''no migrations'', s)
         else (Inr (migration_files ! (schema_version s - 1), ''1ms''), step_down s)),
     gs_status = \<lambda>s. (Inr [], s),
     gs_version = \<lambda>s. (Inr (int (schema_version s)), s)\<rparr>"

lemma serial_law: "goose_law now (serial_goose now)"
  unfolding goose_law_def
proof (rule allI, intro conjI, goal_cases)
  case (1 s)
  show ?case
    by (auto simp: serial_goose_def all_up_def o_def split: prod.splits option.splits
        intro!: exI [of _ "latest - schema_version s"])
qed (simp_all add: serial_goose_def)

definition serial_parts :: "time \<Rightarrow> (unit, unit, unit, schema) parts" where
  "serial_parts now = \<lparr>gp_handle = Inr (), gp_ping = \<lambda>_. None, gp_sub = Inr (), gp_locker = Inr (),
     gp_make = \<lambda>_ _ _. Inr (serial_goose now)\<rparr>"

lemma serial_parts_law: "parts_law now (serial_parts now)"
  by (simp add: parts_law_def new_provider_def serial_parts_def serial_law)

lemma serial_migrate: "all_up now s = (None, s') \<Longrightarrow> \<exists>ls. migrate (serial_parts now) s = (Inr ls, s')"
  by (simp add: migrate_def new_provider_def serial_parts_def serial_goose_def)

lemma serial_downs: "k \<le> schema_version s \<Longrightarrow>
    run_commands text_of (serial_goose now) (replicate k ''down'') s = (replicate k 0, (step_down ^^ k) s)"
proof (induction k arbitrary: s)
  case (Suc k)
  then have "schema_version s \<noteq> 0" "k \<le> schema_version (step_down s)" by (simp_all add: step_down_version)
  with Suc(1) [of "step_down s"] show ?case
    by (simp add: migrate_main_def migrate_down_def serial_goose_def [of now] funpow_swap1)
qed simp

lemma serial_refused:
  assumes "k \<le> schema_version s" "all_up now ((step_down ^^ k) s) = (Some e, s')"
  shows "run_commands text_of (serial_goose now) (replicate k ''down'' @ [''up'']) s = (replicate k 0 @ [1], s')"
  using serial_downs [OF assms(1)] assms(2)
  by (simp add: run_commands_append migrate_main_def migrate_up_def) (simp add: serial_goose_def)

text \<open>A database from before the numbers: two rooms, whose messages came in turns.\<close>

definition old_user :: user where
  "old_user = \<lparr>u_id = 1, u_created_at = 0, u_updated_at = 0, u_deleted_at = None, u_username = ''ann'', u_password_hash = ''h''\<rparr>"

definition said_before :: "nat \<Rightarrow> nat \<Rightarrow> string \<Rightarrow> plain_message" where
  "said_before i room what = \<lparr>pm_id = i, pm_created_at = 0, pm_updated_at = 0, pm_deleted_at = None,
     pm_conversation_id = room, pm_sender_id = 1, pm_client_msg_id = None, pm_content = what\<rparr>"

definition room_before :: "nat \<Rightarrow> string \<Rightarrow> plain_room" where
  "room_before i name = \<lparr>pr_id = i, pr_created_at = 0, pr_updated_at = 0, pr_deleted_at = None, pr_title = name,
     pr_created_by_id = 1\<rparr>"

definition unnumbered_db :: schema3 where
  "unnumbered_db = \<lparr>s2_users = [old_user], s2_rooms = [room_before 1 ''one'', room_before 2 ''two''], s2_members = [],
     s2_messages = [said_before 1 1 ''a1'', said_before 2 2 ''b1'', said_before 3 1 ''a2'', said_before 4 2 ''b2'',
       said_before 5 1 ''a3''],
     s2_next_user = 2, s2_next_room = 3, s2_next_member = 1, s2_next_message = 6, s3_tokens = [], s3_next_token = 1\<rparr>"

lemma unnumbered_legacy: "legacy (V3 unnumbered_db)"
  by (simp add: legacy_def legacy3_def legacy2_def people_ok_def unnumbered_db_def old_user_def said_before_def room_before_def)

end
