(* ===== verification/Processes.thy ===== *)
theory Processes
  imports Lifecycle Presenced Migrate_Command
begin

text \<open>
  The two long-running programs from \<open>main\<close> to exit: \<open>cmd/api/main.go\<close>, with the migration of
  \<open>server.New\<close> in it, and \<open>cmd/presenced/main.go\<close>. \<open>os.Exit\<close> ends a process at once, without its deferred calls.
\<close>

section \<open>The API\<close>

definition api_shutdown_timeout :: duration where "api_shutdown_timeout = 10 * second"

text \<open>The database \<open>New\<close> goes on with: what \<open>Migrate\<close> left, or its error.\<close>

definition node_database :: "(string + string list) \<times> schema \<Rightarrow> string + db" where
  "node_database run = (case run of
     (Inl e, _) \<Rightarrow> Inl e
   | (Inr _, V6 t q) \<Rightarrow> Inr \<lparr>tbl = t, seqs = q, faults = []\<rparr>
   | (Inr _, _) \<Rightarrow> Inl ''not at the latest version'')"

text \<open>How the wait for a signal ends: \<open>ListenAndServe\<close> fails first, or a signal comes.\<close>

datatype waited = Listen_Failed string | Signalled

text \<open>\<open>main\<close>: the exit code, and the app if one was left to shut down.\<close>

definition api_main :: "string + app \<Rightarrow> waited \<Rightarrow> (action \<Rightarrow> string option) \<Rightarrow> nat \<times> app option" where
  "api_main made w failed =
     (case made of
        Inl e \<Rightarrow> (1, None)
      | Inr p \<Rightarrow>
          (case w of
             Listen_Failed e \<Rightarrow> (1, Some p)
           | Signalled \<Rightarrow>
               (case shutdown failed p of
                  (Some es, p') \<Rightarrow> (1, Some p')
                | (None, p') \<Rightarrow> (0, Some p'))))"

lemma exit_zero:
  "fst (api_main made w failed) = 0 \<longleftrightarrow> (\<exists>p. made = Inr p) \<and> w = Signalled \<and> (\<forall>a \<in> set reports. failed a = None)"
proof -
  have "fst (api_main (Inr p) Signalled failed) = 0 \<longleftrightarrow> fst (shutdown failed p) = None" for p
    by (auto simp: api_main_def split: prod.split option.split)
  then have "fst (api_main (Inr p) Signalled failed) = 0 \<longleftrightarrow> (\<forall>a \<in> set reports. failed a = None)" for p
    by (simp only: shutdown_errors)
  then show ?thesis by (cases made; cases w) (simp_all add: api_main_def)
qed

lemma exit_zero_closed:
  assumes "api_main made w failed = (0, p)"
  shows "\<exists>p'. p = Some p' \<and> \<not> ap_accepting p' \<and> ap_tasks p' = [] \<and> \<not> ap_db_open p' \<and> \<not> ap_tracing p'"
  using assms shutdown_complete by (fastforce simp: api_main_def split: sum.splits waited.splits option.splits prod.splits)

text \<open>A node that starts on a legacy database starts on a reachable one, whatever went wrong before.\<close>

lemma node_starts_reachable:
  assumes "legacy s" "parts_law t1 p1" "parts_law t2 p2" "migrate p1 s = (r, s1)"
    and "new_app env limits (node_database (migrate p2 s1)) has_broker presence = Inr app"
  shows "db_reachable (nd_db (ap_node app))"
proof -
  obtain a s2 where run: "migrate p2 s1 = (a, s2)" by fastforce
  with assms(5) obtain ls t q where m: "a = Inr ls" "s2 = V6 t q" "nd_db (ap_node app) = \<lparr>tbl = t, seqs = q, faults = []\<rparr>"
    by (auto simp: new_app_def node_database_def new_node_def Let_def split: if_splits sum.splits schema.splits)
  from migrate_again [OF assms(2,3,4)] run m obtain clock where "all_up clock s = (None, V6 t q)" by metis
  with assms(1) m(3) show ?thesis by (simp add: db_reachable.start)
qed

section \<open>The presence service\<close>

text \<open>The listener beside the gRPC port: status and body. \<open>page\<close> is the metrics page.\<close>

definition presence_http :: "string \<Rightarrow> string \<Rightarrow> nat \<times> string" where
  "presence_http page path =
     (if path = ''/metrics'' then (200, page)
      else if path = ''/livez'' then (200, json_text (JObj [(''status'', JStr ''alive'')]))
      else (404, ''404 page not found''))"

record grpc_limits =
  gl_ping_every :: duration
  gl_ping_timeout :: duration
  gl_min_client_ping :: duration
  gl_without_stream :: bool

definition presence_grpc :: grpc_limits where
  "presence_grpc = \<lparr>gl_ping_every = 30 * second, gl_ping_timeout = 10 * second, gl_min_client_ping = 10 * second,
     gl_without_stream = True\<rparr>"

text \<open>
  \<open>main\<close>: \<open>listen\<close> is whether the port can be had, \<open>served\<close> how serving ends, \<open>in_time\<close> whether the calls
  under way end in five seconds. The exit code, and what was done to stop.
\<close>

definition presenced_main :: "(string \<Rightarrow> string) \<Rightarrow> (int \<Rightarrow> bool) \<Rightarrow> waited \<Rightarrow> bool \<Rightarrow> nat \<times> stop_action list" where
  "presenced_main getenv listen served in_time =
     (case port_from_env (getenv ''PRESENCE_PORT'') presence_port of
        None \<Rightarrow> (1, [])
      | Some port \<Rightarrow>
          (case port_from_env (getenv ''PRESENCE_METRICS_PORT'') presence_metrics_port of
             None \<Rightarrow> (1, [])
           | Some metrics_port \<Rightarrow>
               (case open_store (getenv ''REDIS_ADDR'') of
                  None \<Rightarrow> (1, [])
                | Some st \<Rightarrow>
                    if \<not> listen port then (1, [])
                    else (case served of
                            Listen_Failed e \<Rightarrow> (1, [])
                          | Signalled \<Rightarrow> (0, stop_presenced in_time)))))"

text \<open>
  It exits well exactly if it was configured, could listen and was told to stop; only then is the status
  taken back, and that comes before the calls are drained, and the store is closed after them.
\<close>

lemma presenced_exit:
  "fst (presenced_main getenv listen served in_time) = 0 \<longleftrightarrow>
     (\<exists>port. port_from_env (getenv ''PRESENCE_PORT'') presence_port = Some port \<and> listen port)
     \<and> port_from_env (getenv ''PRESENCE_METRICS_PORT'') presence_metrics_port \<noteq> None
     \<and> getenv ''REDIS_ADDR'' \<noteq> [] \<and> served = Signalled"
  by (auto simp: presenced_main_def open_store_def split: option.splits waited.splits)

lemma presenced_stops:
  assumes "presenced_main getenv listen served in_time = (0, done)"
  shows "hd done = Publish_Not_Serving \<and> subseq [Graceful_Stop, Stop_Metrics, Close_Store, Flush_Spans] done
    \<and> (Hard_Stop \<in> set done \<longleftrightarrow> \<not> in_time)"
  using assms by (auto simp: presenced_main_def stop_presenced_def split: option.splits waited.splits if_splits)

text \<open>
  The status taken back can be given again: a check that was under way when the signal came and answers
  yes, with the store just back, publishes \<open>SERVING\<close> after \<open>main\<close> published the opposite.
\<close>

definition take_back :: "watcher \<Rightarrow> watcher" where
  "take_back w = w\<lparr>wt_status := not_serving\<rparr>"

lemma late_check_revives: "\<not> wt_serving w \<Longrightarrow> wt_status (watch_check True (take_back w)) = serving"
  by (simp add: watch_check_def take_back_def)

lemma no_late_check: "watch_check (wt_serving w) (take_back w) = take_back w"
  by (simp add: watch_check_def take_back_def)

end
