(* ===== verification/Spec2Isabelle.thy ===== *)
theory Spec2Isabelle
  imports Unread_Delivery Delivery_Scenario Api_Scenario End_To_End Tracing Presenced Gap_Run Ws_Load Cluster_Check Trace_Check Metrics_Page Check_Run Trace_Path Processes
begin

text \<open>
  \<^bold>\<open>The chat backend, modelled and verified\<close>

  The program is a chat service: nodes that answer HTTP and hold WebSockets, one Postgres database
  they share, a NATS JetStream broker between them, and a presence service on Redis. A message is
  stored together with an outbox row in one transaction; a relay, of which one runs at a time,
  drains the outbox in order; every row goes to the sockets of the room's members and to a consumer
  that counts unread messages. A client that missed something asks for it by sequence number.

  \<^bold>\<open>Theories and what they model\<close>

  \<^item> \<open>Chat_Prelude\<close>, \<open>Go_Strings\<close>, \<open>Go_Time\<close>, \<open>Go_Crypto\<close>, \<open>Json_Text\<close>, \<open>Json_Read\<close>: shared types and
    lemmas, and the parts of Go's standard library the program calls (\<open>strconv\<close>, \<open>strings\<close>, RFC 3339 times,
    base64, SHA-256, \<open>json.Marshal\<close>, and the scanner of \<open>json.Unmarshal\<close> with the proof that it reads
    back what \<open>json.Marshal\<close> writes).
  \<^item> \<open>Event_Json\<close>: \<open>internal/event\<close>, the event in the outbox and on the broker.
  \<^item> \<open>Db_Tables\<close>, \<open>Db_Accounts\<close>, \<open>Db_Rooms\<close>, \<open>Db_Outbox\<close>, \<open>Db_Unread\<close>: \<open>internal/database\<close>. A
    \<open>db\<close> is the tables, the id sequences and a script of faults; an operation is a function from
    a \<open>db\<close> to an error or a value and the next \<open>db\<close>, statement by statement, with transactions that
    roll back tables and not sequences. \<open>Db_Migrations\<close>: the SQL files of \<open>internal/database/migrations\<close>,
    each up and down, on the tables of every version; \<open>Db_Migrated\<close>: they turn a legacy database into one
    that has the invariant \<open>db_ok\<close> (\<open>Db_Invariant\<close>); \<open>Db_Rollback\<close>: what they keep, what going back and
    forth costs. \<open>Db_System\<close> makes a state machine of the operations
    (\<open>db_step\<close>), starting from what the migrations leave, and proves \<open>db_ok\<close> of its reachable states (\<open>db_reachable\<close>);
    \<open>Unread_Delivery\<close> is counting under at-least-once delivery.
  \<^item> \<open>Migrate_Command\<close>: opening the database, \<open>Migrate\<close> and the command \<open>cmd/migrate\<close>, with goose as a
    parameter; \<open>Processes\<close>: \<open>cmd/api\<close> and \<open>cmd/presenced\<close> from \<open>main\<close> to exit.
  \<^item> \<open>Breaker\<close>, \<open>Presence_Store\<close>, \<open>Presence_Service\<close>, \<open>Presence_Client\<close>: \<open>internal/presence\<close>, from
    the circuit breaker to the retries of the client; \<open>Presenced\<close>: the process of
    \<open>cmd/presenced\<close> around it.
  \<^item> \<open>Relay\<close> (\<open>internal/outbox\<close>) against any store and publisher, its contracts the locales
    \<open>relay_world\<close> and \<open>answering_world\<close>; \<open>Relay_Db\<close> gives the database as that store (locale
    \<open>db_publisher\<close>), \<open>Relay_Local\<close> the publisher of a node without broker, \<open>Relay_Run\<close> the election
    of the relay over the advisory lock as a step relation on a cluster.
  \<^item> \<open>Broker\<close>, \<open>Broker_Delivery\<close>: \<open>internal/broker\<close>, publishing, fan-out, and the shared consumer
    with its retries and dead letters; the locale \<open>jetstream\<close> names what is relied on, and
    \<open>windowed\<close> interprets it with a stream that forgets ids.
  \<^item> \<open>Hub\<close>, \<open>Ws_Client\<close>: \<open>internal/ws\<close>. The hub's goroutine as turns on its state, a panic as \<open>None\<close>;
    one socket as the step relation \<open>line_step\<close> of its two pumps, the hub and time.
  \<^item> \<open>Http\<close>, \<open>Auth\<close>, \<open>Rooms_Api\<close>, \<open>Ws_Api\<close>, \<open>Rate_Limit\<close>: the handlers of \<open>internal/server\<close>. A
    handler is a function from the database to a response and the database; \<open>Http\<close> holds requests,
    responses, their JSON, and the validators of the binding tags.
  \<^item> \<open>Server_Node\<close>, \<open>Node_Requests\<close>: routing, middleware, health pages, and \<open>serve\<close>, one request
    through the whole chain on the state of a node. \<open>Lifecycle\<close>: starting, the heartbeat, shutdown.
    \<open>Chat_Spec\<close>: the service without tables, tokens or HTTP, as moves of users on rooms with people
    and a log (\<open>chat_move\<close>); \<open>chat_of\<close> reads it off the database, and \<open>serve\<close> refines it.
    \<open>Valid_Requests\<close>: on a database that answers, a valid login, room or message is taken.
  \<^item> \<open>Tracing\<close>: \<open>internal/tracing\<close> and \<open>internal/logging\<close>, what is sampled, stored, set up and said of the
    process. \<open>Spans\<close>: spans, the request's and the publish's, and headers on the broker (the three
    \<open>trace.go\<close>). \<open>Traced_Relay\<close>, \<open>Traced_Broker\<close>, \<open>Traced_Calls\<close>: the relay's drain, the publish and the
    two consumers, and the presence call, with their spans; the locales \<open>traced_relay\<close> and \<open>headed_stream\<close> relate
    them to the theories without spans. \<open>Trace_Path\<close> follows one message through all of them, \<open>W3c_Trace\<close> is
    a propagator and a tracer that keep the laws. \<open>Seed\<close>: \<open>cmd/seed\<close> on the
    modelled database. \<open>Metrics_Page\<close>: \<open>internal/metrics\<close>, what a node publishes and registers.
  \<^item> \<open>Gap_Client\<close>: how a client catches up, from \<open>cmd/gapcheck\<close>; its locale \<open>gap_source\<close> is the
    contract of the history route, and \<open>room_reader\<close> proves the route keeps it. \<open>Check_Socket\<close>: the
    client's end of a socket, as all check commands have it; on it, the runs of \<open>cmd/gapcheck\<close>
    (\<open>Gap_Run\<close>), \<open>cmd/outboxcheck\<close> (\<open>Outbox_Check\<close>), \<open>cmd/splitcheck\<close> and \<open>cmd/presencecheck\<close>
    (\<open>Cluster_Check\<close>) and \<open>cmd/tracecheck\<close> (\<open>Trace_Check\<close>), with what the deployment answers as
    arguments; and the load tool \<open>cmd/wsload\<close> (\<open>Ws_Load\<close>). \<open>Check_Client\<close>: the REST calls the check
    commands share, signing in, rooms, sends, reading back, dialling; \<open>Check_Run\<close>: the beginnings of
    their runs, and \<open>node_net\<close>, which lets those calls be served by a node of the model.
  \<^item> \<open>End_To_End\<close>: a send, the relay, the local publisher and the hub put together.
  \<^item> \<open>Scenario\<close>, \<open>Delivery_Scenario\<close>, \<open>Api_Scenario\<close>: concrete states and requests for the examples.

  \<^bold>\<open>What the properties say\<close>

  A message that was accepted arrives (C1), messages and the database (C2 to C10; C6 is a client's
  first calls against a whole node), migrations (C11 and C12), presence (C13 to
  C15), the way of a message from the outbox to the sockets and the counters (C16 to C23), requests,
  sessions, limits, sockets and the process (C24 to C36), the tools (C37 and C38), traces (C39 and C40).
  The lemmas behind them come in groups: the effect of every operation on the
  tables under any fault; closure rules, collected in \<open>runs_rules\<close>, \<open>reads_rules\<close> and
  \<open>typed_rules\<close>, that carry a fact from the operations to the handlers; contracts as locales with
  interpretations on this program; invariants of step relations by rule induction.

  \<^bold>\<open>Bounds\<close>

  The only fuel is what the code has itself: \<open>gap_loop\<close> reads at most 100 pages of 100 messages, as
  \<open>fetchGap\<close> does, and C28 proves that this covers any gap under 10000; \<open>send_loop\<close> has the five
  attempts of \<open>send\<close>, \<open>attempt_loop\<close> the three of the presence client, \<open>post_loop\<close> and \<open>dial_loop\<close> the eight of the load tool. A loop of a tool
  that runs while the clock is before a deadline has the number of its rounds as an argument
  (\<open>recover_phase\<close>, \<open>fetch_loop\<close>, \<open>probe_loop\<close>), and every \<open>select\<close> on a socket the list of its outcomes.

  \<^bold>\<open>Idealisations\<close>

  Ids, sequence numbers and counters are natural numbers; where a number crosses JSON or a URL its
  64 bits are a condition or a check. A \<open>float64\<close> is a rational, so rounding, infinities and NaN are
  left out, except in the sampling ratio, where they are values. Every \<open>time.Now\<close> of one request is the same instant; instants are nanoseconds.
  Durations are unbounded except in \<open>Ws_Load\<close>, where a header multiplies them: there they are 64 bit words.
  Transactions are serial. A SQL statement is the function on tables it denotes, with the constraints
  of the migrations; a legacy database holds no rows that were deleted softly, which this program never writes. \<open>ToLower\<close> and \<open>EqualFold\<close> are those of ASCII. Log lines are left out
  except the access log line. The names, labels and readers of all metrics are in \<open>Metrics_Page\<close>; of
  the counters handlers bump, only the request labels and those the code reads back are modelled.

  \<^bold>\<open>Parameters\<close>

  Code outside the repository is an argument: bcrypt and JWT (record \<open>library\<close>, laws \<open>bcrypt_law\<close> and
  \<open>jwt_law\<close>), goose (\<open>goose_law\<close>), JetStream (\<open>jetstream\<close>), the answers of gRPC (\<open>rpc_attempt\<close>), the WebSocket handshake, the
  CORS middleware, OpenTelemetry's propagator (\<open>propagator_law\<close>) and tracer (\<open>sdk_law\<close>), the Prometheus registry (\<open>registry_law\<close>), random
  draws and the clock.

  \<^bold>\<open>Not modelled\<close>

  Generated RPC code, the inside of goose, of the trace exporter and of the log handler, \<open>cmd/web\<close> (the library's
  file server), and in the check commands flags, printing and the HTTP transport itself.
\<close>

section \<open>The promise\<close>

text \<open>
  C1: An accepted message arrives. When a send is answered 201 and the database answers from then
  on, the relay's drains - enough of them for what waits - push the event of that message, in a
  frame that holds the very body the sender was answered, to exactly the members of the room; and
  the turn the hub takes for it puts the frame at the end of the queue of every open socket of
  every one of them, or closes a socket that reads too slowly, and touches no other.
\<close>

theorem accepted_reaches_every_member:
  assumes "db_reachable d" and "send_message_handler now who carrier rq d = (r, w_db w)" and "rs_status r = 201"
    and "faults (w_db w) = []" and "pushed w = []"
    and "length (waiting_rows (tbl (w_db w))) \<le> k * r_batch_size rl"
    and "\<forall>m name. rs_body r = MessageBody (sent_dto m name) \<longrightarrow> event_in_range (event_of m name)"
    and "hub_reachable h" and "h_broadcast h = []" and "\<not> h_done h" and "\<not> h_stopped h"
  shows "\<exists>conv ev us payload h'. parse_uint (rq_id_param rq) = Some conv
    \<and> rs_body r = MessageBody (event_to_message_dto ev)
    \<and> (ev, us) \<in> set (pushed (snd (drain_times (db_store NoFault 0) node_publish k later (rl, w))))
    \<and> fst who \<in> set us \<and> (\<forall>u. u \<in> set us \<longleftrightarrow> is_member (tbl d) conv u)
    \<and> message_frame ev = Some payload \<and> run_once Take (deliver_message coin ev us h) = Some h'
    \<and> (\<forall>c. h_sock h' c = map_option
         (\<lambda>s. if \<not> sk_closed s \<and> is_member (tbl d) conv (sk_user s) then offered payload s else s) (h_sock h c))"
proof -
  have reach: "db_reachable (w_db w)"
    using run_reachable [OF runsD [OF room_handlers_run(5) assms(2)] assms(1)] .
  from assms(2) show ?thesis
  proof (cases rule: send_handler_cases)
    case (created conv c m out)
    let ?ev = "event_of m (snd who)" and ?t = "tbl (w_db w)"
    let ?us = "ids_in (members ?t) conv"
    from created(4) have enc: "encode_event ?ev = Some (o_payload out)" and conv: "mc_conversation_id ?ev = conv"
      and waits: "waiting out"
      by (auto simp: send_rows_def waiting_row_def message_row_def event_of_def waiting_def)
    have range: "event_in_range ?ev" using assms(7) created(6) by simp
    have same: "members ?t = members (tbl d)" "has_member ?t = has_member (tbl d)"
      unfolding created(5) by (simp_all add: sent_def has_member_def fun_eq_iff)
    have "(o_id out, o_payload out) \<in> set (waiting_rows ?t)"
      unfolding created(5) using waits by (simp add: sent_def waiting_rows_def row_key_def)
    from drained_is_pushed [OF reach assms(4,5,6) this decode_encode [OF range enc]]
    have pushed: "(?ev, ?us) \<in> set (pushed (snd (drain_times (db_store NoFault 0) node_publish k later (rl, w))))"
      by (simp add: conv)
    have live: "conv \<in> c_id ` set (live_conversations (tbl d))" using created(2) by (simp add: is_member_def)
    have us: "u \<in> set ?us \<longleftrightarrow> is_member (tbl d) conv u" for u
      using ids_in_members(2) [OF db_reachable_ok [OF reach]] live same by (simp add: is_member_def)
    have sender: "fst who \<in> set ?us" using us created(2) by simp
    obtain payload where payload: "message_frame ?ev = Some payload" "payload \<noteq> []"
      using enc by (rule frame_of_encoded)
    have "?us \<noteq> []" using sender by auto
    from push_reaches_sockets [OF assms(8-11) payload this ids_in_members(1) [OF db_reachable_ok [OF reach]]]
    obtain h' where h': "run_once Take (deliver_message coin ?ev ?us h) = Some h'"
      "\<forall>c. h_sock h' c = map_option
         (\<lambda>s. if \<not> sk_closed s \<and> sk_user s \<in> set ?us then offered payload s else s) (h_sock h c)" by blast
    show ?thesis
      by (rule exI [of _ conv], rule exI [of _ ?ev], rule exI [of _ ?us], rule exI [of _ payload], rule exI [of _ h'])
        (use created(1,6) sent_is_pushed pushed sender us payload h' in simp)
  qed (use assms(3) in auto)
qed

theorem accepted_reaches_every_member_witness:
  "\<exists>ev us h'. (ev, us) \<in> set (pushed (snd (drain_times (db_store NoFault 0) node_publish 1 5 (tea_relay, one_node))))
     \<and> 1 \<in> set us \<and> 2 \<in> set us \<and> 3 \<notin> set us \<and> run_once Take (deliver_message False ev us tea_hub) = Some h'"
proof -
  have r: "rs_status (respond 201 (MessageBody (sent_dto hi_message ''ann''))) = 201"
    "rs_body (respond 201 (MessageBody (sent_dto hi_message ''ann''))) = MessageBody (sent_dto hi_message ''ann'')"
    by simp_all
  have run: "send_message_handler 0 (1, ''ann'') [] ann_sends room_open
      = (respond 201 (MessageBody (sent_dto hi_message ''ann'')), w_db one_node)"
    using ann_sent by (simp add: one_node_def)
  have range: "event_in_range (event_of m name)" if "sent_dto hi_message ''ann'' = sent_dto m name" for m name
    using that by (simp add: event_in_range_def event_of_def sent_dto_def to_message_dto_def Let_def hi_message_def
        message_row_def)
  have quiet: "faults (w_db one_node) = []" "pushed one_node = []" "w_db one_node = one_sent"
    "length (waiting_rows (tbl (w_db one_node))) \<le> 1 * r_batch_size tea_relay"
    by (simp_all add: one_node_def one_sent_eq tea_db_def waiting_rows_def tea_batch)
  have hub: "h_broadcast tea_hub = []" "\<not> h_done tea_hub" "\<not> h_stopped tea_hub"
    by (simp_all add: tea_hub_def add_conn_def hub_add_def new_hub_def sockets_def)
  have in_room: "is_member (tbl room_open) 1 u \<longleftrightarrow> u = 1 \<or> u = 2" for u
    by (auto simp: room_open_eq tea_db_def is_member_def has_member_def live_conversations_def tea_def
        room_row_def member_row_def)
  have one: "parse_uint (rq_id_param ann_sends) = Some 1"
    using parse_format_uint [of 1] by (simp add: ann_sends_def small_numbers)
  from accepted_reaches_every_member [OF room_reachable run r(1) quiet(1,2,4) _ tea_hub_reachable hub,
      of 5 False] range r(2) quiet(3)
  obtain conv ev us h' where "parse_uint (rq_id_param ann_sends) = Some conv"
    "(ev, us) \<in> set (pushed (snd (drain_times (db_store NoFault 0) node_publish 1 5 (tea_relay, one_node))))"
    "\<forall>u. u \<in> set us \<longleftrightarrow> is_member (tbl room_open) conv u" "run_once Take (deliver_message False ev us tea_hub) = Some h'"
    by auto
  with one in_room show ?thesis by (intro exI [of _ ev] exI [of _ us] exI [of _ h']) simp
qed

section \<open>Messages\<close>

text \<open>
  C2: A send is one transaction, and so is opening a room. Whatever statement of a send fails, and
  whether the failure is known or its reply is lost, the tables either stay as they were and no message
  is reported created, or the room's counter, the message and its outbox row are all there: a client
  told of an error may find its message stored, never half stored. And either no row changes and no room
  is answered, or there is a new room with the counter at zero and one membership row for each id the
  request named, the creator first and nobody twice, every one of them a live user.
\<close>

theorem writes_are_all_or_nothing:
  "(case create_message now conv sender name content cid carrier d of (r, d') \<Rightarrow>
     (tbl d' = tbl d \<and> (\<forall>m. r \<noteq> Inr (m, True)))
     \<or> (\<exists>m out. send_rows now conv sender name content cid carrier (tbl d) (seqs d) m out
          \<and> tbl d' = sent conv m out (tbl d)
          \<and> (r = Inr (m, True) \<or> r = Inl (Wrap ''insert message'' (Raw Unavailable)))))
   \<and> (case create_conversation now title creator member_ids d of (r, d') \<Rightarrow>
     (tbl d' = tbl d \<and> (\<forall>room. r \<noteq> Inr room))
     \<or> (\<exists>ids. set ids = insert creator (set member_ids) \<and> distinct ids \<and> hd ids = creator
          \<and> all_live (tbl d) ids \<and> rune_count title \<le> 200
          \<and> tbl d' = built now (room_row now (next_conversation (seqs d)) title creator)
                       (next_member (seqs d)) ids (tbl d)))"
  by (intro conjI; split prod.split, intro allI impI)
    (erule create_message_effect, erule create_conversation_effect)

text \<open>
  C3: In every state the program can reach, under any faults, the messages of a room carry the
  numbers 1, 2, 3 and so on up to the room's counter, in the order of their ids, with no hole and
  no repetition.
\<close>

theorem room_numbers_contiguous:
  assumes "db_reachable d" and "c \<in> set (conversations (tbl d))"
  shows "map m_seq (in_room (c_id c) (tbl d)) = [1..<Suc (c_last_seq c)]
    \<and> sorted_wrt (<) (map m_id (in_room (c_id c) (tbl d)))"
proof
  have ok: "db_ok d" using assms(1) by (rule db_reachable_ok)
  then show "map m_seq (in_room (c_id c) (tbl d)) = [1..<Suc (c_last_seq c)]"
    using assms(2) by (rule in_room_numbers)
  from ok show "sorted_wrt (<) (map m_id (in_room (c_id c) (tbl d)))"
    by (simp add: db_ok_def messages_ok_def in_room_def sorted_wrt_map sorted_wrt_filter)
qed

theorem room_numbers_contiguous_witness:
  "tea 2 \<in> set (conversations (tbl two_sent)) \<and> map m_seq (in_room (c_id (tea 2)) (tbl two_sent)) = [1, 2]"
proof -
  have c: "tea 2 \<in> set (conversations (tbl two_sent))" by (simp add: two_sent_eq tea_db_def)
  from room_numbers_contiguous [OF two_reachable c] c show ?thesis
    by (simp add: tea_def upt_rec)
qed

text \<open>
  C4: A retry of a send with the client's own key, after the first attempt was stored, answers
  with the stored message and \<open>created\<close> false and changes no row: no second message, no number
  used up, no second outbox row.
\<close>

theorem retry_returns_first:
  assumes "db_reachable d" and "faults d = []" and "m \<in> set (messages (tbl d))"
    and "m_client_msg_id m = Some k"
  shows "\<exists>d'. create_message now (m_conversation_id m) (m_sender_id m) name content (Some k) carrier d
      = (Inr (m, False), d') \<and> tbl d' = tbl d"
  using retry_finds_first [OF db_reachable_ok [OF assms(1)] assms(2,3) refl refl assms(4)] by blast

theorem retry_returns_first_witness:
  "\<exists>d'. create_message 5 1 1 ''ann'' ''hi again'' (Some ''k1'') [] two_sent = (Inr (hi_message, False), d')
     \<and> tbl d' = tbl two_sent"
  using retry_returns_first [OF two_reachable, of hi_message "''k1''" 5 "''ann''" "''hi again''" "[]"]
  by (simp add: two_sent_eq tea_db_def hi_message_def message_row_def)

text \<open>
  C5: Both reads of a room are exact. The gap read answers exactly the messages numbered after the
  one the client has, oldest first, as many as fit in the page, none missing in between. The history
  read answers the newest messages of the room first, and with a cursor only those older than it, so
  the next page starts exactly below the last line of this one.
\<close>

theorem reads_are_exact:
  assumes "db_reachable d" and "faults d = []" and "c \<in> set (conversations (tbl d))"
  shows "(\<exists>rows. list_messages_after_seq (c_id c) after limit d = (Inr rows, d)
      \<and> map (m_seq \<circ> fst) rows = [Suc after..<Suc (min (c_last_seq c) (after + limit))])
    \<and> (\<exists>rows. list_messages (c_id c) before limit d = (Inr rows, d)
      \<and> map fst rows = take limit (rev (filter (\<lambda>m. before = 0 \<or> m_id m < before) (in_room (c_id c) (tbl d)))))"
proof
  from list_after_ok [OF assms(2), of "c_id c" "after" limit] obtain rows where
    rows: "list_messages_after_seq (c_id c) after limit d = (Inr rows, d)"
    "map fst rows = gap_page (c_id c) after limit (tbl d)" by blast
  have "map (m_seq \<circ> fst) rows = map m_seq (map fst rows)" by simp
  with rows gap_page_exact [OF db_reachable_ok [OF assms(1)] assms(3)]
  show "\<exists>rows. list_messages_after_seq (c_id c) after limit d = (Inr rows, d)
      \<and> map (m_seq \<circ> fst) rows = [Suc after..<Suc (min (c_last_seq c) (after + limit))]" by metis
next
  have eq: "(\<lambda>m. before > 0 \<longrightarrow> m_id m < before) = (\<lambda>m. before = 0 \<or> m_id m < before)" by auto
  from list_messages_ok [OF assms(2), of "c_id c" before limit]
  show "\<exists>rows. list_messages (c_id c) before limit d = (Inr rows, d)
      \<and> map fst rows = take limit (rev (filter (\<lambda>m. before = 0 \<or> m_id m < before) (in_room (c_id c) (tbl d))))"
    unfolding history_page_exact [OF db_reachable_ok [OF assms(1)], of "c_id c" before limit] eq .
qed

theorem reads_are_exact_witness:
  "(\<exists>rows. list_messages_after_seq 1 1 10 two_sent = (Inr rows, two_sent) \<and> map (m_seq \<circ> fst) rows = [2])
   \<and> (\<exists>rows. list_messages 1 2 10 two_sent = (Inr rows, two_sent) \<and> map fst rows = [hi_message])"
proof -
  have c: "tea 2 \<in> set (conversations (tbl two_sent))" "faults two_sent = []"
    "c_id (tea 2) = 1" "c_last_seq (tea 2) = 2"
    by (simp_all add: two_sent_eq tea_db_def tea_def room_row_def)
  have "take 10 (rev (filter (\<lambda>m. (2::nat) = 0 \<or> m_id m < 2) (in_room 1 (tbl two_sent)))) = [hi_message]"
    by (simp add: two_sent_eq tea_db_def in_room_def hi_message_def yo_message_def message_row_def)
  moreover have "[Suc 1..<Suc (min 2 (1 + 10))] = [2::nat]" by (simp add: upt_rec numeral_2_eq_2)
  ultimately show ?thesis
    using reads_are_exact [OF two_reachable c(2) c(1), of 1 10 2] unfolding c(3,4) by metis
qed





section \<open>Members\<close>

text \<open>
  C8: The gate in front of every room. It lets a user in only when there is a membership row and
  the room is not deleted, refuses them as if the room did not exist only when there is not, and
  on a database that answers it decides exactly that.
\<close>

theorem member_gate:
  "(case ensure_member conv uid d of (r, d') \<Rightarrow> tbl d' = tbl d
      \<and> (r = Inr () \<longrightarrow> is_member (tbl d) conv uid)
      \<and> (r = Inl ErrConversationNotFound \<longrightarrow> \<not> is_member (tbl d) conv uid))
   \<and> (faults d = [] \<longrightarrow>
      fst (ensure_member conv uid d) =
        (if is_member (tbl d) conv uid then Inr () else Inl ErrConversationNotFound))"
proof
  show "case ensure_member conv uid d of (r, d') \<Rightarrow> tbl d' = tbl d
      \<and> (r = Inr () \<longrightarrow> is_member (tbl d) conv uid)
      \<and> (r = Inl ErrConversationNotFound \<longrightarrow> \<not> is_member (tbl d) conv uid)"
    by (split prod.split, intro allI impI conjI)
      (simp_all add: ensure_member_sound readsD [OF room_reads(1)])
qed (simp add: ensure_member_ok)

theorem member_gate_witness:
  "fst (ensure_member 1 2 room_open) = Inr () \<and> fst (ensure_member 1 3 room_open) = Inl ErrConversationNotFound"
proof -
  have "faults room_open = []" "is_member (tbl room_open) 1 2" "\<not> is_member (tbl room_open) 1 3"
    by (simp_all add: room_open_eq tea_db_def is_member_def has_member_def member_row_def
        live_conversations_def tea_def room_row_def)
  with member_gate [where conv = 1 and uid = 2 and d = room_open]
    member_gate [where conv = 1 and uid = 3 and d = room_open] show ?thesis by simp
qed

section \<open>Unread counters\<close>

text \<open>
  C9: Counting is exactly once. Deliver the messages of a history in any order, each as often as
  the broker likes, with any database fault at any attempt: when every message was answered at
  least once, a member's count in a room has grown by the number of distinct messages of that
  room that somebody else sent.
\<close>

theorem unread_exactly_once:
  assumes "db_reachable d" and "has_member (tbl d) conv u"
    and "deliver_all now xs d = (acked, d')"
    and "\<And>i c s n c' s' n'. (i, c, s, n) \<in> fst ` set xs \<Longrightarrow> (i, c', s', n') \<in> fst ` set xs \<Longrightarrow>
      c = c' \<and> s = s'"
    and "\<And>i. i \<in> fst ` fst ` set xs \<Longrightarrow> \<not> is_consumed (tbl d) i"
    and "fst ` fst ` set xs \<subseteq> set acked"
  shows "unread_of (tbl d') conv u = unread_of (tbl d) conv u +
    card {i. \<exists>s n. (i, conv, s, n) \<in> fst ` set xs \<and> s \<noteq> u}"
  using history_exact [OF assms(3,4) db_reachable_ok [OF assms(1)] assms(2,5,6)] .

theorem unread_exactly_once_witness:
  "unread_of (tbl (snd (deliver_all 7
     [((2, 1, 2, 2), []), ((1, 1, 1, 1), [Works, Works, Works, ReplyLost]), ((1, 1, 1, 1), []),
      ((2, 1, 2, 2), [Works, Refused]), ((1, 1, 1, 1), [])] two_sent))) 1 2 = 1"
proof -
  let ?xs = "[((2, 1, 2, 2), []), ((1, 1, 1, 1), [Works, Works, Works, ReplyLost]), ((1, 1, 1, 1), []),
      ((2, 1, 2, 2), [Works, Refused]), ((1, 1, 1, 1), [])] :: (delivery \<times> fault list) list"
  obtain acked d' where run: "deliver_all 7 ?xs two_sent = (acked, d')" by fastforce
  have two: "consumed (tbl two_sent) = []" "unread (tbl two_sent) = []" "faults two_sent = []"
    "members (tbl two_sent) = [member_row 0 1 1 1, member_row 0 2 1 2]"
    by (simp_all add: two_sent_eq tea_db_def)
  have "fst (deliver_all 7 ?xs (tea_db 2 [hi_message, yo_message] [hi_row, yo_row])) = [2, 1, 1]"
    by code_simp
  with run have acked: "acked = [2, 1, 1]" by (simp only: two_sent_eq fst_conv)
  have xs: "fst ` set ?xs = {(2, 1, 2, 2), (1, 1, 1, 1)}" by auto
  have "unread_of (tbl d') 1 2 = unread_of (tbl two_sent) 1 2 +
      card {i. \<exists>s n. (i, 1, s, n) \<in> fst ` set ?xs \<and> s \<noteq> 2}"
    by (rule unread_exactly_once [OF two_reachable _ run], unfold xs)
      (auto simp: two acked has_member_def member_row_def is_consumed_def)
  moreover have "{i. \<exists>s n. (i, 1, s, n) \<in> fst ` set ?xs \<and> s \<noteq> 2} = {1}"
    unfolding xs by auto
  ultimately show ?thesis
    unfolding run by (simp add: two unread_of_def count_in_def)
qed

section \<open>Events and sessions\<close>

text \<open>
  C10: The event survives both journeys. What the send wrote into the outbox row, the relay reads
  back exactly: every id, the sender's name, the text, the optional key and the instant; and what
  the relay publishes, a consumer reads: the event, the members it is for and the node it is from.
\<close>

theorem event_round_trip:
  assumes "event_in_range (env_event e)" and "\<forall>u \<in> set (env_user_ids e). u < 2 ^ 64"
    and "encode_event (env_event e) = Some j" and "encode_envelope e = Some k"
  shows "decode_event j = Inr (env_event e) \<and> decode_envelope (Json k) = Some e"
  using decode_encode [OF assms(1,3)] envelope_round_trip [OF assms(1,2,4)] by simp

theorem event_round_trip_witness:
  "decode_event hi_payload = Inr (event_of hi_message ''ann'') \<and> decode_envelope (Json hi_wire) = Some hi_envelope"
  using event_round_trip [OF _ _ _ hi_wire_encoded] hi_encoded
  by (simp add: hi_envelope_def event_in_range_def event_of_def hi_message_def message_row_def)

section \<open>Migrations\<close>

text \<open>
  C11: A database from before joins the chat. Take one that goose has not seen or that is at a version from
  before messages had numbers, and start nodes on it: whatever stopped the first \<open>Migrate\<close> half way, when a
  later one reports no error the node goes on with a database like any other the program reaches. Every
  user, room with its creator, seat and text is in it, in the same order; the messages of every room are
  numbered from 1 on and its counter stands at the last; nothing waits to be delivered. A run that reported
  no error had applied all that was pending, and the next one does nothing. Only a database whose messages
  have no sender never gets there.
\<close>

theorem old_database_joins:
  assumes "legacy s" and "parts_law t1 p1" and "parts_law t2 p2"
    and "migrate p1 s = (r, s1)" and "migrate p2 s1 = (Inr ls, s')"
  shows "(\<exists>d. node_database (Inr ls, s') = Inr d \<and> s' = V6 (tbl d) (seqs d) \<and> db_reachable d
      \<and> outbox (tbl d) = [] \<and> unread (tbl d) = []
      \<and> (\<forall>c \<in> set (conversations (tbl d)). c_last_seq c = length (in_room (c_id c) (tbl d))
           \<and> map m_seq (in_room (c_id c) (tbl d)) = [1..<Suc (c_last_seq c)]))
    \<and> same_content s s'
    \<and> (\<forall>first. r = Inr first \<longrightarrow> s1 = s' \<and> ls = [] \<and> length first = latest - schema_version s)
    \<and> (\<forall>old. s = V1 old \<longrightarrow> s1_messages old = [])"
proof -
  obtain clock t q where up: "all_up clock s = (None, s')" and s': "s' = V6 t q"
    using migrate_again [OF assms(2-5)] by blast
  let ?d = "\<lparr>tbl = t, seqs = q, faults = []\<rparr>"
  have d: "db_reachable ?d" using db_reachable.start [OF assms(1)] up s' by blast
  have same: "same_content s s'"
    using steps_up_content [of s clock "latest - schema_version s"] up by (simp add: all_up_def)
  have twice: "s1 = s' \<and> ls = [] \<and> length first = latest - schema_version s" if "r = Inr first" for first
  proof -
    from migrate_effect [OF assms(2,4)] that have one: "all_up t1 s = (None, s1)" "length first = latest - schema_version s" by simp_all
    with schema_version_6 [OF all_up_None [OF one(1)]] obtain t' q' where "s1 = V6 t' q'" by auto
    with migrate_effect [OF assms(3,5)] one show ?thesis by (simp add: latest_def)
  qed
  have "node_database (Inr ls, s') = Inr ?d" "s' = V6 (tbl ?d) (seqs ?d)" using s' by (simp_all add: node_database_def)
  moreover have "outbox (tbl ?d) = [] \<and> unread (tbl ?d) = []"
    using delivery_starts_empty [OF up [unfolded s'] legacy_version [OF assms(1)]] by simp
  ultimately have "\<exists>d. node_database (Inr ls, s') = Inr d \<and> s' = V6 (tbl d) (seqs d) \<and> db_reachable d
      \<and> outbox (tbl d) = [] \<and> unread (tbl d) = []
      \<and> (\<forall>c \<in> set (conversations (tbl d)). c_last_seq c = length (in_room (c_id c) (tbl d))
           \<and> map m_seq (in_room (c_id c) (tbl d)) = [1..<Suc (c_last_seq c)])"
    using d room_counts [OF db_reachable_ok [OF d]] by (intro exI [of _ ?d]) blast
  with same twice no_way_from_written_rooms [of clock _ s'] up show ?thesis by blast
qed

theorem old_database_joins_witness:
  "\<exists>ls (d :: db). migrate (serial_parts 7) (V3 unnumbered_db) = (Inr ls, V6 (tbl d) (seqs d)) \<and> length ls = 3
     \<and> map (\<lambda>m. (m_id m, m_conversation_id m, m_content m)) (messages (tbl d))
         = [(1, 1, ''a1''), (2, 2, ''b1''), (3, 1, ''a2''), (4, 2, ''b2''), (5, 1, ''a3'')]"
proof -
  obtain s1 where up: "all_up 7 (V3 unnumbered_db) = (None, s1)"
    using legacy_up4 [of unnumbered_db 7] unnumbered_legacy by (simp add: legacy_def)
  then obtain first where one: "migrate (serial_parts 7) (V3 unnumbered_db) = (Inr first, s1)"
    using serial_migrate by blast
  obtain t q where s1: "s1 = V6 t q" using schema_version_6 [OF all_up_None [OF up schema_version_le]] by blast
  then have "all_up 9 s1 = (None, s1)" by simp
  from serial_migrate [OF this] obtain ls where two: "migrate (serial_parts 9) s1 = (Inr ls, s1)" by blast
  have "length first = 3 \<and> same_content (V3 unnumbered_db) s1"
    using old_database_joins [OF unnumbered_legacy serial_parts_law serial_parts_law one two] by (auto simp: latest_def)
  moreover from this have "texts (V6 t q) = texts (V3 unnumbered_db)" unfolding s1 same_content_def by blast
  then have "map (\<lambda>m. (m_id m, m_conversation_id m, m_content m)) (messages t)
      = [(1, 1, ''a1''), (2, 2, ''b1''), (3, 1, ''a2''), (4, 2, ''b2''), (5, 1, ''a3'')]"
    by (simp add: unnumbered_db_def said_before_def)
  ultimately show ?thesis
    using one s1 by (intro exI [of _ first] exI [of _ "\<lparr>tbl = t, seqs = q, faults = []\<rparr>"]) simp
qed

text \<open>
  C12: What rolling back costs. Run \<open>migrate down\<close> \<open>k\<close> times on any database the program reaches, and \<open>migrate
  up\<close> again. One step back loses the stored traces and nothing else. Two or three lose what waits in the
  outbox, the counters and the marks of counted messages, and the outbox counts its ids from 1 again; the
  messages get back the very numbers they had. Four lose the sessions too. With five there is a way
  forward only if nobody has written anything, and then each room has its creator as the only member: a
  single message, and the database stays at version 1. Six leave an empty database.
\<close>

theorem rolling_back_costs:
  assumes "goose_law now g" and "db_reachable d"
    and "run_commands text_of g (replicate k ''down'' @ [''up'']) (V6 (tbl d) (seqs d)) = (replicate k 0 @ [code], s')"
  shows "k \<le> 6
    \<and> (code = 0 \<and> k = 1 \<longrightarrow> s' = V6 ((tbl d)\<lparr>outbox := map (\<lambda>w. w\<lparr>o_trace_context := None\<rparr>) (outbox (tbl d))\<rparr>) (seqs d))
    \<and> (code = 0 \<and> (k = 2 \<or> k = 3) \<longrightarrow> s' = V6 ((tbl d)\<lparr>outbox := [], consumed := [], unread := []\<rparr>) ((seqs d)\<lparr>next_outbox := 1\<rparr>))
    \<and> (code = 0 \<and> k = 4 \<longrightarrow> s' = V6 ((tbl d)\<lparr>outbox := [], consumed := [], unread := [], tokens := []\<rparr>)
          ((seqs d)\<lparr>next_outbox := 1, next_token := 1\<rparr>))
    \<and> (code = 0 \<and> k = 5 \<longrightarrow> messages (tbl d) = [] \<and> (\<exists>ms q. map (\<lambda>m. (cm_conversation_id m, cm_user_id m)) ms
            = map (\<lambda>c. (c_id c, c_created_by_id c)) (conversations (tbl d))
          \<and> s' = V6 ((tbl d)\<lparr>outbox := [], consumed := [], unread := [], tokens := [], members := ms\<rparr>) q))
    \<and> (k = 5 \<and> messages (tbl d) \<noteq> [] \<longrightarrow> code = 1 \<and> schema_version s' = 1)
    \<and> (code = 0 \<and> k = 6 \<longrightarrow> s' = V6 (tbl fresh_db) (seqs fresh_db))"
proof -
  have ok: "db_ok d" using assms(2) by (rule db_reachable_ok)
  let ?low = "(step_down ^^ k) (V6 (tbl d) (seqs d))"
  note run = downs_then_up [OF assms(1,3)]
  then have k: "k \<le> 6" and well: "code = 0 \<Longrightarrow> all_up now ?low = (None, s')" by auto
  have five: "messages (tbl d) = []" if "code = 0" "k = 5"
  proof (rule ccontr)
    assume "messages (tbl d) \<noteq> []"
    from back_5(1) [OF ok refl this, of now] well [OF that(1)] that(2) show False
      by (auto simp: all_up_def latest_def split: if_splits)
  qed
  have stuck: "code = 1 \<and> schema_version s' = 1" if m: "k = 5" "messages (tbl d) \<noteq> []"
  proof -
    note b = back_5(1) [OF ok refl m(2), of now]
    from run five m obtain n where "code = 1" "s' = snd (steps_up now n ?low)" by blast
    with b [of n] m(1) show ?thesis by simp
  qed
  have six: "?low = V0 None" if "k = 6" by (simp add: that eval_nat_numeral down1_def)
  show ?thesis
  proof (intro conjI impI, goal_cases)
    case 2 then show ?case using well back_1 [of now "tbl d" "seqs d"] by simp
  next
    case 3 then show ?case using well back_2 [of now "tbl d" "seqs d"] back_3 [OF ok, of now] by (auto simp: forget_delivery_def)
  next
    case 4 then show ?case using well back_4 [OF ok, of now] by (simp add: forget_delivery_def)
  next
    case 6 then show ?case using well back_5(2) [OF ok refl, of now] five by (fastforce simp: forget_delivery_def)
  next
    case 9 then show ?case using well six fresh_from_nothing [of now] by simp
  qed (use k five stuck in simp_all)
qed

theorem rolling_back_costs_witness:
  "snd (run_commands (\<lambda>_. []) (serial_goose 7) (replicate 5 ''down'' @ [''up'']) (V6 (tbl two_sent) (seqs two_sent)))
     = (step_down ^^ 5) (V6 (tbl two_sent) (seqs two_sent))
   \<and> schema_version (snd (run_commands (\<lambda>_. []) (serial_goose 7) (replicate 5 ''down'' @ [''up'']) (V6 (tbl two_sent) (seqs two_sent)))) = 1"
proof -
  let ?s = "V6 (tbl two_sent) (seqs two_sent)"
  have said: "messages (tbl two_sent) \<noteq> []" by (simp add: two_sent_eq tea_db_def)
  from back_5(1) [OF db_reachable_ok [OF two_reachable] refl said, of 7 5]
  have stuck: "all_up 7 ((step_down ^^ 5) ?s) = (Some Null_Value, (step_down ^^ 5) ?s)"
    by (simp add: all_up_def latest_def)
  have "run_commands (\<lambda>_. []) (serial_goose 7) (replicate 5 ''down'' @ [''up'']) ?s = (replicate 5 0 @ [1], (step_down ^^ 5) ?s)"
    by (rule serial_refused [OF _ stuck]) simp
  from this rolling_back_costs [OF serial_law two_reachable this] said show ?thesis by simp
qed

section \<open>Presence\<close>



text \<open>
  C14: When the time is up exactly one caller is let through as a probe. However many ask while it
  is out, all the others are refused; its answer closes the circuit with the count back at zero,
  its failure opens it again from that instant. But a probe nobody answers whose caller hangs up is booked
  nowhere, and the breaker waits for it for ever: every later call on this client, at any time and on
  a network that works, is refused.
\<close>

theorem one_probe_at_a_time:
  assumes "b_state (p_breaker c) = Open" and "b_opened_at (p_breaker c) + b_open_for (p_breaker c) \<le> t"
  shows "(case breaker_run (map Ask (t # ts)) (p_breaker c) of (oks, b') \<Rightarrow>
       oks = True # replicate (length ts) False
       \<and> b_state (success b') = Closed \<and> b_failures (success b') = 0 \<and> \<not> b_probing (success b')
       \<and> b_state (failure s b') = Open \<and> b_opened_at (failure s b') = s \<and> \<not> b_probing (failure s b'))
    \<and> (dead env \<longrightarrow> set (fst (run_calls reqs (snd (presence_call t pd timeout env True c)))) \<subseteq> {Inl CircuitOpen})"
  using one_probe [OF assms, of ts] cancelled_probe_sticks [OF assms, of env pd timeout "fst (presence_call t pd timeout env True c)"
      "snd (presence_call t pd timeout env True c)" reqs] by (simp add: success_def failure_def Let_def)

theorem one_probe_at_a_time_witness:
  "fst (breaker_run (map Ask [minute, minute + 1, minute + 2]) (p_breaker (snd (run_calls five_timeouts some_client)))) = [True, False, False]
   \<and> set (fst (run_calls [(hour, None, second, \<lambda>_. silent\<lparr>a_result := Inr ()\<rparr>, False)]
     (snd (presence_call minute None second (\<lambda>_. silent) True (snd (run_calls five_timeouts some_client)))))) \<subseteq> {Inl CircuitOpen}"
proof -
  let ?c = "snd (run_calls five_timeouts some_client)"
  have "b_state (p_breaker ?c) = Open" "b_opened_at (p_breaker ?c) + b_open_for (p_breaker ?c) \<le> minute"
    by code_simp+
  note both = one_probe_at_a_time [OF this, of "[minute + 1, minute + 2]" 0 "\<lambda>_. silent"
      "[(hour, None, second, \<lambda>_. silent\<lparr>a_result := Inr ()\<rparr>, False)]" None second]
  obtain oks b' where run: "breaker_run (map Ask [minute, minute + 1, minute + 2]) (p_breaker ?c) = (oks, b')" by fastforce
  from conjunct1 [OF both] have "oks = [True, False, False]" unfolding run by (simp add: numeral_2_eq_2)
  moreover from conjunct2 [OF both] dead_silent have "set (fst (run_calls [(hour, None, second, \<lambda>_. silent\<lparr>a_result := Inr ()\<rparr>, False)]
     (snd (presence_call minute None second (\<lambda>_. silent) True ?c)))) \<subseteq> {Inl CircuitOpen}" by (rule mp)
  ultimately show ?thesis unfolding run by simp
qed

text \<open>
  C15: Who is online. After any history of heartbeats from any nodes, some of them lost on the way
  and some of them answered too late, the service answers for a list of users exactly those whom a
  beat that reached the store named within the last thirty seconds.
\<close>

theorem online_is_a_recent_beat:
  assumes "sorted (map fst bs)" and "\<And>b. b \<in> set bs \<Longrightarrow> fst b \<le> now"
    and "beats_in_range bs" and "length ids \<le> max_users_per_call"
  shows "fst (service_online Works now ids (run_beats bs \<lparr>zset = [], store_failures = 0\<rparr>)) =
    Inr (filter (seen bs now) ids)"
  using online_is_seen [OF assms(1-3), of ids 0] assms(4)
  by (auto simp: service_online_def split: prod.splits option.splits)

theorem online_is_a_recent_beat_witness:
  "fst (service_online Works (40 * second) [1, 2, 3] (run_beats
     [(0, ''a'', [1, 2], Works), (20 * second, ''b'', [2], ReplyLost), (30 * second, ''a'', [3], Refused)]
     \<lparr>zset = [], store_failures = 0\<rparr>)) = Inr [2]"
proof -
  let ?bs = "[(0, ''a'', [1, 2], Works), (20 * second, ''b'', [2], ReplyLost), (30 * second, ''a'', [3], Refused)] :: beat list"
  have "sorted (map fst ?bs)" "beats_in_range ?bs" "length [1, 2, 3::nat] \<le> max_users_per_call"
    by (simp_all add: beats_in_range_def max_users_per_call_def)
  moreover have "fst b \<le> 40 * second" if "b \<in> set ?bs" for b using that by auto
  ultimately have "fst (service_online Works (40 * second) [1, 2, 3] (run_beats ?bs \<lparr>zset = [], store_failures = 0\<rparr>))
      = Inr (filter (seen ?bs (40 * second)) [1, 2, 3])"
    using online_is_a_recent_beat by blast
  moreover have "filter (seen ?bs (40 * second)) [1, 2, 3] = [2]"
    by (simp add: seen_def unix_def)
  ultimately show ?thesis by simp
qed

section \<open>The relay\<close>



text \<open>
  C17: The queue empties. With a database that answers, a number of drains proportional to the
  backlog leaves nothing waiting.
\<close>

theorem queue_drains:
  assumes "db_good w" and "faults (w_db w) = []" and "length (db_pending w) \<le> k * r_batch_size r"
  shows "db_pending (snd (drain_times (db_store NoFault 0) node_publish k now (r, w))) = []"
  using calm_single.answers.drains_empty_queue [of w k r now] assms by (simp add: db_calm_def)

theorem queue_drains_witness:
  "db_pending (snd (drain_times (db_store NoFault 0) node_publish 1 5 (tea_relay, tea_node))) = []"
  by (rule queue_drains) (use tea_calm in \<open>simp_all add: db_calm_def tea_batch db_pending_def tea_node_def tea_waiting\<close>)



text \<open>
  C19: One relay. As long as no node loses the connection its lock lives on, there is at most one
  node draining, in every interleaving of elections and shutdowns, and the database knows a
  holder. But a relay never looks at its lock again: let the draining node lose that connection and any
  node that is asking ask, and both drain.
\<close>

theorem one_relay:
  assumes "\<And>c. ConnectionLost c \<notin> set es" and "draining (run_cluster es) n"
  shows "(\<forall>m. draining (run_cluster es) m \<longrightarrow> m = n)
    \<and> (\<exists>c. lock_holder (run_cluster es) = Some c
        \<and> (\<forall>m. node_phase (run_cluster es) m = Asking \<longrightarrow> m \<noteq> n
             \<and> draining (run_cluster (es @ [ConnectionLost c, Elect m NoFault])) n
             \<and> draining (run_cluster (es @ [ConnectionLost c, Elect m NoFault])) m))"
proof -
  have ok: "lock_ok (run_cluster es)" using assms(1) by (rule lock_ok_run)
  from assms(2) obtain c where c: "node_phase (run_cluster es) n = Draining c" by (auto simp: draining_def)
  with ok have h: "lock_holder (run_cluster es) = Some c" unfolding lock_ok_def by blast
  have "m = n" if "draining (run_cluster es) m" for m
  proof -
    from that obtain c' where c': "node_phase (run_cluster es) m = Draining c'" by (auto simp: draining_def)
    with ok h have "c' = c" unfolding lock_ok_def by (metis option.inject)
    with ok c c' show ?thesis unfolding lock_ok_def by metis
  qed
  moreover have "run_cluster (es @ [ConnectionLost c, Elect m NoFault])
      = cluster_step (cluster_step (run_cluster es) (ConnectionLost c)) (Elect m NoFault)" for m
    by (simp add: run_cluster_def)
  ultimately show ?thesis using c h by (intro conjI exI [of _ c]) (auto simp: draining_def try_outbox_lock_def)
qed

theorem one_relay_witness:
  "\<not> draining (run_cluster [Elect 1 NoFault, Elect 3 NoAnswer]) 3
   \<and> (\<exists>c. draining (run_cluster [Elect 1 NoFault, Elect 3 NoAnswer, ConnectionLost c, Elect 2 NoFault]) 1
        \<and> draining (run_cluster [Elect 1 NoFault, Elect 3 NoAnswer, ConnectionLost c, Elect 2 NoFault]) 2)"
proof -
  let ?es = "[Elect 1 NoFault, Elect 3 NoAnswer]"
  have d: "draining (run_cluster ?es) 1"
    by (simp add: draining_def run_cluster_def boot_cluster_def try_outbox_lock_def)
  moreover have "node_phase (run_cluster ?es) 2 = Asking"
    by (simp add: run_cluster_def boot_cluster_def try_outbox_lock_def)
  ultimately show ?thesis using one_relay [OF _ d] by fastforce
qed

section \<open>The broker\<close>

text \<open>
  C20: One message on the shared consumer. However often it is handed out and whatever fails, its
  work is done at most once. When the consumer reports it finished, the work is done; when it was
  dead-lettered, the dead-letter stream holds a copy that says why and that it was the fifth try.
\<close>

theorem consumer_accounts:
  assumes "consume_message data 0 as (b, w) = (f, b', w')" and "decode_envelope data = Some env"
  shows "at_most_once (env_event env) (tbl (cw_db w)) (tbl (cw_db w'))
    \<and> (f = Finished \<longrightarrow> is_consumed (tbl (cw_db w')) (mc_message_id (env_event env)))
    \<and> (if f = Dead_lettered
       then \<exists>t reason. cw_dead w' = cw_dead w @ [dead_body b t max_deliver reason data]
       else cw_dead w' = cw_dead w)"
  using consume_message_effect [OF assms] .

theorem consumer_accounts_witness:
  "at_most_once (event_of hi_message ''ann'') (tbl two_sent)
     (tbl (cw_db (snd (snd (consume_message (Json hi_wire) 0 [down True, down True, up]
        (new_broker ''n'', tea_consumer))))))"
proof -
  obtain f b' w' where run: "consume_message (Json hi_wire) 0 [down True, down True, up]
      (new_broker ''n'', tea_consumer) = (f, b', w')" by (metis prod.collapse)
  from consumer_accounts [OF run hi_wire_decoded]
  have "at_most_once (env_event hi_envelope) (tbl (cw_db tea_consumer)) (tbl (cw_db w'))" by (rule conjunct1)
  then show ?thesis unfolding run snd_conv by (simp add: hi_envelope_def tea_consumer_def)
qed

text \<open>
  C21: A message can vanish from the consumer. When the work fails on all five deliveries and the
  copy of the fifth to the dead-letter stream fails too, the message is handed out no more: it is
  not counted, it is not in the dead-letter stream, and nothing that would have worked later is
  ever tried.
\<close>

theorem failed_copy_is_the_end:
  assumes "decode_envelope data = Some env" and "length as \<ge> 5"
    and "\<And>i. i < 5 \<Longrightarrow> cut_off (as ! i)" and "\<not> at_dlq (as ! 4)"
  shows "\<exists>b' w'. consume_message data 0 as (b, w) = (Abandoned, b', w')
      \<and> tbl (cw_db w') = tbl (cw_db w) \<and> cw_dead w' = cw_dead w"
  by (rule consume_abandons [OF _ _ assms(1)]) (use assms(2-4) in \<open>simp_all add: max_deliver_def\<close>)

theorem failed_copy_is_the_end_witness:
  "fst (consume_message (Json hi_wire) 0 [down True, down True, down True, down True, down False, up, up]
      (new_broker ''n'', tea_consumer)) = Abandoned"
proof -
  let ?as = "[down True, down True, down True, down True, down False, up, up]"
  have "cut_off (?as ! i)" if "i < 5" for i
  proof -
    from that have "i = 0 \<or> i = 1 \<or> i = 2 \<or> i = 3 \<or> i = 4" by linarith
    then show ?thesis by (auto simp: cut_off_def down_def numeral_eq_Suc)
  qed
  moreover have "\<not> at_dlq (?as ! 4)" by (simp add: down_def numeral_eq_Suc)
  ultimately have "\<exists>b' w'. consume_message (Json hi_wire) 0 ?as (new_broker ''n'', tea_consumer) = (Abandoned, b', w')
      \<and> tbl (cw_db w') = tbl (cw_db tea_consumer) \<and> cw_dead w' = cw_dead tea_consumer"
    by (intro failed_copy_is_the_end [OF hi_wire_decoded]) simp_all
  then show ?thesis by (elim exE conjE) (simp only: fst_conv)
qed

section \<open>The hub\<close>

text \<open>
  C22: The hub never panics. In every state it can reach, each of its turns succeeds - no channel
  is closed twice or written after it was closed - the gauge of open sockets counts exactly the
  listed sockets, and no queue is longer than its buffer.
\<close>

theorem hub_never_panics:
  assumes "hub_reachable h"
  shows "(\<exists>h'. run_once e h = Some h')
    \<and> h_open h = int (total (h_clients h)) \<and> length (h_broadcast h) \<le> broadcast_buffer
    \<and> (\<forall>c s. h_sock h c = Some s \<longrightarrow> length (sk_send s) \<le> send_buffer)"
proof -
  have ok: "hub_ok h" using assms by (rule hub_reachable_ok)
  from run_once_ok [OF ok, of e] hub_okD(4,5) [OF ok] channelD [OF hub_okD(3) [OF ok]] show ?thesis
    by (auto simp: gauge_ok_def)
qed

theorem hub_never_panics_witness: "h_open tea_hub = 2 \<and> (\<exists>h'. run_once Finish tea_hub = Some h')"
proof -
  have "total (h_clients tea_hub) = 2"
    by (simp add: tea_hub_def add_conn_def hub_add_def new_hub_def sockets_def)
  with hub_never_panics [OF tea_hub_reachable, of Finish] show ?thesis by simp
qed

text \<open>
  C23: A fan-out reaches every open socket of every user it names exactly once, at the end of that
  socket's queue, and leaves every other socket alone. A socket whose queue is full is closed, and
  nobody else is served less because of it.
\<close>

theorem fan_out_exact:
  assumes "hub_reachable h" and "distinct us"
  shows "\<exists>h'. hub_deliver payload us h = Some h' \<and> hub_ok h' \<and> (\<forall>c. h_sock h' c = map_option
    (\<lambda>s. if \<not> sk_closed s \<and> sk_user s \<in> set us then offered payload s else s) (h_sock h c))"
proof -
  have ok: "hub_ok h" using assms(1) by (rule hub_reachable_ok)
  from hub_deliver_ok [OF ok, of payload us] obtain h' where
    h': "hub_deliver payload us h = Some h'" "hub_ok h'" by blast
  from h' hub_deliver_spec [OF ok assms(2) h'(1)] show ?thesis by blast
qed

theorem fan_out_exact_witness:
  "\<exists>h'. hub_deliver ''hello'' [2, 7] tea_hub = Some h'
     \<and> map_option sk_send (h_sock h' 10) = Some [] \<and> map_option sk_send (h_sock h' 11) = Some [''hello'']"
proof -
  from fan_out_exact [OF tea_hub_reachable, of "[2, 7]" "''hello''"] obtain h' where
    h': "hub_deliver ''hello'' [2, 7] tea_hub = Some h'"
    "\<forall>c. h_sock h' c = map_option
      (\<lambda>s. if \<not> sk_closed s \<and> sk_user s \<in> set [2, 7] then offered ''hello'' s else s) (h_sock tea_hub c)"
    by auto
  then show ?thesis
    by (simp add: tea_hub_def add_conn_def hub_add_def new_hub_def sockets_def offered_def send_buffer_def)
qed

section \<open>Requests\<close>

text \<open>
  C24: A node is a chat. Whatever requests reach it, with whatever bodies, paths and tokens, and
  whatever fails while they are served, what its database shows as rooms, people and logs moves as
  the abstract chat does: each request is one move of the user its own token names - opening a room
  they are in, letting somebody into a room they are in, posting in a room they are in under a key
  not used there before - or changes nothing that shows. So rooms stay, nobody is put out, nothing
  said is changed or reordered, and whoever speaks showed a good token. Underneath, a reachable
  database stays reachable, so every invariant of it survives every request, and no outbox row that
  waits is removed.
\<close>

theorem requests_refine_the_chat:
  assumes "db_reachable (nd_db nd)" and "serve_all lib env rqs nd = (exs, nd')"
  shows "moves_of lib env rqs (chat_of (tbl (nd_db nd))) (chat_of (tbl (nd_db nd')))
    \<and> grown (chat_of (tbl (nd_db nd))) (chat_of (tbl (nd_db nd')))
    \<and> (\<forall>conv e. e \<in> set (log_at (chat_of (tbl (nd_db nd'))) conv) - set (log_at (chat_of (tbl (nd_db nd))) conv) \<longrightarrow>
         (\<exists>(x, rq) \<in> set rqs. \<exists>name. auth_middleware lib env (x_now x) rq = Inr (fst e, name)))
    \<and> db_reachable (nd_db nd')
    \<and> (\<exists>rows. waiting_rows (tbl (nd_db nd')) = waiting_rows (tbl (nd_db nd)) @ rows)"
proof -
  from serve_all_refines [OF assms(2,1)]
  have moves: "moves_of lib env rqs (chat_of (tbl (nd_db nd))) (chat_of (tbl (nd_db nd')))" .
  from moves_of_speaker [OF moves] requests_keep_the_database [OF assms] moves moves_of_grow [OF moves]
  show ?thesis by blast
qed

theorem requests_refine_the_chat_witness:
  "moves_of demo_library demo_env [(demo_outside, ann_posts)] (chat_of (tbl room_open)) (chat_of (tbl one_sent))
   \<and> log_at (chat_of (tbl room_open)) 1 = [] \<and> log_at (chat_of (tbl one_sent)) 1 = [(1, ''hi'', Some ''k1'')]"
proof -
  have start: "nd_db room_node = room_open" by (simp add: room_node_def)
  obtain exs nd' where run: "serve_all demo_library demo_env [(demo_outside, ann_posts)] room_node = (exs, nd')"
    and after: "nd_db nd' = one_sent"
    using ann_posted by (cases "serve demo_library demo_env demo_outside ann_posts room_node") simp
  have "db_reachable (nd_db room_node)" using room_reachable start by simp
  from requests_refine_the_chat [OF this run]
  have "moves_of demo_library demo_env [(demo_outside, ann_posts)] (chat_of (tbl room_open)) (chat_of (tbl one_sent))"
    by (simp add: start after)
  moreover have "log_at (chat_of (tbl room_open)) 1 = []" "log_at (chat_of (tbl one_sent)) 1 = [(1, ''hi'', Some ''k1'')]"
    by (simp_all add: room_open_eq one_sent_eq tea_db_def log_at_def chat_of_def live_conversations_def tea_def
        room_row_def in_room_def entry_def hi_message_def message_row_def)
  ultimately show ?thesis by blast
qed

text \<open>
  C25: Nothing under \<open>/conversations\<close> happens without a good token. Such a request is answered
  401, and the node is as it was before: no row read or written, no allowance spent, no presence
  call made, and no user in the access log.
\<close>

theorem no_token_no_entry:
  assumes "find_route rq = Some (template, r)" and "take 14 template = ''/conversations''"
    and "\<forall>tok. bearer_token (rq_header rq ''Authorization'') = Some tok \<longrightarrow>
           parse_access_token lib env (x_now x) tok = None"
    and "x_cors x = None" and "x_write_panic x = None"
  shows "\<exists>ex why. serve lib env x rq nd = (ex, nd) \<and> ex_served ex = Responded (refuse 401 why)
    \<and> (\<forall>line. ex_log ex = Some line \<longrightarrow> al_user line = None)"
proof -
  obtain why where no: "auth_middleware lib env (x_now x) rq = Inl (refuse 401 why)"
    by (cases "bearer_token (rq_header rq ''Authorization'')")
      (use assms(3) in \<open>simp_all add: auth_middleware_def\<close>)
  from unauthenticated_untouched [OF conversations_guarded [OF assms(1,2)] no]
  show ?thesis using assms(1,4,5)
    by (auto simp: serve_def Let_def after_recovery_def panicked_def request_logger_def current_user_def)
qed

theorem no_token_no_entry_witness:
  "\<exists>ex why. serve demo_library demo_env demo_outside anonymous_read demo_node = (ex, demo_node)
     \<and> ex_served ex = Responded (refuse 401 why)
     \<and> (\<forall>line. ex_log ex = Some line \<longrightarrow> al_user line = None)"
  by (rule no_token_no_entry [OF anonymous_route])
    (simp_all add: demo_outside_def anonymous_read_def plain_request_def bearer_token_def fields.simps)



text \<open>
  C27: What 201 means. A send is answered 201 only to a member, with a body that passed the
  validator, after the room's counter, the message and its outbox row are all in the tables; the
  row decodes to the event of that message, and the sender is answered the very body that the
  members are pushed from that event.
\<close>

theorem created_is_stored_and_pushed:
  assumes "send_message_handler now who carrier rq d = (r, d')" and "rs_status r = 201"
  shows "\<exists>conv c m out. parse_uint (rq_id_param rq) = Some conv \<and> is_member (tbl d) conv (fst who)
    \<and> bind_send_message (rq_body rq) = Some c \<and> m_content m = sq_content c
    \<and> tbl d' = sent conv m out (tbl d)
    \<and> rs_body r = MessageBody (event_to_message_dto (event_of m (snd who)))
    \<and> (event_in_range (event_of m (snd who)) \<longrightarrow>
         decode_event (o_payload out) = Inr (event_of m (snd who)))"
  using assms(1)
proof (cases rule: send_handler_cases)
  case (created conv c m out)
  from created(4) have "encode_event (event_of m (snd who)) = Some (o_payload out)" "m_content m = sq_content c"
    by (auto simp: send_rows_def waiting_row_def message_row_def)
  with created show ?thesis using decode_encode sent_is_pushed
    by (intro exI [of _ conv] exI [of _ c] exI [of _ m] exI [of _ out]) simp
qed (use assms(2) in auto)

theorem created_is_stored_and_pushed_witness:
  "\<exists>conv c m out. parse_uint ''1'' = Some conv \<and> bind_send_message (rq_body ann_sends) = Some c
     \<and> m_content m = sq_content c \<and> tbl one_sent = sent conv m out (tbl room_open)"
proof -
  have ok: "rs_status (respond 201 (MessageBody (sent_dto hi_message ''ann''))) = 201" by (simp add: respond_def)
  have path: "rq_id_param ann_sends = ''1''" by (simp add: ann_sends_def)
  from created_is_stored_and_pushed [OF ann_sent ok, unfolded path] show ?thesis by blast
qed

text \<open>
  C28: A client that lost its socket gets everything back. Whatever its last number was, the gap
  read ends, complete, with exactly the numbers it missed, in order, no matter how many pages it
  takes - as long as fewer than 10000 are missing, the hundred pages the client allows itself.
  So whatever the client held and whatever the pushes lost, after its last gap read the report of
  the numbers it was to have has nothing missing; and a whole run of the gap check, with any losses
  and copies at its two sockets, counts every message as live or as recovered.
\<close>

theorem catching_up_ends:
  assumes "db_reachable d" and "faults d = []" and "c \<in> set (conversations (tbl d))"
    and "is_member (tbl d) (c_id c) (fst who)" and "0 < c_id c" and "c_id c < 2 ^ 64"
    and "c_last_seq c < 2 ^ 64" and "after \<le> c_last_seq c" and "c_last_seq c < after + 10000"
  shows "fetch_gap (ask_page d who rq (c_id c)) after = ([Suc after..<Suc (c_last_seq c)], Complete)
    \<and> (c_last_seq c < 10000 \<and> list_all (\<lambda>n. 1 \<le> n \<and> n \<le> c_last_seq c) ns \<longrightarrow>
         snd (snd (report ns (snd (fill_from_gap (ask_page d who rq (c_id c)) ns held)))) = [])
    \<and> (c_last_seq c < 10000 \<and> gap_check (gd\<lparr>gd_last_gap := ask_page d who rq (c_id c)\<rparr>) = Inr (got, h)
         \<and> list_all (\<lambda>n. 1 \<le> n \<and> n \<le> c_last_seq c) got \<longrightarrow>
         snd (snd (report got h)) = [] \<and> fst (report got h) + fst (snd (report got h)) = length got)"
proof -
  have "room_reader d c who" using assms by (intro room_reader.intro)
  from room_reader.page_read [OF this]
  have src: "gap_source (ask_page d who rq (c_id c)) 100 (c_last_seq c)" by (rule gap_source.intro)
  have run: "snd (snd (report got h)) = [] \<and> fst (report got h) + fst (snd (report got h)) = length got"
    if "c_last_seq c < 10000" "gap_check (gd\<lparr>gd_last_gap := ask_page d who rq (c_id c)\<rparr>) = Inr (got, h)"
      "list_all (\<lambda>n. 1 \<le> n \<and> n \<le> c_last_seq c) got"
    using gap_check_nothing_lost [OF that(2), of "c_last_seq c"] src that(1,3) by (simp add: list_all_iff)
  from gap_source.fetched [OF src assms(8)] assms(9) filled_nothing_missing [OF src, of ns held] run show ?thesis
    by (simp add: list_all_iff)
qed

theorem catching_up_ends_witness:
  "fetch_gap (ask_page two_sent (2, ''bob'') plain_request 1) 0 = ([1, 2], Complete)"
  using catching_up_ends [OF two_reachable bob_inside(3,2), of "(2, ''bob'')" 0 plain_request] bob_inside(1)
  by (simp add: tea_def room_row_def upt_rec)

section \<open>Sessions\<close>

text \<open>
  C29: The life of a login. A 200 from the login names a user that exists, whose password it was;
  its cookie buys a new access token of that same user at any moment of the next seven days, as
  long as the tables keep the session; and after a logout with that cookie it never does again,
  whatever the clock shows.
\<close>

theorem session_lifecycle:
  assumes "db_reachable d" and "login_handler lib env now (Some raw) rq d = (r, d1)" and "rs_status r = 200"
    and "raw \<noteq> []" and "faults d1 = []" and "rs_cookies r = [ck]" and "rq_cookie rq2 = Some (ck_value ck)"
    and "later < now + refresh_ttl"
  shows "\<exists>u c. u \<in> set (users (tbl d)) \<and> bind_credentials (rq_body rq) = Some c
    \<and> u_username u = cr_username c \<and> matches lib (u_password_hash u) (cr_password c)
    \<and> (\<forall>tok. sign_access_token lib env later (u_id u) (u_username u) = Some tok \<longrightarrow>
         refresh_handler lib env later rq2 d1 = (respond 200 (Token tok (expires_in env)), d1))
    \<and> (\<exists>d2. logout_handler env later rq2 d1
           = (with_cookie (clear_refresh_cookie env) (respond 200 (Note ''Logged out'')), d2)
         \<and> (\<forall>t. refresh_handler lib env t rq2 d2
              = (with_cookie (clear_refresh_cookie env) unauthorized_session, d2)))"
proof -
  let ?tok = "b64_encode (take 32 raw)"
  from login_ok [OF assms(2,3)] obtain c u tok k d0 where
    c: "bind_credentials (rq_body rq) = Some c" and u: "u \<in> set (users (tbl d))" "u_deleted_at u = None"
      "u_username u = cr_username c" "matches lib (u_password_hash u) (cr_password c)"
    and new: "create_refresh_token now (u_id u) (hash_refresh_token ?tok) (now + refresh_ttl) d0 = (Inr k, d1)"
    and same: "users (tbl d0) = users (tbl d)"
    and r: "r = with_cookie (set_refresh_cookie env ?tok) (respond 200 (Token tok (expires_in env)))"
    by auto
  have "ck = set_refresh_cookie env ?tok" using assms(6) unfolding r by (simp add: with_cookie_def)
  then have ck: "rq_cookie rq2 = Some ?tok" using assms(7) by (simp add: set_refresh_cookie_def)
  have tok: "?tok \<noteq> []" using assms(4) by (intro b64_nonempty) simp
  note k = created_session [OF new]
  have users: "users (tbl d1) = users (tbl d)" using k same by simp
  have ids: "distinct (map u_id (users (tbl d1)))"
    using db_reachable_ok [OF assms(1)] users by (simp add: db_ok_def accounts_ok_def)
  have live: "live_token later (hash_refresh_token ?tok) k" using k assms(8) by (simp add: live_token_def)
  have found: "get_valid_refresh_token later (hash_refresh_token ?tok) d1 = (Inr (k, u), d1)"
    by (rule valid_session_found) (use k live u users ids assms(5) in simp_all)
  have refresh: "refresh_handler lib env later rq2 d1 = (respond 200 (Token t (expires_in env)), d1)"
    if "sign_access_token lib env later (u_id u) (u_username u) = Some t" for t
    using refresh_live [OF ck tok found] that k by simp
  let ?d2 = "d1\<lparr>tbl := (tbl d1)\<lparr>tokens := map (revoke_row later (hash_refresh_token ?tok)) (tokens (tbl d1))\<rparr>\<rparr>"
  have out: "logout_handler env later rq2 d1
      = (with_cookie (clear_refresh_cookie env) (respond 200 (Note ''Logged out'')), ?d2)"
    by (rule logout_ok [OF ck tok assms(5)])
  have dead: "refresh_handler lib env t rq2 ?d2 = (with_cookie (clear_refresh_cookie env) unauthorized_session, ?d2)" for t
    by (rule refresh_dead [OF ck tok]) (use assms(5) revoked_rows_dead in simp_all)
  show ?thesis using c u refresh out dead by blast
qed

theorem session_lifecycle_witness:
  "refresh_handler demo_library demo_env minute ann_returns logged_in =
     (respond 200 (Token ''ann-60'' (expires_in demo_env)), logged_in)"
proof -
  let ?r = "with_cookie (set_refresh_cookie demo_env (b64_encode drawn)) (respond 200 (Token ''ann-0'' (expires_in demo_env)))"
  have "rs_status ?r = 200" "rs_cookies ?r = [set_refresh_cookie demo_env (b64_encode drawn)]" "drawn \<noteq> []"
    "faults logged_in = []"
    by (simp_all add: with_cookie_def respond_def drawn_def logged_in_def two_sent_eq tea_db_def)
  from session_lifecycle [OF two_reachable ann_logs_in this(1,3,4,2), of ann_returns minute]
  obtain u c where u: "u \<in> set (users (tbl two_sent))" "bind_credentials (rq_body ann_login) = Some c"
    "u_username u = cr_username c"
    and again: "\<forall>tok. sign_access_token demo_library demo_env minute (u_id u) (u_username u) = Some tok \<longrightarrow>
         refresh_handler demo_library demo_env minute ann_returns logged_in
           = (respond 200 (Token tok (expires_in demo_env)), logged_in)"
    by (auto simp: ann_returns_def set_refresh_cookie_def refresh_ttl_def)
  from u ann_bound have "u = ann_row" 
    by (auto simp: two_sent_eq tea_db_def tea_users_def user_row_def ann_row_def)
  then have "u_id u = 1" "u_username u = ''ann''" by (simp_all add: ann_row_def user_row_def)
  with again ann_signed(2) show ?thesis by (simp del: One_nat_def)
qed

text \<open>
  C30: An access token works, for its user and for its lifetime. Whatever the login signs, sent back
  as a bearer token, opens the protected routes as that very user until the second it runs out,
  and from then on is refused.
\<close>

theorem token_opens_and_closes:
  assumes "jwt_law lib" and "sign_access_token lib env now uid name = Some tok"
    and "tok \<noteq> []" and "\<forall>c \<in> set tok. \<not> is_space c"
    and "rq_header rq ''Authorization'' = ''Bearer '' @ tok"
  shows "auth_middleware lib env later rq =
    (if numeric_date (now + ae_token_ttl env) \<le> later then Inl (refuse 401 ''Invalid token'') else Inr (uid, name))"
  using token_life [OF assms(1,2), of later] bearer_prefix [OF assms(3,4)] assms(5)
  by (simp add: auth_middleware_def access_claims_def)

theorem token_opens_and_closes_witness:
  "auth_middleware demo_library demo_env minute
      (plain_request\<lparr>rq_header := (\<lambda>_. ''Bearer ann-0'')\<rparr>) = Inr (1, ''ann'')
   \<and> auth_middleware demo_library demo_env hour
      (plain_request\<lparr>rq_header := (\<lambda>_. ''Bearer ann-0'')\<rparr>) = Inl (refuse 401 ''Invalid token'')"
proof -
  have "numeric_date (0 + ae_token_ttl demo_env) = 15 * minute"
    by (simp add: numeric_date_def demo_env_def)
  then show ?thesis
    using token_opens_and_closes [OF demo_jwt ann_signed(1), of "plain_request\<lparr>rq_header := (\<lambda>_. ''Bearer ann-0'')\<rparr>"]
    by (simp add: is_space_def del: One_nat_def)
qed

text \<open>
  C31: How much gets through. However the requests of all callers fall, in any stretch of time one
  caller gets through at most its burst and what flows in during the stretch.
\<close>

theorem rate_is_bounded:
  assumes "0 < rate" and "sorted (map fst reqs)" and "\<forall>r \<in> set reqs. start \<le> fst r \<and> fst r \<le> stop" and "start \<le> stop"
  shows "of_nat (passed key reqs (fst (run_limiter reqs (new_rate_limiter rate burst))))
    \<le> max 0 burst + rate * of_int (stop - start) / of_int second"
proof -
  let ?l = "new_rate_limiter rate burst"
  obtain oks l' where run: "run_limiter reqs ?l = (oks, l')" by fastforce
  have "of_nat (passed key reqs oks) \<le> max 0 (allowance start ?l key) + refill (lim_rate ?l) (stop - start)"
    by (rule passed_bound [OF run fresh_distinct]) (use assms fresh_consts in simp_all)
  then show ?thesis by (simp add: run fresh_allowance fresh_consts refill_def mult.commute)
qed

theorem rate_is_bounded_witness:
  "of_nat (passed ''ip:a'' two_callers (fst (run_limiter two_callers (new_rate_limiter 1 1)))) \<le> (2 :: rat)"
  using rate_is_bounded [of 1 two_callers 0 second "''ip:a''" 1] by (simp add: two_callers_def)

text \<open>
  C32: The limiter is one bucket per caller. Its shared map, its lazy refill and its sweep cannot
  be told from a bucket of one's own: what a caller is answered depends on its own requests alone.
\<close>

theorem limiter_is_per_caller:
  assumes "0 < rate" and "sorted (map fst reqs)" and "\<forall>r \<in> set reqs. start \<le> fst r"
  shows "answers_to key reqs (fst (run_limiter reqs (new_rate_limiter rate burst)))
    = one_bucket rate burst burst start (instants_of key reqs)"
proof -
  let ?l = "new_rate_limiter rate burst"
  obtain oks l' where run: "run_limiter reqs ?l = (oks, l')" by fastforce
  have "answers_to key reqs oks = one_bucket (lim_rate ?l) (lim_burst ?l) burst start (instants_of key reqs)"
  proof (rule limiter_one_bucket [OF run fresh_distinct])
    show "allowance s ?l key = min (lim_burst ?l) (burst + refill (lim_rate ?l) (s - start))" if "start \<le> s" for s
      using refill_nonneg [of rate "s - start"] that assms(1) by (simp add: fresh_allowance fresh_consts)
  qed (use assms fresh_consts in auto)
  then show ?thesis by (simp add: run fresh_consts)
qed

theorem limiter_is_per_caller_witness:
  "answers_to ''ip:a'' two_callers (fst (run_limiter two_callers (new_rate_limiter 1 1))) = [True, False, True]"
proof -
  have "one_bucket 1 1 1 0 [0, 1, second] = [True, False, True]"
    by (simp add: Let_def refill_def)
  then show ?thesis
    using limiter_is_per_caller [of 1 two_callers 0 "''ip:a''" 1]
    by (simp add: two_callers_def instants_of_def)
qed

text \<open>
  C33: A refused caller gets through. Whoever is told to wait gets its request through after the
  seconds of \<open>Retry-After\<close>, whatever the others do meanwhile - given a burst of at least one.
\<close>

theorem waiting_as_told_is_enough:
  assumes "0 < rate" and "1 \<le> burst" and "run_limiter reqs (new_rate_limiter rate burst) = (oks, l)"
    and "limiter_allow now key l = ((False, wait), l1)" and "run_limiter others l1 = (oks', l2)"
    and "\<forall>r \<in> set others. fst r \<le> later \<and> snd r \<noteq> key" and "now + retry_after wait * second < later"
  shows "fst (fst (limiter_allow later key l2))"
proof -
  have l: "lim_rate l = rate" "lim_burst l = burst" "distinct (map fst (lim_buckets l))"
    using run_limiter_keeps [OF assms(3) fresh_distinct] assms(1) by (simp_all add: fresh_consts)
  note s = allow_spec [OF assms(4) l(3)]
  define a where "a = allowance now l key"
  have a: "a < 1" and wait: "wait = \<lfloor>(1 - a) / rate * of_int second\<rfloor>"
    and after: "allowance t l1 key = min burst (a + refill rate (t - now))" for t
    using s l assms(1) by (simp_all add: a_def)
  have l1: "0 < lim_rate l1" "distinct (map fst (lim_buckets l1))" using s l assms(1) by simp_all
  note l2 = run_limiter_keeps [OF assms(5) l1(2,1)]
  have "allowance later l2 key = min burst (a + refill rate (later - now))"
    using others_leave_allowance [OF assms(5) l1(2,1) assms(6)] after by simp
  moreover have "1 \<le> a + refill rate (later - now)"
  proof -
    have "(1 - a) / rate < of_int (retry_after wait) + 1 / of_int second"
      unfolding wait by (rule ceil_covers) (use a assms(1) in simp)
    also have "\<dots> = of_int (retry_after wait * second + 1) / of_int second"
      by (simp add: add_divide_distrib)
    also have "\<dots> \<le> of_int (later - now) / of_int second"
    proof (rule divide_right_mono)
      show "(of_int (retry_after wait * second + 1) :: rat) \<le> of_int (later - now)"
        unfolding of_int_le_iff using assms(7) by linarith
    qed simp
    finally show ?thesis using assms(1) by (simp add: refill_def field_simps)
  qed
  ultimately have "1 \<le> allowance later l2 key" using assms(2) by simp
  moreover obtain ok w l3 where run: "limiter_allow later key l2 = ((ok, w), l3)" by (metis prod.collapse)
  ultimately show ?thesis using allow_spec [OF run] l1 l2 by simp
qed

theorem waiting_as_told_is_enough_witness:
  "fst (fst (limiter_allow (second + 1) ''ip:a'' (snd (run_limiter [(0, ''ip:b'')]
     (snd (limiter_allow 0 ''ip:a'' (snd (run_limiter [(0, ''ip:a'')] (new_rate_limiter 1 1)))))))))"
proof -
  let ?l = "snd (run_limiter [(0, ''ip:a'')] (new_rate_limiter 1 1))"
  have refused: "limiter_allow 0 ''ip:a'' ?l = ((False, second), snd (limiter_allow 0 ''ip:a'' ?l))"
    by (simp add: limiter_allow_def limiter_sweep_def new_rate_limiter_def Let_def zero_time_def sweep_every_def)
  show ?thesis
    by (rule waiting_as_told_is_enough [OF _ _ surjective_pairing refused surjective_pairing])
      (simp_all add: retry_after_def)
qed

section \<open>Sockets\<close>

text \<open>
  C34: A socket lives as long as its token. The door opens only for a token that is still good;
  from then on, through any interleaving of the two pumps, the hub, deliveries and time, a peer
  that is told its token ran out is told so when it has, a close frame is the last thing it ever
  hears, and once the token has run out a pump that still writes can leave with code 4401.
\<close>

theorem socket_ends_with_its_token:
  assumes "jwt_law lib" and "ws_handler lib env now handshake coin c rq h = (Connected k, h')"
    and "(line_step c)\<^sup>*\<^sup>* \<lparr>ln_hub = h', ln_conn = k, ln_now = now\<rparr> w"
  shows "\<exists>tok cl e. ws_access_token rq = Some tok \<and> parse_access_token lib env now tok = Some cl
    \<and> cl_expires_at cl = Some e \<and> now < e
    \<and> list_all (\<lambda>f. \<not> is_close f) (butlast (cn_written (ln_conn w)))
    \<and> ((\<exists>why. Close close_token_expired why \<in> set (cn_written (ln_conn w))) \<longrightarrow> e \<le> ln_now w)
    \<and> (list_ex is_close (cn_written (ln_conn w)) \<longrightarrow>
         (\<forall>w'. (line_step c)\<^sup>*\<^sup>* w w' \<longrightarrow> cn_written (ln_conn w') = cn_written (ln_conn w)))
    \<and> (e \<noteq> zero_time \<and> e \<le> ln_now w \<and> cn_pumping (ln_conn w) \<and> \<not> cn_closed (ln_conn w) \<longrightarrow>
         (\<exists>w'. line_step c w w' \<and> \<not> cn_pumping (ln_conn w')
            \<and> cn_written (ln_conn w') = cn_written (ln_conn w) @ [Close close_token_expired ''token expired'']))"
proof -
  from connected_line [OF assms(1,2)] obtain cl e where
    e: "cl_expires_at cl = Some e" "now < e"
    and at: "expires_at c \<lparr>ln_hub = h', ln_conn = k, ln_now = now\<rparr> e"
    and ok: "line_ok e \<lparr>ln_hub = h', ln_conn = k, ln_now = now\<rparr>"
    and tok: "\<exists>tok. ws_access_token rq = Some tok \<and> parse_access_token lib env now tok = Some cl"
    by metis
  from line_run_ok [OF assms(3) ok at] have w: "line_ok e w" "expires_at c w e" by simp_all
  have silent: "cn_written (ln_conn w') = cn_written (ln_conn w)"
    if "list_ex is_close (cn_written (ln_conn w))" "(line_step c)\<^sup>*\<^sup>* w w'" for w'
    by (rule line_run_silent [OF that(2) w that(1)])
  have leave: "\<exists>w'. line_step c w w' \<and> \<not> cn_pumping (ln_conn w')
      \<and> cn_written (ln_conn w') = cn_written (ln_conn w) @ [Close close_token_expired ''token expired'']"
    if "e \<noteq> zero_time" "e \<le> ln_now w" "cn_pumping (ln_conn w)" "\<not> cn_closed (ln_conn w)"
    using expiry_enabled [OF w(2) that] by metis
  from w(1) have shape: "list_all (\<lambda>f. \<not> is_close f) (butlast (cn_written (ln_conn w)))"
    "\<And>why. Close close_token_expired why \<in> set (cn_written (ln_conn w)) \<Longrightarrow> e \<le> ln_now w"
    by (auto simp: line_ok_def)
  from tok obtain tok where t: "ws_access_token rq = Some tok" "parse_access_token lib env now tok = Some cl" by blast
  show ?thesis
    by (rule exI [of _ tok], rule exI [of _ cl], rule exI [of _ e])
      (use t e shape silent leave in blast)
qed

theorem socket_ends_with_its_token_witness:
  "\<exists>tok. ws_access_token ann_connects = Some tok \<and>
     (\<exists>cl. parse_access_token demo_library demo_env 0 tok = Some cl)"
  using socket_ends_with_its_token [OF demo_jwt ann_connected rtranclp.rtrancl_refl] by metis

section \<open>The process\<close>





section \<open>The tools that check and load a deployment\<close>

text \<open>
  C37: What the verdict of the outbox check is worth. The command ends without a problem only if every
  send of its four phases was accepted, every number it was given was taken off the watching socket
  and is in the history it read page by page, and the badge of the user who never connects counts
  exactly the messages sent. Its FAIL is worth less: delivery is at least once, and the command calls a
  second copy harmless, but when both copies of the last message are taken off the socket in time,
  neither is noted, and the message is reported as one that never reached the socket.
\<close>

theorem outbox_check_verdict:
  assumes "outbox_check dp = Inr pr"
  shows "(pr = [] \<longrightarrow> length (accepted (all_sends dp)) = length (all_sends dp)
      \<and> set (accepted (all_sends dp)) \<subseteq> set (takes (dp_looks dp))
      \<and> (\<exists>hist. history_seqs (dp_history dp) = Inr hist \<and> set (accepted (all_sends dp)) \<subseteq> set hist)
      \<and> dp_badge dp = Inr (length (all_sends dp)))
    \<and> (until_recovered dp = Inr (t, Took n # Took n # ps) \<and> dp_after dp = [Inr n] \<and> \<not> was_seen t n \<longrightarrow>
         n \<in> set (takes (dp_looks dp)) \<and> (\<exists>ns. Never_Reached ns \<in> set pr \<and> n \<in> set ns))"
proof (intro conjI [OF impI impI], goal_cases)
  case 1
  with assms have "outbox_check dp = Inr []" by simp
  then show ?case by (rule ok_means) blast
next
  case 2
  with twice_is_missing [OF _ _ _ assms] show ?case by blast
qed

theorem outbox_check_verdict_witness:
  "set (accepted (all_sends good_run)) \<subseteq> set (takes (dp_looks good_run)) \<and> dp_badge good_run = Inr (length (all_sends good_run))
   \<and> 2 \<in> set (takes (dp_looks doubled_run))"
proof -
  let ?t = "tally_note Live_Push 1 (empty_tally\<lparr>ty_sent := [1]\<rparr>)"
  have "dp_after doubled_run = [Inr 2]" "\<not> was_seen ?t 2"
    by (simp_all add: doubled_run_def good_run_def was_seen_def tally_note_def empty_tally_def)
  with outbox_check_verdict [OF doubled_run_fails, of ?t 2 "[]"] doubled_run_recovered outbox_check_verdict [OF good_run_ok]
  show ?thesis by blast
qed

text \<open>
  C38: How the load tool backs off. A post is tried again after a 429 only, at most seven times; before
  each retry it waits what the server asked for, doubled each time and never more than ten seconds,
  and the jitter. In 64 bits this is exact for every header up to 72057594 seconds.
\<close>

theorem backing_off_is_bounded:
  assumes "post_json post jitter = (a, ws)"
  shows "(\<exists>n. n \<le> 7 \<and> length ws = n \<and> a = post (Suc n) \<and> (n < 7 \<longrightarrow> (\<forall>asked. a \<noteq> Too_Many asked))
      \<and> (\<forall>i < n. \<exists>asked. post (Suc i) = Too_Many asked \<and> ws ! i = backoff asked i + jitter (Suc i)
             \<and> sint (backoff asked i) \<le> 10 * second))
    \<and> (atoi raw = Some s \<and> 1 \<le> s \<and> s \<le> 72057594 \<and> k \<le> 7 \<longrightarrow>
         sint (backoff (load_retry_after raw) k) = min (s * 2 ^ k * second) (10 * second))"
proof (intro conjI impI)
  from assms have "post_loop post jitter 7 1 [] = (a, ws)" by (simp add: post_json_def load_max_attempts_def)
  from post_loop_waits [OF this] obtain n where
    "n \<le> 7" "length ws = n" "a = post (Suc n)" "n < 7 \<longrightarrow> (\<forall>asked. a \<noteq> Too_Many asked)"
    "\<forall>i < n. \<exists>asked. post (Suc i) = Too_Many asked \<and> ws ! i = backoff asked i + jitter (Suc i)" by auto
  then show "\<exists>n. n \<le> 7 \<and> length ws = n \<and> a = post (Suc n) \<and> (n < 7 \<longrightarrow> (\<forall>asked. a \<noteq> Too_Many asked))
      \<and> (\<forall>i < n. \<exists>asked. post (Suc i) = Too_Many asked \<and> ws ! i = backoff asked i + jitter (Suc i)
             \<and> sint (backoff asked i) \<le> 10 * second)" using backoff_capped by auto
qed (use retry_after_exact [of raw s k] in simp)

theorem backing_off_is_bounded_witness:
  "sint (backoff (load_retry_after ''3'') 1) = 6 * second
   \<and> length (snd (post_json (\<lambda>k. if k = 1 then Too_Many one_second else Posted ()) (\<lambda>_. 0))) \<le> 7"
proof -
  let ?r = "post_json (\<lambda>k. if k = 1 then Too_Many one_second else Posted ()) (\<lambda>_. 0)"
  have "atoi ''3'' = Some 3" by (simp add: atoi_def digit_val_def)
  with backing_off_is_bounded [OF surjective_pairing, of "\<lambda>k. if k = 1 then Too_Many one_second else Posted ()" "\<lambda>_. 0" "''3''" 3 1]
  show ?thesis by auto
qed

section \<open>Traces\<close>

text \<open>
  C39: One message, one trace. Whether tracing is set up or not on each of the three nodes, and whatever
  it samples: a request that brings a trace goes on in it; the row its accepted send leaves carries its
  context; when a relay later puts that row on the stream, its publish is in the request's trace,
  directly below the request that ended long before; and whoever takes the message off the stream - a
  node that delivers it, the consumer that counts it - works in that trace too, directly below the
  publish, and keeps its span exactly if the request's is kept.
\<close>

theorem one_trace:
  assumes "propagator_law p"
    and "sdk_law p inner_a base_a sdk_a" and "sdk_law p inner_b base_b sdk_b" and "sdk_law p inner_c base_c sdk_c"
    and "start_a = fst (tracing_setup end_a exp_a sdk_a)" and "start_b = fst (tracing_setup end_b exp_b sdk_b)"
    and "start_c = fst (tracing_setup end_c exp_c sdk_c)"
    and "request_span p start_a gin var path rq ctx spans = (c, spans')" and "pr_valid p c"
    and "send_message_handler now who (inject_carrier p c) rq d = (r, d')" and "rs_status r = 201"
  shows "(trace_requests rq \<and> pr_valid p (pr_extract p ctx (rq_header rq)) \<longrightarrow> in_trace p (pr_extract p ctx (rq_header rq)) c)
    \<and> (\<exists>conv m out. tbl d' = sent conv m out (tbl d) \<and>
        (\<forall>w row h rl res rl' w' ss ss'. db_reachable (w_db w) \<and> row \<in> set (outbox (tbl (w_db w)))
           \<and> o_id row = o_id out \<and> o_trace_context row = o_trace_context out
           \<and> traced_drain p start_b rctx later (db_store fault conn) (traced_publish p headed_window_publish) (rl, w) ss
               = ((res, rl', w'), ss')
           \<and> (msg_id (o_id row), h) \<in> set (stream_heads (bus_stream w')) - set (stream_heads (bus_stream w)) \<longrightarrow>
           (\<exists>pub \<in> set ss'. joins p c c pub
              \<and> joins p c (sp_ctx pub) (last (snd (traced_fanout p start_c nctx deliver (h, data) bw fs)))
              \<and> joins p c (sp_ctx pub) (snd (traced_unread p start_c uctx work dlq soon ok (Some n) (h, data) cw us)))))"
proof
  have keep: "keeps_trace p start_a" "keeps_trace p start_b" "keeps_trace p start_c"
    unfolding assms(5-7) using assms(2-4) setup_keeps_trace by blast+
  show "trace_requests rq \<and> pr_valid p (pr_extract p ctx (rq_header rq)) \<longrightarrow> in_trace p (pr_extract p ctx (rq_header rq)) c"
    using request_in_trace [OF keep(1) assms(8)] by blast
  from assms(10,11) obtain conv m out where out: "tbl d' = sent conv m out (tbl d)"
    "o_trace_context out = json_or_nil (inject_carrier p c)"
    by (cases rule: send_handler_cases) (auto simp: send_rows_def waiting_row_def)
  have "\<exists>pub \<in> set ss'. joins p c c pub
      \<and> joins p c (sp_ctx pub) (last (snd (traced_fanout p start_c nctx deliver (h, data) bw fs)))
      \<and> joins p c (sp_ctx pub) (snd (traced_unread p start_c uctx work dlq soon ok (Some n) (h, data) cw us))"
    if w: "db_reachable (w_db w)" "row \<in> set (outbox (tbl (w_db w)))" "o_trace_context row = o_trace_context out"
      "traced_drain p start_b rctx later (db_store fault conn) (traced_publish p headed_window_publish) (rl, w) ss
        = ((res, rl', w'), ss')"
      "(msg_id (o_id row), h) \<in> set (stream_heads (bus_stream w'))" "(msg_id (o_id row), h) \<notin> set (stream_heads (bus_stream w))"
    for w row h rl res rl' w' ss ss'
  proof -
    from row_published_in_trace [OF assms(1) keep(2) assms(9) w(1,2) _ w(4-6)] w(3) out(2) obtain pub where
      pub: "pub \<in> set ss'" "joins p c c pub" "h = inject_trace p (sp_ctx pub) []" by metis
    then have t: "in_trace p c (sp_ctx pub)" by (simp add: joins_def)
    note below = fanout_in_trace [OF assms(1) keep(3) in_trace_valid [OF t]]
      unread_in_trace [OF assms(1) keep(3) in_trace_valid [OF t]]
    show ?thesis using pub below [THEN joins_trans [OF t]] by blast
  qed
  with out(1) show "\<exists>conv m out. tbl d' = sent conv m out (tbl d) \<and>
        (\<forall>w row h rl res rl' w' ss ss'. db_reachable (w_db w) \<and> row \<in> set (outbox (tbl (w_db w)))
           \<and> o_id row = o_id out \<and> o_trace_context row = o_trace_context out
           \<and> traced_drain p start_b rctx later (db_store fault conn) (traced_publish p headed_window_publish) (rl, w) ss
               = ((res, rl', w'), ss')
           \<and> (msg_id (o_id row), h) \<in> set (stream_heads (bus_stream w')) - set (stream_heads (bus_stream w)) \<longrightarrow>
           (\<exists>pub \<in> set ss'. joins p c c pub
              \<and> joins p c (sp_ctx pub) (last (snd (traced_fanout p start_c nctx deliver (h, data) bw fs)))
              \<and> joins p c (sp_ctx pub) (snd (traced_unread p start_c uctx work dlq soon ok (Some n) (h, data) cw us))))"
    by blast
qed

theorem one_trace_witness:
  "\<exists>(w' :: headed_window bus_world) ss' (pub :: trace_context span). stream_heads (bus_stream w') = [(msg_id 1, inject_trace w3c hi_publish [])] \<and> pub \<in> set ss'
     \<and> pr_trace w3c (sp_ctx pub) = 0xABC
     \<and> pr_trace w3c (sp_ctx (last (snd (traced_fanout w3c counting_tracer no_context (\<lambda>_ _ w. w)
           (inject_trace w3c hi_publish [], Json hi_wire) (new_broker ''node-2'', ()) [])))) = 0xABC"
proof -
  let ?c = "counting_tracer 0 hi_context ''POST''" and ?f = "\<lambda>_ _ w. w :: unit"
  have on: "counting_tracer = fst (tracing_setup ''jaeger:4317'' (\<lambda>_. True) counting_tracer)"
    by (simp add: tracing_setup_def)
  obtain ss where span: "request_span w3c counting_tracer named_post [] [] ann_traced no_context [] = (?c, ss)"
    using ann_traced_span by blast
  have ok: "rs_status (respond 201 (MessageBody (sent_dto hi_message ''ann''))) = 201" by simp
  note path = one_trace [OF w3c_law counting_law counting_law counting_law on on on span hi_valid(1) ann_traced_sent ok,
      of hi_context 5 NoFault 0 no_context ?f "Json hi_wire" "(new_broker ''node-2'', ())" "[]" no_context
        "\<lambda>_ _ w. (Inr (), w)" "\<lambda>_ w. (True, w)" 6 True 1 "(new_broker ''node-2'', ())" "[]"]
  have first: "in_trace w3c hi_context ?c"
    using conjunct1 [OF path] ann_traced_context hi_valid(2) by simp
  then have abc: "pr_trace w3c ?c = 0xABC" by (simp add: in_trace_def) (simp add: w3c_def hi_context_def)
  obtain res rl' w' ss' where run: "traced_drain w3c counting_tracer hi_context 5 (db_store NoFault 0)
       (traced_publish w3c headed_window_publish) (tea_relay, traced_bus) [] = ((res, rl', w'), ss')"
     "stream_heads (bus_stream w') = [(msg_id 1, inject_trace w3c hi_publish [])]"
    using traced_drained by blast
  have bus: "w_db traced_bus = traced_db" "stream_heads (bus_stream traced_bus) = []" by (simp_all add: traced_bus_def)
  have row: "o_id traced_row = 1" "outbox (tbl traced_db) = [traced_row]"
    by (simp_all add: traced_row_def hi_row_def waiting_row_def traced_db_def tea_db_def)
  from conjunct2 [OF path] show ?thesis
  proof (elim exE conjE, goal_cases)
    case (1 conv m out)
    have "out = traced_row" using arg_cong [OF 1(1), of outbox] row(2) by (simp add: sent_def room_open_eq tea_db_def)
    with 1(2) [rule_format, of traced_bus traced_row tea_relay "[]" res rl' w' ss' "inject_trace w3c hi_publish []"] run bus row
      traced_reachable
    obtain pub where "pub \<in> set ss'" "joins w3c ?c ?c pub"
      "joins w3c ?c (sp_ctx pub) (last (snd (traced_fanout w3c counting_tracer no_context ?f
         (inject_trace w3c hi_publish [], Json hi_wire) (new_broker ''node-2'', ()) [])))"
      by auto
    with run(2) abc show ?case by (intro exI [of _ w'] exI [of _ ss'] exI [of _ pub]) (simp add: joins_def in_trace_def)
  qed
qed



end
